(* ===== verification/Prelude.thy ===== *)
theory Prelude
  imports Main "HOL-Library.Word" "HOL-Library.List_Lexorder" "HOL-Library.Char_ord"
begin

text \<open>
  Shared vocabulary of the development: the outcomes of a C++ member function (a value, a C++
  exception, or a state from which the code cannot continue), the state-passing procedures
  built on them, the byte-string helpers the C++ standard library gives the code, the decimal
  renderings of \<open>operator<<\<close> and \<open>printf\<close>, and ordered association lists standing for
  \<open>std::map\<close> (whose iteration order the code depends on).
\<close>

section \<open>Outcomes and procedures\<close>

text \<open>
  The exception classes the code throws or lets through: \<open>std::runtime_error\<close>, the classes of
  \<open>redisclient.h\<close>, \<open>boost::bad_lexical_cast\<close>, \<open>std::out_of_range\<close>, \<open>std::length_error\<close>,
  \<open>boost::bad_get\<close>; \<open>websocketpp::exception\<close> and the error codes websocketpp throws; any other exception.
\<close>

datatype exn =
    Runtime_error string
  | Connection_error string
  | Protocol_error string
  | Key_error string
  | Timeout_error string
  | Value_error string
  | Bad_lexical_cast
  | Out_of_range
  | Length_error
  | Bad_get
  | Ws_exception string
  | Error_code string
  | Other_exception

text \<open>
  \<open>Assert_failed\<close>: a failed \<open>assert\<close> (the makefile does not define NDEBUG); \<open>Undefined\<close>: the
  behaviour of the C++ expression is undefined; \<open>Blocked\<close>: the call waits for input that never
  arrives.
\<close>

datatype stuck = Assert_failed | Undefined | Blocked

datatype 'a result = Ret 'a | Exn exn | Stuck stuck

type_synonym ('s, 'a) proc = "'s \<Rightarrow> 'a result \<times> 's"

named_theorems run_simps \<open>equations that run a procedure on a state\<close>

definition mret :: "'a \<Rightarrow> ('s, 'a) proc" where
  "mret a = (\<lambda>s. (Ret a, s))"

definition mthrow :: "exn \<Rightarrow> ('s, 'a) proc" where
  "mthrow e = (\<lambda>s. (Exn e, s))"

definition mstuck :: "stuck \<Rightarrow> ('s, 'a) proc" where
  "mstuck k = (\<lambda>s. (Stuck k, s))"

definition mbind :: "('s, 'a) proc \<Rightarrow> ('a \<Rightarrow> ('s, 'b) proc) \<Rightarrow> ('s, 'b) proc" where
  "mbind m f = (\<lambda>s. case m s of
     (Ret a, s') \<Rightarrow> f a s' | (Exn e, s') \<Rightarrow> (Exn e, s') | (Stuck k, s') \<Rightarrow> (Stuck k, s'))"

definition mseq :: "('s, 'a) proc \<Rightarrow> ('s, 'b) proc \<Rightarrow> ('s, 'b) proc" where
  "mseq m n = mbind m (\<lambda>_. n)"

text \<open>\<open>try { m } catch (e) { h e }\<close>: a failed assertion or a blocked call is not caught.\<close>

definition mcatch :: "('s, 'a) proc \<Rightarrow> (exn \<Rightarrow> ('s, 'a) proc) \<Rightarrow> ('s, 'a) proc" where
  "mcatch m h = (\<lambda>s. case m s of
     (Ret a, s') \<Rightarrow> (Ret a, s') | (Exn e, s') \<Rightarrow> h e s' | (Stuck k, s') \<Rightarrow> (Stuck k, s'))"

definition mlift :: "'a result \<Rightarrow> ('s, 'a) proc" where
  "mlift r = (\<lambda>s. (r, s))"

definition massert :: "bool \<Rightarrow> ('s, unit) proc" where
  "massert b = (if b then mret () else mstuck Assert_failed)"

primrec mfold :: "('x \<Rightarrow> 'a \<Rightarrow> ('s, 'a) proc) \<Rightarrow> 'x list \<Rightarrow> 'a \<Rightarrow> ('s, 'a) proc" where
  "mfold f [] a = mret a"
| "mfold f (x # xs) a = mbind (f x a) (mfold f xs)"

primrec mfor :: "('x \<Rightarrow> ('s, unit) proc) \<Rightarrow> 'x list \<Rightarrow> ('s, unit) proc" where
  "mfor f [] = mret ()"
| "mfor f (x # xs) = mseq (f x) (mfor f xs)"

primrec mmap :: "('x \<Rightarrow> ('s, 'a) proc) \<Rightarrow> 'x list \<Rightarrow> ('s, 'a list) proc" where
  "mmap f [] = mret []"
| "mmap f (x # xs) = mbind (f x) (\<lambda>a. mbind (mmap f xs) (\<lambda>as. mret (a # as)))"

lemma mret_run [run_simps]: "mret a s = (Ret a, s)"
  by (simp add: mret_def)

lemma mthrow_run [run_simps]: "mthrow e s = (Exn e, s)"
  by (simp add: mthrow_def)

lemma mstuck_run [run_simps]: "mstuck k s = (Stuck k, s)"
  by (simp add: mstuck_def)

lemma mlift_run [run_simps]: "mlift r s = (r, s)"
  by (simp add: mlift_def)

lemma massert_run [run_simps]:
  "massert b s = (if b then (Ret (), s) else (Stuck Assert_failed, s))"
  by (simp add: massert_def mret_def mstuck_def)

lemma mbind_run [run_simps]:
  "mbind m f s = (case m s of
     (Ret a, s') \<Rightarrow> f a s' | (Exn e, s') \<Rightarrow> (Exn e, s') | (Stuck k, s') \<Rightarrow> (Stuck k, s'))"
  by (simp add: mbind_def)

lemma mseq_run [run_simps]:
  "mseq m n s = (case m s of
     (Ret a, s') \<Rightarrow> n s' | (Exn e, s') \<Rightarrow> (Exn e, s') | (Stuck k, s') \<Rightarrow> (Stuck k, s'))"
  by (simp add: mseq_def mbind_def)

lemma mcatch_run [run_simps]:
  "mcatch m h s = (case m s of
     (Ret a, s') \<Rightarrow> (Ret a, s') | (Exn e, s') \<Rightarrow> h e s' | (Stuck k, s') \<Rightarrow> (Stuck k, s'))"
  by (simp add: mcatch_def)

text \<open>A known run of the first step decides the sequence.\<close>

lemma mbind_Ret: "m s = (Ret a, s') \<Longrightarrow> mbind m f s = f a s'"
  by (simp add: mbind_run)

lemma mbind_Exn: "m s = (Exn e, s') \<Longrightarrow> mbind m f s = (Exn e, s')"
  by (simp add: mbind_run)

lemma mbind_Stuck: "m s = (Stuck k, s') \<Longrightarrow> mbind m f s = (Stuck k, s')"
  by (simp add: mbind_run)

lemma mseq_Ret: "m s = (Ret a, s') \<Longrightarrow> mseq m n s = n s'"
  by (simp add: mseq_run)

lemma mbind_assoc: "mbind (mbind m f) g = mbind m (\<lambda>x. mbind (f x) g)"
  by (rule ext) (simp add: mbind_def split: prod.splits result.splits)

lemma mbind_mret_left [simp]: "mbind (mret a) f = f a"
  by (rule ext) (simp add: mbind_def mret_def)

lemma mbind_eq_Ret:
  "mbind m f s = (Ret b, s'') \<longleftrightarrow> (\<exists>a s'. m s = (Ret a, s') \<and> f a s' = (Ret b, s''))"
  by (auto simp: mbind_run split: prod.splits result.splits)

lemma mseq_eq_Ret:
  "mseq m n s = (Ret b, s'') \<longleftrightarrow> (\<exists>a s'. m s = (Ret a, s') \<and> n s' = (Ret b, s''))"
  by (auto simp: mseq_run split: prod.splits result.splits)

lemma mfold_append: "mfold f (xs @ ys) a = mbind (mfold f xs a) (mfold f ys)"
proof (induction xs arbitrary: a)
  case (Cons x xs)
  have "mfold f (xs @ ys) = (\<lambda>b. mbind (mfold f xs b) (mfold f ys))"
    using Cons.IH by (intro ext) simp
  then show ?case by (simp add: mbind_assoc)
qed simp

text \<open>
  A relation between the state before and the state after that every step of a procedure
  respects, whatever its outcome. It is used for frame properties.
\<close>

definition preserves :: "('s \<Rightarrow> 's \<Rightarrow> bool) \<Rightarrow> ('s, 'a) proc \<Rightarrow> bool" where
  "preserves R m \<longleftrightarrow> (\<forall>s. R s (snd (m s)))"

named_theorems preserves_intros \<open>rules for frame properties of procedures\<close>

lemma preservesD: "preserves R m \<Longrightarrow> m s = (r, s') \<Longrightarrow> R s s'"
  by (auto simp: preserves_def dest: spec [where x = s])

lemma preserves_pure [preserves_intros]:
  assumes "reflp R"
  shows "preserves R (mret a)" "preserves R (mthrow e)" "preserves R (mstuck k)"
    "preserves R (mlift r)" "preserves R (massert b)"
  using assms by (auto simp: preserves_def reflp_def run_simps)

lemma preserves_mbind [preserves_intros]:
  assumes "transp R" "preserves R m" "\<And>a. preserves R (f a)"
  shows "preserves R (mbind m f)"
  unfolding preserves_def
proof
  fix s
  obtain r s' where m: "m s = (r, s')" by (cases "m s")
  with assms(2) have R: "R s s'" by (rule preservesD)
  show "R s (snd (mbind m f s))"
  proof (cases r)
    case (Ret a)
    have "R s' (snd (f a s'))" using assms(3) by (simp add: preserves_def)
    with R assms(1) m Ret show ?thesis by (auto simp: mbind_run dest: transpD)
  qed (use m R in \<open>simp_all add: mbind_run\<close>)
qed

lemma preserves_mseq [preserves_intros]:
  "transp R \<Longrightarrow> preserves R m \<Longrightarrow> preserves R n \<Longrightarrow> preserves R (mseq m n)"
  by (simp add: mseq_def preserves_mbind)

lemma preserves_mcatch [preserves_intros]:
  assumes "transp R" "preserves R m" "\<And>e. preserves R (h e)"
  shows "preserves R (mcatch m h)"
  unfolding preserves_def
proof
  fix s
  obtain r s' where m: "m s = (r, s')" by (cases "m s")
  with assms(2) have R: "R s s'" by (rule preservesD)
  show "R s (snd (mcatch m h s))"
  proof (cases r)
    case (Exn e)
    have "R s' (snd (h e s'))" using assms(3) by (simp add: preserves_def)
    with R assms(1) m Exn show ?thesis by (auto simp: mcatch_run dest: transpD)
  qed (use m R in \<open>simp_all add: mcatch_run\<close>)
qed

lemma preserves_mfold [preserves_intros]:
  assumes "reflp R" "transp R" "\<And>x a. preserves R (f x a)"
  shows "preserves R (mfold f xs a)"
  by (induction xs arbitrary: a) (simp_all add: assms preserves_mbind preserves_pure)

lemma preserves_mfor [preserves_intros]:
  assumes "reflp R" "transp R" "\<And>x. preserves R (f x)"
  shows "preserves R (mfor f xs)"
  by (induction xs) (simp_all add: assms preserves_mseq preserves_pure)

lemma preserves_if [preserves_intros]:
  "preserves R m \<Longrightarrow> preserves R n \<Longrightarrow> preserves R (if b then m else n)"
  by simp

end
