(* ===== verification/Std_Lib.thy ===== *)
theory Std_Lib
  imports Prelude
begin

text \<open>
  The pieces of the C and C++ standard libraries the code uses on byte strings and maps:
  decimal output of unsigned numbers, \<open>atoi\<close>, the \<open>find_*\<close> and \<open>substr\<close> members of
  \<open>std::string\<close>, \<open>getline\<close> splitting, \<open>strtok_r\<close>, and \<open>std::map\<close> as an association list kept
  in key order. A \<^typ>\<open>string\<close> is a list of bytes.
\<close>

section \<open>Bytes and numbers\<close>

abbreviation byte :: "char \<Rightarrow> nat" where "byte \<equiv> of_char"

abbreviation LF :: char where "LF \<equiv> CHR 0x0A"
abbreviation CR :: char where "CR \<equiv> CHR 0x0D"

definition digit_char :: "nat \<Rightarrow> char" where
  "digit_char d = char_of (48 + d)"

definition is_digit :: "char \<Rightarrow> bool" where
  "is_digit c \<longleftrightarrow> 48 \<le> (of_char c :: nat) \<and> (of_char c :: nat) \<le> 57"

definition digit_val :: "char \<Rightarrow> nat" where
  "digit_val c = of_char c - 48"

text \<open>\<open>os << n\<close> and \<open>printf("%u", n)\<close> for an unsigned \<open>n\<close>.\<close>

fun dec :: "nat \<Rightarrow> string" where
  "dec n = (if n < 10 then [digit_char n] else dec (n div 10) @ [digit_char (n mod 10)])"

declare dec.simps [simp del]

definition undec :: "string \<Rightarrow> nat" where
  "undec s = foldl (\<lambda>a c. 10 * a + digit_val c) 0 s"

lemma is_digit_digit_char [simp]: "d < 10 \<Longrightarrow> is_digit (digit_char d)"
  by (simp add: is_digit_def digit_char_def)

lemma digit_val_digit_char [simp]: "d < 10 \<Longrightarrow> digit_val (digit_char d) = d"
  by (simp add: digit_val_def digit_char_def)

lemma dec_digits: "c \<in> set (dec n) \<Longrightarrow> is_digit c"
proof (induction n rule: dec.induct)
  case (1 n)
  show ?case
  proof (cases "n < 10")
    case True
    with "1.prems" show ?thesis by (simp add: dec.simps [of n])
  next
    case False
    with "1.prems" consider "c \<in> set (dec (n div 10))" | "c = digit_char (n mod 10)"
      by (auto simp: dec.simps [of n])
    then show ?thesis using False "1.IH" by cases auto
  qed
qed

lemma dec_Nil [simp]: "dec n \<noteq> []"
  by (subst dec.simps) simp

lemma undec_dec [simp]: "undec (dec n) = n"
proof (induction n rule: dec.induct)
  case (1 n)
  show ?case
  proof (cases "n < 10")
    case True
    then show ?thesis by (simp add: dec.simps [of n] undec_def)
  next
    case False
    then have "undec (dec n) = 10 * undec (dec (n div 10)) + n mod 10"
      by (subst dec.simps) (simp add: undec_def)
    with False "1.IH" show ?thesis by simp
  qed
qed

lemma dec_inject [simp]: "dec m = dec n \<longleftrightarrow> m = n"
  by (metis undec_dec)

lemma not_digit [simp]:
  "\<not> is_digit LF" "\<not> is_digit CR" "\<not> is_digit CHR ''-''" "\<not> is_digit CHR ''+''"
  "\<not> is_digit CHR ''.''" "\<not> is_digit CHR '':''" "\<not> is_digit CHR ''/''" "\<not> is_digit CHR '' ''"
  by (simp_all add: is_digit_def)

lemma dec_no_char: "\<not> is_digit c \<Longrightarrow> c \<notin> set (dec n)"
  using dec_digits by blast

text \<open>
  \<open>atoi\<close>: leading white space, an optional sign, then the longest run of digits (none gives 0).
  The C standard leaves the result undefined when it does not fit an \<open>int\<close>; the value here is the
  mathematical one and the callers narrow it.
\<close>

definition is_space :: "char \<Rightarrow> bool" where
  "is_space c \<longleftrightarrow> c \<in> {CHR '' '', CHR 0x09, LF, CHR 0x0B, CHR 0x0C, CR}"

definition atoi :: "string \<Rightarrow> int" where
  "atoi s = (case dropWhile is_space s of
     [] \<Rightarrow> 0
   | c # cs \<Rightarrow> if c = CHR ''-'' then - int (undec (takeWhile is_digit cs))
              else if c = CHR ''+'' then int (undec (takeWhile is_digit cs))
              else int (undec (takeWhile is_digit (c # cs))))"

lemma takeWhile_dec [simp]: "takeWhile is_digit (dec n) = dec n"
  by (rule takeWhile_eq_all_conv [THEN iffD2]) (blast dest: dec_digits)

lemma dec_Cons: obtains c cs where "dec n = c # cs" "is_digit c"
proof (cases "dec n")
  case (Cons c cs)
  then show ?thesis using that dec_digits [of c n] by simp
qed simp

lemma is_space_not_digit: "is_space c \<Longrightarrow> \<not> is_digit c"
  by (auto simp: is_space_def is_digit_def)

lemma atoi_dec [simp]: "atoi (dec n) = int n"
proof -
  obtain c cs where d: "dec n = c # cs" "is_digit c" by (rule dec_Cons)
  then have sp: "\<not> is_space c" using is_space_not_digit by blast
  have sg: "c \<noteq> CHR ''-''" "c \<noteq> CHR ''+''" using d(2) by auto
  have tw: "takeWhile is_digit (c # cs) = dec n" using d takeWhile_dec [of n] by simp
  have "atoi (dec n) = int (undec (takeWhile is_digit (c # cs)))"
    unfolding atoi_def d(1) using sp sg by simp
  then show ?thesis by (simp only: tw undec_dec)
qed

section \<open>Members of std::string\<close>

text \<open>\<open>s.find_first_of(c)\<close> and \<open>s.find_last_of(c)\<close> for one byte; \<open>None\<close> is \<open>npos\<close>.\<close>

fun find_first :: "char \<Rightarrow> string \<Rightarrow> nat option" where
  "find_first c [] = None"
| "find_first c (x # xs) = (if x = c then Some 0 else map_option Suc (find_first c xs))"

fun find_last :: "char \<Rightarrow> string \<Rightarrow> nat option" where
  "find_last c [] = None"
| "find_last c (x # xs) = (case find_last c xs of
     Some i \<Rightarrow> Some (Suc i) | None \<Rightarrow> if x = c then Some 0 else None)"

lemma find_first_None [simp]: "find_first c s = None \<longleftrightarrow> c \<notin> set s"
  by (induction s) auto

lemma find_first_Some: "find_first c s = Some i \<Longrightarrow> i < length s \<and> s ! i = c \<and> c \<notin> set (take i s)"
  by (induction s arbitrary: i) (auto split: if_splits)

lemma find_first_append: "c \<notin> set s \<Longrightarrow> find_first c (s @ c # t) = Some (length s)"
  by (induction s) auto

lemma split_at_char:
  assumes "s @ c # a = t @ c # b" "c \<notin> set s" "c \<notin> set t"
  shows "s = t \<and> a = b"
  using assms
proof (induction s arbitrary: t)
  case Nil
  then show ?case by (cases t) auto
next
  case (Cons x s)
  then show ?case by (cases t) auto
qed

text \<open>\<open>s.erase(s.find_last_not_of(ws) + 1)\<close>: all trailing bytes of \<open>ws\<close> go.\<close>

definition rtrim :: "string \<Rightarrow> string \<Rightarrow> string" where
  "rtrim ws s = rev (dropWhile (\<lambda>c. c \<in> set ws) (rev s))"

lemma rtrim_id: "s = [] \<or> last s \<notin> set ws \<Longrightarrow> rtrim ws s = s"
  by (cases s rule: rev_cases) (auto simp: rtrim_def)

lemma rtrim_snoc [simp]: "rtrim ws (s @ [c]) = (if c \<in> set ws then rtrim ws s else s @ [c])"
  by (simp add: rtrim_def)

lemma rtrim_idem [simp]: "rtrim ws (rtrim ws s) = rtrim ws s"
  by (induction s rule: rev_induct) (auto simp: rtrim_def)

lemma rtrim_append_ws: "set t \<subseteq> set ws \<Longrightarrow> rtrim ws (s @ t) = rtrim ws s"
  by (induction t rule: rev_induct) (auto simp flip: append_assoc)

text \<open>\<open>while (getline(ss, item, delim))\<close>: no item follows a final delimiter.\<close>

function getlines :: "char \<Rightarrow> string \<Rightarrow> string list" where
  "getlines d s = (if s = [] then [] else
     takeWhile (\<lambda>c. c \<noteq> d) s #
       (case dropWhile (\<lambda>c. c \<noteq> d) s of [] \<Rightarrow> [] | _ # r \<Rightarrow> getlines d r))"
  by pat_completeness auto
termination
proof (relation "measure (\<lambda>(d, s). length s)")
  fix d :: char and s r :: string and x
  assume "dropWhile (\<lambda>c. c \<noteq> d) s = x # r"
  then have "length (x # r) \<le> length s" by (metis length_dropWhile_le)
  then show "((d, r), d, s) \<in> measure (\<lambda>(d, s). length s)" by simp
qed simp

declare getlines.simps [simp del]

lemma getlines_Nil [simp]: "getlines d [] = []"
  by (simp add: getlines.simps)

lemma getlines_line: "d \<notin> set l \<Longrightarrow> getlines d (l @ d # r) = l # getlines d r"
  by (subst getlines.simps) (simp add: takeWhile_append dropWhile_append)

lemma getlines_last: "d \<notin> set l \<Longrightarrow> l \<noteq> [] \<Longrightarrow> getlines d l = [l]"
proof -
  assume d: "d \<notin> set l" and l: "l \<noteq> []"
  from d have dl: "dropWhile (\<lambda>c. c \<noteq> d) l = []" "takeWhile (\<lambda>c. c \<noteq> d) l = l" by auto
  show ?thesis by (subst getlines.simps) (simp only: dl l if_False list.case)
qed

lemma getlines_concat:
  "(\<And>l. l \<in> set ls \<Longrightarrow> d \<notin> set l) \<Longrightarrow> getlines d (concat (map (\<lambda>l. l @ [d]) ls)) = ls"
  by (induction ls) (simp_all add: getlines_line)

text \<open>\<open>strtok_r\<close> over a whole string with the delimiter bytes \<open>ds\<close>: the maximal non-empty runs.\<close>

function tokens :: "string \<Rightarrow> string \<Rightarrow> string list" where
  "tokens ds s = (let t = dropWhile (\<lambda>c. c \<in> set ds) s in
     if t = [] then [] else
       takeWhile (\<lambda>c. c \<notin> set ds) t # tokens ds (dropWhile (\<lambda>c. c \<notin> set ds) t))"
  by pat_completeness auto
termination
proof (relation "measure (\<lambda>(ds, s). length s)")
  fix ds s t :: string
  assume t: "t = dropWhile (\<lambda>c. c \<in> set ds) s" "t \<noteq> []"
  then have "hd t \<notin> set ds" by (metis hd_dropWhile)
  with t(2) have "length (dropWhile (\<lambda>c. c \<notin> set ds) t) < length t"
    by (cases t) (auto simp: le_imp_less_Suc length_dropWhile_le)
  also have "length t \<le> length s" using t(1) by (simp add: length_dropWhile_le)
  finally show "((ds, dropWhile (\<lambda>c. c \<notin> set ds) t), ds, s) \<in> measure (\<lambda>(ds, s). length s)"
    by simp
qed simp

declare tokens.simps [simp del]

lemma tokens_Nil [simp]: "tokens ds [] = []"
  by (simp add: tokens.simps)

lemma tokens_skip: "c \<in> set ds \<Longrightarrow> tokens ds (c # s) = tokens ds s"
  by (subst (1 2) tokens.simps) simp

lemma tokens_word:
  assumes "w \<noteq> []" "\<And>c. c \<in> set w \<Longrightarrow> c \<notin> set ds" "s = [] \<or> hd s \<in> set ds"
  shows "tokens ds (w @ s) = w # tokens ds s"
proof -
  have d: "dropWhile (\<lambda>c. c \<in> set ds) (w @ s) = w @ s"
    using assms(1,2) by (cases w) auto
  have w: "takeWhile (\<lambda>c. c \<notin> set ds) (w @ s) = w" "dropWhile (\<lambda>c. c \<notin> set ds) (w @ s) = s"
    using assms(2,3) by (auto simp: takeWhile_append dropWhile_append takeWhile_eq_Nil_iff
        dropWhile_eq_self_iff)
  show ?thesis using assms(1) by (subst tokens.simps) (simp add: Let_def d w)
qed

section \<open>std::map\<close>

text \<open>
  An association list with strictly increasing keys: \<open>omap_put\<close> is \<open>m[k] = v\<close>, \<open>map_of\<close> is
  \<open>find\<close>, iteration runs over the list.
\<close>

type_synonym ('k, 'v) omap = "('k \<times> 'v) list"

fun omap_put :: "'k::linorder \<Rightarrow> 'v \<Rightarrow> ('k, 'v) omap \<Rightarrow> ('k, 'v) omap" where
  "omap_put k v [] = [(k, v)]"
| "omap_put k v ((k', v') # m) =
     (if k < k' then (k, v) # (k', v') # m
      else if k = k' then (k, v) # m else (k', v') # omap_put k v m)"

definition omap_ok :: "('k::linorder, 'v) omap \<Rightarrow> bool" where
  "omap_ok m \<longleftrightarrow> sorted_wrt (<) (map fst m)"

lemma omap_put_keys: "fst ` set (omap_put k v m) = insert k (fst ` set m)"
  by (induction k v m rule: omap_put.induct) auto

lemma omap_put_ok: "omap_ok m \<Longrightarrow> omap_ok (omap_put k v m)"
proof (induction k v m rule: omap_put.induct)
  case (2 k v k' v' m)
  from "2.prems" have lt: "\<forall>x \<in> fst ` set m. k' < x" and m: "omap_ok m"
    by (auto simp: omap_ok_def)
  show ?case
  proof (cases "k < k'")
    case True
    with "2.prems" lt show ?thesis by (auto simp: omap_ok_def)
  next
    case False
    show ?thesis
    proof (cases "k = k'")
      case True
      with "2.prems" show ?thesis by (simp add: omap_ok_def)
    next
      case ne: False
      have "omap_ok (omap_put k v m)" using False ne m by (rule "2.IH")
      moreover have "\<forall>x \<in> fst ` set (omap_put k v m). k' < x"
        using lt False ne by (auto simp: omap_put_keys)
      ultimately show ?thesis using False ne by (auto simp: omap_ok_def)
    qed
  qed
qed (simp add: omap_ok_def)

lemma omap_put_find: "map_of (omap_put k v m) k' = (if k' = k then Some v else map_of m k')"
  if "omap_ok m" for m :: "('k::linorder, 'v) omap"
  using that
proof (induction k v m rule: omap_put.induct)
  case (2 k v k1 v1 m)
  then have lt: "\<forall>x \<in> fst ` set m. k1 < x" and m: "omap_ok m" by (auto simp: omap_ok_def)
  show ?case using "2.IH" m lt by (auto simp: map_of_eq_None_iff)
qed simp

lemma omap_ok_Nil [simp]: "omap_ok []"
  by (simp add: omap_ok_def)

lemma omap_ok_distinct: "omap_ok m \<Longrightarrow> distinct (map fst m)"
  by (simp add: omap_ok_def strict_sorted_iff)

text \<open>Two ordered maps with the same entries are the same list.\<close>

lemma omap_ext:
  "omap_ok m \<Longrightarrow> omap_ok n \<Longrightarrow> map_of m = map_of n \<Longrightarrow> m = n"
  for m n :: "('k::linorder, 'v) omap"
proof -
  assume m: "omap_ok m" and n: "omap_ok n" and eq: "map_of m = map_of n"
  have d: "distinct (map fst m)" "distinct (map fst n)" using m n by (auto dest: omap_ok_distinct)
  have s: "set m = set n" by (rule map_of_inject_set [OF d, THEN iffD1, OF eq])
  have o: "sorted (map fst m)" "sorted (map fst n)"
    using m n by (auto simp: omap_ok_def strict_sorted_iff)
  have "inj_on fst (set m \<union> set n)" using d(1) s by (simp add: distinct_map)
  then show "m = n" using o(1) d(1) o(2) d(2) s by (rule map_sorted_distinct_set_unique)
qed

end
