(* ===== verification/Byte_Order.thy ===== *)
theory Byte_Order
  imports Std_Lib
begin

text \<open>
  Integers in memory and on the wire. The program runs on a little-endian machine: the bytes of an
  integer stand in memory least significant first, and \<open>htons\<close>, \<open>htonl\<close> reverse them. The 64-bit
  conversions are the members \<open>ntohll\<close>, \<open>htonll\<close> of \<open>src/common/buffer.h\<close>, the address formatting
  is that of \<open>src/common/common.cpp\<close>.
\<close>

section \<open>Bytes of a number\<close>

primrec le_bytes :: "nat \<Rightarrow> nat \<Rightarrow> string" where
  "le_bytes 0 x = []"
| "le_bytes (Suc k) x = char_of x # le_bytes k (x div 256)"

primrec le_value :: "string \<Rightarrow> nat" where
  "le_value [] = 0"
| "le_value (c # cs) = of_char c + 256 * le_value cs"

lemma length_le_bytes [simp]: "length (le_bytes k x) = k"
  by (induction k arbitrary: x) simp_all

lemma le_value_bound: "le_value bs < 256 ^ length bs"
proof (induction bs)
  case (Cons c cs)
  define p where "p = (256 :: nat) ^ length cs"
  have "(of_char c :: nat) < 256" by simp
  moreover have "le_value cs < p" using Cons.IH by (simp add: p_def)
  moreover have "(256 :: nat) ^ length (c # cs) = 256 * p" by (simp add: p_def)
  ultimately show ?case unfolding le_value.simps by linarith
qed simp

lemma char_of_shift [simp]: "char_of (of_char c + 256 * n :: nat) = c"
proof -
  have "char_of (of_char c + 256 * n) = char_of ((of_char c + 256 * n) mod 256 :: nat)"
    by (simp only: char_of_mod_256)
  then show ?thesis by simp
qed

lemma le_value_bytes [simp]: "le_value (le_bytes k x) = x mod 256 ^ k"
proof (induction k arbitrary: x)
  case (Suc k)
  then show ?case by (simp add: mod_mult2_eq)
qed simp

lemma le_bytes_value [simp]: "le_bytes (length bs) (le_value bs) = bs"
  by (induction bs) simp_all

lemma le_bytes_append: "le_bytes (j + k) x = le_bytes j x @ le_bytes k (x div 256 ^ j)"
  by (induction j arbitrary: x) (simp_all add: div_mult2_eq)

lemma le_value_append: "le_value (as @ bs) = le_value as + 256 ^ length as * le_value bs"
  by (induction as) (simp_all add: algebra_simps)

lemma le_bytes_mod: "le_bytes k (x mod 256 ^ k) = le_bytes k x"
  by (metis le_bytes_value le_value_bytes length_le_bytes)

section \<open>Network order\<close>

definition swap_bytes :: "nat \<Rightarrow> nat \<Rightarrow> nat" where
  "swap_bytes k x = le_value (rev (le_bytes k x))"

definition htons :: "16 word \<Rightarrow> 16 word" where
  "htons v = word_of_nat (swap_bytes 2 (unat v))"

definition ntohs :: "16 word \<Rightarrow> 16 word" where
  "ntohs v = word_of_nat (swap_bytes 2 (unat v))"

definition htonl :: "32 word \<Rightarrow> 32 word" where
  "htonl v = word_of_nat (swap_bytes 4 (unat v))"

definition ntohl :: "32 word \<Rightarrow> 32 word" where
  "ntohl v = word_of_nat (swap_bytes 4 (unat v))"

lemma swap_bytes_bound: "swap_bytes k x < 256 ^ k"
  using le_value_bound [of "rev (le_bytes k x)"] by (simp add: swap_bytes_def)

lemma le_bytes_swap: "le_bytes k (swap_bytes k x) = rev (le_bytes k x)"
  using le_bytes_value [of "rev (le_bytes k x)"] by (simp add: swap_bytes_def)

lemma swap_bytes_swap: "x < 256 ^ k \<Longrightarrow> swap_bytes k (swap_bytes k x) = x"
  by (simp add: swap_bytes_def [of k "swap_bytes k x"] le_bytes_swap)

lemma unat_htons: "unat (htons v) = swap_bytes 2 (unat v)"
  using swap_bytes_bound [of 2 "unat v"] by (simp add: htons_def unat_of_nat)

lemma unat_htonl: "unat (htonl v) = swap_bytes 4 (unat v)"
  using swap_bytes_bound [of 4 "unat v"] by (simp add: htonl_def unat_of_nat)

lemma ntohs_htons [simp]: "ntohs (htons v) = v"
  using unsigned_less [of v, where 'a = nat] by (simp add: ntohs_def unat_htons swap_bytes_swap)

lemma ntohl_htonl [simp]: "ntohl (htonl v) = v"
  using unsigned_less [of v, where 'a = nat] by (simp add: ntohl_def unat_htonl swap_bytes_swap)

text \<open>
  \<open>CVBuffer::ntohll\<close> and \<open>htonll\<close>: the two halves are swapped as 32-bit numbers and exchanged.
\<close>

unbundle bit_operations_syntax

definition ntohll :: "64 word \<Rightarrow> 64 word" where
  "ntohll old =
     (let H = ucast (drop_bit 32 old) :: 32 word;
          L = ucast (old AND 0x00000000ffffffff) :: 32 word;
          H = ntohl H;
          L = ntohl L;
          ret = ucast L :: 64 word;
          ret = push_bit 32 ret
      in ret OR ucast H)"

definition htonll :: "64 word \<Rightarrow> 64 word" where
  "htonll old =
     (let H = ucast (drop_bit 32 old) :: 32 word;
          L = ucast (old AND 0x00000000ffffffff) :: 32 word;
          H = htonl H;
          L = htonl L;
          ret = ucast L :: 64 word;
          ret = push_bit 32 ret
      in ret OR ucast H)"

lemma ntohl_eq_htonl: "ntohl = htonl"
  by (rule ext) (simp add: ntohl_def htonl_def)

lemma ntohll_eq_htonll: "ntohll = htonll"
  by (rule ext) (simp add: ntohll_def htonll_def ntohl_eq_htonl)

lemma unat_htonll: "unat (htonll v) = swap_bytes 8 (unat v)"
proof -
  let ?H = "ucast (drop_bit 32 v) :: 32 word"
  let ?L = "ucast (v AND 0x00000000ffffffff) :: 32 word"
  have H: "unat ?H = unat v div 256 ^ 4"
  proof -
    have "unat (drop_bit 32 v) = unat v div 2 ^ 32"
      using unsigned_less [of v, where 'a = nat]
      by (subst unsigned_drop_bit_eq) (simp add: take_bit_eq_mod drop_bit_eq_div)
    moreover have "unat ?H = unat (drop_bit 32 v) mod 2 ^ 32"
      by (subst unsigned_ucast_eq) (simp add: take_bit_eq_mod)
    ultimately show ?thesis using unsigned_less [of v, where 'a = nat] by simp
  qed
  have mask: "(0x00000000ffffffff :: 64 word) = mask 32" by (simp add: mask_eq_exp_minus_1)
  have L: "unat ?L = unat v mod 256 ^ 4"
  proof -
    have "unat (take_bit 32 v) = unat v mod 2 ^ 32"
      by (subst unsigned_take_bit_eq) (simp add: take_bit_eq_mod)
    moreover have "unat ?L = unat (take_bit 32 v) mod 2 ^ 32"
      unfolding mask take_bit_eq_mask [symmetric]
      by (subst unsigned_ucast_eq) (simp add: take_bit_eq_mod)
    ultimately show ?thesis by simp
  qed
  have hb: "unat (htonl ?H) < 2 ^ 32" "unat (htonl ?L) < 2 ^ 32"
    using unsigned_less [of "htonl ?H", where 'a = nat] unsigned_less [of "htonl ?L", where 'a = nat]
    by simp_all
  have "htonll v = push_bit 32 (ucast (htonl ?L) :: 64 word) OR ucast (htonl ?H)"
    by (simp add: htonll_def Let_def)
  also have "\<dots> = push_bit 32 (ucast (htonl ?L)) + ucast (htonl ?H)"
    by (rule disjunctive_add [symmetric]) (auto simp: bit_simps dest: bit_imp_le_length)
  finally have sum: "htonll v = push_bit 32 (ucast (htonl ?L)) + ucast (htonl ?H)" .
  have up: "unat (ucast x :: 64 word) = unat x" for x :: "32 word"
    using unsigned_less [of x, where 'a = nat]
    by (subst unsigned_ucast_eq) (simp add: take_bit_eq_mod)
  have sh: "unat (push_bit 32 (ucast x :: 64 word)) = 2 ^ 32 * unat x" for x :: "32 word"
    using unsigned_less [of x, where 'a = nat]
    by (subst unsigned_push_bit_eq) (simp add: up push_bit_eq_mult take_bit_eq_mod)
  have "unat (htonll v) = (2 ^ 32 * unat (htonl ?L) + unat (htonl ?H)) mod 2 ^ 64"
    unfolding sum unat_word_ariths(1) sh up by simp
  also have "\<dots> = 2 ^ 32 * unat (htonl ?L) + unat (htonl ?H)"
    using hb by simp
  also have "\<dots> = swap_bytes 8 (unat v)"
    using le_bytes_append [of 4 4 "unat v"]
    by (simp add: unat_htonl H L swap_bytes_def le_value_append le_bytes_mod [of 4, simplified] add.commute)
  finally show ?thesis .
qed

lemma ntohll_htonll [simp]: "ntohll (htonll v) = v"
proof -
  have "unat (ntohll (htonll v)) = unat v"
    using unsigned_less [of v, where 'a = nat]
    by (simp add: ntohll_eq_htonll unat_htonll swap_bytes_swap)
  then show ?thesis by (rule unsigned_word_eqI)
qed

section \<open>Dotted addresses\<close>

text \<open>\<open>inet_ntoa\<close> prints the bytes of \<open>s_addr\<close> in memory order.\<close>

definition inet_ntoa :: "32 word \<Rightarrow> string" where
  "inet_ntoa a = (case map (\<lambda>c. dec (of_char c)) (le_bytes 4 (unat a)) of
     [b0, b1, b2, b3] \<Rightarrow> b0 @ ''.'' @ b1 @ ''.'' @ b2 @ ''.'' @ b3 | _ \<Rightarrow> [])"

definition ipToStr :: "32 word \<Rightarrow> string" where
  "ipToStr ip = inet_ntoa ip"

definition ipToStrHton :: "32 word \<Rightarrow> string" where
  "ipToStrHton ip = inet_ntoa (htonl ip)"

end
