(* ===== verification/CV_Buffer.thy ===== *)
theory CV_Buffer
  imports Byte_Order
begin

text \<open>
  \<open>CVBuffer\<close> of \<open>src/common/buffer.h\<close> and \<open>buffer.cpp\<close>: a fixed 64 KiB array with a write offset
  and a read offset, both \<open>unsigned int\<close>. Offsets are 32-bit words, so that the checks
  \<open>m_uOffset + uSize > MAX_CVBUFFER_SIZE\<close> wrap as they do in the code; an access outside the array
  is \<^const>\<open>Undefined\<close>. The contract is that of a bounded queue of bytes.
\<close>

section \<open>State and memory access\<close>

record cvbuffer =
  m_Buffer :: "nat \<Rightarrow> char"
  m_uOffset :: "32 word"
  m_uGetOffset :: "32 word"

abbreviation MAX_CVBUFFER_SIZE :: nat where "MAX_CVBUFFER_SIZE \<equiv> 64 * 1024"

definition read_mem :: "nat \<Rightarrow> nat \<Rightarrow> (nat \<Rightarrow> char) \<Rightarrow> string" where
  "read_mem off n mem = map mem [off..<off + n]"

definition write_mem :: "nat \<Rightarrow> string \<Rightarrow> (nat \<Rightarrow> char) \<Rightarrow> nat \<Rightarrow> char" where
  "write_mem off bs mem i = (if off \<le> i \<and> i < off + length bs then bs ! (i - off) else mem i)"

text \<open>
  \<open>memcpy(m_Buffer + off, src, n)\<close>, where \<open>src\<close> points at the bytes \<open>bs\<close>, and
  \<open>memcpy(dst, m_Buffer + off, n)\<close>, which yields the bytes copied.
\<close>

definition copy_in :: "nat \<Rightarrow> string \<Rightarrow> nat \<Rightarrow> (cvbuffer, unit) proc" where
  "copy_in off bs n = (\<lambda>b.
     if n \<le> length bs \<and> off + n \<le> MAX_CVBUFFER_SIZE
     then (Ret (), b\<lparr>m_Buffer := write_mem off (take n bs) (m_Buffer b)\<rparr>)
     else (Stuck Undefined, b))"

definition copy_out :: "nat \<Rightarrow> nat \<Rightarrow> (cvbuffer, string) proc" where
  "copy_out off n = (\<lambda>b.
     if off + n \<le> MAX_CVBUFFER_SIZE then (Ret (read_mem off n (m_Buffer b)), b)
     else (Stuck Undefined, b))"

section \<open>The members of buffer.cpp\<close>

definition cv_Clear :: "cvbuffer \<Rightarrow> cvbuffer" where
  "cv_Clear b = b\<lparr>m_uOffset := 0, m_uGetOffset := 0\<rparr>"

text \<open>A pointer argument is \<open>None\<close> for NULL and otherwise the bytes it points at.\<close>

definition cv_setBuffer :: "string option \<Rightarrow> 32 word \<Rightarrow> (cvbuffer, bool) proc" where
  "cv_setBuffer pBuffer uSize = (case pBuffer of
     None \<Rightarrow> mret False
   | Some bs \<Rightarrow>
       if uSize = 0 then mret False
       else if uSize > of_nat MAX_CVBUFFER_SIZE then mret False
       else mseq (copy_in 0 bs (unat uSize))
              (\<lambda>b. (Ret True, b\<lparr>m_uOffset := uSize, m_uGetOffset := 0\<rparr>)))"

definition cv_setSize :: "32 word \<Rightarrow> (cvbuffer, bool) proc" where
  "cv_setSize uSize = (\<lambda>b. (Ret True, b\<lparr>m_uOffset := uSize, m_uGetOffset := 0\<rparr>))"

definition cv_Append :: "string option \<Rightarrow> 32 word \<Rightarrow> (cvbuffer, bool) proc" where
  "cv_Append pData uLength = (\<lambda>b. case pData of
     None \<Rightarrow> (Ret False, b)
   | Some bs \<Rightarrow>
       if uLength = 0 then (Ret False, b)
       else if m_uOffset b + uLength > of_nat MAX_CVBUFFER_SIZE then (Ret False, b)
       else mseq (copy_in (unat (m_uOffset b)) bs (unat uLength))
              (\<lambda>b. (Ret True, b\<lparr>m_uOffset := m_uOffset b + uLength\<rparr>)) b)"

text \<open>\<open>memmove\<close> of the unread bytes to the front.\<close>

definition cv_AlignBuf :: "(cvbuffer, bool) proc" where
  "cv_AlignBuf = (\<lambda>b.
     if m_uGetOffset b \<le> m_uOffset b
     then mbind (copy_out (unat (m_uGetOffset b)) (unat (m_uOffset b - m_uGetOffset b)))
            (\<lambda>bs. mseq (copy_in 0 bs (length bs))
              (\<lambda>b. (Ret True, b\<lparr>m_uOffset := m_uOffset b - m_uGetOffset b, m_uGetOffset := 0\<rparr>))) b
     else (Ret True, b))"

definition cv_AddDataSize :: "32 word \<Rightarrow> (cvbuffer, bool) proc" where
  "cv_AddDataSize uSize = (\<lambda>b. (Ret True, b\<lparr>m_uOffset := m_uOffset b + uSize\<rparr>))"

text \<open>
  \<open>Get(char*, n)\<close> and \<open>Copy\<close>: \<open>Some bs\<close> is the result \<open>true\<close> with the bytes stored through the
  pointer, \<open>None\<close> the result \<open>false\<close>; \<open>dst\<close> says that the pointer is not NULL.
\<close>

definition cv_Get :: "bool \<Rightarrow> 32 word \<Rightarrow> (cvbuffer, string option) proc" where
  "cv_Get dst uLength = (\<lambda>b.
     if \<not> dst \<or> uLength = 0 then (Ret None, b)
     else if m_uGetOffset b + uLength > m_uOffset b then (Ret None, b)
     else mbind (copy_out (unat (m_uGetOffset b)) (unat uLength))
            (\<lambda>bs b. (Ret (Some bs), b\<lparr>m_uGetOffset := m_uGetOffset b + uLength\<rparr>)) b)"

definition cv_Copy :: "bool \<Rightarrow> 32 word \<Rightarrow> (cvbuffer, string option) proc" where
  "cv_Copy dst uLength = (\<lambda>b.
     if \<not> dst \<or> uLength = 0 then (Ret None, b)
     else if m_uGetOffset b + uLength > m_uOffset b then (Ret None, b)
     else mbind (copy_out (unat (m_uGetOffset b)) (unat uLength)) (\<lambda>bs. mret (Some bs)) b)"

definition cv_getSize :: "cvbuffer \<Rightarrow> 32 word" where
  "cv_getSize b = m_uOffset b"

section \<open>The members of buffer.h\<close>

text \<open>
  \<open>Set<type>\<close> and \<open>Get<type>\<close> copy the memory of the object, \<open>bs\<close>; they do not test for an empty
  object, whose size is at least 1.
\<close>

definition cv_Set_obj :: "string \<Rightarrow> (cvbuffer, bool) proc" where
  "cv_Set_obj bs = (\<lambda>b.
     if m_uOffset b + of_nat (length bs) > of_nat MAX_CVBUFFER_SIZE then (Ret False, b)
     else mseq (copy_in (unat (m_uOffset b)) bs (length bs))
            (\<lambda>b. (Ret True, b\<lparr>m_uOffset := m_uOffset b + of_nat (length bs)\<rparr>)) b)"

definition cv_Get_obj :: "nat \<Rightarrow> (cvbuffer, string option) proc" where
  "cv_Get_obj n = (\<lambda>b.
     if m_uGetOffset b + of_nat n > m_uOffset b then (Ret None, b)
     else mbind (copy_out (unat (m_uGetOffset b)) n)
            (\<lambda>bs b. (Ret (Some bs), b\<lparr>m_uGetOffset := m_uGetOffset b + of_nat n\<rparr>)) b)"

definition cv_Jump :: "32 word \<Rightarrow> cvbuffer \<Rightarrow> cvbuffer" where
  "cv_Jump uLength b =
     (let g = m_uGetOffset b + uLength
      in b\<lparr>m_uGetOffset := if g > m_uOffset b then m_uOffset b else g\<rparr>)"

text \<open>The array index \<open>JumpBuffer()\<close> points at: the read offset, but 0 when nothing is unread.\<close>

definition cv_JumpBuffer :: "cvbuffer \<Rightarrow> nat" where
  "cv_JumpBuffer b = (if m_uOffset b > m_uGetOffset b then unat (m_uGetOffset b) else 0)"

definition cv_RemainSize :: "cvbuffer \<Rightarrow> int" where
  "cv_RemainSize b = (if m_uOffset b > m_uGetOffset b then sint (m_uOffset b - m_uGetOffset b) else 0)"

definition cv_NotUsedSize :: "cvbuffer \<Rightarrow> int" where
  "cv_NotUsedSize b = sint (of_nat MAX_CVBUFFER_SIZE - m_uOffset b)"

text \<open>The markers \<open>updastart\<close>, \<open>start\<close>, \<open>astart\<close>, \<open>bstart\<close>, \<open>end\<close>.\<close>

definition cv_updastart :: "(cvbuffer, bool) proc" where
  "cv_updastart = cv_Set_obj [CHR 0x0a]"

definition cv_start :: "(cvbuffer, bool) proc" where
  "cv_start = mseq (cv_Set_obj (le_bytes 2 0)) (cv_Set_obj [CHR 0x02])"

definition cv_astart :: "(cvbuffer, bool) proc" where
  "cv_astart = mseq (cv_Set_obj (le_bytes 2 0)) (cv_Set_obj [CHR 0x0a])"

definition cv_bstart :: "(cvbuffer, bool) proc" where
  "cv_bstart = mseq (cv_Set_obj (le_bytes 2 0)) (cv_Set_obj [CHR 0x0b])"

definition cv_end :: "(cvbuffer, bool) proc" where
  "cv_end = cv_Set_obj [CHR 0x03]"

definition cv_setTcpMsgLen :: "16 word \<Rightarrow> (cvbuffer, unit) proc" where
  "cv_setTcpMsgLen usLen = copy_in 0 (le_bytes 2 (unat (htons usLen))) 2"

definition cv_setMsgLen :: "16 word \<Rightarrow> (cvbuffer, unit) proc" where
  "cv_setMsgLen usLen = copy_in 0 (le_bytes 2 (unat (htons usLen))) 2"

definition cv_setTLVLen :: "8 word \<Rightarrow> (cvbuffer, unit) proc" where
  "cv_setTLVLen ucLen = copy_in 0 (le_bytes 1 (unat ucLen)) 1"

text \<open>
  \<open>operator <<\<close> and \<open>operator >>\<close> for the integer types, which differ in \<open>sizeof(type)\<close> only: the
  value goes through \<open>htons\<close>, \<open>htonl\<close> or \<open>htonll\<close>, and \<open>>>\<close> gives 0 when the bytes are missing.
\<close>

datatype field = F8 "8 word" | F16 "16 word" | F32 "32 word" | F64 "64 word"

datatype ftype = T8 | T16 | T32 | T64

fun field_type :: "field \<Rightarrow> ftype" where
  "field_type (F8 v) = T8"
| "field_type (F16 v) = T16"
| "field_type (F32 v) = T32"
| "field_type (F64 v) = T64"

fun sizeof :: "ftype \<Rightarrow> nat" where
  "sizeof T8 = 1"
| "sizeof T16 = 2"
| "sizeof T32 = 4"
| "sizeof T64 = 8"

fun wire_bytes :: "field \<Rightarrow> string" where
  "wire_bytes (F8 v) = le_bytes 1 (unat v)"
| "wire_bytes (F16 v) = le_bytes 2 (unat (htons v))"
| "wire_bytes (F32 v) = le_bytes 4 (unat (htonl v))"
| "wire_bytes (F64 v) = le_bytes 8 (unat (htonll v))"

fun wire_field :: "ftype \<Rightarrow> string \<Rightarrow> field" where
  "wire_field T8 bs = F8 (word_of_nat (le_value bs))"
| "wire_field T16 bs = F16 (ntohs (word_of_nat (le_value bs)))"
| "wire_field T32 bs = F32 (ntohl (word_of_nat (le_value bs)))"
| "wire_field T64 bs = F64 (ntohll (word_of_nat (le_value bs)))"

fun zero_field :: "ftype \<Rightarrow> field" where
  "zero_field T8 = F8 0"
| "zero_field T16 = F16 0"
| "zero_field T32 = F32 0"
| "zero_field T64 = F64 0"

definition cv_shl :: "field \<Rightarrow> (cvbuffer, unit) proc" where
  "cv_shl v = mseq (cv_Append (Some (wire_bytes v)) (of_nat (sizeof (field_type v)))) (mret ())"

definition cv_shr :: "ftype \<Rightarrow> (cvbuffer, field) proc" where
  "cv_shr t = mbind (cv_Get True (of_nat (sizeof t)))
     (\<lambda>r. mret (case r of None \<Rightarrow> zero_field t | Some bs \<Rightarrow> wire_field t bs))"

text \<open>
  \<open>storageData\<close>: a length field followed by that many bytes taken from another buffer. The state is
  the pair of this buffer and the other one. The offset is set before \<open>Get\<close> is known to succeed,
  and the result is \<open>true\<close> in any case.
\<close>

definition cv_storageData :: "field \<Rightarrow> nat \<Rightarrow> (cvbuffer \<times> cvbuffer, bool) proc" where
  "cv_storageData lenf len = (\<lambda>(b, src).
     case cv_shl lenf (cv_Clear b) of
       (Ret _, b) \<Rightarrow>
         let hdr = sizeof (field_type lenf);
             b = b\<lparr>m_uOffset := of_nat (len + hdr), m_uGetOffset := 0\<rparr>
         in (case cv_Get True (of_nat len) src of
               (Ret None, src) \<Rightarrow> (Ret True, (b, src))
             | (Ret (Some bs), src) \<Rightarrow>
                 (case copy_in hdr bs len b of
                    (Ret _, b) \<Rightarrow> (Ret True, (b, src))
                  | (Exn e, b) \<Rightarrow> (Exn e, (b, src))
                  | (Stuck k, b) \<Rightarrow> (Stuck k, (b, src)))
             | (Exn e, src) \<Rightarrow> (Exn e, (b, src))
             | (Stuck k, src) \<Rightarrow> (Stuck k, (b, src)))
     | (Exn e, b) \<Rightarrow> (Exn e, (b, src))
     | (Stuck k, b) \<Rightarrow> (Stuck k, (b, src)))"

definition cv_storageData_short :: "16 word \<Rightarrow> (cvbuffer \<times> cvbuffer, bool) proc" where
  "cv_storageData_short usLen = cv_storageData (F16 usLen) (unat usLen)"

definition cv_storageData_char :: "8 word \<Rightarrow> (cvbuffer \<times> cvbuffer, bool) proc" where
  "cv_storageData_char ucLen = cv_storageData (F8 ucLen) (unat ucLen)"

text \<open>The constructors: the default one clears; the other only calls \<open>setBuffer\<close>.\<close>

definition cv_new :: "cvbuffer \<Rightarrow> cvbuffer" where
  "cv_new garbage = cv_Clear garbage"

definition cv_new_from :: "string option \<Rightarrow> 32 word \<Rightarrow> cvbuffer \<Rightarrow> unit result \<times> cvbuffer" where
  "cv_new_from pBuffer uSize garbage = mseq (cv_setBuffer pBuffer uSize) (mret ()) garbage"

section \<open>The queue contract\<close>

text \<open>The offsets are ordered and inside the array; the bytes between them are the queue.\<close>

definition cv_inv :: "cvbuffer \<Rightarrow> bool" where
  "cv_inv b \<longleftrightarrow> unat (m_uGetOffset b) \<le> unat (m_uOffset b) \<and> unat (m_uOffset b) \<le> MAX_CVBUFFER_SIZE"

definition cv_unread :: "cvbuffer \<Rightarrow> string" where
  "cv_unread b = read_mem (unat (m_uGetOffset b)) (unat (m_uOffset b) - unat (m_uGetOffset b)) (m_Buffer b)"

definition cv_room :: "cvbuffer \<Rightarrow> nat" where
  "cv_room b = MAX_CVBUFFER_SIZE - unat (m_uOffset b)"

lemma length_read_mem [simp]: "length (read_mem off n mem) = n"
  by (simp add: read_mem_def)

lemma read_mem_0 [simp]: "read_mem off 0 mem = []"
  by (simp add: read_mem_def)

lemma read_mem_add: "read_mem off (m + n) mem = read_mem off m mem @ read_mem (off + m) n mem"
  unfolding read_mem_def map_append [symmetric] by (metis add.assoc le_add1 upt_add_eq_append)

lemma read_mem_written [simp]: "read_mem off (length bs) (write_mem off bs mem) = bs"
  by (rule nth_equalityI) (simp_all add: read_mem_def write_mem_def)

lemma read_mem_untouched: "off + n \<le> off' \<Longrightarrow> read_mem off n (write_mem off' bs mem) = read_mem off n mem"
  by (auto simp: read_mem_def write_mem_def)

lemma read_mem_take: "k \<le> n \<Longrightarrow> read_mem off k mem = take k (read_mem off n mem)"
  by (simp add: read_mem_def take_map)

lemma read_mem_drop: "read_mem (off + k) (n - k) mem = drop k (read_mem off n mem)"
  by (cases "k \<le> n") (simp_all add: read_mem_def drop_map)

lemma unat_add32: "unat a + unat b < 2 ^ 32 \<Longrightarrow> unat (a + b) = unat a + unat b" for a b :: "32 word"
  by (simp add: unat_word_ariths)

lemma unat_add32_wrap:
  "2 ^ 32 \<le> unat a + unat b \<Longrightarrow> unat (a + b) = unat a + unat b - 2 ^ 32" for a b :: "32 word"
  using unsigned_less [of a, where 'a = nat] unsigned_less [of b, where 'a = nat]
  by (simp add: unat_word_ariths mod_if)

lemma unat_sub32: "unat b \<le> unat a \<Longrightarrow> unat (a - b) = unat a - unat b" for a b :: "32 word"
  by (simp add: unat_sub word_le_nat_alt)

lemma unat_max_size: "unat (of_nat MAX_CVBUFFER_SIZE :: 32 word) = MAX_CVBUFFER_SIZE"
  by simp

lemmas cv_words = word_less_nat_alt word_le_nat_alt unat_add32 unat_sub32

lemma length_cv_unread: "length (cv_unread b) = unat (m_uOffset b) - unat (m_uGetOffset b)"
  by (simp add: cv_unread_def)

lemma cv_Clear_inv [simp]: "cv_inv (cv_Clear b)"
  by (simp add: cv_Clear_def cv_inv_def)

lemma cv_Clear_unread [simp]: "cv_unread (cv_Clear b) = []" "cv_room (cv_Clear b) = MAX_CVBUFFER_SIZE"
  by (simp_all add: cv_Clear_def cv_unread_def cv_room_def)

text \<open>
  \<open>Append\<close> on a buffer that satisfies the invariant: it appends when there is room, refuses when
  there is not, and writes outside the array exactly when the 32-bit sum wraps.
\<close>

lemma cv_Append_room:
  assumes "cv_inv b" "length bs = unat n" "n \<noteq> 0" "unat n \<le> cv_room b"
  shows "\<exists>b'. cv_Append (Some bs) n b = (Ret True, b') \<and> cv_inv b' \<and>
    cv_unread b' = cv_unread b @ bs \<and> cv_room b' = cv_room b - unat n \<and>
    m_uGetOffset b' = m_uGetOffset b"
proof -
  let ?off = "unat (m_uOffset b)" and ?get = "unat (m_uGetOffset b)"
  have le: "?get \<le> ?off" "?off + unat n \<le> MAX_CVBUFFER_SIZE"
    using assms by (auto simp: cv_inv_def cv_room_def)
  then have sum: "unat (m_uOffset b + n) = ?off + unat n" by (simp add: unat_add32)
  define b' where "b' = b\<lparr>m_Buffer := write_mem ?off bs (m_Buffer b), m_uOffset := m_uOffset b + n\<rparr>"
  have "cv_Append (Some bs) n b = (Ret True, b')"
    using assms le sum by (simp add: cv_Append_def run_simps copy_in_def b'_def word_less_nat_alt)
  moreover have "cv_inv b'" "cv_room b' = cv_room b - unat n" "m_uGetOffset b' = m_uGetOffset b"
    using le sum by (auto simp: b'_def cv_inv_def cv_room_def)
  moreover have "cv_unread b' = cv_unread b @ bs"
  proof -
    have "cv_unread b' = read_mem ?get ((?off - ?get) + unat n) (write_mem ?off bs (m_Buffer b))"
      using le by (simp add: cv_unread_def b'_def sum)
    also have "\<dots> = read_mem ?get (?off - ?get) (write_mem ?off bs (m_Buffer b))
        @ read_mem (?get + (?off - ?get)) (unat n) (write_mem ?off bs (m_Buffer b))"
      by (rule read_mem_add)
    also have "\<dots> = cv_unread b @ read_mem ?off (length bs) (write_mem ?off bs (m_Buffer b))"
      using le(1) assms(2) by (simp add: read_mem_untouched cv_unread_def)
    finally show ?thesis by simp
  qed
  ultimately show ?thesis by blast
qed

lemma cv_Append_full:
  assumes "cv_inv b" "cv_room b < unat n" "unat (m_uOffset b) + unat n < 2 ^ 32"
  shows "cv_Append (Some bs) n b = (Ret False, b)"
  using assms by (auto simp: cv_Append_def cv_inv_def cv_room_def word_less_nat_alt unat_add32)

lemma cv_Append_wraps:
  assumes "cv_inv b" "2 ^ 32 \<le> unat (m_uOffset b) + unat n"
  shows "cv_Append (Some bs) n b = (Stuck Undefined, b)"
proof -
  have "n \<noteq> 0" using assms by (auto simp: cv_inv_def)
  moreover have "MAX_CVBUFFER_SIZE < unat (m_uOffset b) + unat n" using assms(2) by simp
  moreover have "\<not> of_nat MAX_CVBUFFER_SIZE < m_uOffset b + n"
    unfolding word_less_nat_alt unat_add32_wrap [OF assms(2)] unat_max_size
    using assms(1) unsigned_less [of n, where 'a = nat] by (auto simp: cv_inv_def)
  ultimately show ?thesis by (simp add: cv_Append_def run_simps copy_in_def)
qed

lemma cv_Get_bytes:
  assumes "cv_inv b" "n \<noteq> 0" "unat n \<le> length (cv_unread b)"
  shows "\<exists>b'. cv_Get True n b = (Ret (Some (take (unat n) (cv_unread b))), b') \<and> cv_inv b' \<and>
    cv_unread b' = drop (unat n) (cv_unread b) \<and> m_uOffset b' = m_uOffset b"
proof -
  let ?off = "unat (m_uOffset b)" and ?get = "unat (m_uGetOffset b)"
  have le: "?get + unat n \<le> ?off" "?off \<le> MAX_CVBUFFER_SIZE"
    using assms by (auto simp: cv_inv_def length_cv_unread)
  then have sum: "unat (m_uGetOffset b + n) = ?get + unat n" by (simp add: unat_add32)
  define b' where "b' = b\<lparr>m_uGetOffset := m_uGetOffset b + n\<rparr>"
  have tk: "read_mem ?get (unat n) (m_Buffer b) = take (unat n) (cv_unread b)"
    unfolding cv_unread_def by (rule read_mem_take) (use le in simp)
  have "cv_Get True n b = (Ret (Some (take (unat n) (cv_unread b))), b')"
    using assms(2) le by (simp add: cv_Get_def run_simps copy_out_def tk b'_def word_less_nat_alt sum)
  moreover have "cv_inv b'" "m_uOffset b' = m_uOffset b"
    using le by (simp_all add: b'_def cv_inv_def sum)
  moreover have "cv_unread b' = drop (unat n) (cv_unread b)"
    using read_mem_drop [of ?get "unat n" "?off - ?get" "m_Buffer b"] le
    by (simp add: b'_def cv_unread_def sum diff_diff_left)
  ultimately show ?thesis by blast
qed

lemma cv_Get_short:
  assumes "cv_inv b" "length (cv_unread b) < unat n" "unat (m_uGetOffset b) + unat n < 2 ^ 32"
  shows "cv_Get True n b = (Ret None, b)"
  using assms by (auto simp: cv_Get_def cv_inv_def length_cv_unread word_less_nat_alt unat_add32)

lemma cv_Get_wraps:
  assumes "cv_inv b" "2 ^ 32 \<le> unat (m_uGetOffset b) + unat n"
  shows "cv_Get True n b = (Stuck Undefined, b)"
proof -
  have "n \<noteq> 0" using assms by (auto simp: cv_inv_def)
  moreover have "MAX_CVBUFFER_SIZE < unat (m_uGetOffset b) + unat n" using assms(2) by simp
  moreover have "\<not> m_uOffset b < m_uGetOffset b + n"
    unfolding word_less_nat_alt unat_add32_wrap [OF assms(2)]
    using assms(1) unsigned_less [of n, where 'a = nat] by (auto simp: cv_inv_def)
  ultimately show ?thesis by (simp add: cv_Get_def run_simps copy_out_def)
qed

lemma cv_Jump_inv: "cv_inv b \<Longrightarrow> cv_inv (cv_Jump n b)"
  by (auto simp: cv_inv_def cv_Jump_def Let_def word_less_nat_alt not_less)

lemma cv_Jump_unread:
  assumes "cv_inv b" "unat (m_uGetOffset b) + unat n < 2 ^ 32"
  shows "cv_unread (cv_Jump n b) = drop (unat n) (cv_unread b)"
proof -
  let ?off = "unat (m_uOffset b)" and ?get = "unat (m_uGetOffset b)"
  show ?thesis
  proof (cases "?off < ?get + unat n")
    case True
    then have "cv_Jump n b = b\<lparr>m_uGetOffset := m_uOffset b\<rparr>"
      using assms(2) by (simp add: cv_Jump_def Let_def word_less_nat_alt unat_add32)
    moreover have "length (cv_unread b) \<le> unat n" using True by (simp add: length_cv_unread)
    ultimately show ?thesis by (simp add: cv_unread_def)
  next
    case False
    then have j: "cv_Jump n b = b\<lparr>m_uGetOffset := m_uGetOffset b + n\<rparr>"
      using assms(2) by (simp add: cv_Jump_def Let_def word_less_nat_alt unat_add32)
    show ?thesis
      using read_mem_drop [of ?get "unat n" "?off - ?get" "m_Buffer b"]
      unfolding j cv_unread_def by (simp add: unat_add32 [OF assms(2)] diff_diff_left)
  qed
qed

lemma cv_AlignBuf_spec:
  assumes "cv_inv b"
  shows "\<exists>b'. cv_AlignBuf b = (Ret True, b') \<and> cv_inv b' \<and> cv_unread b' = cv_unread b \<and>
    m_uGetOffset b' = 0 \<and> unat (m_uOffset b') = length (cv_unread b)"
proof -
  let ?n = "m_uOffset b - m_uGetOffset b"
  have le: "m_uGetOffset b \<le> m_uOffset b" "unat (m_uOffset b) \<le> MAX_CVBUFFER_SIZE"
    using assms by (auto simp: cv_inv_def word_le_nat_alt)
  then have n: "unat ?n = length (cv_unread b)"
    by (simp add: length_cv_unread unat_sub32 word_le_nat_alt)
  have ub: "read_mem (unat (m_uGetOffset b)) (unat ?n) (m_Buffer b) = cv_unread b"
    by (simp add: n length_cv_unread cv_unread_def)
  have len: "length (cv_unread b) \<le> unat (m_uOffset b)" by (simp add: length_cv_unread)
  have bound: "unat (m_uGetOffset b) + unat ?n \<le> MAX_CVBUFFER_SIZE"
    using le n by (simp add: length_cv_unread word_le_nat_alt)
  define b' where "b' = b\<lparr>m_Buffer := write_mem 0 (cv_unread b) (m_Buffer b),
    m_uOffset := ?n, m_uGetOffset := 0\<rparr>"
  have "cv_AlignBuf b = (Ret True, b')"
    using le len bound by (simp add: cv_AlignBuf_def run_simps copy_out_def copy_in_def ub b'_def)
  moreover have "cv_unread b' = cv_unread b"
    by (simp add: b'_def cv_unread_def [of "b\<lparr>m_Buffer := _, m_uOffset := _, m_uGetOffset := 0\<rparr>"] n)
  moreover have "cv_inv b'" "m_uGetOffset b' = 0" "unat (m_uOffset b') = length (cv_unread b)"
    using n len le by (simp_all add: b'_def cv_inv_def)
  ultimately show ?thesis by blast
qed

lemma cv_setBuffer_spec:
  assumes "length bs = unat n" "n \<noteq> 0" "unat n \<le> MAX_CVBUFFER_SIZE"
  shows "\<exists>b'. cv_setBuffer (Some bs) n b = (Ret True, b') \<and> cv_inv b' \<and> cv_unread b' = bs"
proof -
  define b' where "b' = b\<lparr>m_Buffer := write_mem 0 bs (m_Buffer b), m_uOffset := n, m_uGetOffset := 0\<rparr>"
  have "cv_setBuffer (Some bs) n b = (Ret True, b')"
    using assms by (simp add: cv_setBuffer_def run_simps copy_in_def b'_def word_less_nat_alt)
  moreover have "cv_inv b'" using assms by (simp add: b'_def cv_inv_def)
  moreover have "cv_unread b' = bs"
    using read_mem_written [of 0 bs "m_Buffer b"] assms(1) by (simp add: b'_def cv_unread_def)
  ultimately show ?thesis by blast
qed

text \<open>\<open>Get<type>\<close> and \<open>Set<type>\<close> agree with the untyped members on sizes that fit 32 bits.\<close>

lemma cv_Get_obj_eq:
  assumes "0 < n" "n < 2 ^ 32"
  shows "cv_Get_obj n = cv_Get True (of_nat n)"
proof
  fix b
  have "unat (of_nat n :: 32 word) = n" "(of_nat n :: 32 word) \<noteq> 0"
    using assms by (simp_all add: unat_of_nat word_eq_iff_unsigned [where 'a = nat and 'b = 32] take_bit_eq_mod)
  then show "cv_Get_obj n b = cv_Get True (of_nat n) b"
    by (simp add: cv_Get_obj_def cv_Get_def)
qed

lemma cv_Set_obj_eq:
  assumes "0 < length bs" "length bs < 2 ^ 32"
  shows "cv_Set_obj bs = cv_Append (Some bs) (of_nat (length bs))"
proof
  fix b
  have "unat (of_nat (length bs) :: 32 word) = length bs" "(of_nat (length bs) :: 32 word) \<noteq> 0"
    using assms by (simp_all add: unat_of_nat word_eq_iff_unsigned [where 'a = nat and 'b = 32] take_bit_eq_mod)
  then show "cv_Set_obj bs b = cv_Append (Some bs) (of_nat (length bs)) b"
    by (simp add: cv_Set_obj_def cv_Append_def)
qed

section \<open>Typed fields\<close>

text \<open>
  The interface the users of the buffer rely on: a channel that hands back, field by field, what
  was written. \<open>pending\<close> is the byte sequence still to be read, \<open>wire\<close> the encoding of a value.
\<close>

locale field_channel =
  fixes inv :: "'b \<Rightarrow> bool" and pending :: "'b \<Rightarrow> string" and room :: "'b \<Rightarrow> nat"
    and send :: "'v \<Rightarrow> ('b, unit) proc" and recv :: "'t \<Rightarrow> ('b, 'v) proc"
    and kind :: "'v \<Rightarrow> 't" and wire :: "'v \<Rightarrow> string"
  assumes send_ok: "inv b \<Longrightarrow> length (wire v) \<le> room b \<Longrightarrow>
      \<exists>b'. send v b = (Ret (), b') \<and> inv b' \<and> pending b' = pending b @ wire v \<and>
        room b' = room b - length (wire v)"
    and recv_ok: "inv b \<Longrightarrow> pending b = wire v @ rest \<Longrightarrow>
      \<exists>b'. recv (kind v) b = (Ret v, b') \<and> inv b' \<and> pending b' = rest"
begin

lemma send_all:
  assumes "inv b" "length (concat (map wire vs)) \<le> room b"
  shows "\<exists>b'. mfor send vs b = (Ret (), b') \<and> inv b' \<and> pending b' = pending b @ concat (map wire vs)"
  using assms
proof (induction vs arbitrary: b)
  case (Cons v vs)
  from Cons.prems send_ok [of b v] obtain b1 where b1: "send v b = (Ret (), b1)" "inv b1"
    "pending b1 = pending b @ wire v" "room b1 = room b - length (wire v)" by auto
  with Cons.prems have "length (concat (map wire vs)) \<le> room b1" by simp
  from Cons.IH [OF b1(2) this] b1 show ?case by (auto simp: mseq_Ret)
qed (simp add: run_simps)

lemma recv_all:
  assumes "inv b" "pending b = concat (map wire vs) @ rest"
  shows "\<exists>b'. mmap recv (map kind vs) b = (Ret vs, b') \<and> inv b' \<and> pending b' = rest"
  using assms
proof (induction vs arbitrary: b)
  case (Cons v vs)
  from Cons.prems recv_ok [of b v "concat (map wire vs) @ rest"] obtain b1 where
    b1: "recv (kind v) b = (Ret v, b1)" "inv b1" "pending b1 = concat (map wire vs) @ rest" by auto
  from Cons.IH [OF b1(2,3)] b1(1) show ?case by (auto simp: run_simps)
qed (simp add: run_simps)

lemma round_trip:
  assumes "inv b" "pending b = []" "length (concat (map wire vs)) \<le> room b"
  shows "\<exists>b'. mseq (mfor send vs) (mmap recv (map kind vs)) b = (Ret vs, b') \<and> inv b' \<and> pending b' = []"
proof -
  from send_all [OF assms(1,3)] assms(2) obtain b1 where
    "mfor send vs b = (Ret (), b1)" "inv b1" "pending b1 = concat (map wire vs) @ []" by auto
  with recv_all [of b1 vs "[]"] show ?thesis by (auto simp: mseq_Ret)
qed

end

lemma length_wire_bytes [simp]: "length (wire_bytes v) = sizeof (field_type v)"
  by (cases v) simp_all

lemma sizeof_pos [simp]: "0 < sizeof t" "sizeof t \<le> 8"
  by (cases t; simp)+

lemma unat_sizeof [simp]: "unat (of_nat (sizeof t) :: 32 word) = sizeof t"
  by (cases t) simp_all

lemma of_nat_le_value_bytes:
  fixes w :: "'w::len word"
  assumes "LENGTH('w) = 8 * k"
  shows "word_of_nat (le_value (le_bytes k (unat w))) = w"
proof -
  have "unat w < 2 ^ LENGTH('w)" by (rule unsigned_less)
  then have "unat w < 256 ^ k" by (simp add: assms power_mult)
  then show ?thesis by simp
qed

lemma wire_field_bytes [simp]: "wire_field (field_type v) (wire_bytes v) = v"
proof (cases v)
  case (F8 x)
  then show ?thesis using of_nat_le_value_bytes [of 1 x] by simp
next
  case (F16 x)
  then show ?thesis using of_nat_le_value_bytes [of 2 "htons x"] by simp
next
  case (F32 x)
  then show ?thesis using of_nat_le_value_bytes [of 4 "htonl x"] by simp
next
  case (F64 x)
  then show ?thesis using of_nat_le_value_bytes [of 8 "htonll x"] by simp
qed

interpretation cv: field_channel cv_inv cv_unread cv_room cv_shl cv_shr field_type wire_bytes
proof unfold_locales
  fix b v
  assume "cv_inv b" "length (wire_bytes v) \<le> cv_room b"
  then show "\<exists>b'. cv_shl v b = (Ret (), b') \<and> cv_inv b' \<and> cv_unread b' = cv_unread b @ wire_bytes v \<and>
      cv_room b' = cv_room b - length (wire_bytes v)"
    using cv_Append_room [of b "wire_bytes v" "of_nat (sizeof (field_type v))"] sizeof_pos(1) [of "field_type v"]
    by (auto simp: cv_shl_def run_simps simp flip: unat_gt_0)
next
  fix b v rest
  assume "cv_inv b" "cv_unread b = wire_bytes v @ rest"
  then show "\<exists>b'. cv_shr (field_type v) b = (Ret v, b') \<and> cv_inv b' \<and> cv_unread b' = rest"
    using cv_Get_bytes [of b "of_nat (sizeof (field_type v))"] sizeof_pos(1) [of "field_type v"]
    by (auto simp: cv_shr_def run_simps simp flip: unat_gt_0)
qed

section \<open>Properties\<close>

text \<open>C1: Fields written with \<open><<\<close> into an empty buffer come back from \<open>>>\<close>, in order and with their
  values, as long as their encodings fit the 64 KiB.\<close>

theorem cv_fields_round_trip:
  assumes "length (concat (map wire_bytes vs)) \<le> MAX_CVBUFFER_SIZE"
  shows "\<exists>b'. mseq (mfor cv_shl vs) (mmap cv_shr (map field_type vs)) (cv_Clear b) = (Ret vs, b') \<and>
    cv_inv b' \<and> cv_unread b' = []"
  by (rule cv.round_trip) (use assms in simp_all)

theorem cv_fields_round_trip_witness:
  "\<exists>b'. mseq (mfor cv_shl [F16 513, F8 7, F64 1, F32 70000])
      (mmap cv_shr (map field_type [F16 513, F8 7, F64 1, F32 70000]))
      (cv_Clear \<lparr>m_Buffer = \<lambda>_. CHR 0x00, m_uOffset = 9, m_uGetOffset = 3\<rparr>) =
    (Ret [F16 513, F8 7, F64 1, F32 70000], b') \<and> cv_inv b' \<and> cv_unread b' = []"
  by (rule cv_fields_round_trip) simp

text \<open>\<open>Append\<close> under the invariant, on every branch: with room it appends exactly the bytes; without
  room it refuses and changes nothing, unless the 32-bit sum of offset and length wraps: then the
  check passes and the copy leaves the array.\<close>

theorem cv_Append_outcomes:
  assumes "cv_inv b" "length bs = unat n" "n \<noteq> 0"
  shows "if unat (m_uOffset b) + unat n \<le> MAX_CVBUFFER_SIZE
    then \<exists>b'. cv_Append (Some bs) n b = (Ret True, b') \<and> cv_inv b' \<and> cv_unread b' = cv_unread b @ bs
    else if unat (m_uOffset b) + unat n < 2 ^ 32 then cv_Append (Some bs) n b = (Ret False, b)
    else cv_Append (Some bs) n b = (Stuck Undefined, b)"
proof (cases "unat (m_uOffset b) + unat n \<le> MAX_CVBUFFER_SIZE")
  case True
  then have "unat n \<le> cv_room b" by (simp add: cv_room_def)
  from cv_Append_room [OF assms this] True show ?thesis by auto
next
  case False
  then have "cv_room b < unat n" using assms(1) unfolding cv_room_def cv_inv_def by linarith
  from cv_Append_full [OF assms(1) this, of bs] cv_Append_wraps [OF assms(1), of n bs] False
  show ?thesis by simp
qed

theorem cv_Append_outcomes_witness:
  "\<exists>b'. cv_Append (Some ''ab'') 2 \<lparr>m_Buffer = \<lambda>_. CHR ''x'', m_uOffset = 65534, m_uGetOffset = 65532\<rparr>
     = (Ret True, b') \<and> cv_inv b' \<and> cv_unread b' = ''xxab''"
  using cv_Append_outcomes [of "\<lparr>m_Buffer = \<lambda>_. CHR ''x'', m_uOffset = 65534, m_uGetOffset = 65532\<rparr>" "''ab''" 2]
  by (simp add: cv_inv_def cv_unread_def read_mem_def upt_rec)

text \<open>\<open>Get\<close> under the invariant, on every branch: it takes the next bytes of the queue, or refuses and
  changes nothing, or (when the 32-bit sum wraps) reads outside the array.\<close>

theorem cv_Get_outcomes:
  assumes "cv_inv b" "n \<noteq> 0"
  shows "if unat n \<le> length (cv_unread b)
    then \<exists>b'. cv_Get True n b = (Ret (Some (take (unat n) (cv_unread b))), b') \<and> cv_inv b' \<and>
      cv_unread b' = drop (unat n) (cv_unread b)
    else if unat (m_uGetOffset b) + unat n < 2 ^ 32 then cv_Get True n b = (Ret None, b)
    else cv_Get True n b = (Stuck Undefined, b)"
  using cv_Get_bytes [OF assms] cv_Get_short [OF assms(1)] cv_Get_wraps [OF assms(1)] by auto

theorem cv_Get_outcomes_witness:
  "cv_Get True 4294967295 \<lparr>m_Buffer = \<lambda>_. CHR ''x'', m_uOffset = 8, m_uGetOffset = 3\<rparr>
     = (Stuck Undefined, \<lparr>m_Buffer = \<lambda>_. CHR ''x'', m_uOffset = 8, m_uGetOffset = 3\<rparr>)"
  using cv_Get_outcomes [of "\<lparr>m_Buffer = \<lambda>_. CHR ''x'', m_uOffset = 8, m_uGetOffset = 3\<rparr>" 4294967295]
  by (simp add: cv_inv_def length_cv_unread)

text \<open>Operations that return from every state with the invariant, and keep it: none leaves the array.\<close>

definition cv_sound :: "(cvbuffer, 'a) proc \<Rightarrow> bool" where
  "cv_sound m \<longleftrightarrow> (\<forall>b. cv_inv b \<longrightarrow> (\<exists>r b'. m b = (Ret r, b') \<and> cv_inv b'))"

lemma cv_soundI: "(\<And>b. cv_inv b \<Longrightarrow> \<exists>r b'. m b = (Ret r, b') \<and> cv_inv b') \<Longrightarrow> cv_sound m"
  by (simp add: cv_sound_def)

lemma cv_sound_mbind:
  assumes "cv_sound m" "\<And>a. cv_sound (f a)"
  shows "cv_sound (mbind m f)"
proof (rule cv_soundI)
  fix b assume "cv_inv b"
  with assms(1) obtain r b' where "m b = (Ret r, b')" "cv_inv b'" unfolding cv_sound_def by blast
  with assms(2) [of r] show "\<exists>r b'. mbind m f b = (Ret r, b') \<and> cv_inv b'" by (auto simp: cv_sound_def run_simps)
qed

lemma cv_sound_mret [simp]: "cv_sound (mret a)"
  by (simp add: cv_sound_def run_simps)

lemma copy_in_sound: "n \<le> length bs \<Longrightarrow> off + n \<le> MAX_CVBUFFER_SIZE \<Longrightarrow> cv_sound (copy_in off bs n)"
  by (simp add: cv_sound_def copy_in_def cv_inv_def)

lemma cv_Append_sound:
  assumes "\<And>bs. p = Some bs \<Longrightarrow> unat n \<le> length bs" "unat n + MAX_CVBUFFER_SIZE < 2 ^ 32"
  shows "cv_sound (cv_Append p n)"
proof (rule cv_soundI)
  fix b assume inv: "cv_inv b"
  then have sum: "unat (m_uOffset b + n) = unat (m_uOffset b) + unat n"
    using assms(2) unfolding cv_inv_def by (intro unat_add32) linarith
  show "\<exists>r b'. cv_Append p n b = (Ret r, b') \<and> cv_inv b'"
    using assms(1) inv
    by (cases p) (auto simp: cv_Append_def run_simps copy_in_def cv_inv_def word_less_nat_alt sum)
qed

lemma cv_Set_obj_sound: "0 < length bs \<Longrightarrow> length bs \<le> 8 \<Longrightarrow> cv_sound (cv_Set_obj bs)"
proof -
  assume l: "0 < length bs" "length bs \<le> 8"
  then have "unat (of_nat (length bs) :: 32 word) = length bs" by (simp add: unat_of_nat)
  then have "cv_sound (cv_Append (Some bs) (of_nat (length bs)))" using l(2) by (intro cv_Append_sound) simp_all
  with l show ?thesis by (subst cv_Set_obj_eq) simp_all
qed

lemma cv_read_bounds:
  assumes "cv_inv b" "unat n + MAX_CVBUFFER_SIZE < 2 ^ 32" "\<not> m_uOffset b < m_uGetOffset b + n"
  shows "unat (m_uGetOffset b) + unat n \<le> MAX_CVBUFFER_SIZE" "unat (m_uGetOffset b + n) \<le> unat (m_uOffset b)"
proof -
  have sum: "unat (m_uGetOffset b + n) = unat (m_uGetOffset b) + unat n"
    using assms(1,2) unfolding cv_inv_def by (intro unat_add32) linarith
  show le: "unat (m_uGetOffset b + n) \<le> unat (m_uOffset b)" using assms(3) by (simp add: word_less_nat_alt)
  then show "unat (m_uGetOffset b) + unat n \<le> MAX_CVBUFFER_SIZE"
    using assms(1) unfolding sum cv_inv_def by linarith
qed

lemma cv_Get_sound: "unat n + MAX_CVBUFFER_SIZE < 2 ^ 32 \<Longrightarrow> cv_sound (cv_Get dst n)"
  by (rule cv_soundI) (use cv_read_bounds in \<open>auto simp: cv_Get_def run_simps copy_out_def cv_inv_def\<close>)

lemma cv_Copy_sound: "unat n + MAX_CVBUFFER_SIZE < 2 ^ 32 \<Longrightarrow> cv_sound (cv_Copy dst n)"
  by (rule cv_soundI) (use cv_read_bounds in \<open>auto simp: cv_Copy_def run_simps copy_out_def\<close>)

lemma cv_setBuffer_sound: "(\<And>bs. p = Some bs \<Longrightarrow> unat n \<le> length bs) \<Longrightarrow> cv_sound (cv_setBuffer p n)"
  by (rule cv_soundI)
    (auto simp: cv_setBuffer_def run_simps copy_in_def cv_inv_def word_less_nat_alt split: option.split)

lemma cv_AlignBuf_sound: "cv_sound cv_AlignBuf"
  by (rule cv_soundI) (use cv_AlignBuf_spec in fastforce)

lemma cv_Get_obj_sound: "cv_sound (cv_Get_obj (sizeof t))"
proof -
  have "sizeof t < 2 ^ 32" by (cases t) simp_all
  then have "cv_Get_obj (sizeof t) = cv_Get True (of_nat (sizeof t))" by (simp add: cv_Get_obj_eq)
  then show ?thesis by (cases t) (simp_all add: cv_Get_sound)
qed

lemma cv_shl_sound: "cv_sound (cv_shl v)"
proof -
  have s: "sizeof (field_type v) \<le> 8" by (rule sizeof_pos)
  have "cv_sound (cv_Append (Some (wire_bytes v)) (of_nat (sizeof (field_type v))))"
  proof (rule cv_Append_sound)
    show "unat (of_nat (sizeof (field_type v)) :: 32 word) \<le> length bs" if "Some (wire_bytes v) = Some bs" for bs
      using that length_wire_bytes [of v] by (simp only: option.inject unat_sizeof order_refl)
    show "unat (of_nat (sizeof (field_type v)) :: 32 word) + MAX_CVBUFFER_SIZE < 2 ^ 32" unfolding unat_sizeof by (rule le_less_trans [OF add_right_mono [OF s]]) simp
  qed
  then show ?thesis unfolding cv_shl_def mseq_def by (intro cv_sound_mbind cv_sound_mret)
qed

lemma cv_shr_sound: "cv_sound (cv_shr t)"
  unfolding cv_shr_def by (intro cv_sound_mbind cv_Get_sound cv_sound_mret) (cases t; simp)

lemmas cv_marker_defs = cv_updastart_def cv_start_def cv_astart_def cv_bstart_def cv_end_def
  cv_setTcpMsgLen_def cv_setMsgLen_def cv_setTLVLen_def

text \<open>\<open>storageData\<close> sets the offset itself: a length that, with its field, fits the array is needed.\<close>

lemma cv_storageData_sound:
  assumes "cv_inv b" "cv_inv src" "len + sizeof (field_type lenf) \<le> MAX_CVBUFFER_SIZE"
  shows "\<exists>b' src'. cv_storageData lenf len (b, src) = (Ret True, (b', src')) \<and> cv_inv b' \<and> cv_inv src'"
proof -
  have of: "unat (of_nat k :: 32 word) = k" if "k \<le> MAX_CVBUFFER_SIZE" for k
    using that by (simp add: unsigned_of_nat take_bit_nat_eq_self)
  have n: "unat (of_nat len :: 32 word) = len" "unat (of_nat (len + sizeof (field_type lenf)) :: 32 word) = len + sizeof (field_type lenf)"
    by (rule of, use assms(3) in simp)+
  from cv_shl_sound [of lenf] obtain b1 where b1: "cv_shl lenf (cv_Clear b) = (Ret (), b1)"
    unfolding cv_sound_def using cv_Clear_inv [of b] by (metis old.unit.exhaust)
  let ?b2 = "b1\<lparr>m_uOffset := of_nat (len + sizeof (field_type lenf)), m_uGetOffset := 0\<rparr>"
  have b2: "cv_inv ?b2" using assms(3) n(2) by (simp add: cv_inv_def del: of_nat_add)
  have "unat (of_nat len :: 32 word) + MAX_CVBUFFER_SIZE < 2 ^ 32" using n(1) assms(3) by simp
  from cv_Get_sound [OF this, of True] assms(2) obtain r src' where
    g: "cv_Get True (of_nat len) src = (Ret r, src')" "cv_inv src'" unfolding cv_sound_def by blast
  show ?thesis
  proof (cases r)
    case None
    then show ?thesis using b1 b2 g by (simp add: cv_storageData_def Let_def del: of_nat_add)
  next
    case (Some bs)
    have "length bs = len" using g(1) Some n(1)
      by (auto simp: cv_Get_def run_simps copy_out_def split: if_splits)
    then have "cv_sound (copy_in (sizeof (field_type lenf)) bs len)"
      using assms(3) by (intro copy_in_sound) simp_all
    with b2 obtain b3 where "copy_in (sizeof (field_type lenf)) bs len ?b2 = (Ret (), b3)" "cv_inv b3"
      unfolding cv_sound_def by fastforce
    then show ?thesis using b1 g Some by (simp add: cv_storageData_def Let_def del: of_nat_add)
  qed
qed

text \<open>C27: From a state in which the offsets are ordered and inside the array, every operation that moves data returns
  and leaves them so, for pointers to as many bytes as are announced, lengths up to 4 GiB - 64 KiB - 1 (with longer
  ones the tests of \<open>Append\<close> and \<open>Get\<close> wrap), and, for \<open>storageData\<close>, every length but 65535 (which with its own field is
  larger than the array). \<open>setSize\<close> and \<open>AddDataSize\<close> take any size and are left out.\<close>

theorem cv_operations_keep_inv:
  assumes "\<forall>bs. p = Some bs \<longrightarrow> unat n \<le> length bs" "unat n + MAX_CVBUFFER_SIZE < 2 ^ 32" "usLen \<noteq> 65535" "cv_inv b" "cv_inv src"
  shows "cv_sound (cv_setBuffer p n) \<and> cv_sound (cv_Append p n) \<and> cv_sound (cv_Get dst n) \<and>
   cv_sound (cv_Copy dst n) \<and> cv_sound cv_AlignBuf \<and> cv_sound (cv_shl v) \<and> cv_sound (cv_shr t) \<and>
   cv_sound (cv_Get_obj (sizeof t)) \<and> cv_sound (cv_Set_obj (wire_bytes v)) \<and>
   cv_sound (\<lambda>b. (Ret (), cv_Jump k b)) \<and> cv_sound (\<lambda>b. (Ret (), cv_Clear b)) \<and>
   cv_sound cv_updastart \<and> cv_sound cv_start \<and> cv_sound cv_astart \<and> cv_sound cv_bstart \<and>
   cv_sound cv_end \<and> cv_sound (cv_setTcpMsgLen len) \<and> cv_sound (cv_setMsgLen len) \<and>
   cv_sound (cv_setTLVLen len8) \<and>
   (\<exists>b' src'. cv_storageData_short usLen (b, src) = (Ret True, (b', src')) \<and> cv_inv b' \<and> cv_inv src') \<and>
   (\<exists>b' src'. cv_storageData_char ucLen (b, src) = (Ret True, (b', src')) \<and> cv_inv b' \<and> cv_inv src')"
proof -
  have jump: "cv_sound (\<lambda>b. (Ret (), cv_Jump k b))" "cv_sound (\<lambda>b. (Ret (), cv_Clear b))"
    by (simp_all add: cv_sound_def cv_Jump_inv)
  have wire: "cv_sound (cv_Set_obj (wire_bytes v))"
    by (rule cv_Set_obj_sound) (simp_all del: wire_bytes.simps)
  have markers: "cv_sound cv_updastart" "cv_sound cv_start" "cv_sound cv_astart" "cv_sound cv_bstart" "cv_sound cv_end"
    "cv_sound (cv_setTcpMsgLen len)" "cv_sound (cv_setMsgLen len)" "cv_sound (cv_setTLVLen len8)"
    unfolding cv_marker_defs mseq_def by (intro cv_sound_mbind cv_Set_obj_sound copy_in_sound; simp)+
  have "unat usLen < 2 ^ 16" "unat usLen \<noteq> 65535"
    using unsigned_less [of usLen, where 'a = nat] assms(3) word_unat_eq_iff [of usLen 65535] by simp_all
  then have short: "unat usLen + sizeof (field_type (F16 usLen)) \<le> MAX_CVBUFFER_SIZE" by simp
  have char: "unat ucLen + sizeof (field_type (F8 ucLen)) \<le> MAX_CVBUFFER_SIZE"
    using unsigned_less [of ucLen, where 'a = nat] by simp
  note sound = cv_setBuffer_sound [of p n] cv_Append_sound [of p n] cv_Get_sound [OF assms(2), of dst] cv_Copy_sound [OF assms(2), of dst]
    cv_AlignBuf_sound cv_shl_sound [of v] cv_shr_sound [of t] cv_Get_obj_sound [of t]
  show ?thesis
    unfolding cv_storageData_short_def cv_storageData_char_def
    using sound assms(1,2) jump wire markers cv_storageData_sound [OF assms(4,5) short] cv_storageData_sound [OF assms(4,5) char]
    by blast
qed

theorem cv_operations_keep_inv_witness:
  "cv_sound (cv_Append (Some ''ab'') 2) \<and> (\<exists>b' src'. cv_storageData_short 65534
     (cv_Clear \<lparr>m_Buffer = \<lambda>_. CHR ''x'', m_uOffset = 0, m_uGetOffset = 0\<rparr>, \<lparr>m_Buffer = \<lambda>_. CHR ''x'', m_uOffset = 9, m_uGetOffset = 2\<rparr>) =
       (Ret True, (b', src')) \<and> cv_inv b' \<and> cv_inv src')"
proof -
  have inv: "cv_inv \<lparr>m_Buffer = \<lambda>_. CHR ''x'', m_uOffset = 9, m_uGetOffset = 2\<rparr>" by (simp add: cv_inv_def)
  have l: "\<forall>bs. Some ''ab'' = Some bs \<longrightarrow> unat (2 :: 32 word) \<le> length bs" "unat (2 :: 32 word) + MAX_CVBUFFER_SIZE < 2 ^ 32"
    "(65534 :: 16 word) \<noteq> 65535" by simp_all
  show ?thesis using cv_operations_keep_inv [OF l cv_Clear_inv inv] by blast
qed

text \<open>\<open>storageData(unsigned short)\<close> with enough data in the source: the buffer then holds the length
  field and the next \<open>usLen\<close> bytes of the source, which have been consumed; but a length of 65535 does
  not leave room for the length field and the copy runs past the array.\<close>

theorem cv_storageData_outcomes:
  assumes "cv_inv src" "usLen \<noteq> 0" "unat usLen \<le> length (cv_unread src)"
  shows "if unat usLen + 2 \<le> MAX_CVBUFFER_SIZE
    then \<exists>b' src'. cv_storageData_short usLen (b, src) = (Ret True, (b', src')) \<and> cv_inv b' \<and>
      cv_unread b' = wire_bytes (F16 usLen) @ take (unat usLen) (cv_unread src) \<and>
      cv_unread src' = drop (unat usLen) (cv_unread src)
    else fst (cv_storageData_short usLen (b, src)) = Stuck Undefined"
proof -
  let ?n = "unat usLen"
  have lt: "?n < 2 ^ 16" using unsigned_less [of usLen, where 'a = nat] by simp
  then have n32: "unat (of_nat ?n :: 32 word) = ?n" 
    by (subst unsigned_of_nat) (simp add: take_bit_nat_eq_self)
  have n0: "(of_nat ?n :: 32 word) \<noteq> 0"
    using assms(2) n32 by (metis unat_0 unat_eq_zero)
  have get0: "m_uGetOffset (cv_Clear b) = 0" by (simp add: cv_Clear_def)
  obtain b1 where b1: "cv_Append (Some (wire_bytes (F16 usLen))) 2 (cv_Clear b) = (Ret True, b1)"
      "cv_unread b1 = wire_bytes (F16 usLen)" "cv_inv b1" "cv_room b1 = MAX_CVBUFFER_SIZE - 2"
      "m_uGetOffset b1 = 0"
    using cv_Append_room [of "cv_Clear b" "wire_bytes (F16 usLen)" 2] get0 by auto
  have off: "unat (m_uOffset b1) = 2" using b1(3,4) unfolding cv_room_def cv_inv_def by linarith
  have shl: "cv_shl (F16 usLen) (cv_Clear b) = (Ret (), b1)" using b1(1) by (simp add: cv_shl_def run_simps)
  from cv_Get_bytes [OF assms(1) n0] assms(3) n32 obtain src' where
    src': "cv_Get True (of_nat ?n) src = (Ret (Some (take ?n (cv_unread src))), src')"
      "cv_unread src' = drop ?n (cv_unread src)" by auto
  define bs where "bs = take ?n (cv_unread src)"
  have lbs: "length bs = ?n" using assms(3) by (simp add: bs_def)
  let ?b2 = "b1\<lparr>m_uOffset := of_nat (?n + 2), m_uGetOffset := 0\<rparr>"
  have eff: "fst (cv_storageData_short usLen (b, src)) =
      (if ?n + 2 \<le> MAX_CVBUFFER_SIZE then Ret True else Stuck Undefined)"
    "?n + 2 \<le> MAX_CVBUFFER_SIZE \<Longrightarrow> cv_storageData_short usLen (b, src) =
      (Ret True, (?b2\<lparr>m_Buffer := write_mem 2 bs (m_Buffer b1)\<rparr>, src'))"
    using shl src' lbs
    by (simp_all add: cv_storageData_short_def cv_storageData_def Let_def copy_in_def bs_def)
  show ?thesis
  proof (cases "?n + 2 \<le> MAX_CVBUFFER_SIZE")
    case True
    let ?b3 = "?b2\<lparr>m_Buffer := write_mem 2 bs (m_Buffer b1)\<rparr>"
    have o: "unat (m_uOffset ?b3) = 2 + ?n"
      by (simp, subst unat_add32) (use True n32 in simp_all)
    have "cv_unread ?b3 = read_mem 0 (2 + ?n) (write_mem 2 bs (m_Buffer b1))"
      using o by (simp add: cv_unread_def)
    also have "\<dots> = read_mem 0 2 (m_Buffer b1) @ bs"
      unfolding read_mem_add using read_mem_untouched [of 0 2 2 bs] read_mem_written [of 2 bs] lbs
      by (simp flip: numeral_2_eq_2)
    also have "read_mem 0 2 (m_Buffer b1) = wire_bytes (F16 usLen)"
      using b1(2,5) off by (simp add: cv_unread_def)
    finally have "cv_unread ?b3 = wire_bytes (F16 usLen) @ bs" .
    moreover have "cv_inv ?b3" using o True by (simp add: cv_inv_def)
    ultimately show ?thesis using eff(2) [OF True] src'(2) True by (auto simp: bs_def)
  next
    case False
    then show ?thesis using eff(1) by simp
  qed
qed

theorem cv_storageData_outcomes_witness:
  "\<exists>b' src'. cv_storageData_short 3 (cv_Clear \<lparr>m_Buffer = \<lambda>_. CHR ''x'', m_uOffset = 0, m_uGetOffset = 0\<rparr>,
      \<lparr>m_Buffer = \<lambda>_. CHR ''x'', m_uOffset = 9, m_uGetOffset = 2\<rparr>) = (Ret True, (b', src')) \<and> cv_inv b' \<and>
    cv_unread b' = [CHR 0x00, CHR 0x03] @ ''xxx'' \<and> cv_unread src' = ''xxxx''"
proof -
  let ?src = "\<lparr>m_Buffer = \<lambda>_. CHR ''x'', m_uOffset = 9, m_uGetOffset = 2\<rparr>"
  have src: "cv_unread ?src = ''xxxxxxx''" by (simp add: cv_unread_def read_mem_def upt_rec)
  have len: "wire_bytes (F16 3) = [CHR 0x00, CHR 0x03]" by code_simp
  show ?thesis
    using cv_storageData_outcomes [of ?src 3] src len
    by (simp add: cv_inv_def [of ?src] del: wire_bytes.simps)
qed

end
