(* ===== verification/Sockets.thy ===== *)
theory Sockets
  imports Std_Lib
begin

text \<open>
  The socket calls of the operating system as the code sees them, and \<open>src/common/anet.cpp\<close> on
  top of them. What the network and the kernel do is data: a queue of receive events (the chunk
  of bytes available at each call, the peer's close, an error number), a queue of write outcomes
  and, for connection set-up, the results of the individual calls. Every definition therefore
  covers every chunking and every interleaving of errors.
\<close>

section \<open>System calls\<close>

datatype errno = EINTR | EAGAIN | EINPROGRESS | EPIPE | EBADF | Eother string

text \<open>The messages of \<open>strerror\<close>; the redis wrapper compares against two of them.\<close>

fun strerror :: "errno \<Rightarrow> string" where
  "strerror EINTR = ''Interrupted system call''"
| "strerror EAGAIN = ''Resource temporarily unavailable''"
| "strerror EINPROGRESS = ''Operation now in progress''"
| "strerror EPIPE = ''Broken pipe''"
| "strerror EBADF = ''Bad file descriptor''"
| "strerror (Eother s) = s"

text \<open>\<open>Data c cs\<close>: the non-empty chunk \<open>c # cs\<close> is available; \<open>Closed\<close>: the peer has closed.\<close>

datatype rx = Data char string | Closed | Fail errno

text \<open>\<open>Took k\<close>: the kernel accepts at most \<open>k\<close> bytes; an empty queue accepts everything.\<close>

datatype wr = Took nat | Wfail errno

text \<open>A chunk put back at the front of a queue; an empty chunk is no event.\<close>

definition rx_put :: "string \<Rightarrow> rx list \<Rightarrow> rx list" where
  "rx_put bs q = (case bs of [] \<Rightarrow> q | c # cs \<Rightarrow> Data c cs # q)"

text \<open>
  \<open>recv(fd, buf, n, flags)\<close>: \<open>None\<close> when nothing is there, otherwise the bytes copied (none at all
  after a close, or for \<open>n = 0\<close>) or the error. \<open>MSG_PEEK\<close> leaves the bytes in the queue.
\<close>

fun sys_recv :: "nat \<Rightarrow> bool \<Rightarrow> rx list \<Rightarrow> (errno + string) option \<times> rx list" where
  "sys_recv n peek [] = (None, [])"
| "sys_recv n peek (Closed # q) = (Some (Inr []), Closed # q)"
| "sys_recv n peek (Fail e # q) = (Some (Inl e), q)"
| "sys_recv n peek (Data c cs # q) =
     (Some (Inr (take n (c # cs))),
      if peek then Data c cs # q else rx_put (drop n (c # cs)) q)"

text \<open>\<open>write(fd, buf, count)\<close>: the number of bytes taken, or the error.\<close>

fun sys_write :: "string \<Rightarrow> wr list \<Rightarrow> (errno + nat) \<times> wr list" where
  "sys_write buf [] = (Inr (length buf), [])"
| "sys_write buf (Took k # q) = (Inr (min k (length buf)), q)"
| "sys_write buf (Wfail e # q) = (Inl e, q)"

text \<open>The number of receive calls a queue can still answer, an upper bound for every read loop.\<close>

fun rx_size :: "rx list \<Rightarrow> nat" where
  "rx_size [] = 0"
| "rx_size (Data c cs # q) = Suc (length cs) + rx_size q"
| "rx_size (Closed # q) = Suc (rx_size q)"
| "rx_size (Fail e # q) = Suc (rx_size q)"

text \<open>The bytes a queue delivers, and queues that deliver without closing or failing.\<close>

fun rx_bytes :: "rx list \<Rightarrow> string" where
  "rx_bytes [] = []"
| "rx_bytes (Data c cs # q) = c # cs @ rx_bytes q"
| "rx_bytes (Closed # q) = rx_bytes q"
| "rx_bytes (Fail e # q) = rx_bytes q"

fun rx_quiet :: "rx list \<Rightarrow> bool" where
  "rx_quiet [] = True"
| "rx_quiet (Data c cs # q) = rx_quiet q"
| "rx_quiet (Fail e # q) = (e = EINTR \<and> rx_quiet q)"
| "rx_quiet (Closed # q) = False"

lemma rx_put_simps [simp]:
  "rx_size (rx_put bs q) = length bs + rx_size q"
  "rx_bytes (rx_put bs q) = bs @ rx_bytes q"
  "rx_quiet (rx_put bs q) = rx_quiet q"
  "rx_put [] q = q"
  by (simp_all add: rx_put_def split: list.split)

lemma sys_recv_size:
  assumes "sys_recv n False q = (Some (Inr (x # xs)), q')"
  shows "rx_size q' < rx_size q"
proof (cases q)
  case (Cons ev q0)
  then show ?thesis using assms by (cases ev; cases n) auto
qed (use assms in simp)

lemma sys_recv_bytes:
  assumes "sys_recv n False q = (Some (Inr bs), q')" "rx_quiet q"
  shows "rx_bytes q = bs @ rx_bytes q'" "rx_quiet q'" "length bs \<le> n"
proof -
  from assms obtain c cs q0 where q: "q = Data c cs # q0" "bs = take n (c # cs)"
    "q' = rx_put (drop n (c # cs)) q0"
    by (cases "(n, False, q)" rule: sys_recv.cases) auto
  then have "rx_bytes q = (take n (c # cs) @ drop n (c # cs)) @ rx_bytes q0"
    by (simp only: rx_bytes.simps append_take_drop_id append_Cons)
  then show "rx_bytes q = bs @ rx_bytes q'" using q by (simp only: rx_put_simps append.assoc)
  show "rx_quiet q'" "length bs \<le> n" using assms(2) q by simp_all
qed

section \<open>anetRead and anetWrite\<close>

text \<open>
  \<open>anetRead\<close> loops until \<open>count\<close> bytes are there: the result is the number of bytes read (short at
  the peer's close) or -1, with the bytes stored in \<open>buf\<close>; \<open>None\<close> while it waits. An interrupted
  call ends the loop with -1.
\<close>

function anetRead :: "nat \<Rightarrow> string \<Rightarrow> rx list \<Rightarrow> (int \<times> string) option \<times> rx list" where
  "anetRead count buf q =
     (if length buf = count then (Some (int count, buf), q)
      else case sys_recv (count - length buf) False q of
        (None, q') \<Rightarrow> (None, q')
      | (Some (Inl e), q') \<Rightarrow> (Some (-1, buf), q')
      | (Some (Inr []), q') \<Rightarrow> (Some (int (length buf), buf), q')
      | (Some (Inr (x # xs)), q') \<Rightarrow> anetRead count (buf @ x # xs) q')"
  by pat_completeness auto
termination
  by (relation "measure (\<lambda>(count, buf, q). rx_size q)") (auto dest: sys_recv_size [OF sym])

declare anetRead.simps [simp del]

text \<open>
  \<open>anetWrite\<close> loops until everything is written: the result is \<open>totlen\<close> (short when \<open>write\<close> takes
  nothing) or -1 with the error number, then what is left unwritten and the remaining outcomes.
  An interrupted write ends it with -1, after part of the data has gone out.
\<close>

function anetWrite :: "string \<Rightarrow> nat \<Rightarrow> wr list \<Rightarrow> (errno + nat) \<times> string \<times> wr list" where
  "anetWrite buf totlen q =
     (if buf = [] then (Inr totlen, [], q)
      else case sys_write buf q of
        (Inl e, q') \<Rightarrow> (Inl e, buf, q')
      | (Inr 0, q') \<Rightarrow> (Inr totlen, buf, q')
      | (Inr (Suc n), q') \<Rightarrow> anetWrite (drop (Suc n) buf) (totlen + Suc n) q')"
  by pat_completeness auto
termination
  by (relation "measure (\<lambda>(buf, totlen, q). length buf)") simp_all

declare anetWrite.simps [simp del]

text \<open>What has been written and what is left always make up the buffer, and a count is exact.\<close>

lemma anetWrite_split:
  assumes "anetWrite buf totlen q = (r, rest, q')"
  shows "\<exists>done. buf = done @ rest \<and> (\<forall>n. r = Inr n \<longrightarrow> n = totlen + length done)"
  using assms
proof (induction buf totlen q rule: anetWrite.induct)
  case (1 buf totlen q)
  show ?case
  proof (cases "buf = []")
    case True
    with "1.prems" show ?thesis by (auto simp: anetWrite.simps)
  next
    case ne: False
    obtain w q1 where w: "sys_write buf q = (w, q1)" by (cases "sys_write buf q")
    show ?thesis
    proof (cases "\<exists>n. w = Inr (Suc n)")
      case True
      then obtain n where n: "w = Inr (Suc n)" by blast
      then have "anetWrite (drop (Suc n) buf) (totlen + Suc n) q1 = (r, rest, q')"
        using "1.prems" ne w by (simp add: anetWrite.simps [of buf])
      from "1.IH" [OF ne w [symmetric] n refl this] obtain d where
        d: "drop (Suc n) buf = d @ rest" "\<forall>k. r = Inr k \<longrightarrow> k = totlen + Suc n + length d" by blast
      have "Suc n \<le> length buf"
        using w n by (cases "(buf, q)" rule: sys_write.cases) auto
      moreover have "buf = (take (Suc n) buf @ d) @ rest" using d(1) by (metis append.assoc append_take_drop_id)
      ultimately show ?thesis using d(2) by (intro exI [of _ "take (Suc n) buf @ d"]) auto
    next
      case False
      with "1.prems" ne w have "rest = buf" "\<forall>n. r = Inr n \<longrightarrow> n = totlen"
        by (auto simp: anetWrite.simps [of buf] split: sum.splits nat.splits)
      then show ?thesis by simp
    qed
  qed
qed

text \<open>A kernel that always makes progress takes the whole buffer.\<close>

lemma anetWrite_all:
  assumes "\<And>ev. ev \<in> set q \<Longrightarrow> \<exists>k. ev = Took (Suc k)"
  shows "\<exists>q'. anetWrite buf totlen q = (Inr (totlen + length buf), [], q') \<and> set q' \<subseteq> set q"
  using assms
proof (induction buf totlen q rule: anetWrite.induct)
  case (1 buf totlen q)
  show ?case
  proof (cases "buf = []")
    case True
    then show ?thesis by (simp add: anetWrite.simps)
  next
    case ne: False
    obtain n q1 where w: "sys_write buf q = (Inr (Suc n), q1)" "set q1 \<subseteq> set q" "Suc n \<le> length buf"
    proof (cases q)
      case Nil
      with ne show thesis by (intro that [of "length buf - 1" "[]"]) (cases buf, auto)+
    next
      case (Cons ev q0)
      with "1.prems" obtain k where "ev = Took (Suc k)" by (metis list.set_intros(1))
      with Cons ne show thesis
        by (intro that [of "min k (length buf - 1)" q0]) (cases buf, auto)+
    qed
    from "1.IH" [OF ne w(1) [symmetric] refl refl] "1.prems" w(2) obtain q' where
      "anetWrite (drop (Suc n) buf) (totlen + Suc n) q1
        = (Inr (totlen + Suc n + length (drop (Suc n) buf)), [], q')" "set q' \<subseteq> set q1" by blast
    with ne w show ?thesis by (auto simp: anetWrite.simps [of buf])
  qed
qed

end
