(* ===== verification/Redis_Wire.thy ===== *)
theory Redis_Wire
  imports Sockets
begin

text \<open>
  The wire layer of \<open>src/common/redisclient.h\<close>: connections, the command builder \<open>makecmd\<close>, the
  socket reads \<open>recv_or_throw\<close>, \<open>read_n\<close>, \<open>read_line\<close> and the reply readers \<open>recv_*_reply_\<close>. Boost is
  not part of the repository: \<open>boost::lexical_cast\<close> and the hash of the client's template parameter
  are fields of an environment record that every definition takes as an argument.
\<close>

section \<open>State and environment\<close>

record connection_data =
  con_host :: string
  con_port :: "16 word"
  con_dbindex :: int
  con_socket :: int

text \<open>\<open>connection_data::operator==\<close> leaves the socket out.\<close>

definition connection_eq :: "connection_data \<Rightarrow> connection_data \<Rightarrow> bool" where
  "connection_eq a b \<longleftrightarrow>
     (if con_host a \<noteq> con_host b then False
      else if con_port a \<noteq> con_port b then False
      else if con_dbindex a \<noteq> con_dbindex b then False
      else True)"

text \<open>The integer types the templates are used with.\<close>

datatype int_ty = I16 | U16 | I32 | U32 | I64 | U64

text \<open>
  \<open>lex_int t s\<close> is \<open>lexical_cast<t>(s)\<close>, \<open>None\<close> for \<open>bad_lexical_cast\<close>; \<open>show_int\<close> and \<open>show_double\<close>
  are \<open>lexical_cast<std::string>\<close>; \<open>hasher\<close> is the template parameter \<open>CONSISTENT_HASHER\<close>.
\<close>

record 'd env =
  lex_int :: "int_ty \<Rightarrow> string \<Rightarrow> int option"
  show_int :: "int \<Rightarrow> string"
  lex_double :: "string \<Rightarrow> 'd option"
  show_double :: "'d \<Rightarrow> string"
  hasher :: "string \<Rightarrow> connection_data list \<Rightarrow> nat"

text \<open>
  The client's connections and, for every socket, the receive events to come, the write outcomes
  to come and the bytes written so far; the sockets closed, and the outcomes of the connection
  attempts to come: a socket, or the text \<open>anetTcpConnect\<close> leaves in \<open>err\<close>.
\<close>

record redis_io =
  connections :: "connection_data list"
  rxq :: "int \<Rightarrow> rx list"
  wrq :: "int \<Rightarrow> wr list"
  sent :: "int \<Rightarrow> string"
  dials :: "(string + int) list"
  closed_fds :: "int list"

type_synonym 'a redis = "(redis_io, 'a) proc"

text \<open>A read on a descriptor that was never opened (-1) fails with \<open>EBADF\<close>.\<close>

definition on_rx :: "int \<Rightarrow> (rx list \<Rightarrow> 'a result \<times> rx list) \<Rightarrow> 'a redis" where
  "on_rx fd f = (\<lambda>w.
     if fd < 0 then (fst (f [Fail EBADF]), w)
     else case f (rxq w fd) of (r, q) \<Rightarrow> (r, w\<lparr>rxq := (rxq w)(fd := q)\<rparr>))"

text \<open>Signed arithmetic on \<open>long\<close>: an overflow is undefined; narrowing to \<open>int\<close> wraps.\<close>

definition long_max :: int where "long_max = 9223372036854775807"

definition add_long :: "int \<Rightarrow> int \<Rightarrow> int result" where
  "add_long a b = (if - long_max - 1 \<le> a + b \<and> a + b \<le> long_max then Ret (a + b) else Stuck Undefined)"

definition narrow_int :: "int \<Rightarrow> int" where
  "narrow_int n = sint (word_of_int n :: 32 word)"

section \<open>makecmd\<close>

record makecmd =
  mc_lines :: "string list"
  mc_key_name :: "string option"

definition makecmd_new :: "string \<Rightarrow> makecmd" where
  "makecmd_new cmd_name = \<lparr>mc_lines = [cmd_name], mc_key_name = None\<rparr>"

definition mc_append :: "string \<Rightarrow> makecmd \<Rightarrow> makecmd" where
  "mc_append param m = m\<lparr>mc_lines := mc_lines m @ [param]\<rparr>"

definition mc_key_of :: "makecmd \<Rightarrow> string result" where
  "mc_key_of m = (case mc_key_name m of
     None \<Rightarrow> Exn (Runtime_error ''No key defined!'') | Some k \<Rightarrow> Ret k)"

text \<open>The stream operators: for \<open>redis::key\<close>, strings, numbers and vectors of strings or numbers.\<close>

definition mc_key :: "string \<Rightarrow> makecmd \<Rightarrow> makecmd result" where
  "mc_key name m = (case mc_key_name m of
     Some k \<Rightarrow> Exn (Runtime_error ''You could not add a second key'')
   | None \<Rightarrow> Ret (mc_append name (m\<lparr>mc_key_name := Some name\<rparr>)))"

definition mc_str :: "string \<Rightarrow> makecmd \<Rightarrow> makecmd" where
  "mc_str datum m = mc_append datum m"

definition mc_int :: "'d env \<Rightarrow> int \<Rightarrow> makecmd \<Rightarrow> makecmd" where
  "mc_int E datum m = mc_append (show_int E datum) m"

definition mc_double :: "'d env \<Rightarrow> 'd \<Rightarrow> makecmd \<Rightarrow> makecmd" where
  "mc_double E datum m = mc_append (show_double E datum) m"

definition mc_strs :: "string list \<Rightarrow> makecmd \<Rightarrow> makecmd" where
  "mc_strs data m = m\<lparr>mc_lines := mc_lines m @ data\<rparr>"

definition mc_doubles :: "'d env \<Rightarrow> 'd list \<Rightarrow> makecmd \<Rightarrow> makecmd" where
  "mc_doubles E data m = fold (\<lambda>d. mc_append (show_double E d)) data m"

text \<open>\<open>operator std::string\<close>: the multi bulk request.\<close>

definition CRLF :: string where "CRLF = [CR, LF]"

definition bulk_param :: "string \<Rightarrow> string" where
  "bulk_param param = CHR ''$'' # dec (length param) @ CRLF @ param @ CRLF"

definition request_bytes :: "string list \<Rightarrow> string" where
  "request_bytes lines =
     CHR ''*'' # dec (length lines) @ CRLF @ concat (map bulk_param lines)"

definition makecmd_string :: "makecmd \<Rightarrow> string" where
  "makecmd_string m = request_bytes (mc_lines m)"

lemmas mc_simps = makecmd_new_def mc_str_def mc_int_def mc_double_def mc_strs_def mc_append_def

lemma mc_doubles_lines:
  "mc_lines (mc_doubles E ds m) = mc_lines m @ map (show_double E) ds"
  "mc_key_name (mc_doubles E ds m) = mc_key_name m"
  by (induction ds arbitrary: m) (simp_all add: mc_doubles_def mc_append_def)

section \<open>Reading from a socket\<close>

lemma sys_recv_Fail: "sys_recv n peek q = (Some (Inl e), q') \<Longrightarrow> length q' < length q"
  by (cases "(n, peek, q)" rule: sys_recv.cases) auto

function recv_or_throw :: "nat \<Rightarrow> bool \<Rightarrow> rx list \<Rightarrow> string result \<times> rx list" where
  "recv_or_throw n peek q = (case sys_recv n peek q of
     (None, q') \<Rightarrow> (Stuck Blocked, q')
   | (Some (Inl e), q') \<Rightarrow>
       if e = EINTR then recv_or_throw n peek q'
       else (Exn (Connection_error (''recv error: '' @ strerror e)), q')
   | (Some (Inr bs), q') \<Rightarrow>
       if bs = [] then (Exn (Connection_error ''connection was closed''), q') else (Ret bs, q'))"
  by pat_completeness auto
termination
  by (relation "measure (\<lambda>(n, peek, q). length q)") (auto dest: sys_recv_Fail [OF sym])

declare recv_or_throw.simps [simp del]

lemma recv_or_throw_simps [simp]:
  "recv_or_throw n peek [] = (Stuck Blocked, [])"
  "recv_or_throw n peek (Closed # q) = (Exn (Connection_error ''connection was closed''), Closed # q)"
  "recv_or_throw n peek (Fail e # q) =
     (if e = EINTR then recv_or_throw n peek q
      else (Exn (Connection_error (''recv error: '' @ strerror e)), q))"
  "0 < n \<Longrightarrow> recv_or_throw n peek (Data c cs # q) =
     (Ret (take n (c # cs)), if peek then Data c cs # q else rx_put (drop n (c # cs)) q)"
  by (simp_all add: recv_or_throw.simps)

text \<open>A successful read leaves less to read; a successful peek leaves a chunk of at least its length.\<close>

lemma recv_or_throw_size:
  assumes "recv_or_throw n False q = (Ret bs, q')" "0 < n"
  shows "bs \<noteq> [] \<and> length bs \<le> n \<and> rx_size q' + length bs \<le> rx_size q"
  using assms
proof (induction q rule: rx_size.induct)
  case (2 c cs q)
  then show ?case by (cases n) (auto simp: min_def)
qed (auto split: if_splits)

lemma recv_or_throw_peek:
  assumes "recv_or_throw n True q = (Ret bs, q')" "0 < n"
  shows "\<exists>c cs q0. q' = Data c cs # q0 \<and> bs = take n (c # cs) \<and> rx_size q' \<le> rx_size q"
  using assms
proof (induction q rule: rx_size.induct)
  case (4 e q)
  then show ?case by (force split: if_splits)
qed auto

lemma recv_or_throw_after_peek:
  assumes "recv_or_throw n True q = (Ret bs, q1)" "0 < n" "0 < m" "m \<le> length bs"
  shows "\<exists>q2. recv_or_throw m False q1 = (Ret (take m bs), q2) \<and>
    rx_bytes q1 = take m bs @ rx_bytes q2 \<and> rx_quiet q1 = rx_quiet q2 \<and> rx_size q2 < rx_size q"
proof -
  obtain c cs q0 where q1: "q1 = Data c cs # q0" "bs = take n (c # cs)" "rx_size q1 \<le> rx_size q"
    using recv_or_throw_peek [OF assms(1,2)] by blast
  have "m \<le> n" using assms(4) q1(2) by simp
  then have "take m (c # cs) = take m bs" using q1(2) by (simp add: take_take min_absorb1)
  then have "recv_or_throw m False q1 = (Ret (take m bs), rx_put (drop m (c # cs)) q0)"
    using assms(3) q1(1) by simp
  moreover have "rx_bytes q1 = take m bs @ rx_bytes (rx_put (drop m (c # cs)) q0)"
    using \<open>take m (c # cs) = take m bs\<close> append_take_drop_id [of m "c # cs"] q1(1)
    by (metis append.assoc append_Cons rx_bytes.simps(2) rx_put_simps(2))
  moreover have "rx_size (rx_put (drop m (c # cs)) q0) < rx_size q1"
    using assms(3) q1(1) by simp
  ultimately show ?thesis using q1 by (intro exI [of _ "rx_put (drop m (c # cs)) q0"]) simp
qed

function read_n_loop :: "nat \<Rightarrow> string \<Rightarrow> rx list \<Rightarrow> string result \<times> rx list" where
  "read_n_loop n buffer q =
     (if length buffer < n then
        (case recv_or_throw (n - length buffer) False q of
           (Ret bs, q') \<Rightarrow> read_n_loop n (buffer @ bs) q'
         | (Exn e, q') \<Rightarrow> (Exn e, q')
         | (Stuck k, q') \<Rightarrow> (Stuck k, q'))
      else (Ret buffer, q))"
  by pat_completeness auto
termination
proof (relation "measure (\<lambda>(n, buffer, q). rx_size q)", goal_cases)
  case (2 n buffer q r q' bs)
  then have "recv_or_throw (n - length buffer) False q = (Ret bs, q')" "0 < n - length buffer" by auto
  from recv_or_throw_size [OF this] show ?case by (cases bs) auto
qed simp

declare read_n_loop.simps [simp del]

text \<open>
  \<open>read_n\<close>: a negative count makes \<open>vector<char> buffer(n)\<close> throw; for 0 the loop does not run and the
  string is empty.
\<close>

definition read_n :: "int \<Rightarrow> int \<Rightarrow> string redis" where
  "read_n socket n =
     (if n < 0 then mthrow Length_error else on_rx socket (read_n_loop (nat n) []))"

text \<open>
  The loop of \<open>read_line\<close>: peek at up to 64 bytes, take them up to and including the first line feed.
  \<open>total_bytes_read\<close> is compared with \<open>max_size\<close> in every round, and no round changes it.
\<close>

function read_line_loop :: "int \<Rightarrow> int \<Rightarrow> string \<Rightarrow> rx list \<Rightarrow> string result \<times> rx list" where
  "read_line_loop max_size total_bytes_read oss q =
     (if total_bytes_read < max_size then
        (case recv_or_throw 64 True q of
           (Ret buffer, q1) \<Rightarrow>
             (case find_first LF buffer of
                Some eol \<Rightarrow>
                  (case recv_or_throw (eol + 1) False q1 of
                     (Ret bs, q2) \<Rightarrow> (Ret (oss @ take (eol + 1) buffer), q2)
                   | (Exn e, q2) \<Rightarrow> (Exn e, q2)
                   | (Stuck k, q2) \<Rightarrow> (Stuck k, q2))
              | None \<Rightarrow>
                  (case recv_or_throw (length buffer) False q1 of
                     (Ret bs, q2) \<Rightarrow> read_line_loop max_size total_bytes_read (oss @ buffer) q2
                   | (Exn e, q2) \<Rightarrow> (Exn e, q2)
                   | (Stuck k, q2) \<Rightarrow> (Stuck k, q2)))
         | (Exn e, q1) \<Rightarrow> (Exn e, q1)
         | (Stuck k, q1) \<Rightarrow> (Stuck k, q1))
      else (Ret oss, q))"
  by pat_completeness auto
termination
proof (relation "measure (\<lambda>(max_size, total, oss, q). rx_size q)", goal_cases)
  case (2 max_size total oss q r q1 buffer r' q2 bs)
  then have peek: "recv_or_throw 64 True q = (Ret buffer, q1)"
    and rd: "recv_or_throw (length buffer) False q1 = (Ret bs, q2)" by auto
  from recv_or_throw_peek [OF peek] have "0 < length buffer" by auto
  with recv_or_throw_after_peek [OF peek, of "length buffer"] rd show ?case by auto
qed simp

declare read_line_loop.simps [simp del]

definition read_line_max :: "int \<Rightarrow> int \<Rightarrow> string redis" where
  "read_line_max socket max_size =
     mseq (massert (socket > 0)) (mseq (massert (max_size > 0))
       (mbind (on_rx socket (read_line_loop max_size 0 []))
         (\<lambda>line. mret (rtrim CRLF line))))"

definition read_line :: "int \<Rightarrow> string redis" where
  "read_line socket = read_line_max socket 2048"

section \<open>Reads do not depend on the chunks\<close>

text \<open>On a queue that neither closes nor fails a read makes progress whenever a byte is to come.\<close>

lemma recv_or_throw_quiet:
  assumes "rx_quiet q" "rx_bytes q \<noteq> []" "0 < n"
  shows "\<exists>bs q'. recv_or_throw n False q = (Ret bs, q') \<and> bs \<noteq> [] \<and> length bs \<le> n \<and>
    rx_bytes q = bs @ rx_bytes q' \<and> rx_quiet q'"
  using assms
proof (induction q rule: rx_bytes.induct)
  case (2 c cs q)
  have "c # cs @ rx_bytes q = take n (c # cs) @ drop n (c # cs) @ rx_bytes q"
    using append_take_drop_id [of n "c # cs"] by (metis append.assoc append_Cons)
  then show ?case using 2 by (simp add: min_le_iff_disj)
qed auto

lemma recv_or_throw_peek_quiet:
  assumes "rx_quiet q" "rx_bytes q \<noteq> []" "0 < n"
  shows "\<exists>bs q'. recv_or_throw n True q = (Ret bs, q') \<and> bs \<noteq> [] \<and>
    (\<exists>more. rx_bytes q = bs @ more) \<and> rx_bytes q' = rx_bytes q \<and> rx_quiet q'"
  using assms
proof (induction q rule: rx_bytes.induct)
  case (2 c cs q)
  have "c # cs @ rx_bytes q = take n (c # cs) @ drop n (c # cs) @ rx_bytes q"
    using append_take_drop_id [of n "c # cs"] by (metis append.assoc append_Cons)
  then have "\<exists>more. c # cs @ rx_bytes q = take n (c # cs) @ more" by blast
  then show ?case using 2 by simp
qed auto

lemma read_n_loop_quiet:
  assumes "rx_quiet q" "rx_bytes q = bs @ rest" "length buffer + length bs = n"
  shows "\<exists>q'. read_n_loop n buffer q = (Ret (buffer @ bs), q') \<and> rx_quiet q' \<and> rx_bytes q' = rest"
  using assms
proof (induction n buffer q arbitrary: bs rule: read_n_loop.induct)
  case (1 n buffer q)
  show ?case
  proof (cases "bs = []")
    case True
    with "1.prems" show ?thesis by (subst read_n_loop.simps) simp
  next
    case False
    with "1.prems" have lt: "length buffer < n" and "rx_bytes q \<noteq> []" by auto
    with "1.prems"(1) obtain b q1 where b: "recv_or_throw (n - length buffer) False q = (Ret b, q1)"
      "length b \<le> n - length buffer" "rx_bytes q = b @ rx_bytes q1" "rx_quiet q1"
      using recv_or_throw_quiet [of q "n - length buffer"] by auto
    have "length b \<le> length bs" using b(2) "1.prems"(3) by simp
    then obtain bs' where bs': "bs = b @ bs'" "rx_bytes q1 = bs' @ rest"
      using b(3) "1.prems"(2) by (auto simp: append_eq_append_conv2)
    from "1.IH" [OF lt b(1) [symmetric] refl b(4) bs'(2)] "1.prems"(3) bs'(1)
    show ?thesis using lt b(1) by (subst read_n_loop.simps) simp
  qed
qed

lemma read_line_loop_quiet:
  assumes "rx_quiet q" "rx_bytes q = l @ LF # rest" "LF \<notin> set l" "tot < max_size"
  shows "\<exists>q'. read_line_loop max_size tot oss q = (Ret (oss @ l @ [LF]), q') \<and>
    rx_quiet q' \<and> rx_bytes q' = rest"
  using assms
proof (induction max_size tot oss q arbitrary: l rule: read_line_loop.induct)
  case (1 max_size tot oss q)
  obtain b q1 more where peek: "recv_or_throw 64 True q = (Ret b, q1)" "b \<noteq> []"
    "rx_bytes q = b @ more" "rx_bytes q1 = rx_bytes q" "rx_quiet q1"
    using recv_or_throw_peek_quiet [of q 64] "1.prems" by auto
  show ?case
  proof (cases "find_first LF b")
    case None
    obtain q2 where q2: "recv_or_throw (length b) False q1 = (Ret b, q2)"
      "rx_bytes q1 = b @ rx_bytes q2" "rx_quiet q2"
      using recv_or_throw_after_peek [OF peek(1), of "length b"] peek(2,5) by auto
    have "b @ more = l @ LF # rest" "LF \<notin> set b" using peek(3) "1.prems"(2) None by auto
    then obtain l' where l': "l = b @ l'" "more = l' @ LF # rest"
      by (auto simp: append_eq_append_conv2 append_eq_Cons_conv)
    have bytes: "rx_bytes q2 = l' @ LF # rest" using q2(2) peek(3,4) l'(2) by simp
    have nl: "LF \<notin> set l'" using "1.prems"(3) l'(1) by simp
    show ?thesis
      using "1.IH" [OF "1.prems"(4) peek(1) [symmetric] refl None q2(1) [symmetric] refl q2(3) bytes nl "1.prems"(4)]
        "1.prems"(4) peek(1) q2(1) l'(1)
      by (subst read_line_loop.simps) (simp add: None del: find_first_None)
  next
    case (Some eol)
    then have eol: "eol < length b" "b ! eol = LF" "LF \<notin> set (take eol b)" by (auto dest: find_first_Some)
    obtain q2 where q2: "recv_or_throw (eol + 1) False q1 = (Ret (take (eol + 1) b), q2)"
      "rx_bytes q1 = take (eol + 1) b @ rx_bytes q2" "rx_quiet q2"
      using recv_or_throw_after_peek [OF peek(1), of "eol + 1"] peek(5) eol(1) by auto
    have tk: "take (eol + 1) b = take eol b @ [LF]" using eol(1,2) by (simp add: take_Suc_conv_app_nth)
    have "take eol b @ LF # rx_bytes q2 = l @ LF # rest" using q2(2) peek(4) "1.prems"(2) tk by simp
    then have "take eol b = l" "rx_bytes q2 = rest"
      using split_at_char [OF _ eol(3) "1.prems"(3)] by simp_all
    then show ?thesis using "1.prems"(4) peek(1) Some q2 tk by (subst read_line_loop.simps) simp
  qed
qed

end
