(* ===== verification/Redis_Reply.thy ===== *)
theory Redis_Reply
  imports Redis_Wire
begin

text \<open>
  The second half of the wire layer of \<open>src/common/redisclient.h\<close>: \<open>send_\<close>, the reply readers, the
  routing of a key to a socket, and the class \<open>command\<close>. The lemmas compose: \<open>reads fd m bs r\<close> says
  that the reader \<open>m\<close> consumes exactly the bytes \<open>bs\<close> with outcome \<open>r\<close>, whatever the chunks the bytes
  arrive in and however often a call is interrupted.
\<close>

section \<open>Sending\<close>

text \<open>\<open>send_\<close>: a write that ends short of the message is taken for success.\<close>

definition redis_send :: "int \<Rightarrow> string \<Rightarrow> unit redis" where
  "redis_send socket msg = (\<lambda>w.
     case anetWrite msg 0 (if socket < 0 then [Wfail EBADF] else wrq w socket) of
       (r, rest, q) \<Rightarrow>
         (case r of Inl e \<Rightarrow> Exn (Connection_error (strerror e)) | Inr n \<Rightarrow> Ret (),
          if socket < 0 then w
          else w\<lparr>wrq := (wrq w)(socket := q),
                 sent := (sent w)(socket := sent w socket @ take (length msg - length rest) msg)\<rparr>))"

definition send_cmd :: "int \<Rightarrow> makecmd \<Rightarrow> unit redis" where
  "send_cmd socket m = redis_send socket (makecmd_string m)"

section \<open>Reply readers\<close>

abbreviation lexical_cast :: "'d env \<Rightarrow> int_ty \<Rightarrow> string \<Rightarrow> int redis" where
  "lexical_cast E ty s \<equiv> mlift (case lex_int E ty s of Some n \<Rightarrow> Ret n | None \<Rightarrow> Exn Bad_lexical_cast)"

definition missing_value :: string where
  "missing_value = ''**nonexistent-key**''"

definition error_prefix :: string where
  "error_prefix = ''-ERR ''"

definition starts_with :: "string \<Rightarrow> string \<Rightarrow> bool" where
  "starts_with p s \<longleftrightarrow> take (length p) s = p"

definition protocol_error :: "string \<Rightarrow> ('s, 'a) proc" where
  "protocol_error m = mthrow (Protocol_error m)"

definition recv_single_line_reply :: "int \<Rightarrow> string redis" where
  "recv_single_line_reply socket =
     mbind (read_line socket) (\<lambda>line.
       if line = [] then protocol_error ''empty single line reply''
       else if starts_with error_prefix line then
         (let error_msg = drop (length error_prefix) line in
            protocol_error (if error_msg = [] then ''unknown error'' else error_msg))
       else if hd line \<noteq> CHR ''+'' then protocol_error ''unexpected prefix for status reply''
       else mret (tl line))"

definition recv_ok_reply :: "int \<Rightarrow> unit redis" where
  "recv_ok_reply socket =
     mbind (recv_single_line_reply socket) (\<lambda>s.
       if s \<noteq> ''OK'' then protocol_error ''expected OK response'' else mret ())"

text \<open>\<open>recv_bulk_reply_(socket, prefix)\<close>; \<open>line[0]\<close> of an empty line is the null byte.\<close>

definition recv_bulk_hdr :: "'d env \<Rightarrow> int \<Rightarrow> char \<Rightarrow> int redis" where
  "recv_bulk_hdr E socket prefix =
     mbind (read_line socket) (\<lambda>line.
       if (case line of [] \<Rightarrow> CHR 0x00 | c # _ \<Rightarrow> c) \<noteq> prefix
       then protocol_error ''unexpected prefix for bulk reply''
       else lexical_cast E I64 (tl line))"

definition recv_bulk_reply :: "'d env \<Rightarrow> int \<Rightarrow> string redis" where
  "recv_bulk_reply E socket =
     mbind (recv_bulk_hdr E socket CHR ''$'') (\<lambda>length'.
       if length' = -1 then mret missing_value
       else mbind (mlift (add_long length' 2)) (\<lambda>real_length.
         mbind (read_n socket real_length) (\<lambda>data.
           if data = [] then protocol_error ''invalid bulk reply data; empty''
           else if int (length data) \<noteq> real_length
             then protocol_error ''invalid bulk reply data; data of unexpected length''
           else if length data < 2 then mthrow Out_of_range
           else mret (take (length data - 2) data))))"

text \<open>The first element of \<open>recv_multi_bulk_*\<close> is the return value, the second the out parameter.\<close>

definition recv_multi_bulk_vec :: "'d env \<Rightarrow> int \<Rightarrow> string list \<Rightarrow> (int \<times> string list) redis" where
  "recv_multi_bulk_vec E socket out =
     mbind (recv_bulk_hdr E socket CHR ''*'') (\<lambda>len.
       if len = -1 then mthrow (Key_error ''no such key'')
       else if int (length out) + len < 0 then mthrow Length_error
       else mbind (mfold (\<lambda>_ out. mbind (recv_bulk_reply E socket) (\<lambda>v. mret (out @ [v])))
                    [0..<nat len] out) (\<lambda>out. mret (len, out)))"

definition recv_multi_bulk_set :: "'d env \<Rightarrow> int \<Rightarrow> string list \<Rightarrow> (int \<times> string list) redis" where
  "recv_multi_bulk_set E socket out =
     mbind (recv_bulk_hdr E socket CHR ''*'') (\<lambda>len.
       if len = -1 then mthrow (Key_error ''no such key'')
       else mbind (mfold (\<lambda>_ out. mbind (recv_bulk_reply E socket) (\<lambda>v. mret (insort_insert v out)))
                    [0..<nat len] out) (\<lambda>out. mret (len, out)))"

definition recv_int_reply_ty :: "'d env \<Rightarrow> int_ty \<Rightarrow> int \<Rightarrow> int redis" where
  "recv_int_reply_ty E ty socket =
     mbind (read_line socket) (\<lambda>line.
       if line = [] then protocol_error ''invalid integer reply; empty''
       else if hd line \<noteq> CHR '':'' then protocol_error ''unexpected prefix for integer reply''
       else lexical_cast E ty (tl line))"

definition recv_int_reply :: "'d env \<Rightarrow> int \<Rightarrow> int redis" where
  "recv_int_reply E socket =
     mbind (read_line socket) (\<lambda>line.
       if line = [] then protocol_error ''invalid integer reply; empty''
       else if hd line \<noteq> CHR '':'' then protocol_error ''unexpected prefix for integer reply''
       else lexical_cast E I64 (tl line))"

definition recv_int_ok_reply :: "'d env \<Rightarrow> int \<Rightarrow> unit redis" where
  "recv_int_ok_reply E socket =
     mbind (recv_int_reply E socket) (\<lambda>n.
       if n \<noteq> 1 then protocol_error ''expecting int reply of 1'' else mret ())"

section \<open>Generic replies and the class command\<close>

datatype reply_t = no_reply | status_code_reply | error_reply | int_reply | bulk_reply | multi_bulk_reply

datatype reply_val = Vstring string | Vint int | Vvector "string list"

type_synonym reply_data = "reply_t \<times> reply_val"

definition next_reply_type :: "int \<Rightarrow> reply_t redis" where
  "next_reply_type socket =
     mbind (on_rx socket (recv_or_throw 1 True)) (\<lambda>reply_prefix.
       let c = hd reply_prefix in
       if c = CHR ''+'' then mret status_code_reply
       else if c = CHR ''-'' then mret error_reply
       else if c = CHR '':'' then mret int_reply
       else if c = CHR ''$'' then mret bulk_reply
       else if c = CHR ''*'' then mret multi_bulk_reply
       else mthrow (Runtime_error ''invalid/unknown rely type from redis server''))"

text \<open>\<open>s.substr(n)\<close> throws when \<open>n\<close> is past the end.\<close>

definition substr_from :: "nat \<Rightarrow> string \<Rightarrow> string result" where
  "substr_from n s = (if n \<le> length s then Ret (drop n s) else Exn Out_of_range)"

definition recv_generic_reply :: "'d env \<Rightarrow> int \<Rightarrow> reply_data redis" where
  "recv_generic_reply E socket =
     mbind (next_reply_type socket) (\<lambda>ty.
       case ty of
         status_code_reply \<Rightarrow>
           mbind (read_line socket) (\<lambda>line.
             mbind (mlift (substr_from 1 line)) (\<lambda>s. mret (ty, Vstring s)))
       | error_reply \<Rightarrow>
           mbind (read_line socket) (\<lambda>line.
             mbind (mlift (substr_from (length error_prefix) line)) (\<lambda>s. mret (ty, Vstring s)))
       | int_reply \<Rightarrow>
           mbind (recv_int_reply E socket) (\<lambda>n. mret (ty, Vint (narrow_int n)))
       | bulk_reply \<Rightarrow>
           mbind (recv_bulk_reply E socket) (\<lambda>s. mret (ty, Vstring s))
       | multi_bulk_reply \<Rightarrow>
           mbind (recv_multi_bulk_vec E socket []) (\<lambda>(n, v). mret (ty, Vvector v))
       | no_reply \<Rightarrow> mstuck Assert_failed)"

record command =
  cm_request :: string
  cm_hash_key :: string
  cm_reply :: reply_data

definition command_new :: "makecmd \<Rightarrow> command result" where
  "command_new cmd_input = (case mc_key_of cmd_input of
     Ret k \<Rightarrow> Ret \<lparr>cm_request = makecmd_string cmd_input, cm_hash_key = k,
                   cm_reply = (no_reply, Vstring [])\<rparr>
   | Exn e \<Rightarrow> Exn e
   | Stuck k \<Rightarrow> Stuck k)"

definition reply_type :: "command \<Rightarrow> reply_t" where
  "reply_type c = fst (cm_reply c)"

definition set_reply :: "reply_data \<Rightarrow> command \<Rightarrow> command" where
  "set_reply r c = c\<lparr>cm_reply := r\<rparr>"

definition check_reply_t :: "reply_t \<Rightarrow> command \<Rightarrow> unit result" where
  "check_reply_t t c =
     (if fst (cm_reply c) \<noteq> t then Exn (Runtime_error ''invalid reply type'') else Ret ())"

text \<open>The getters; \<open>boost::get\<close> would throw for a payload of another type, \<open>Bad_get\<close> below.\<close>

definition get_status_code_reply :: "command \<Rightarrow> string result" where
  "get_status_code_reply c = (case check_reply_t status_code_reply c of
     Ret _ \<Rightarrow> (case snd (cm_reply c) of Vstring s \<Rightarrow> Ret s | _ \<Rightarrow> Exn Bad_get)
   | Exn e \<Rightarrow> Exn e | Stuck k \<Rightarrow> Stuck k)"

definition get_error_reply :: "command \<Rightarrow> string result" where
  "get_error_reply c = (case check_reply_t error_reply c of
     Ret _ \<Rightarrow> (case snd (cm_reply c) of Vstring s \<Rightarrow> Ret s | _ \<Rightarrow> Exn Bad_get)
   | Exn e \<Rightarrow> Exn e | Stuck k \<Rightarrow> Stuck k)"

definition get_int_reply :: "command \<Rightarrow> int result" where
  "get_int_reply c = (case check_reply_t int_reply c of
     Ret _ \<Rightarrow> (case snd (cm_reply c) of Vint n \<Rightarrow> Ret n | _ \<Rightarrow> Exn Bad_get)
   | Exn e \<Rightarrow> Exn e | Stuck k \<Rightarrow> Stuck k)"

definition get_bulk_reply :: "command \<Rightarrow> string result" where
  "get_bulk_reply c = (case check_reply_t bulk_reply c of
     Ret _ \<Rightarrow> (case snd (cm_reply c) of Vstring s \<Rightarrow> Ret s | _ \<Rightarrow> Exn Bad_get)
   | Exn e \<Rightarrow> Exn e | Stuck k \<Rightarrow> Stuck k)"

definition get_multi_bulk_reply :: "command \<Rightarrow> string list result" where
  "get_multi_bulk_reply c = (case check_reply_t multi_bulk_reply c of
     Ret _ \<Rightarrow> (case snd (cm_reply c) of Vvector v \<Rightarrow> Ret v | _ \<Rightarrow> Exn Bad_get)
   | Exn e \<Rightarrow> Exn e | Stuck k \<Rightarrow> Stuck k)"

section \<open>Routing\<close>

definition con_at :: "nat \<Rightarrow> connection_data redis" where
  "con_at idx = (\<lambda>w. (if idx < length (connections w) then Ret (connections w ! idx) else Stuck Undefined, w))"

text \<open>\<open>get_socket\<close>; an index past the end of the vector is undefined.\<close>

definition route :: "'d env \<Rightarrow> connection_data list \<Rightarrow> string \<Rightarrow> int result" where
  "route E cons key =
     (if length cons = 1 then Ret (con_socket (cons ! 0))
      else let idx = hasher E key cons in
        if idx < length cons then Ret (con_socket (cons ! idx)) else Stuck Undefined)"

definition get_socket :: "'d env \<Rightarrow> string \<Rightarrow> int redis" where
  "get_socket E key = (\<lambda>w. (route E (connections w) key, w))"

primrec sockets_agree :: "'d env \<Rightarrow> string list \<Rightarrow> int \<Rightarrow> int redis" where
  "sockets_agree E [] socket = mret socket"
| "sockets_agree E (k # ks) socket =
     mbind (get_socket E k) (\<lambda>cur_socket.
       if socket \<noteq> cur_socket then mret (-1) else sockets_agree E ks cur_socket)"

definition get_socket_vec :: "'d env \<Rightarrow> string list \<Rightarrow> int redis" where
  "get_socket_vec E keys =
     mseq (massert (keys \<noteq> [])) (\<lambda>w.
       (if length (connections w) = 1 then mret (con_socket (connections w ! 0))
        else case keys of
          [] \<Rightarrow> mret (-1)
        | k # ks \<Rightarrow> mbind (get_socket E k) (\<lambda>s. sockets_agree E ks s)) w)"

text \<open>\<open>default_hasher\<close>: \<open>boost::hash\<close> is a parameter; an empty vector divides by zero.\<close>

definition default_hasher :: "(string \<Rightarrow> nat) \<Rightarrow> string \<Rightarrow> connection_data list \<Rightarrow> nat" where
  "default_hasher boost_hash key cons = boost_hash key mod length cons"

section \<open>Readers and the bytes they consume\<close>

definition rx_ready :: "int \<Rightarrow> string \<Rightarrow> redis_io \<Rightarrow> bool" where
  "rx_ready fd bs w \<longleftrightarrow> rx_quiet (rxq w fd) \<and> rx_bytes (rxq w fd) = bs"

definition reads :: "int \<Rightarrow> 'a redis \<Rightarrow> string \<Rightarrow> 'a result \<Rightarrow> bool" where
  "reads fd m bs r \<longleftrightarrow> (\<forall>w rest. rx_ready fd (bs @ rest) w \<longrightarrow>
     (\<exists>q. m w = (r, w\<lparr>rxq := (rxq w)(fd := q)\<rparr>) \<and> rx_quiet q \<and> rx_bytes q = rest))"

named_theorems reads_intros \<open>rules for what a reader consumes\<close>

lemma readsD:
  assumes "reads fd m bs r" "rx_ready fd (bs @ rest) w"
  obtains q where "m w = (r, w\<lparr>rxq := (rxq w)(fd := q)\<rparr>)" "rx_quiet q" "rx_bytes q = rest"
  using assms unfolding reads_def by blast

lemma reads_result: "reads fd m bs r \<Longrightarrow> rx_ready fd bs w \<Longrightarrow> fst (m w) = r"
  by (metis append_Nil2 fst_conv readsD)

lemma reads_pure [reads_intros]:
  "reads fd (mret a) [] (Ret a)" "reads fd (mthrow e) [] (Exn e)" "reads fd (mlift r) [] r"
  unfolding reads_def rx_ready_def mret_def mthrow_def mlift_def
  by (auto intro!: exI [of _ "rxq _ fd"])

lemma reads_mbind:
  assumes "reads fd m bs (Ret a)" "reads fd (f a) bs' r"
  shows "reads fd (mbind m f) (bs @ bs') r"
  unfolding reads_def
proof (intro allI impI)
  fix w rest
  assume "rx_ready fd ((bs @ bs') @ rest) w"
  then have "rx_ready fd (bs @ bs' @ rest) w" by simp
  from readsD [OF assms(1) this] obtain q where q: "m w = (Ret a, w\<lparr>rxq := (rxq w)(fd := q)\<rparr>)"
    "rx_quiet q" "rx_bytes q = bs' @ rest" .
  then have "rx_ready fd (bs' @ rest) (w\<lparr>rxq := (rxq w)(fd := q)\<rparr>)" by (simp add: rx_ready_def)
  from readsD [OF assms(2) this] obtain q' where
    "f a (w\<lparr>rxq := (rxq w)(fd := q)\<rparr>) = (r, w\<lparr>rxq := (rxq w)(fd := q')\<rparr>)"
    "rx_quiet q'" "rx_bytes q' = rest" by auto
  then show "\<exists>q. mbind m f w = (r, w\<lparr>rxq := (rxq w)(fd := q)\<rparr>) \<and> rx_quiet q \<and> rx_bytes q = rest"
    using q(1) by (auto simp: mbind_Ret)
qed

lemma reads_mbind_Exn:
  "reads fd m bs (Exn e) \<Longrightarrow> reads fd (mbind m f) bs (Exn e)"
  unfolding reads_def by (metis mbind_Exn)

text \<open>A reader followed by a pure step.\<close>

lemma reads_mbind_pure:
  "reads fd m bs (Ret a) \<Longrightarrow> reads fd (f a) [] r \<Longrightarrow> reads fd (mbind m f) bs r"
  using reads_mbind [of fd m bs a f "[]" r] by simp

lemma reads_on_rx:
  assumes "0 \<le> fd" "\<And>q rest. rx_quiet q \<Longrightarrow> rx_bytes q = bs @ rest \<Longrightarrow>
    \<exists>q'. f q = (r, q') \<and> rx_quiet q' \<and> rx_bytes q' = rest"
  shows "reads fd (on_rx fd f) bs r"
  unfolding reads_def rx_ready_def
proof (intro allI impI, elim conjE)
  fix w :: redis_io and rest
  assume "rx_quiet (rxq w fd)" "rx_bytes (rxq w fd) = bs @ rest"
  from assms(2) [OF this] assms(1)
  show "\<exists>q. on_rx fd f w = (r, w\<lparr>rxq := (rxq w)(fd := q)\<rparr>) \<and> rx_quiet q \<and> rx_bytes q = rest"
    by (auto simp: on_rx_def)
qed

definition plain_line :: "string \<Rightarrow> bool" where
  "plain_line l \<longleftrightarrow> LF \<notin> set l \<and> (l = [] \<or> last l \<noteq> CR)"

lemma reads_line_max:
  assumes "0 < fd" "0 < limit" "plain_line l"
  shows "reads fd (read_line_max fd limit) (l @ CRLF) (Ret l)"
proof -
  have "reads fd (on_rx fd (read_line_loop limit 0 [])) (l @ CRLF) (Ret (l @ CRLF))"
  proof (rule reads_on_rx)
    fix q rest
    assume "rx_quiet q" "rx_bytes q = (l @ CRLF) @ rest"
    then show "\<exists>q'. read_line_loop limit 0 [] q = (Ret (l @ CRLF), q') \<and> rx_quiet q' \<and> rx_bytes q' = rest"
      using read_line_loop_quiet [of q "l @ [CR]" rest 0 limit "[]"] assms(2,3)
      by (simp add: CRLF_def plain_line_def)
  qed (use assms(1) in simp)
  moreover have "l = [] \<or> last l \<notin> set CRLF"
    using assms(3) last_in_set [of l] by (cases "last l = LF") (auto simp: plain_line_def CRLF_def)
  then have "rtrim CRLF (l @ CRLF) = l"
    by (simp add: rtrim_append_ws rtrim_id)
  ultimately have "reads fd (mbind (on_rx fd (read_line_loop limit 0 [])) (\<lambda>line. mret (rtrim CRLF line)))
      (l @ CRLF) (Ret l)"
    by (metis reads_mbind_pure reads_pure(1))
  then show ?thesis using assms(1,2)
    by (simp add: read_line_max_def massert_def mseq_def)
qed

lemma reads_line: "0 < fd \<Longrightarrow> plain_line l \<Longrightarrow> reads fd (read_line fd) (l @ CRLF) (Ret l)"
  unfolding read_line_def by (rule reads_line_max) simp_all

lemma reads_n:
  assumes "0 \<le> fd" "n = int (length bs)"
  shows "reads fd (read_n fd n) bs (Ret bs)"
proof -
  have "reads fd (on_rx fd (read_n_loop (length bs) [])) bs (Ret bs)"
    using read_n_loop_quiet [of _ bs _ "[]" "length bs"] by (intro reads_on_rx assms(1)) simp
  then show ?thesis using assms(2) by (simp add: read_n_def)
qed

end
