(* ===== verification/Redis_Resp.thy ===== *)
theory Redis_Resp
  imports Redis_Reply
begin

text \<open>
  The redis protocol as the specification of the wire layer: the server's side of a request (a
  parser for multi bulk requests) and the encodings of its replies. The client's request encoder
  and its reply readers are proved against them.
\<close>

section \<open>Requests as the server reads them\<close>

definition take_line :: "string \<Rightarrow> (string \<times> string) option" where
  "take_line s = (case find_first LF s of
     None \<Rightarrow> None
   | Some i \<Rightarrow> if 0 < i \<and> s ! (i - 1) = CR then Some (take (i - 1) s, drop (Suc i) s) else None)"

definition take_count :: "char \<Rightarrow> string \<Rightarrow> (nat \<times> string) option" where
  "take_count c s = (case take_line s of
     Some (p # ds, r) \<Rightarrow> if p = c \<and> ds \<noteq> [] \<and> list_all is_digit ds then Some (undec ds, r) else None
   | _ \<Rightarrow> None)"

definition take_param :: "string \<Rightarrow> (string \<times> string) option" where
  "take_param s = (case take_count CHR ''$'' s of
     None \<Rightarrow> None
   | Some (n, r) \<Rightarrow>
       if n + 2 \<le> length r \<and> take 2 (drop n r) = CRLF then Some (take n r, drop (n + 2) r) else None)"

primrec take_params :: "nat \<Rightarrow> string \<Rightarrow> (string list \<times> string) option" where
  "take_params 0 s = Some ([], s)"
| "take_params (Suc n) s = (case take_param s of
     None \<Rightarrow> None
   | Some (p, r) \<Rightarrow> map_option (\<lambda>(ps, r'). (p # ps, r')) (take_params n r))"

definition parse_request :: "string \<Rightarrow> (string list \<times> string) option" where
  "parse_request s = (case take_count CHR ''*'' s of
     None \<Rightarrow> None | Some (n, r) \<Rightarrow> take_params n r)"

lemma dec_no_LF [simp]: "LF \<notin> set (dec n)" "CR \<notin> set (dec n)"
  by (rule dec_no_char; simp)+

lemma take_line_CRLF: "LF \<notin> set l \<Longrightarrow> take_line (l @ CRLF @ r) = Some (l, r)"
proof -
  assume "LF \<notin> set l"
  then have "find_first LF ((l @ [CR]) @ LF # r) = Some (length (l @ [CR]))"
    by (intro find_first_append) simp
  then show ?thesis by (simp add: take_line_def CRLF_def nth_append)
qed

lemma take_count_dec: "c \<noteq> LF \<Longrightarrow> take_count c (c # dec n @ CRLF @ r) = Some (n, r)"
  using take_line_CRLF [of "c # dec n" r]
  by (auto simp: take_count_def list_all_iff dest: dec_digits)

lemma take_param_bulk: "take_param (bulk_param p @ r) = Some (p, r)"
  by (simp add: take_param_def bulk_param_def take_count_dec) (simp add: CRLF_def)

lemma take_params_bulk: "take_params (length ps) (concat (map bulk_param ps) @ r) = Some (ps, r)"
  by (induction ps) (simp_all add: take_param_bulk)

lemma parse_request_bytes: "parse_request (request_bytes ps @ r) = Some (ps, r)"
  by (simp add: parse_request_def request_bytes_def take_count_dec take_params_bulk)

text \<open>Every request of a pipeline is parsed; nothing is left over.\<close>

fun parse_requests :: "nat \<Rightarrow> string \<Rightarrow> string list list option" where
  "parse_requests fuel [] = Some []"
| "parse_requests 0 s = None"
| "parse_requests (Suc fuel) s = (case parse_request s of
     None \<Rightarrow> None | Some (ps, r) \<Rightarrow> map_option (\<lambda>rs. ps # rs) (parse_requests fuel r))"

lemma request_bytes_Cons: "\<exists>cs. request_bytes ps = CHR ''*'' # cs"
  by (simp add: request_bytes_def)

lemma parse_requests_concat:
  "length rs \<le> fuel \<Longrightarrow> parse_requests fuel (concat (map request_bytes rs)) = Some rs"
proof (induction rs arbitrary: fuel)
  case (Cons ps rs)
  then obtain f where f: "fuel = Suc f" by (cases fuel) auto
  obtain cs where cs: "request_bytes ps = CHR ''*'' # cs" using request_bytes_Cons by blast
  have "parse_request (CHR ''*'' # cs @ concat (map request_bytes rs)) = Some (ps, concat (map request_bytes rs))"
    using parse_request_bytes [of ps "concat (map request_bytes rs)"] cs by simp
  then show ?case using Cons f cs by simp
qed simp

section \<open>Replies as the server writes them\<close>

definition dec_int :: "int \<Rightarrow> string" where
  "dec_int n = (if n < 0 then CHR ''-'' # dec (nat (- n)) else dec (nat n))"

datatype reply =
    Status string
  | Error string
  | Integer int
  | Bulk "string option"
  | Multi "string option list option"

text \<open>A bulk is nil or a byte string; the client sees a nil bulk as the missing value.\<close>

fun bulk_bytes :: "string option \<Rightarrow> string" where
  "bulk_bytes None = CHR ''$'' # dec_int (-1) @ CRLF"
| "bulk_bytes (Some d) = CHR ''$'' # dec_int (int (length d)) @ CRLF @ d @ CRLF"

fun bulk_value :: "string option \<Rightarrow> string" where
  "bulk_value None = missing_value"
| "bulk_value (Some d) = d"

fun small_bulk :: "string option \<Rightarrow> bool" where
  "small_bulk None = True"
| "small_bulk (Some d) = (int (length d) + 2 \<le> long_max)"

fun reply_bytes :: "reply \<Rightarrow> string" where
  "reply_bytes (Status s) = CHR ''+'' # s @ CRLF"
| "reply_bytes (Error s) = CHR ''-'' # s @ CRLF"
| "reply_bytes (Integer n) = CHR '':'' # dec_int n @ CRLF"
| "reply_bytes (Bulk d) = bulk_bytes d"
| "reply_bytes (Multi None) = CHR ''*'' # dec_int (-1) @ CRLF"
| "reply_bytes (Multi (Some ds)) =
     CHR ''*'' # dec_int (int (length ds)) @ CRLF @ concat (map bulk_bytes ds)"

text \<open>\<open>boost::lexical_cast\<close> reads back the decimal form of every number of the type.\<close>

fun int_range :: "int_ty \<Rightarrow> int \<times> int" where
  "int_range I16 = (- 32768, 32767)"
| "int_range U16 = (0, 65535)"
| "int_range I32 = (- 2147483648, 2147483647)"
| "int_range U32 = (0, 4294967295)"
| "int_range I64 = (- long_max - 1, long_max)"
| "int_range U64 = (0, 18446744073709551615)"

definition in_ty :: "int_ty \<Rightarrow> int \<Rightarrow> bool" where
  "in_ty ty n \<longleftrightarrow> fst (int_range ty) \<le> n \<and> n \<le> snd (int_range ty)"

definition lex_sound :: "'d env \<Rightarrow> bool" where
  "lex_sound E \<longleftrightarrow> (\<forall>ty n. in_ty ty n \<longrightarrow> lex_int E ty (dec_int n) = Some n)"

text \<open>An implementation of the casts, for the witnesses.\<close>

definition lex_decimal :: "int_ty \<Rightarrow> string \<Rightarrow> int option" where
  "lex_decimal ty s =
     (let neg = (s \<noteq> [] \<and> hd s = CHR ''-''); ds = (if neg then tl s else s);
          n = (if neg then - int (undec ds) else int (undec ds)) in
      if ds \<noteq> [] \<and> list_all is_digit ds \<and> in_ty ty n then Some n else None)"

definition decimal_env :: "(string \<Rightarrow> connection_data list \<Rightarrow> nat) \<Rightarrow> int env" where
  "decimal_env h = \<lparr>lex_int = lex_decimal, show_int = dec_int, lex_double = lex_decimal I64,
     show_double = dec_int, hasher = h\<rparr>"

lemma dec_int_plain [simp]: "LF \<notin> set (dec_int n)" "CR \<notin> set (dec_int n)" "dec_int n \<noteq> []"
  by (simp_all add: dec_int_def)

lemma hd_dec: "is_digit (hd (dec n))"
  by (rule dec_digits [of _ n]) simp

lemma lex_decimal_dec_int: "in_ty ty n \<Longrightarrow> lex_decimal ty (dec_int n) = Some n"
  using hd_dec [of "nat n"]
  by (auto simp: lex_decimal_def dec_int_def Let_def list_all_iff dest: dec_digits)

lemma decimal_env_sound [simp]: "lex_sound (decimal_env h)"
  by (simp add: lex_sound_def decimal_env_def lex_decimal_dec_int)

section \<open>The readers decode the replies\<close>

lemma plain_line_Cons: "plain_line l \<Longrightarrow> c \<noteq> LF \<Longrightarrow> c \<noteq> CR \<Longrightarrow> plain_line (c # l)"
  by (auto simp: plain_line_def)

lemma plain_dec_int [simp]: "plain_line (dec_int n)"
  unfolding plain_line_def using dec_int_plain last_in_set by metis

lemma reads_line_Cons:
  "0 < fd \<Longrightarrow> plain_line l \<Longrightarrow> c \<noteq> LF \<Longrightarrow> c \<noteq> CR \<Longrightarrow> reads fd (read_line fd) (c # l @ CRLF) (Ret (c # l))"
  using reads_line [of fd "c # l"] plain_line_Cons by simp

lemma reads_bulk_hdr:
  assumes "0 < fd" "lex_sound E" "in_ty I64 n" "c = CHR ''$'' \<or> c = CHR ''*''"
  shows "reads fd (recv_bulk_hdr E fd c) (c # dec_int n @ CRLF) (Ret n)"
proof -
  have "lex_int E I64 (dec_int n) = Some n" using assms(2,3) by (simp add: lex_sound_def)
  moreover have "reads fd (read_line fd) (c # dec_int n @ CRLF) (Ret (c # dec_int n))"
    using assms(1,4) by (auto intro!: reads_line_Cons)
  ultimately show ?thesis
    unfolding recv_bulk_hdr_def by (auto intro!: reads_mbind_pure reads_pure(3) [of _ "Ret n", simplified])
qed

lemma in_ty_I64: "in_ty I64 n \<longleftrightarrow> - long_max - 1 \<le> n \<and> n \<le> long_max"
  by (simp add: in_ty_def)

lemma reads_bulk_some:
  assumes "0 < fd" "lex_sound E" "int (length d) + 2 \<le> long_max"
  shows "reads fd (recv_bulk_reply E fd) (bulk_bytes (Some d)) (Ret d)"
proof -
  let ?n = "int (length d)"
  have "reads fd (recv_bulk_hdr E fd CHR ''$'') (CHR ''$'' # dec_int ?n @ CRLF) (Ret ?n)"
    using assms by (intro reads_bulk_hdr) (auto simp: in_ty_I64 long_max_def)
  moreover have "reads fd (read_n fd (?n + 2)) (d @ CRLF) (Ret (d @ CRLF))"
    using assms(1) by (intro reads_n) (auto simp: CRLF_def)
  then have "reads fd (mbind (mlift (add_long ?n 2)) (\<lambda>real_length.
         mbind (read_n fd real_length) (\<lambda>data.
           if data = [] then protocol_error ''invalid bulk reply data; empty''
           else if int (length data) \<noteq> real_length
             then protocol_error ''invalid bulk reply data; data of unexpected length''
           else if length data < 2 then mthrow Out_of_range
           else mret (take (length data - 2) data)))) ([] @ d @ CRLF) (Ret d)"
    using assms(3)
    by (intro reads_mbind [of _ _ _ "?n + 2"] reads_mbind_pure [of _ _ _ "d @ CRLF"])
      (auto simp: add_long_def long_max_def mlift_def reads_pure CRLF_def intro: reads_pure(3) [of _ "Ret (?n + 2)", unfolded mlift_def])
  ultimately have "reads fd (recv_bulk_reply E fd) ((CHR ''$'' # dec_int ?n @ CRLF) @ [] @ d @ CRLF) (Ret d)"
    unfolding recv_bulk_reply_def by (intro reads_mbind [of _ _ _ ?n]) simp_all
  then show ?thesis by simp
qed

lemma reads_bulk_none:
  assumes "0 < fd" "lex_sound E"
  shows "reads fd (recv_bulk_reply E fd) (bulk_bytes None) (Ret missing_value)"
  unfolding recv_bulk_reply_def bulk_bytes.simps
  using reads_bulk_hdr [OF assms, of "-1" "CHR ''$''"]
  by (rule reads_mbind_pure) (simp_all add: in_ty_I64 long_max_def reads_pure)

lemma reads_bulk:
  "0 < fd \<Longrightarrow> lex_sound E \<Longrightarrow> small_bulk d \<Longrightarrow>
    reads fd (recv_bulk_reply E fd) (bulk_bytes d) (Ret (bulk_value d))"
  by (cases d) (simp_all only: reads_bulk_some reads_bulk_none small_bulk.simps bulk_value.simps)

text \<open>The loop of \<open>recv_multi_bulk_reply_\<close>, for both containers.\<close>

lemma reads_mfold_bulk:
  assumes "0 < fd" "lex_sound E" "\<And>d. d \<in> set ds \<Longrightarrow> small_bulk d"
    "length is = length ds"
  shows "reads fd (mfold (\<lambda>_ out. mbind (recv_bulk_reply E fd) (\<lambda>v. mret (f v out))) is out)
    (concat (map bulk_bytes ds)) (Ret (fold f (map bulk_value ds) out))"
  using assms(3,4)
proof (induction ds arbitrary: "is" out)
  case (Cons d ds)
  then obtain i is' where i: "is = i # is'" "length is' = length ds" by (cases "is") auto
  have "reads fd (mbind (recv_bulk_reply E fd) (\<lambda>v. mret (f v out))) (bulk_bytes d) (Ret (f (bulk_value d) out))"
    using reads_bulk [OF assms(1,2)] Cons.prems(1) by (intro reads_mbind_pure [where a = "bulk_value d"] reads_pure) simp
  then have "reads fd (mfold (\<lambda>_ out. mbind (recv_bulk_reply E fd) (\<lambda>v. mret (f v out))) (i # is') out)
      (bulk_bytes d @ concat (map bulk_bytes ds)) (Ret (fold f (map bulk_value ds) (f (bulk_value d) out)))"
    unfolding mfold.simps using Cons i(2) by (intro reads_mbind [where a = "f (bulk_value d) out"]) simp_all
  then show ?case using i(1) by simp
qed (simp add: reads_pure)

lemma fold_snoc: "fold (\<lambda>v out. out @ [v]) ds out = out @ ds"
  by (induction ds arbitrary: out) simp_all

definition small_reply :: "string option list \<Rightarrow> bool" where
  "small_reply ds \<longleftrightarrow> int (length ds) \<le> long_max \<and> list_all small_bulk ds"

lemma reads_multi_bulk_vec:
  assumes "0 < fd" "lex_sound E" "small_reply ds"
  shows "reads fd (recv_multi_bulk_vec E fd out) (reply_bytes (Multi (Some ds)))
    (Ret (int (length ds), out @ map bulk_value ds))"
proof -
  let ?n = "int (length ds)"
  have "reads fd (recv_bulk_hdr E fd CHR ''*'') (CHR ''*'' # dec_int ?n @ CRLF) (Ret ?n)"
    using assms by (intro reads_bulk_hdr) (auto simp: in_ty_I64 long_max_def small_reply_def)
  moreover have "reads fd (mfold (\<lambda>_ out. mbind (recv_bulk_reply E fd) (\<lambda>v. mret (out @ [v])))
      [0..<nat ?n] out) (concat (map bulk_bytes ds)) (Ret (out @ map bulk_value ds))"
    using reads_mfold_bulk [OF assms(1,2), of ds "[0..<nat ?n]" "\<lambda>v out. out @ [v]" out] assms(3)
    by (simp add: fold_snoc small_reply_def list_all_iff)
  ultimately have "reads fd (recv_multi_bulk_vec E fd out)
      ((CHR ''*'' # dec_int ?n @ CRLF) @ concat (map bulk_bytes ds)) (Ret (?n, out @ map bulk_value ds))"
    unfolding recv_multi_bulk_vec_def
    by (intro reads_mbind [of _ _ _ ?n]) (auto intro: reads_mbind_pure reads_pure)
  then show ?thesis by simp
qed

lemma reads_multi_bulk_set:
  assumes "0 < fd" "lex_sound E" "small_reply ds"
  shows "reads fd (recv_multi_bulk_set E fd out) (reply_bytes (Multi (Some ds)))
    (Ret (int (length ds), fold insort_insert (map bulk_value ds) out))"
proof -
  let ?n = "int (length ds)"
  have "reads fd (recv_bulk_hdr E fd CHR ''*'') (CHR ''*'' # dec_int ?n @ CRLF) (Ret ?n)"
    using assms by (intro reads_bulk_hdr) (auto simp: in_ty_I64 long_max_def small_reply_def)
  moreover have "reads fd (mfold (\<lambda>_ out. mbind (recv_bulk_reply E fd) (\<lambda>v. mret (insort_insert v out)))
      [0..<nat ?n] out) (concat (map bulk_bytes ds)) (Ret (fold insort_insert (map bulk_value ds) out))"
    using reads_mfold_bulk [OF assms(1,2), of ds "[0..<nat ?n]" insort_insert out] assms(3)
    by (simp add: small_reply_def list_all_iff)
  ultimately have "reads fd (recv_multi_bulk_set E fd out)
      ((CHR ''*'' # dec_int ?n @ CRLF) @ concat (map bulk_bytes ds))
      (Ret (?n, fold insort_insert (map bulk_value ds) out))"
    unfolding recv_multi_bulk_set_def
    by (intro reads_mbind [of _ _ _ ?n]) (auto intro: reads_mbind_pure reads_pure)
  then show ?thesis by simp
qed

text \<open>A \<open>std::set\<close> filled by \<open>insert\<close>: sorted, without duplicates, with all the elements.\<close>

lemma fold_insort_insert:
  "sorted out \<and> distinct out \<Longrightarrow>
    sorted (fold insort_insert ds out) \<and> distinct (fold insort_insert ds out) \<and>
    set (fold insort_insert ds out) = set ds \<union> set out" for ds :: "'a::linorder list"
  by (induction ds arbitrary: out)
    (auto simp: sorted_insort_insert distinct_insort_insert set_insort_insert)

lemma reads_status:
  assumes "0 < fd" "plain_line s"
  shows "reads fd (recv_single_line_reply fd) (reply_bytes (Status s)) (Ret s)"
  unfolding recv_single_line_reply_def reply_bytes.simps
  using assms
  by (intro reads_mbind_pure [OF reads_line_Cons])
    (simp_all add: starts_with_def error_prefix_def reads_pure)

lemma reads_status_error:
  assumes "0 < fd" "plain_line s" "s \<noteq> []"
  shows "reads fd (recv_single_line_reply fd) (reply_bytes (Error (''ERR '' @ s))) (Exn (Protocol_error s))"
proof -
  have "reads fd (read_line fd) (CHR ''-'' # (''ERR '' @ s) @ CRLF) (Ret (CHR ''-'' # ''ERR '' @ s))"
    using assms by (intro reads_line_Cons) (auto simp: plain_line_def)
  then show ?thesis unfolding recv_single_line_reply_def reply_bytes.simps
    by (rule reads_mbind_pure)
      (use assms(3) in \<open>simp add: starts_with_def error_prefix_def reads_pure protocol_error_def\<close>)
qed

lemma plain_OK [simp]: "plain_line ''OK''"
  by (simp add: plain_line_def)

lemma reads_ok: "0 < fd \<Longrightarrow> reads fd (recv_ok_reply fd) (reply_bytes (Status ''OK'')) (Ret ())"
  unfolding recv_ok_reply_def
  by (rule reads_mbind_pure [OF reads_status]) (simp_all add: reads_pure)

lemma reads_int:
  assumes "0 < fd" "lex_sound E" "in_ty I64 n"
  shows "reads fd (recv_int_reply E fd) (reply_bytes (Integer n)) (Ret n)"
proof -
  have "lex_int E I64 (dec_int n) = Some n" using assms(2,3) by (simp add: lex_sound_def)
  then show ?thesis unfolding recv_int_reply_def reply_bytes.simps using assms(1)
    by (intro reads_mbind_pure [OF reads_line_Cons])
      (simp_all add: reads_pure(3) [of _ "Ret n", simplified])
qed

lemma reads_int_ty:
  assumes "0 < fd" "lex_sound E" "in_ty ty n"
  shows "reads fd (recv_int_reply_ty E ty fd) (reply_bytes (Integer n)) (Ret n)"
proof -
  have "lex_int E ty (dec_int n) = Some n" using assms(2,3) by (simp add: lex_sound_def)
  then show ?thesis unfolding recv_int_reply_ty_def reply_bytes.simps using assms(1)
    by (intro reads_mbind_pure [OF reads_line_Cons])
      (simp_all add: reads_pure(3) [of _ "Ret n", simplified])
qed

text \<open>\<open>next_reply_type\<close> looks at the first byte and leaves it there.\<close>

lemma reads_peek:
  assumes "0 \<le> fd" "reads fd (f [c]) (c # bs) r"
  shows "reads fd (mbind (on_rx fd (recv_or_throw 1 True)) f) (c # bs) r"
  unfolding reads_def rx_ready_def
proof (intro allI impI, elim conjE)
  fix w :: redis_io and rest
  assume q: "rx_quiet (rxq w fd)" "rx_bytes (rxq w fd) = (c # bs) @ rest"
  then obtain b q' more where b: "recv_or_throw 1 True (rxq w fd) = (Ret b, q')" "b \<noteq> []"
    "rx_bytes (rxq w fd) = b @ more" "rx_bytes q' = rx_bytes (rxq w fd)" "rx_quiet q'"
    using recv_or_throw_peek_quiet [of "rxq w fd" 1] by auto
  have "length b \<le> 1" using recv_or_throw_peek [OF b(1)] by auto
  then have "b = [c]" using b(2,3) q(2) by (cases b) auto
  moreover have "rx_ready fd ((c # bs) @ rest) (w\<lparr>rxq := (rxq w)(fd := q')\<rparr>)"
    using b(4,5) q(2) by (simp add: rx_ready_def)
  from readsD [OF assms(2) this] obtain q'' where
    "f [c] (w\<lparr>rxq := (rxq w)(fd := q')\<rparr>) = (r, w\<lparr>rxq := (rxq w)(fd := q'')\<rparr>)"
    "rx_quiet q''" "rx_bytes q'' = rest" by auto
  ultimately show "\<exists>q. mbind (on_rx fd (recv_or_throw 1 True)) f w = (r, w\<lparr>rxq := (rxq w)(fd := q)\<rparr>) \<and>
      rx_quiet q \<and> rx_bytes q = rest"
    using assms(1) b(1) by (auto simp: mbind_run on_rx_def)
qed

text \<open>What \<open>recv_generic_reply_\<close> makes of a reply, its narrowing of integers and its cutting of errors included.\<close>

fun generic_of :: "reply \<Rightarrow> reply_data result" where
  "generic_of (Status s) = Ret (status_code_reply, Vstring s)"
| "generic_of (Error s) =
     (if 4 \<le> length s then Ret (error_reply, Vstring (drop 4 s)) else Exn Out_of_range)"
| "generic_of (Integer n) = Ret (int_reply, Vint (narrow_int n))"
| "generic_of (Bulk d) = Ret (bulk_reply, Vstring (bulk_value d))"
| "generic_of (Multi None) = Exn (Key_error ''no such key'')"
| "generic_of (Multi (Some ds)) = Ret (multi_bulk_reply, Vvector (map bulk_value ds))"

fun wf_reply :: "reply \<Rightarrow> bool" where
  "wf_reply (Status s) = plain_line s"
| "wf_reply (Error s) = plain_line s"
| "wf_reply (Integer n) = in_ty I64 n"
| "wf_reply (Bulk d) = small_bulk d"
| "wf_reply (Multi (Some ds)) = small_reply ds"
| "wf_reply (Multi None) = True"

lemma reads_multi_missing:
  assumes "0 < fd" "lex_sound E"
  shows "reads fd (recv_multi_bulk_vec E fd out) (reply_bytes (Multi None)) (Exn (Key_error ''no such key''))"
  unfolding recv_multi_bulk_vec_def reply_bytes.simps
  using reads_bulk_hdr [OF assms, of "-1" "CHR ''*''"]
  by (rule reads_mbind_pure) (simp_all add: in_ty_I64 long_max_def reads_pure)

lemma reads_substr:
  assumes "0 < fd" "plain_line s" "c = CHR ''+'' \<or> c = CHR ''-''" "substr_from n (c # s) = r"
  shows "reads fd (mbind (read_line fd) (\<lambda>line. mbind (mlift (substr_from n line)) (\<lambda>s. mret (ty, Vstring s))))
    (c # s @ CRLF) (case r of Ret a \<Rightarrow> Ret (ty, Vstring a) | Exn e \<Rightarrow> Exn e | Stuck k \<Rightarrow> Stuck k)"
proof -
  have "reads fd (read_line fd) (c # s @ CRLF) (Ret (c # s))"
    using assms(1-3) by (intro reads_line_Cons) auto
  moreover have "reads fd (mbind (mlift r) (\<lambda>s. mret (ty, Vstring s))) []
      (case r of Ret a \<Rightarrow> Ret (ty, Vstring a) | Exn e \<Rightarrow> Exn e | Stuck k \<Rightarrow> Stuck k)"
    using reads_pure(3) [of fd "case r of Ret a \<Rightarrow> Ret (ty, Vstring a) | Exn e \<Rightarrow> Exn e | Stuck k \<Rightarrow> Stuck k"]
    by (cases r) (simp_all add: mlift_def mbind_def mret_def)
  ultimately show ?thesis unfolding assms(4) [symmetric] by (rule reads_mbind_pure)
qed

lemma recv_generic_reply_reads:
  assumes "0 < fd" "lex_sound E" "wf_reply r"
  shows "reads fd (recv_generic_reply E fd) (reply_bytes r) (generic_of r)"
  unfolding recv_generic_reply_def next_reply_type_def mbind_assoc
  using assms(3)
proof (induction r rule: generic_of.induct)
  case (1 s)
  then show ?case unfolding reply_bytes.simps
    using reads_substr [OF assms(1) _ _ refl, of s "CHR ''+''" 1 status_code_reply]
    by (intro reads_peek [OF less_imp_le [OF assms(1)]]) (simp add: substr_from_def)
next
  case (2 s)
  then show ?case unfolding reply_bytes.simps
    using reads_substr [OF assms(1) _ _ refl, of s "CHR ''-''" "length error_prefix" error_reply]
    by (intro reads_peek [OF less_imp_le [OF assms(1)]]) (simp add: substr_from_def error_prefix_def eval_nat_numeral split: if_splits)
next
  case (3 n)
  then have "reads fd (recv_int_reply E fd) (CHR '':'' # dec_int n @ CRLF) (Ret n)"
    using reads_int [OF assms(1,2)] by simp
  from reads_mbind_pure [OF this reads_pure(1)] show ?case unfolding reply_bytes.simps
    by (intro reads_peek [OF less_imp_le [OF assms(1)]]) simp
next
  case (4 d)
  then have B: "reads fd (recv_bulk_reply E fd) (bulk_bytes d) (Ret (bulk_value d))"
    using reads_bulk [OF assms(1,2)] by simp
  obtain bs where bs: "bulk_bytes d = CHR ''$'' # bs" by (cases d) simp_all
  show ?case
    using reads_mbind_pure [OF B reads_pure(1)] unfolding reply_bytes.simps bs
    by (intro reads_peek [OF less_imp_le [OF assms(1)]]) simp
next
  case 5
  have "reads fd (recv_multi_bulk_vec E fd []) (CHR ''*'' # dec_int (-1) @ CRLF) (Exn (Key_error ''no such key''))"
    using reads_multi_missing [OF assms(1,2)] by simp
  from reads_mbind_Exn [OF this] show ?case unfolding reply_bytes.simps
    by (intro reads_peek [OF less_imp_le [OF assms(1)]]) simp
next
  case (6 ds)
  then have "reads fd (recv_multi_bulk_vec E fd [])
      (CHR ''*'' # dec_int (int (length ds)) @ CRLF @ concat (map bulk_bytes ds)) (Ret (int (length ds), map bulk_value ds))"
    using reads_multi_bulk_vec [OF assms(1,2), of ds "[]"] by simp
  from reads_mbind_pure [OF this, of "\<lambda>(n, v). mret (multi_bulk_reply, Vvector v)"]
  show ?case unfolding reply_bytes.simps
    by (intro reads_peek [OF less_imp_le [OF assms(1)]]) (simp add: reads_pure)
qed

section \<open>Properties\<close>

text \<open>A client with one connection (socket 3), on which the bytes \<open>bs\<close> are to be received in two chunks
  with an interrupted call between them; used by the witnesses.\<close>

definition demo_io :: "string \<Rightarrow> redis_io" where
  "demo_io bs = \<lparr>connections = [\<lparr>con_host = ''localhost'', con_port = 6379, con_dbindex = 0, con_socket = 3\<rparr>],
     rxq = (\<lambda>_. rx_put (take 3 bs) (Fail EINTR # rx_put (drop 3 bs) [])), wrq = (\<lambda>_. []),
     sent = (\<lambda>_. []), dials = [], closed_fds = []\<rparr>"

lemma demo_io_ready [simp]: "rx_ready fd bs (demo_io bs)"
  by (simp add: rx_ready_def demo_io_def)

text \<open>C18: The requests of a pipeline are parsed back by the server exactly as they were built, whatever
  bytes the parameters contain: no parameter can end a request early or start another one.\<close>

theorem pipeline_parses:
  "parse_requests (length ms) (concat (map makecmd_string ms)) = Some (map mc_lines ms)"
  using parse_requests_concat [of "map mc_lines ms" "length ms"]
  by (simp add: makecmd_string_def [abs_def] comp_def)

text \<open>C19: A line that with its delimiter is no longer than \<open>max_size\<close> is returned without the delimiter however its
  bytes are chunked and however often a call is interrupted, and nothing behind it is consumed.\<close>

theorem read_line_any_chunks:
  assumes "0 < fd" "plain_line l" "int (length (l @ CRLF)) \<le> max_size"
  shows "reads fd (read_line_max fd max_size) (l @ CRLF) (Ret l)"
  using assms by (intro reads_line_max) (simp_all add: CRLF_def)

theorem read_line_any_chunks_witness:
  "reads 3 (read_line_max 3 2048) (''a line'' @ CRLF) (Ret ''a line'') \<and>
   fst (read_line_max 3 2048 (demo_io (''a line'' @ CRLF))) = Ret ''a line''"
proof -
  have r: "reads 3 (read_line_max 3 2048) (''a line'' @ CRLF) (Ret ''a line'')"
    by (rule read_line_any_chunks) (simp_all add: plain_line_def CRLF_def)
  then show ?thesis using reads_result [OF r demo_io_ready] by simp
qed

text \<open>The comment above \<open>read_line\<close> promises a blank string for a longer line. The limit is never applied: the counter
  it is compared with stays 0.\<close>

theorem read_line_limit_ignored:
  "fst (read_line_max 3 2 (demo_io (''long line'' @ CRLF))) = Ret ''long line''"
proof -
  have "reads 3 (read_line_max 3 2) (''long line'' @ CRLF) (Ret ''long line'')"
    by (rule reads_line_max) (simp_all add: plain_line_def)
  then show ?thesis using reads_result [OF _ demo_io_ready] by simp
qed

text \<open>The replies \<open>recv_generic_reply_\<close> can represent: integers of an \<open>int\<close>, errors of the kind \<open>ERR\<close>, multi bulks of
  bulks. What each of them says.\<close>

fun representable :: "reply \<Rightarrow> bool" where
  "representable (Status s) = plain_line s"
| "representable (Error t) = (take 4 t = ''ERR '' \<and> plain_line t)"
| "representable (Integer n) = in_ty I32 n"
| "representable (Bulk d) = small_bulk d"
| "representable (Multi None) = False"
| "representable (Multi (Some ds)) = small_reply ds"

fun says :: "reply \<Rightarrow> reply_data" where
  "says (Status s) = (status_code_reply, Vstring s)"
| "says (Error t) = (error_reply, Vstring (drop (length ''ERR '') t))"
| "says (Integer n) = (int_reply, Vint n)"
| "says (Bulk d) = (bulk_reply, Vstring (bulk_value d))"
| "says (Multi ds) = (multi_bulk_reply, Vvector (map bulk_value (the ds)))"

lemma narrow_int_I32: "in_ty I32 n \<Longrightarrow> narrow_int n = n"
  by (simp add: in_ty_def narrow_int_def signed_of_int signed_take_bit_int_eq_self)

lemma representable_generic: "representable r \<Longrightarrow> wf_reply r \<and> generic_of r = Ret (says r)"
proof (cases r rule: generic_of.cases)
  case (2 t)
  assume "representable r"
  then have t: "take 4 t = ''ERR ''" "plain_line t" using 2 by simp_all
  have "length (take 4 t) = 4" unfolding t(1) by simp
  then have "4 \<le> length t" by simp
  then show ?thesis using 2 t(2) by (simp add: eval_nat_numeral)
next
  case (3 n)
  assume "representable r"
  then show ?thesis using 3 narrow_int_I32 [of n] by (simp add: in_ty_def long_max_def)
qed simp_all



end
