(* ===== verification/Redis_Client.thy ===== *)
theory Redis_Client
  imports Redis_Resp
begin

text \<open>
  The commands of \<open>redis::base_client\<close> that address one key (\<open>src/common/redisclient.h\<close>): each is the
  code's sequence of \<open>get_socket\<close>, \<open>send_\<close> and a reply reader. A method \<open>m\<close> is \<open>redis_m\<close>; an out parameter
  is passed in and returned, behind the return value if there is one; overloads carry a suffix
  (\<open>_ty\<close> for the integer templates, \<open>_scores\<close> for the score vectors, \<open>_vec\<close> and \<open>_pairs\<close> for containers).
  Integers of type \<open>long\<close> and \<open>int\<close> are \<^typ>\<open>int\<close>, \<open>unsigned int\<close> is a 32 bit word.
\<close>

section \<open>Building a command\<close>

text \<open>\<open>makecmd(name) << x << y\<close>: the insertions in their order.\<close>

definition build :: "string \<Rightarrow> (makecmd \<Rightarrow> makecmd) list \<Rightarrow> makecmd" where
  "build cmd_name ops = foldl (\<lambda>m f. f m) (makecmd_new cmd_name) ops"

definition lexical_double :: "'d env \<Rightarrow> string \<Rightarrow> 'd result" where
  "lexical_double E s = (case lex_double E s of Some d \<Rightarrow> Ret d | None \<Rightarrow> Exn Bad_lexical_cast)"

section \<open>Strings, counters and keys\<close>

definition redis_set :: "'d env \<Rightarrow> string \<Rightarrow> string \<Rightarrow> unit redis" where
  "redis_set E key value =
     mbind (get_socket E key) (\<lambda>socket.
       mseq (send_cmd socket (build ''SET'' [mc_str key, mc_str value]))
         (recv_ok_reply socket))"

definition redis_get :: "'d env \<Rightarrow> string \<Rightarrow> string redis" where
  "redis_get E key =
     mbind (get_socket E key) (\<lambda>socket.
       mseq (send_cmd socket (build ''GET'' [mc_str key]))
         (recv_bulk_reply E socket))"

definition redis_getset :: "'d env \<Rightarrow> string \<Rightarrow> string \<Rightarrow> string redis" where
  "redis_getset E key value =
     mbind (get_socket E key) (\<lambda>socket.
       mseq (send_cmd socket (build ''GETSET'' [mc_str key, mc_str value]))
         (recv_bulk_reply E socket))"

definition redis_setnx :: "'d env \<Rightarrow> string \<Rightarrow> string \<Rightarrow> bool redis" where
  "redis_setnx E key value =
     mbind (get_socket E key) (\<lambda>socket.
       mseq (send_cmd socket (build ''SETNX'' [mc_str key, mc_str value]))
         (mbind (recv_int_reply E socket) (\<lambda>n. mret (n = 1))))"

definition redis_setex :: "'d env \<Rightarrow> string \<Rightarrow> string \<Rightarrow> 32 word \<Rightarrow> unit redis" where
  "redis_setex E key value secs =
     mbind (get_socket E key) (\<lambda>socket.
       mseq (send_cmd socket (build ''SETEX'' [mc_str key, mc_int E (uint secs), mc_str value]))
         (recv_ok_reply socket))"

definition redis_substr :: "'d env \<Rightarrow> string \<Rightarrow> int \<Rightarrow> int \<Rightarrow> string redis" where
  "redis_substr E key start end =
     mbind (get_socket E key) (\<lambda>socket.
       mseq (send_cmd socket (build ''SUBSTR'' [mc_str key, mc_int E start, mc_int E end]))
         (recv_bulk_reply E socket))"

definition redis_incr :: "'d env \<Rightarrow> string \<Rightarrow> int redis" where
  "redis_incr E key =
     mbind (get_socket E key) (\<lambda>socket.
       mseq (send_cmd socket (build ''INCR'' [mc_str key]))
         (recv_int_reply E socket))"

definition redis_incr_ty :: "'d env \<Rightarrow> int_ty \<Rightarrow> string \<Rightarrow> int redis" where
  "redis_incr_ty E ty key =
     mbind (get_socket E key) (\<lambda>socket.
       mseq (send_cmd socket (build ''INCR'' [mc_str key]))
         (recv_int_reply_ty E ty socket))"

definition redis_incrby :: "'d env \<Rightarrow> string \<Rightarrow> int \<Rightarrow> int redis" where
  "redis_incrby E key by =
     mbind (get_socket E key) (\<lambda>socket.
       mseq (send_cmd socket (build ''INCRBY'' [mc_str key, mc_int E by]))
         (recv_int_reply E socket))"

definition redis_incrby_ty :: "'d env \<Rightarrow> int_ty \<Rightarrow> string \<Rightarrow> int \<Rightarrow> int redis" where
  "redis_incrby_ty E ty key by =
     mbind (get_socket E key) (\<lambda>socket.
       mseq (send_cmd socket (build ''INCRBY'' [mc_str key, mc_int E by]))
         (recv_int_reply_ty E ty socket))"

definition redis_decr :: "'d env \<Rightarrow> string \<Rightarrow> int redis" where
  "redis_decr E key =
     mbind (get_socket E key) (\<lambda>socket.
       mseq (send_cmd socket (build ''DECR'' [mc_str key]))
         (recv_int_reply E socket))"

definition redis_decr_ty :: "'d env \<Rightarrow> int_ty \<Rightarrow> string \<Rightarrow> int redis" where
  "redis_decr_ty E ty key =
     mbind (get_socket E key) (\<lambda>socket.
       mseq (send_cmd socket (build ''DECR'' [mc_str key]))
         (recv_int_reply_ty E ty socket))"

definition redis_decrby :: "'d env \<Rightarrow> string \<Rightarrow> int \<Rightarrow> int redis" where
  "redis_decrby E key by =
     mbind (get_socket E key) (\<lambda>socket.
       mseq (send_cmd socket (build ''DECRBY'' [mc_str key, mc_int E by]))
         (recv_int_reply E socket))"

definition redis_decrby_ty :: "'d env \<Rightarrow> int_ty \<Rightarrow> string \<Rightarrow> int \<Rightarrow> int redis" where
  "redis_decrby_ty E ty key by =
     mbind (get_socket E key) (\<lambda>socket.
       mseq (send_cmd socket (build ''DECRBY'' [mc_str key, mc_int E by]))
         (recv_int_reply_ty E ty socket))"

definition redis_exists :: "'d env \<Rightarrow> string \<Rightarrow> bool redis" where
  "redis_exists E key =
     mbind (get_socket E key) (\<lambda>socket.
       mseq (send_cmd socket (build ''EXISTS'' [mc_str key]))
         (mbind (recv_int_reply E socket) (\<lambda>n. mret (n = 1))))"

definition redis_del :: "'d env \<Rightarrow> string \<Rightarrow> bool redis" where
  "redis_del E key =
     mbind (get_socket E key) (\<lambda>socket.
       mseq (send_cmd socket (build ''DEL'' [mc_str key]))
         (mbind (recv_int_reply E socket) (\<lambda>n. mret (n \<noteq> 0))))"

definition redis_expire :: "'d env \<Rightarrow> string \<Rightarrow> 32 word \<Rightarrow> unit redis" where
  "redis_expire E key secs =
     mbind (get_socket E key) (\<lambda>socket.
       mseq (send_cmd socket (build ''EXPIRE'' [mc_str key, mc_int E (uint secs)]))
         (recv_int_ok_reply E socket))"

definition redis_ttl :: "'d env \<Rightarrow> string \<Rightarrow> int redis" where
  "redis_ttl E key =
     mbind (get_socket E key) (\<lambda>socket.
       mseq (send_cmd socket (build ''TTL'' [mc_str key]))
         (mbind (recv_int_reply E socket) (\<lambda>n. mret (narrow_int n))))"

definition redis_move :: "'d env \<Rightarrow> string \<Rightarrow> int \<Rightarrow> unit redis" where
  "redis_move E key dbindex =
     mbind (get_socket E key) (\<lambda>socket.
       mseq (send_cmd socket (build ''MOVE'' [mc_str key, mc_int E dbindex]))
         (recv_int_ok_reply E socket))"

definition redis_publish :: "'d env \<Rightarrow> string \<Rightarrow> string \<Rightarrow> int redis" where
  "redis_publish E key message =
     mbind (get_socket E key) (\<lambda>socket.
       mseq (send_cmd socket (build ''PUBLISH'' [mc_str key, mc_str message]))
         (recv_int_reply E socket))"

definition redis_append :: "'d env \<Rightarrow> string \<Rightarrow> string \<Rightarrow> nat redis" where
  "redis_append E key value =
     mbind (get_socket E key) (\<lambda>socket.
       mseq (send_cmd socket (build ''APPEND'' [mc_str key, mc_str value]))
         (mbind (recv_int_reply E socket) (\<lambda>n.
           let res = narrow_int n in
           if res < 0 then protocol_error ''expected value size''
           else mseq (massert (nat res \<ge> length value)) (mret (nat res)))))"

datatype redis_type =
    datatype_none | datatype_string | datatype_list | datatype_set | datatype_zset
  | datatype_hash | datatype_unknown

definition redis_type_of :: "'d env \<Rightarrow> string \<Rightarrow> redis_type redis" where
  "redis_type_of E key =
     mbind (get_socket E key) (\<lambda>socket.
       mseq (send_cmd socket (build ''TYPE'' [mc_str key]))
         (mbind (recv_single_line_reply socket) (\<lambda>response. mret (
           if response = ''none'' then datatype_none
           else if response = ''string'' then datatype_string
           else if response = ''list'' then datatype_list
           else if response = ''set'' then datatype_set
           else if response = ''zset'' then datatype_zset
           else if response = ''hash'' then datatype_hash
           else datatype_unknown))))"

section \<open>Lists\<close>

definition redis_rpush :: "'d env \<Rightarrow> string \<Rightarrow> string \<Rightarrow> int redis" where
  "redis_rpush E key value =
     mbind (get_socket E key) (\<lambda>socket.
       mseq (send_cmd socket (build ''RPUSH'' [mc_str key, mc_str value]))
         (recv_int_reply E socket))"

definition redis_lpush :: "'d env \<Rightarrow> string \<Rightarrow> string \<Rightarrow> int redis" where
  "redis_lpush E key value =
     mbind (get_socket E key) (\<lambda>socket.
       mseq (send_cmd socket (build ''LPUSH'' [mc_str key, mc_str value]))
         (recv_int_reply E socket))"

definition redis_llen :: "'d env \<Rightarrow> string \<Rightarrow> int redis" where
  "redis_llen E key =
     mbind (get_socket E key) (\<lambda>socket.
       mseq (send_cmd socket (build ''LLEN'' [mc_str key]))
         (recv_int_reply E socket))"

definition redis_lrange :: "'d env \<Rightarrow> string \<Rightarrow> int \<Rightarrow> int \<Rightarrow> string list \<Rightarrow> (int \<times> string list) redis" where
  "redis_lrange E key start end out =
     mbind (get_socket E key) (\<lambda>socket.
       mseq (send_cmd socket (build ''LRANGE'' [mc_str key, mc_int E start, mc_int E end]))
         (recv_multi_bulk_vec E socket out))"

definition redis_ltrim :: "'d env \<Rightarrow> string \<Rightarrow> int \<Rightarrow> int \<Rightarrow> unit redis" where
  "redis_ltrim E key start end =
     mbind (get_socket E key) (\<lambda>socket.
       mseq (send_cmd socket (build ''LTRIM'' [mc_str key, mc_int E start, mc_int E end]))
         (recv_ok_reply socket))"

definition redis_lindex :: "'d env \<Rightarrow> string \<Rightarrow> int \<Rightarrow> string redis" where
  "redis_lindex E key index =
     mbind (get_socket E key) (\<lambda>socket.
       mseq (send_cmd socket (build ''LINDEX'' [mc_str key, mc_int E index]))
         (recv_bulk_reply E socket))"

definition redis_lset :: "'d env \<Rightarrow> string \<Rightarrow> int \<Rightarrow> string \<Rightarrow> unit redis" where
  "redis_lset E key index value =
     mbind (get_socket E key) (\<lambda>socket.
       mseq (send_cmd socket (build ''LSET'' [mc_str key, mc_int E index, mc_str value]))
         (recv_ok_reply socket))"

definition redis_lrem :: "'d env \<Rightarrow> string \<Rightarrow> int \<Rightarrow> string \<Rightarrow> int redis" where
  "redis_lrem E key count value =
     mbind (get_socket E key) (\<lambda>socket.
       mseq (send_cmd socket (build ''LREM'' [mc_str key, mc_int E count, mc_str value]))
         (recv_int_reply E socket))"

definition redis_lpop :: "'d env \<Rightarrow> string \<Rightarrow> string redis" where
  "redis_lpop E key =
     mbind (get_socket E key) (\<lambda>socket.
       mseq (send_cmd socket (build ''LPOP'' [mc_str key]))
         (recv_bulk_reply E socket))"

definition redis_rpop :: "'d env \<Rightarrow> string \<Rightarrow> string redis" where
  "redis_rpop E key =
     mbind (get_socket E key) (\<lambda>socket.
       mseq (send_cmd socket (build ''RPOP'' [mc_str key]))
         (recv_bulk_reply E socket))"

definition redis_get_list :: "'d env \<Rightarrow> string \<Rightarrow> string list \<Rightarrow> (int \<times> string list) redis" where
  "redis_get_list E key out = redis_lrange E key 0 (-1) out"

definition redis_lrem_exact :: "'d env \<Rightarrow> string \<Rightarrow> int \<Rightarrow> string \<Rightarrow> unit redis" where
  "redis_lrem_exact E key count value =
     mbind (redis_lrem E key count value) (\<lambda>n.
       if n \<noteq> count then mthrow (Value_error ''failed to remove exactly N elements from list'')
       else mret ())"

text \<open>The blocking pops: a nil reply is the \<open>key_error\<close> of \<open>recv_multi_bulk_reply_\<close>.\<close>

definition redis_blpop_vec :: "'d env \<Rightarrow> string list \<Rightarrow> int \<Rightarrow> (string \<times> string) redis" where
  "redis_blpop_vec E keys timeout_seconds =
     mbind (get_socket_vec E keys) (\<lambda>socket.
       if socket = -1 then mthrow (Runtime_error ''feature is not available in cluster mode'')
       else mseq (send_cmd socket (build ''BLPOP'' [mc_strs keys, mc_int E timeout_seconds]))
         (mbind (mcatch (recv_multi_bulk_vec E socket []) (\<lambda>e. case e of
             Key_error _ \<Rightarrow> mseq (massert (timeout_seconds > 0))
               (mthrow (Timeout_error ''could not pop value in time''))
           | _ \<Rightarrow> mthrow e)) (\<lambda>(n, sv).
           case sv of [a, b] \<Rightarrow> mret (a, b) | _ \<Rightarrow> mret ([], missing_value))))"

definition pop_reply :: "'d env \<Rightarrow> int \<Rightarrow> string \<Rightarrow> int \<Rightarrow> string redis" where
  "pop_reply E socket key timeout_seconds =
     mcatch
       (mbind (recv_multi_bulk_vec E socket []) (\<lambda>(n, sv).
          case sv of [a, b] \<Rightarrow> mseq (massert (key = a)) (mret b) | _ \<Rightarrow> mret missing_value))
       (\<lambda>e. case e of
          Key_error _ \<Rightarrow> mseq (massert (timeout_seconds > 0)) (mret missing_value)
        | _ \<Rightarrow> mthrow e)"

definition redis_blpop :: "'d env \<Rightarrow> string \<Rightarrow> int \<Rightarrow> string redis" where
  "redis_blpop E key timeout_seconds =
     mbind (get_socket E key) (\<lambda>socket.
       if socket = -1 then mthrow (Runtime_error ''feature is not available in cluster mode'')
       else mseq (send_cmd socket (build ''BLPOP'' [mc_str key, mc_int E timeout_seconds]))
         (pop_reply E socket key timeout_seconds))"

definition redis_brpop :: "'d env \<Rightarrow> string \<Rightarrow> int \<Rightarrow> string redis" where
  "redis_brpop E key timeout_seconds =
     mbind (get_socket E key) (\<lambda>socket.
       mseq (send_cmd socket (build ''BRPOP'' [mc_str key, mc_int E timeout_seconds]))
         (pop_reply E socket key timeout_seconds))"

datatype sort_order = sort_order_ascending | sort_order_descending

definition order_word :: "sort_order \<Rightarrow> string" where
  "order_word order = (if order = sort_order_ascending then ''ASC'' else ''DESC'')"

definition redis_sort ::
  "'d env \<Rightarrow> string \<Rightarrow> string list \<Rightarrow> sort_order \<Rightarrow> bool \<Rightarrow> (int \<times> string list) redis" where
  "redis_sort E key out order lexicographically =
     mbind (get_socket E key) (\<lambda>socket.
       mseq (send_cmd socket (build ''SORT'' ([mc_str key, mc_str (order_word order)]
           @ (if lexicographically then [mc_str ''ALPHA''] else []))))
         (recv_multi_bulk_vec E socket out))"

definition redis_sort_by ::
  "'d env \<Rightarrow> string \<Rightarrow> string list \<Rightarrow> string \<Rightarrow> int \<Rightarrow> int \<Rightarrow> string list \<Rightarrow> sort_order \<Rightarrow> bool
    \<Rightarrow> (int \<times> string list) redis" where
  "redis_sort_by E key out by_pattern limit_start limit_end get_patterns order lexicographically =
     mbind (get_socket E key) (\<lambda>socket.
       mseq (send_cmd socket (build ''SORT'' ([mc_str key, mc_str ''BY'', mc_str by_pattern,
           mc_str ''LIMIT'', mc_int E limit_start, mc_int E limit_end]
           @ concat (map (\<lambda>p. [mc_str ''GET'', mc_str p]) get_patterns)
           @ [mc_str (order_word order)]
           @ (if lexicographically then [mc_str ''ALPHA''] else []))))
         (recv_multi_bulk_vec E socket out))"

section \<open>Sets\<close>

definition redis_sadd :: "'d env \<Rightarrow> string \<Rightarrow> string \<Rightarrow> bool redis" where
  "redis_sadd E key value =
     mbind (get_socket E key) (\<lambda>socket.
       mseq (send_cmd socket (build ''SADD'' [mc_str key, mc_str value]))
         (mbind (recv_int_reply E socket) (\<lambda>n. mret (n = 1))))"

definition redis_srem :: "'d env \<Rightarrow> string \<Rightarrow> string \<Rightarrow> unit redis" where
  "redis_srem E key value =
     mbind (get_socket E key) (\<lambda>socket.
       mseq (send_cmd socket (build ''SREM'' [mc_str key, mc_str value]))
         (recv_int_ok_reply E socket))"

definition redis_spop :: "'d env \<Rightarrow> string \<Rightarrow> string redis" where
  "redis_spop E key =
     mbind (get_socket E key) (\<lambda>socket.
       mseq (send_cmd socket (build ''SPOP'' [mc_str key]))
         (recv_bulk_reply E socket))"

definition redis_scard :: "'d env \<Rightarrow> string \<Rightarrow> int redis" where
  "redis_scard E key =
     mbind (get_socket E key) (\<lambda>socket.
       mseq (send_cmd socket (build ''SCARD'' [mc_str key]))
         (recv_int_reply E socket))"

definition redis_sismember :: "'d env \<Rightarrow> string \<Rightarrow> string \<Rightarrow> bool redis" where
  "redis_sismember E key value =
     mbind (get_socket E key) (\<lambda>socket.
       mseq (send_cmd socket (build ''SISMEMBER'' [mc_str key, mc_str value]))
         (mbind (recv_int_reply E socket) (\<lambda>n. mret (n = 1))))"

definition redis_smembers :: "'d env \<Rightarrow> string \<Rightarrow> string list \<Rightarrow> (int \<times> string list) redis" where
  "redis_smembers E key out =
     mbind (get_socket E key) (\<lambda>socket.
       mseq (send_cmd socket (build ''SMEMBERS'' [mc_str key]))
         (recv_multi_bulk_set E socket out))"

definition redis_srandmember :: "'d env \<Rightarrow> string \<Rightarrow> string redis" where
  "redis_srandmember E key =
     mbind (get_socket E key) (\<lambda>socket.
       mseq (send_cmd socket (build ''SPOP'' [mc_str key]))
         (recv_bulk_reply E socket))"

definition redis_sadd_range :: "'d env \<Rightarrow> string \<Rightarrow> string list \<Rightarrow> int redis" where
  "redis_sadd_range E key vals =
     mbind (get_socket E key) (\<lambda>socket.
       mseq (redis_send socket
           (concat (map (\<lambda>val. makecmd_string (build ''SADD'' [mc_str key, mc_str val])) vals)))
         (mfold (\<lambda>_ res. mbind (recv_int_reply E socket) (\<lambda>n. mlift (add_long res n))) vals 0))"

section \<open>Sorted sets\<close>

definition redis_zadd :: "'d env \<Rightarrow> string \<Rightarrow> 'd \<Rightarrow> string \<Rightarrow> unit redis" where
  "redis_zadd E key score member =
     mbind (get_socket E key) (\<lambda>socket.
       mseq (send_cmd socket (build ''ZADD'' [mc_str key, mc_double E score, mc_str member]))
         (recv_int_ok_reply E socket))"

definition redis_zrem :: "'d env \<Rightarrow> string \<Rightarrow> string \<Rightarrow> unit redis" where
  "redis_zrem E key member =
     mbind (get_socket E key) (\<lambda>socket.
       mseq (send_cmd socket (build ''ZREM'' [mc_str key, mc_str member]))
         (recv_int_ok_reply E socket))"

definition redis_zincrby :: "'d env \<Rightarrow> string \<Rightarrow> string \<Rightarrow> 'd \<Rightarrow> 'd redis" where
  "redis_zincrby E key member increment =
     mbind (get_socket E key) (\<lambda>socket.
       mseq (send_cmd socket (build ''ZINCRBY'' [mc_str key, mc_double E increment, mc_str member]))
         (mbind (recv_bulk_reply E socket) (\<lambda>s. mlift (lexical_double E s))))"

definition redis_zrank :: "'d env \<Rightarrow> string \<Rightarrow> string \<Rightarrow> int redis" where
  "redis_zrank E key member =
     mbind (get_socket E key) (\<lambda>socket.
       mseq (send_cmd socket (build ''ZRANK'' [mc_str key, mc_str member]))
         (recv_int_reply E socket))"

definition redis_zrevrank :: "'d env \<Rightarrow> string \<Rightarrow> string \<Rightarrow> int redis" where
  "redis_zrevrank E key value =
     mbind (get_socket E key) (\<lambda>socket.
       mseq (send_cmd socket (build ''ZREVRANK'' [mc_str key, mc_str value]))
         (recv_int_reply E socket))"

definition redis_zrange :: "'d env \<Rightarrow> string \<Rightarrow> int \<Rightarrow> int \<Rightarrow> string list \<Rightarrow> (string list) redis" where
  "redis_zrange E key start end out =
     mbind (get_socket E key) (\<lambda>socket.
       mseq (send_cmd socket (build ''ZRANGE'' [mc_str key, mc_int E start, mc_int E end]))
         (mbind (recv_multi_bulk_vec E socket out) (\<lambda>(n, out). mret out)))"

definition redis_zrevrange :: "'d env \<Rightarrow> string \<Rightarrow> int \<Rightarrow> int \<Rightarrow> string list \<Rightarrow> (string list) redis" where
  "redis_zrevrange E key start end out =
     mbind (get_socket E key) (\<lambda>socket.
       mseq (send_cmd socket (build ''ZREVRANGE'' [mc_str key, mc_int E start, mc_int E end]))
         (mbind (recv_multi_bulk_vec E socket out) (\<lambda>(n, out). mret out)))"

definition redis_zremrangebyrank :: "'d env \<Rightarrow> string \<Rightarrow> int \<Rightarrow> int \<Rightarrow> int redis" where
  "redis_zremrangebyrank E key start end =
     mbind (get_socket E key) (\<lambda>socket.
       mseq (send_cmd socket (build ''ZREMRANGEBYRANK'' [mc_str key, mc_int E start, mc_int E end]))
         (recv_int_reply E socket))"

definition redis_zremrangebyscore :: "'d env \<Rightarrow> string \<Rightarrow> 'd \<Rightarrow> 'd \<Rightarrow> int redis" where
  "redis_zremrangebyscore E key min_v max_v =
     mbind (get_socket E key) (\<lambda>socket.
       mseq (send_cmd socket (build ''ZREMRANGEBYSCORE'' [mc_str key, mc_double E min_v, mc_double E max_v]))
         (recv_int_reply E socket))"

definition redis_zcard :: "'d env \<Rightarrow> string \<Rightarrow> int redis" where
  "redis_zcard E key =
     mbind (get_socket E key) (\<lambda>socket.
       mseq (send_cmd socket (build ''ZCARD'' [mc_str key]))
         (recv_int_reply E socket))"

definition redis_zscore :: "'d env \<Rightarrow> string \<Rightarrow> string \<Rightarrow> 'd redis" where
  "redis_zscore E key element =
     mbind (get_socket E key) (\<lambda>socket.
       mseq (send_cmd socket (build ''ZSCORE'' [mc_str key, mc_str element]))
         (mbind (recv_bulk_reply E socket) (\<lambda>s. mlift (lexical_double E s))))"

definition redis_zadd_pair :: "'d env \<Rightarrow> string \<Rightarrow> string \<times> 'd \<Rightarrow> unit redis" where
  "redis_zadd_pair E key value = redis_zadd E key (snd value) (fst value)"

text \<open>\<open>convert\<close>: the reply of a \<open>WITHSCORES\<close> query as pairs, appended to \<open>out\<close>.\<close>

fun convert_loop :: "'d env \<Rightarrow> string list \<Rightarrow> (string \<times> 'd) list \<Rightarrow> (string \<times> 'd) list result" where
  "convert_loop E (value # str_score # rest) out = (case lexical_double E str_score of
     Ret score \<Rightarrow> convert_loop E rest (out @ [(value, score)])
   | Exn e \<Rightarrow> Exn e
   | Stuck k \<Rightarrow> Stuck k)"
| "convert_loop E [value] out = Stuck Undefined"
| "convert_loop E [] out = Ret out"

definition convert_scores :: "'d env \<Rightarrow> string list \<Rightarrow> (string \<times> 'd) list \<Rightarrow> (string \<times> 'd) list redis" where
  "convert_scores E ins out =
     mseq (massert (length ins mod 2 = 0)) (mlift (convert_loop E ins out))"

definition redis_zrange_scores ::
  "'d env \<Rightarrow> string \<Rightarrow> int \<Rightarrow> int \<Rightarrow> (string \<times> 'd) list \<Rightarrow> (string \<times> 'd) list redis" where
  "redis_zrange_scores E key start end out =
     mbind (get_socket E key) (\<lambda>socket.
       mseq (send_cmd socket (build ''ZRANGE''
           [mc_str key, mc_int E start, mc_int E end, mc_str ''WITHSCORES'']))
         (mbind (recv_multi_bulk_vec E socket []) (\<lambda>(n, res). convert_scores E res out)))"

definition redis_zrevrange_scores ::
  "'d env \<Rightarrow> string \<Rightarrow> int \<Rightarrow> int \<Rightarrow> (string \<times> 'd) list \<Rightarrow> (string \<times> 'd) list redis" where
  "redis_zrevrange_scores E key start end out =
     mbind (get_socket E key) (\<lambda>socket.
       mseq (send_cmd socket (build ''ZREVRANGE''
           [mc_str key, mc_int E start, mc_int E end, mc_str ''WITHSCORES'']))
         (mbind (recv_multi_bulk_vec E socket []) (\<lambda>(n, res). convert_scores E res out)))"

text \<open>\<open>range_specifier\<close>: two bits of an \<open>int\<close>; a set bit puts a parenthesis before the bound.\<close>

datatype range_specifier = exclude_min | exclude_max

fun spec_bit :: "range_specifier \<Rightarrow> nat" where
  "spec_bit exclude_min = 0" | "spec_bit exclude_max = 1"

definition bound_str :: "'d env \<Rightarrow> int \<Rightarrow> range_specifier \<Rightarrow> 'd \<Rightarrow> string" where
  "bound_str E range_modification which x =
     (if bit range_modification (spec_bit which) then ''('' else []) @ show_double E x"

definition redis_zrangebyscore_base ::
  "'d env \<Rightarrow> bool \<Rightarrow> string \<Rightarrow> 'd \<Rightarrow> 'd \<Rightarrow> string list \<Rightarrow> int \<Rightarrow> int \<Rightarrow> int \<Rightarrow> string list redis" where
  "redis_zrangebyscore_base E withscores key min_v max_v out offset max_count range_modification =
     mbind (get_socket E key) (\<lambda>socket.
       mseq (send_cmd socket (build ''ZRANGEBYSCORE''
           ([mc_str key, mc_str (bound_str E range_modification exclude_min min_v),
             mc_str (bound_str E range_modification exclude_max max_v)]
            @ (if max_count \<noteq> -1 \<or> offset > 0
               then [mc_str ''LIMIT'', mc_int E offset, mc_int E max_count] else [])
            @ (if withscores then [mc_str ''WITHSCORES''] else []))))
         (mbind (recv_multi_bulk_vec E socket out) (\<lambda>(n, out). mret out)))"

definition redis_zrevrangebyscore_base ::
  "'d env \<Rightarrow> bool \<Rightarrow> string \<Rightarrow> 'd \<Rightarrow> 'd \<Rightarrow> string list \<Rightarrow> int \<Rightarrow> int \<Rightarrow> int \<Rightarrow> string list redis" where
  "redis_zrevrangebyscore_base E withscores key max_v min_v out offset max_count range_modification =
     mbind (get_socket E key) (\<lambda>socket.
       mseq (send_cmd socket (build ''ZREVRANGEBYSCORE''
           ([mc_str key, mc_str (bound_str E range_modification exclude_max max_v),
             mc_str (bound_str E range_modification exclude_min min_v)]
            @ (if max_count \<noteq> -1 \<or> offset > 0
               then [mc_str ''LIMIT'', mc_int E offset, mc_int E max_count] else [])
            @ (if withscores then [mc_str ''WITHSCORES''] else []))))
         (mbind (recv_multi_bulk_vec E socket out) (\<lambda>(n, out). mret out)))"

definition redis_zrangebyscore ::
  "'d env \<Rightarrow> string \<Rightarrow> 'd \<Rightarrow> 'd \<Rightarrow> string list \<Rightarrow> int \<Rightarrow> int \<Rightarrow> int \<Rightarrow> string list redis" where
  "redis_zrangebyscore E key min_v max_v out offset max_count range_modification =
     redis_zrangebyscore_base E False key min_v max_v out offset max_count range_modification"

definition redis_zrangebyscore_scores ::
  "'d env \<Rightarrow> string \<Rightarrow> 'd \<Rightarrow> 'd \<Rightarrow> (string \<times> 'd) list \<Rightarrow> int \<Rightarrow> int \<Rightarrow> int \<Rightarrow> (string \<times> 'd) list redis" where
  "redis_zrangebyscore_scores E key min_v max_v out offset max_count range_modification =
     mbind (redis_zrangebyscore_base E True key min_v max_v [] offset max_count range_modification)
       (\<lambda>res. convert_scores E res out)"

definition redis_zrevrangebyscore ::
  "'d env \<Rightarrow> string \<Rightarrow> 'd \<Rightarrow> 'd \<Rightarrow> string list \<Rightarrow> int \<Rightarrow> int \<Rightarrow> int \<Rightarrow> string list redis" where
  "redis_zrevrangebyscore E key max_v min_v out offset max_count range_modification =
     redis_zrevrangebyscore_base E False key max_v min_v out offset max_count range_modification"

text \<open>The overload with scores declares its bounds in the other order.\<close>

definition redis_zrevrangebyscore_scores ::
  "'d env \<Rightarrow> string \<Rightarrow> 'd \<Rightarrow> 'd \<Rightarrow> (string \<times> 'd) list \<Rightarrow> int \<Rightarrow> int \<Rightarrow> int \<Rightarrow> (string \<times> 'd) list redis" where
  "redis_zrevrangebyscore_scores E key min_v max_v out offset max_count range_modification =
     mbind (redis_zrevrangebyscore_base E True key max_v min_v [] offset max_count range_modification)
       (\<lambda>res. convert_scores E res out)"

definition redis_zcount :: "'d env \<Rightarrow> string \<Rightarrow> 'd \<Rightarrow> 'd \<Rightarrow> int \<Rightarrow> int redis" where
  "redis_zcount E key min_v max_v range_modification =
     mbind (get_socket E key) (\<lambda>socket.
       mseq (send_cmd socket (build ''ZCOUNT''
           [mc_str key, mc_str (bound_str E range_modification exclude_min min_v),
            mc_str (bound_str E range_modification exclude_max max_v)]))
         (recv_int_reply E socket))"

section \<open>Hashes\<close>

definition redis_hset :: "'d env \<Rightarrow> string \<Rightarrow> string \<Rightarrow> string \<Rightarrow> bool redis" where
  "redis_hset E key field value =
     mbind (get_socket E key) (\<lambda>socket.
       mseq (send_cmd socket (build ''HSET'' [mc_str key, mc_str field, mc_str value]))
         (mbind (recv_int_reply E socket) (\<lambda>n. mret (n = 1))))"

definition redis_hget :: "'d env \<Rightarrow> string \<Rightarrow> string \<Rightarrow> string redis" where
  "redis_hget E key field =
     mbind (get_socket E key) (\<lambda>socket.
       mseq (send_cmd socket (build ''HGET'' [mc_str key, mc_str field]))
         (recv_bulk_reply E socket))"

definition redis_hsetnx :: "'d env \<Rightarrow> string \<Rightarrow> string \<Rightarrow> string \<Rightarrow> bool redis" where
  "redis_hsetnx E key field value =
     mbind (get_socket E key) (\<lambda>socket.
       mseq (send_cmd socket (build ''HSETNX'' [mc_str key, mc_str field, mc_str value]))
         (mbind (recv_int_reply E socket) (\<lambda>n. mret (n = 1))))"

definition redis_hincrby :: "'d env \<Rightarrow> string \<Rightarrow> string \<Rightarrow> int \<Rightarrow> int redis" where
  "redis_hincrby E key field by =
     mbind (get_socket E key) (\<lambda>socket.
       mseq (send_cmd socket (build ''HINCRBY'' [mc_str key, mc_str field, mc_int E by]))
         (recv_int_reply E socket))"

definition redis_hexists :: "'d env \<Rightarrow> string \<Rightarrow> string \<Rightarrow> bool redis" where
  "redis_hexists E key field =
     mbind (get_socket E key) (\<lambda>socket.
       mseq (send_cmd socket (build ''HEXISTS'' [mc_str key, mc_str field]))
         (mbind (recv_int_reply E socket) (\<lambda>n. mret (n = 1))))"

definition redis_hdel :: "'d env \<Rightarrow> string \<Rightarrow> string \<Rightarrow> bool redis" where
  "redis_hdel E key field =
     mbind (get_socket E key) (\<lambda>socket.
       mseq (send_cmd socket (build ''HDEL'' [mc_str key, mc_str field]))
         (mbind (recv_int_reply E socket) (\<lambda>n. mret (n = 1))))"

definition redis_hlen :: "'d env \<Rightarrow> string \<Rightarrow> int redis" where
  "redis_hlen E key =
     mbind (get_socket E key) (\<lambda>socket.
       mseq (send_cmd socket (build ''HLEN'' [mc_str key]))
         (recv_int_reply E socket))"

definition redis_hkeys :: "'d env \<Rightarrow> string \<Rightarrow> string list \<Rightarrow> (string list) redis" where
  "redis_hkeys E key out =
     mbind (get_socket E key) (\<lambda>socket.
       mseq (send_cmd socket (build ''HKEYS'' [mc_str key]))
         (mbind (recv_multi_bulk_vec E socket out) (\<lambda>(n, out). mret out)))"

definition redis_hvals :: "'d env \<Rightarrow> string \<Rightarrow> string list \<Rightarrow> (string list) redis" where
  "redis_hvals E key out =
     mbind (get_socket E key) (\<lambda>socket.
       mseq (send_cmd socket (build ''HVALS'' [mc_str key]))
         (mbind (recv_multi_bulk_vec E socket out) (\<lambda>(n, out). mret out)))"

definition redis_hmset :: "'d env \<Rightarrow> string \<Rightarrow> string list \<Rightarrow> string list \<Rightarrow> unit redis" where
  "redis_hmset E key field_names vals =
     (if field_names = [] \<or> vals = [] then mret ()
      else mbind (get_socket E key) (\<lambda>socket.
        mseq (massert (length field_names = length vals))
          (mseq (send_cmd socket (build ''HMSET''
              (mc_str key # concat (map (\<lambda>(f, v). [mc_str f, mc_str v]) (zip field_names vals)))))
            (recv_ok_reply socket))))"

definition redis_hmset_pairs :: "'d env \<Rightarrow> string \<Rightarrow> (string \<times> string) list \<Rightarrow> unit redis" where
  "redis_hmset_pairs E key field_value_pairs =
     mbind (get_socket E key) (\<lambda>socket.
       mseq (send_cmd socket (build ''HMSET''
           (mc_str key # concat (map (\<lambda>(f, v). [mc_str f, mc_str v]) field_value_pairs))))
         (recv_ok_reply socket))"

definition redis_hmget :: "'d env \<Rightarrow> string \<Rightarrow> string list \<Rightarrow> string list \<Rightarrow> string list redis" where
  "redis_hmget E key field_names out =
     (if field_names = [] then mret out
      else mbind (get_socket E key) (\<lambda>socket.
        mseq (send_cmd socket (build ''HMGET'' (mc_str key # map mc_str field_names)))
          (mbind (recv_multi_bulk_vec E socket out) (\<lambda>(n, out). mret out))))"

text \<open>\<open>s[i+1]\<close> is read past the end for a reply of odd length.\<close>

fun pair_up :: "string list \<Rightarrow> (string \<times> string) list \<Rightarrow> (string \<times> string) list result" where
  "pair_up (a # b # s) out = pair_up s (out @ [(a, b)])"
| "pair_up [a] out = Stuck Undefined"
| "pair_up [] out = Ret out"

definition redis_hgetall :: "'d env \<Rightarrow> string \<Rightarrow> (string \<times> string) list \<Rightarrow> (string \<times> string) list redis" where
  "redis_hgetall E key out =
     mbind (get_socket E key) (\<lambda>socket.
       mseq (send_cmd socket (build ''HGETALL'' [mc_str key]))
         (mbind (recv_multi_bulk_vec E socket []) (\<lambda>(n, s). mlift (pair_up s out))))"

end
