(* ===== verification/Redis_Frame.thy ===== *)
theory Redis_Frame
  imports Redis_Client
begin

text \<open>
  What the single-key commands do to the client's world: the socket they may touch, and the complete
  exchange (request written, reply read) when the socket works.
\<close>

section \<open>Frames\<close>

definition frame :: "int set \<Rightarrow> redis_io \<Rightarrow> redis_io \<Rightarrow> bool" where
  "frame S w w' \<longleftrightarrow> connections w' = connections w \<and> dials w' = dials w \<and>
     closed_fds w' = closed_fds w \<and>
     (\<forall>fd. fd \<notin> S \<longrightarrow> rxq w' fd = rxq w fd \<and> wrq w' fd = wrq w fd \<and> sent w' fd = sent w fd)"

lemma frame_refl [simp, preserves_intros]: "reflp (frame S)" "frame S w w"
  by (simp_all add: frame_def reflp_def)

lemma frame_trans [simp, preserves_intros]: "transp (frame S)"
  by (auto simp: frame_def transp_def)

lemma frame_mono: "frame S w w' \<Longrightarrow> S \<subseteq> T \<Longrightarrow> frame T w w'"
  by (auto simp: frame_def)

lemma on_rx_frame [preserves_intros]: "preserves (frame {fd}) (on_rx fd f)"
  by (auto simp: preserves_def on_rx_def frame_def split: prod.split)

lemma redis_send_frame [preserves_intros]: "preserves (frame {fd}) (redis_send fd m)"
  by (auto simp: preserves_def redis_send_def frame_def split: prod.split)

lemma get_socket_frame [preserves_intros]: "preserves (frame S) (get_socket E key)"
  by (simp add: preserves_def get_socket_def)

lemma read_line_frame [preserves_intros]: "preserves (frame {fd}) (read_line fd)"
  unfolding read_line_def read_line_max_def
  by (intro preserves_intros; simp)

lemma read_n_frame [preserves_intros]: "preserves (frame {fd}) (read_n fd n)"
  unfolding read_n_def by (intro preserves_intros; simp)

lemma preserves_case_prod [preserves_intros]:
  "(\<And>a b. preserves R (f a b)) \<Longrightarrow> preserves R (case p of (a, b) \<Rightarrow> f a b)"
  by (cases p) simp

lemma recv_single_line_reply_frame [preserves_intros]:
  "preserves (frame {fd}) (recv_single_line_reply fd)"
  unfolding recv_single_line_reply_def protocol_error_def Let_def
  by (intro preserves_intros; simp)

lemma recv_ok_reply_frame [preserves_intros]: "preserves (frame {fd}) (recv_ok_reply fd)"
  unfolding recv_ok_reply_def protocol_error_def by (intro preserves_intros; simp)

lemma recv_bulk_hdr_frame [preserves_intros]: "preserves (frame {fd}) (recv_bulk_hdr E fd c)"
  unfolding recv_bulk_hdr_def protocol_error_def by (intro preserves_intros; simp)

lemma recv_bulk_reply_frame [preserves_intros]: "preserves (frame {fd}) (recv_bulk_reply E fd)"
  unfolding recv_bulk_reply_def protocol_error_def by (intro preserves_intros; simp)

lemma recv_multi_bulk_vec_frame [preserves_intros]:
  "preserves (frame {fd}) (recv_multi_bulk_vec E fd out)"
  unfolding recv_multi_bulk_vec_def by (intro preserves_intros; simp)

lemma recv_multi_bulk_set_frame [preserves_intros]:
  "preserves (frame {fd}) (recv_multi_bulk_set E fd out)"
  unfolding recv_multi_bulk_set_def by (intro preserves_intros; simp)

lemma recv_int_reply_frame [preserves_intros]:
  "preserves (frame {fd}) (recv_int_reply E fd)" "preserves (frame {fd}) (recv_int_reply_ty E ty fd)"
  unfolding recv_int_reply_def recv_int_reply_ty_def protocol_error_def
  by (intro preserves_intros; simp)+

lemma recv_int_ok_reply_frame [preserves_intros]: "preserves (frame {fd}) (recv_int_ok_reply E fd)"
  unfolding recv_int_ok_reply_def protocol_error_def by (intro preserves_intros; simp)

lemma send_cmd_frame [preserves_intros]: "preserves (frame {fd}) (send_cmd fd m)"
  unfolding send_cmd_def by (intro preserves_intros)

lemma next_reply_type_frame [preserves_intros]: "preserves (frame {fd}) (next_reply_type fd)"
  unfolding next_reply_type_def Let_def by (intro preserves_intros; simp)

lemma preserves_reply_case [preserves_intros]:
  "preserves R a \<Longrightarrow> preserves R b \<Longrightarrow> preserves R c \<Longrightarrow> preserves R d \<Longrightarrow> preserves R e \<Longrightarrow> preserves R f \<Longrightarrow>
    preserves R (case t of no_reply \<Rightarrow> a | status_code_reply \<Rightarrow> b | error_reply \<Rightarrow> c | int_reply \<Rightarrow> d
      | bulk_reply \<Rightarrow> e | multi_bulk_reply \<Rightarrow> f)"
  by (cases t) simp_all

lemma recv_generic_reply_frame [preserves_intros]: "preserves (frame {fd}) (recv_generic_reply E fd)"
  unfolding recv_generic_reply_def by (intro preserves_intros; simp)

section \<open>Commands that stay on their key's socket\<close>

definition on_key_socket :: "'d env \<Rightarrow> string \<Rightarrow> 'a redis \<Rightarrow> bool" where
  "on_key_socket E key m \<longleftrightarrow> (\<forall>w. case route E (connections w) key of
     Ret fd \<Rightarrow> frame {fd} w (snd (m w)) | Exn e \<Rightarrow> snd (m w) = w | Stuck k \<Rightarrow> snd (m w) = w)"

lemma on_key_socketI [intro]:
  assumes "\<And>fd. preserves (frame {fd}) (f fd)"
  shows "on_key_socket E key (mbind (get_socket E key) f)"
  unfolding on_key_socket_def
proof
  fix w
  show "case route E (connections w) key of
      Ret fd \<Rightarrow> frame {fd} w (snd (mbind (get_socket E key) f w))
    | Exn e \<Rightarrow> snd (mbind (get_socket E key) f w) = w
    | Stuck k \<Rightarrow> snd (mbind (get_socket E key) f w) = w"
    using assms by (auto simp: mbind_run get_socket_def preserves_def split: result.split)
qed

lemma on_key_socket_mret [intro]: "on_key_socket E key (mret a)"
  by (simp add: on_key_socket_def mret_run split: result.split)

lemma on_key_socket_if [intro]:
  "on_key_socket E key m \<Longrightarrow> on_key_socket E key n \<Longrightarrow> on_key_socket E key (if b then m else n)"
  by simp

lemma pop_reply_frame [preserves_intros]: "preserves (frame {fd}) (pop_reply E fd key secs)"
  unfolding pop_reply_def
  by (intro preserves_intros) (auto intro!: preserves_intros split: list.split exn.split)

lemma convert_scores_frame [preserves_intros]: "preserves (frame {fd}) (convert_scores E ins out)"
  unfolding convert_scores_def by (intro preserves_intros; simp)

text \<open>A command that first routes its key, as \<open>get_socket(key)\<close> does, and then works on that socket.\<close>

lemmas local_intros = on_key_socketI preserves_intros

lemmas simple_defs =
  redis_set_def redis_get_def redis_getset_def redis_setnx_def redis_setex_def
  redis_substr_def redis_incr_def redis_incr_ty_def redis_incrby_def redis_incrby_ty_def
  redis_decr_def redis_decr_ty_def redis_decrby_def redis_decrby_ty_def redis_exists_def
  redis_del_def redis_expire_def redis_ttl_def redis_move_def redis_publish_def
  redis_rpush_def redis_lpush_def redis_llen_def redis_lrange_def redis_ltrim_def
  redis_lindex_def redis_lset_def redis_lrem_def redis_lpop_def redis_rpop_def
  redis_sadd_def redis_srem_def redis_spop_def redis_scard_def redis_sismember_def
  redis_smembers_def redis_srandmember_def redis_zadd_def redis_zrem_def redis_zincrby_def
  redis_zrank_def redis_zrevrank_def redis_zrange_def redis_zrevrange_def redis_zremrangebyrank_def
  redis_zremrangebyscore_def redis_zcard_def redis_zscore_def redis_hset_def redis_hget_def
  redis_hsetnx_def redis_hincrby_def redis_hexists_def redis_hdel_def redis_hlen_def
  redis_hkeys_def redis_hvals_def

lemmas composed_defs =
  redis_append_def redis_type_of_def redis_get_list_def redis_lrem_exact_def
  redis_blpop_def redis_brpop_def redis_sort_def redis_sort_by_def
  redis_sadd_range_def redis_zadd_pair_def redis_zrange_scores_def redis_zrevrange_scores_def
  redis_zrangebyscore_def redis_zrangebyscore_scores_def redis_zrevrangebyscore_def redis_zrevrangebyscore_scores_def
  redis_zcount_def redis_hmset_def redis_hmset_pairs_def redis_hmget_def
  redis_hgetall_def redis_zrangebyscore_base_def redis_zrevrangebyscore_base_def

text \<open>C21: Every command on one key touches only the socket the key is routed to: whatever the network
  does, and whether the command returns, throws or fails an assertion, the connections and all other
  sockets (what was sent on them, what is left to receive) are as before.\<close>

theorem single_key_commands_local:
  "on_key_socket E key (redis_set E key value) \<and>
   on_key_socket E key (redis_get E key) \<and>
   on_key_socket E key (redis_getset E key value) \<and>
   on_key_socket E key (redis_setnx E key value) \<and>
   on_key_socket E key (redis_setex E key value secs) \<and>
   on_key_socket E key (redis_substr E key a b) \<and>
   on_key_socket E key (redis_incr E key) \<and>
   on_key_socket E key (redis_incr_ty E ty key) \<and>
   on_key_socket E key (redis_incrby E key by) \<and>
   on_key_socket E key (redis_incrby_ty E ty key by) \<and>
   on_key_socket E key (redis_decr E key) \<and>
   on_key_socket E key (redis_decr_ty E ty key) \<and>
   on_key_socket E key (redis_decrby E key by) \<and>
   on_key_socket E key (redis_decrby_ty E ty key by) \<and>
   on_key_socket E key (redis_exists E key) \<and>
   on_key_socket E key (redis_del E key) \<and>
   on_key_socket E key (redis_expire E key secs) \<and>
   on_key_socket E key (redis_ttl E key) \<and>
   on_key_socket E key (redis_move E key dbindex) \<and>
   on_key_socket E key (redis_append E key value) \<and>
   on_key_socket E key (redis_type_of E key) \<and>
   on_key_socket E key (redis_rpush E key value) \<and>
   on_key_socket E key (redis_lpush E key value) \<and>
   on_key_socket E key (redis_llen E key) \<and>
   on_key_socket E key (redis_lrange E key a b out) \<and>
   on_key_socket E key (redis_ltrim E key a b) \<and>
   on_key_socket E key (redis_lindex E key index) \<and>
   on_key_socket E key (redis_lset E key index value) \<and>
   on_key_socket E key (redis_lrem E key count value) \<and>
   on_key_socket E key (redis_lpop E key) \<and>
   on_key_socket E key (redis_rpop E key) \<and>
   on_key_socket E key (redis_get_list E key out) \<and>
   on_key_socket E key (redis_lrem_exact E key count value) \<and>
   on_key_socket E key (redis_blpop E key timeout) \<and>
   on_key_socket E key (redis_brpop E key timeout) \<and>
   on_key_socket E key (redis_sort E key out order alpha) \<and>
   on_key_socket E key (redis_sort_by E key out pat a b gets order alpha) \<and>
   on_key_socket E key (redis_sadd E key value) \<and>
   on_key_socket E key (redis_srem E key value) \<and>
   on_key_socket E key (redis_spop E key) \<and>
   on_key_socket E key (redis_scard E key) \<and>
   on_key_socket E key (redis_sismember E key value) \<and>
   on_key_socket E key (redis_smembers E key out) \<and>
   on_key_socket E key (redis_srandmember E key) \<and>
   on_key_socket E key (redis_sadd_range E key vals) \<and>
   on_key_socket E key (redis_zadd E key score member) \<and>
   on_key_socket E key (redis_zrem E key member) \<and>
   on_key_socket E key (redis_zincrby E key member increment) \<and>
   on_key_socket E key (redis_zrank E key member) \<and>
   on_key_socket E key (redis_zrevrank E key value) \<and>
   on_key_socket E key (redis_zrange E key a b out) \<and>
   on_key_socket E key (redis_zrevrange E key a b out) \<and>
   on_key_socket E key (redis_zremrangebyrank E key a b) \<and>
   on_key_socket E key (redis_zremrangebyscore E key min_v max_v) \<and>
   on_key_socket E key (redis_zcard E key) \<and>
   on_key_socket E key (redis_zscore E key element) \<and>
   on_key_socket E key (redis_zadd_pair E key sp) \<and>
   on_key_socket E key (redis_zrange_scores E key a b sout) \<and>
   on_key_socket E key (redis_zrevrange_scores E key a b sout) \<and>
   on_key_socket E key (redis_zrangebyscore E key lo hi out a b rm) \<and>
   on_key_socket E key (redis_zrangebyscore_scores E key lo hi sout a b rm) \<and>
   on_key_socket E key (redis_zrevrangebyscore E key hi lo out a b rm) \<and>
   on_key_socket E key (redis_zrevrangebyscore_scores E key lo hi sout a b rm) \<and>
   on_key_socket E key (redis_zcount E key lo hi rm) \<and>
   on_key_socket E key (redis_hset E key field value) \<and>
   on_key_socket E key (redis_hget E key field) \<and>
   on_key_socket E key (redis_hsetnx E key field value) \<and>
   on_key_socket E key (redis_hincrby E key field by) \<and>
   on_key_socket E key (redis_hexists E key field) \<and>
   on_key_socket E key (redis_hdel E key field) \<and>
   on_key_socket E key (redis_hlen E key) \<and>
   on_key_socket E key (redis_hkeys E key out) \<and>
   on_key_socket E key (redis_hvals E key out) \<and>
   on_key_socket E key (redis_hmset E key names vals) \<and>
   on_key_socket E key (redis_hmset_pairs E key pairs) \<and>
   on_key_socket E key (redis_hmget E key names out) \<and>
   on_key_socket E key (redis_hgetall E key pairs)"
  unfolding composed_defs simple_defs protocol_error_def Let_def mbind_assoc
  by (intro conjI on_key_socketI on_key_socket_mret on_key_socket_if; (intro preserves_intros; simp)?)

section \<open>A complete exchange\<close>

definition wr_ready :: "wr list \<Rightarrow> bool" where
  "wr_ready q \<longleftrightarrow> (\<forall>ev \<in> set q. \<exists>k. ev = Took (Suc k))"

lemma redis_send_ok:
  assumes "0 \<le> fd" "wr_ready (wrq w fd)"
  shows "\<exists>q. redis_send fd m w = (Ret (), w\<lparr>wrq := (wrq w)(fd := q), sent := (sent w)(fd := sent w fd @ m)\<rparr>)
    \<and> wr_ready q"
proof -
  obtain q where "anetWrite m 0 (wrq w fd) = (Inr (0 + length m), [], q)" "set q \<subseteq> set (wrq w fd)"
    using anetWrite_all [of "wrq w fd" m 0] assms(2) unfolding wr_ready_def by blast
  then show ?thesis using assms by (auto simp: redis_send_def wr_ready_def)
qed

text \<open>The state after a request has been written on \<open>fd\<close> and its reply read, with \<open>rest\<close> still to come.\<close>

definition exchanged :: "int \<Rightarrow> string \<Rightarrow> string \<Rightarrow> redis_io \<Rightarrow> redis_io \<Rightarrow> bool" where
  "exchanged fd req rest w w' \<longleftrightarrow> frame {fd} w w' \<and> sent w' fd = sent w fd @ req \<and>
     rx_ready fd rest w' \<and> wr_ready (wrq w' fd)"

lemma send_then_read:
  assumes "0 \<le> fd" "wr_ready (wrq w fd)" "reads fd rd bs r" "rx_ready fd (bs @ rest) w"
  shows "\<exists>w'. mseq (redis_send fd req) rd w = (r, w') \<and> exchanged fd req rest w w'"
proof -
  obtain q where q: "redis_send fd req w =
      (Ret (), w\<lparr>wrq := (wrq w)(fd := q), sent := (sent w)(fd := sent w fd @ req)\<rparr>)" "wr_ready q"
    using redis_send_ok [OF assms(1,2)] by blast
  let ?w = "w\<lparr>wrq := (wrq w)(fd := q), sent := (sent w)(fd := sent w fd @ req)\<rparr>"
  have "rx_ready fd (bs @ rest) ?w" using assms(4) by (simp add: rx_ready_def)
  from readsD [OF assms(3) this] obtain q' where
    "rd ?w = (r, ?w\<lparr>rxq := (rxq ?w)(fd := q')\<rparr>)" "rx_quiet q'" "rx_bytes q' = rest" .
  then show ?thesis using q
    by (intro exI [of _ "?w\<lparr>rxq := (rxq ?w)(fd := q')\<rparr>"])
      (simp add: mseq_Ret exchanged_def frame_def rx_ready_def)
qed

definition link_up :: "'d env \<Rightarrow> string \<Rightarrow> int \<Rightarrow> string \<Rightarrow> redis_io \<Rightarrow> bool" where
  "link_up E key fd bs w \<longleftrightarrow> route E (connections w) key = Ret fd \<and> 0 < fd \<and>
     wr_ready (wrq w fd) \<and> rx_ready fd bs w"

lemma exchange:
  assumes "link_up E key fd (bs @ rest) w" "reads fd (rd fd) bs r"
  shows "\<exists>w'. mbind (get_socket E key) (\<lambda>s. mseq (send_cmd s m) (rd s)) w = (r, w') \<and>
    exchanged fd (makecmd_string m) rest w w'"
  using assms send_then_read [of fd w "rd fd" bs r rest "makecmd_string m"]
  by (simp add: link_up_def get_socket_def mbind_run send_cmd_def)

lemmas build_simps = build_def makecmd_string_def mc_simps

lemma reads_then:
  "reads fd m bs (Ret a) \<Longrightarrow> reads fd (mbind m (\<lambda>a. mret (f a))) bs (Ret (f a))"
  by (rule reads_mbind_pure, assumption) (rule reads_pure)

lemma reads_then_lift:
  "reads fd m bs (Ret a) \<Longrightarrow> reads fd (mbind m (\<lambda>a. mlift (f a))) bs (f a)"
  by (rule reads_mbind_pure, assumption) (rule reads_pure)

lemma demo_link [simp]: "link_up E key 3 bs (demo_io bs)"
  using demo_io_ready [of 3 bs]
  by (simp add: link_up_def route_def wr_ready_def) (simp add: demo_io_def)

text \<open>\<open>get\<close> writes exactly the request GET key on the key's socket and returns the value of the bulk
  reply, however the reply is cut into chunks; a nil reply gives the missing value.\<close>

theorem redis_get_exchange:
  assumes "lex_sound E" "link_up E key fd (reply_bytes (Bulk v) @ rest) w" "small_bulk v"
  shows "\<exists>w'. redis_get E key w = (Ret (case v of None \<Rightarrow> missing_value | Some d \<Rightarrow> d), w') \<and>
    exchanged fd (request_bytes [''GET'', key]) rest w w'"
proof -
  have "0 < fd" using assms(2) by (simp add: link_up_def)
  then have "reads fd (recv_bulk_reply E fd) (reply_bytes (Bulk v))
      (Ret (case v of None \<Rightarrow> missing_value | Some d \<Rightarrow> d))"
    using reads_bulk [OF _ assms(1,3)] by (cases v) simp_all
  from exchange [where rd = "recv_bulk_reply E" and m = "build ''GET'' [mc_str key]", OF assms(2) this]
  show ?thesis
    by (simp add: redis_get_def build_simps)
qed

theorem redis_get_exchange_witness:
  "\<exists>w'. redis_get (decimal_env (\<lambda>_ _. 0)) ''k'' (demo_io (reply_bytes (Bulk (Some ''v'')) @ [])) = (Ret ''v'', w') \<and>
    exchanged 3 (request_bytes [''GET'', ''k'']) [] (demo_io (reply_bytes (Bulk (Some ''v'')) @ [])) w'"
  using redis_get_exchange [where v = "Some ''v''" and rest = "[]"
      and E = "decimal_env (\<lambda>_ _. 0)" and key = "''k''", OF decimal_env_sound demo_link]
  by (simp add: small_reply_def long_max_def)

text \<open>\<open>set\<close> writes exactly SET key value, binary safe, and accepts +OK.\<close>

theorem redis_set_exchange:
  assumes "link_up E key fd (reply_bytes (Status ''OK'') @ rest) w"
  shows "\<exists>w'. redis_set E key v w = (Ret (), w') \<and>
    exchanged fd (request_bytes [''SET'', key, v]) rest w w'"
  using exchange [where rd = recv_ok_reply and m = "build ''SET'' [mc_str key, mc_str v]",
      OF assms reads_ok] assms
  by (simp add: redis_set_def build_simps link_up_def)

theorem redis_set_exchange_witness:
  "\<exists>w'. redis_set (decimal_env (\<lambda>_ _. 0)) ''k'' [CR, LF] (demo_io (reply_bytes (Status ''OK'') @ ''x'')) = (Ret (), w') \<and>
    exchanged 3 (request_bytes [''SET'', ''k'', [CR, LF]]) ''x'' (demo_io (reply_bytes (Status ''OK'') @ ''x'')) w'"
  by (rule redis_set_exchange [OF demo_link])

text \<open>\<open>lrange\<close> appends the elements of the multi bulk reply to \<open>out\<close> and returns their number.\<close>

theorem redis_lrange_exchange:
  assumes "lex_sound E" "link_up E key fd (reply_bytes (Multi (Some ds)) @ rest) w" "small_reply ds"
  shows "\<exists>w'. redis_lrange E key i j out w = (Ret (int (length ds), out @ map bulk_value ds), w') \<and>
    exchanged fd (request_bytes [''LRANGE'', key, show_int E i, show_int E j]) rest w w'"
  using exchange [where rd = "\<lambda>fd. recv_multi_bulk_vec E fd out"
      and m = "build ''LRANGE'' [mc_str key, mc_int E i, mc_int E j]",
      OF assms(2) reads_multi_bulk_vec [OF _ assms(1,3)]] assms(2)
  by (simp add: redis_lrange_def build_simps link_up_def)

theorem redis_lrange_exchange_witness:
  "\<exists>w'. redis_lrange (decimal_env (\<lambda>_ _. 0)) ''k'' 0 (-1) [''z''] (demo_io (reply_bytes (Multi (Some [Some ''a'', Some ''b''])) @ []))
      = (Ret (2, [''z'', ''a'', ''b'']), w') \<and>
    exchanged 3 (request_bytes [''LRANGE'', ''k'', ''0'', ''-1'']) [] (demo_io (reply_bytes (Multi (Some [Some ''a'', Some ''b''])) @ [])) w'"
proof -
  have s: "show_int (decimal_env (\<lambda>_ _. 0)) 0 = ''0''" "show_int (decimal_env (\<lambda>_ _. 0)) (-1) = ''-1''"
    by code_simp+
  show ?thesis
    using redis_lrange_exchange [where E = "decimal_env (\<lambda>_ _. 0)" and ds = "[Some ''a'', Some ''b'']" and key = "''k''" and rest = "[]" and i = 0
        and j = "-1" and out = "[''z'']", OF decimal_env_sound demo_link] s
    by (simp add: small_reply_def long_max_def del: reply_bytes.simps)
qed

end
