(* ===== verification/Redis_Cluster.thy ===== *)
theory Redis_Cluster
  imports Redis_Frame
begin

text \<open>
  The operations of \<open>redis::base_client\<close> that may involve several servers (\<open>src/common/redisclient.h\<close>):
  the scatter/gather commands over a \<open>std::map\<close> from sockets to pending commands, pipelines and
  transactions of \<open>command\<close> objects, the set operations, and the emulations of commands whose keys
  live on different servers. A \<open>std::map<int, T>\<close> is an association list in key order, which is the
  order \<open>BOOST_FOREACH\<close> sends and receives in; a \<open>std::set<string>\<close> is a sorted list.
\<close>

section \<open>Maps from sockets\<close>

text \<open>\<open>m[k]\<close> with a default, then an update through the reference.\<close>

definition omap_upd :: "'k::linorder \<Rightarrow> 'v \<Rightarrow> ('v \<Rightarrow> 'v) \<Rightarrow> ('k, 'v) omap \<Rightarrow> ('k, 'v) omap" where
  "omap_upd k dflt f m = omap_put k (f (case map_of m k of None \<Rightarrow> dflt | Some v \<Rightarrow> v)) m"

text \<open>The first loop of the scatter commands: each element is added to its socket's entry.\<close>

definition scatter ::
  "'d env \<Rightarrow> ('x \<Rightarrow> string) \<Rightarrow> 'v \<Rightarrow> ('x \<Rightarrow> 'v \<Rightarrow> 'v) \<Rightarrow> 'x list \<Rightarrow> ((int, 'v) omap) redis" where
  "scatter E key dflt add xs =
     mfold (\<lambda>x m. mbind (get_socket E (key x)) (\<lambda>socket. mret (omap_upd socket dflt (add x) m))) xs []"

section \<open>mset, msetex, mget\<close>

text \<open>\<open>mset(keys, values)\<close> routes by \<open>get_socket(keys)\<close>, the socket of the whole vector, in every round.\<close>

definition redis_mset :: "'d env \<Rightarrow> string list \<Rightarrow> string list \<Rightarrow> unit redis" where
  "redis_mset E keys vals =
     mseq (massert (length keys = length vals))
       (mbind (mfold (\<lambda>(k, v) m. mbind (get_socket_vec E keys) (\<lambda>socket.
            mret (omap_upd socket (makecmd_new ''MSET'') (\<lambda>cmd. mc_str v (mc_str k cmd)) m)))
          (zip keys vals) []) (\<lambda>socket_commands.
        mseq (mfor (\<lambda>(s, cmd). send_cmd s cmd) socket_commands)
          (mfor (\<lambda>(s, cmd). recv_ok_reply s) socket_commands)))"

definition redis_mset_pairs :: "'d env \<Rightarrow> (string \<times> string) list \<Rightarrow> unit redis" where
  "redis_mset_pairs E key_value_pairs =
     mbind (scatter E fst (makecmd_new ''MSET'') (\<lambda>(k, v) cmd. mc_str v (mc_str k cmd)) key_value_pairs)
       (\<lambda>socket_commands.
         mseq (mfor (\<lambda>(s, cmd). send_cmd s cmd) socket_commands)
           (mfor (\<lambda>(s, cmd). recv_ok_reply s) socket_commands))"

record msetex_data =
  mset_cmd :: makecmd
  expire_cmds :: string
  md_count :: nat

definition msetex_init :: msetex_data where
  "msetex_init = \<lparr>mset_cmd = makecmd_new ''MSET'', expire_cmds = [], md_count = 0\<rparr>"

definition msetex_add :: "'d env \<Rightarrow> int \<Rightarrow> string \<times> string \<Rightarrow> msetex_data \<Rightarrow> msetex_data" where
  "msetex_add E seconds kv dat = (case kv of (k, v) \<Rightarrow>
     dat\<lparr>mset_cmd := mc_str v (mc_str k (mset_cmd dat)),
         expire_cmds := expire_cmds dat @ makecmd_string (build ''EXPIRE'' [mc_str k, mc_int E seconds]),
         md_count := md_count dat + 1\<rparr>)"

definition redis_msetex :: "'d env \<Rightarrow> (string \<times> string) list \<Rightarrow> int \<Rightarrow> unit redis" where
  "redis_msetex E key_value_pairs seconds =
     mbind (scatter E fst msetex_init (msetex_add E seconds) key_value_pairs) (\<lambda>socket_commands.
       mseq (mfor (\<lambda>(s, dat). redis_send s (makecmd_string (mset_cmd dat) @ expire_cmds dat)) socket_commands)
         (mfor (\<lambda>(s, dat). mseq (recv_ok_reply s)
            (mfor (\<lambda>_. recv_int_ok_reply E s) [0..<md_count dat])) socket_commands))"

text \<open>
  \<open>mget\<close>: a reply with more elements than keys were asked for on its socket indexes past the end of
  \<open>indices\<close>.
\<close>

record connection_keys =
  ck_cmd :: makecmd
  ck_indices :: "nat list"

definition mget_add :: "nat \<times> string \<Rightarrow> connection_keys \<Rightarrow> connection_keys" where
  "mget_add ik c = (case ik of (i, k) \<Rightarrow>
     c\<lparr>ck_cmd := mc_str k (ck_cmd c), ck_indices := ck_indices c @ [i]\<rparr>)"

fun gather :: "nat list \<Rightarrow> string list \<Rightarrow> string list \<Rightarrow> string list result" where
  "gather indices [] out = Ret out"
| "gather [] (v # cur) out = Stuck Undefined"
| "gather (i # indices) (v # cur) out = gather indices cur (out[i := v])"

definition redis_mget :: "'d env \<Rightarrow> string list \<Rightarrow> string list redis" where
  "redis_mget E keys =
     mbind (scatter E snd \<lparr>ck_cmd = makecmd_new ''MGET'', ck_indices = []\<rparr> mget_add
         (zip [0..<length keys] keys)) (\<lambda>socket_commands.
       mseq (mfor (\<lambda>(s, c). send_cmd s (ck_cmd c)) socket_commands)
         (mfold (\<lambda>(s, c) out. mbind (recv_multi_bulk_vec E s []) (\<lambda>(n, cur_out).
             mlift (gather (ck_indices c) cur_out out)))
           socket_commands (replicate (length keys) [])))"

text \<open>\<open>msetnx\<close> has no return statement: flowing off its end is undefined.\<close>

definition redis_msetnx :: "'d env \<Rightarrow> string list \<Rightarrow> string list \<Rightarrow> bool redis" where
  "redis_msetnx E keys vals =
     mseq (massert (length keys = length vals))
       (mbind (mfold (\<lambda>(k, v) m. mbind (get_socket_vec E keys) (\<lambda>socket.
            mret (omap_upd socket (makecmd_new ''MSETNX'') (\<lambda>cmd. mc_str v (mc_str k cmd)) m)))
          (zip keys vals) []) (\<lambda>socket_commands.
        if length socket_commands > 1
        then mthrow (Runtime_error ''feature is not available in cluster mode'')
        else mseq (mfor (\<lambda>(s, cmd). mseq (send_cmd s cmd) (recv_ok_reply s)) socket_commands)
          (mstuck Undefined)))"

section \<open>exec and transactions\<close>

definition redis_exec :: "'d env \<Rightarrow> command \<Rightarrow> command redis" where
  "redis_exec E cmd =
     mbind (get_socket E (cm_hash_key cmd)) (\<lambda>socket.
       mseq (redis_send socket (cm_request cmd))
         (mbind (recv_generic_reply E socket) (\<lambda>r. mret (set_reply r cmd))))"

definition redis_exec_vec :: "'d env \<Rightarrow> command list \<Rightarrow> command list redis" where
  "redis_exec_vec E commands =
     mbind (scatter E cm_hash_key [] (\<lambda>c s. s @ cm_request c) commands) (\<lambda>socket_commands.
       mseq (mfor (\<lambda>(s, m). redis_send s m) socket_commands)
         (mmap (\<lambda>c. mbind (get_socket E (cm_hash_key c)) (\<lambda>socket.
             mbind (recv_generic_reply E socket) (\<lambda>r. mret (set_reply r c)))) commands))"

text \<open>\<open>read_line(s)[0]\<close> of an empty line is the null byte.\<close>

definition redis_exec_transaction :: "'d env \<Rightarrow> command list \<Rightarrow> command list redis" where
  "redis_exec_transaction E commands =
     mbind (mfold (\<lambda>c (cmd_socket, cmd_str). mbind (get_socket E (cm_hash_key c)) (\<lambda>socket.
           if cmd_socket = -1 then mret (socket, cmd_str @ cm_request c)
           else if cmd_socket \<noteq> socket
             then mthrow (Runtime_error ''calls in transaction map to different server!'')
           else mret (cmd_socket, cmd_str @ cm_request c)))
         commands (-1, makecmd_string (makecmd_new ''MULTI'')))
       (\<lambda>(cmd_socket, cmd_str).
       mseq (redis_send cmd_socket (cmd_str @ makecmd_string (makecmd_new ''EXEC'')))
       (mseq (recv_ok_reply cmd_socket)
       (mseq (mfor (\<lambda>_. mbind (recv_single_line_reply cmd_socket) (\<lambda>resp.
             if resp \<noteq> ''QUEUED''
             then mthrow (Runtime_error (''invalid state (expected 'QUEUED' in transaction but got ''
                    @ [CHR 0x27] @ resp @ [CHR 0x27, CHR '')'']))
             else mret ())) commands)
       (mbind (read_line cmd_socket) (\<lambda>line.
         if (case line of [] \<Rightarrow> CHR 0x00 | ch # _ \<Rightarrow> ch) \<noteq> CHR ''*''
         then mthrow (Runtime_error ''EXEC does not return a multi bulk reply'')
         else mmap (\<lambda>c. mbind (recv_generic_reply E cmd_socket) (\<lambda>r. mret (set_reply r c))) commands)))))"

section \<open>Keys of several servers\<close>

definition redis_del_range :: "'d env \<Rightarrow> string list \<Rightarrow> bool redis" where
  "redis_del_range E keys =
     mbind (scatter E id [] (\<lambda>k ks. ks @ [k]) keys) (\<lambda>sock_key_map.
       mseq (mfor (\<lambda>(s, ks). send_cmd s (build ''DEL'' [mc_strs ks])) sock_key_map)
         (mbind (mfold (\<lambda>(s, ks) res. mbind (recv_int_reply E s) (\<lambda>n. mlift (add_long res n)))
            sock_key_map 0) (\<lambda>res. mret (res \<noteq> 0))))"

definition all_connections :: "connection_data list redis" where
  "all_connections = (\<lambda>w. (Ret (connections w), w))"

definition redis_keys :: "'d env \<Rightarrow> string \<Rightarrow> string list \<Rightarrow> (int \<times> string list) redis" where
  "redis_keys E pattern out =
     mbind all_connections (\<lambda>cons.
       mseq (mfor (\<lambda>con. send_cmd (con_socket con) (build ''KEYS'' [mc_str pattern])) cons)
         (mfold (\<lambda>con (res, out). mbind (recv_multi_bulk_vec E (con_socket con) out) (\<lambda>(n, out).
             mbind (mlift (add_long res n)) (\<lambda>res. mret (res, out)))) cons (0, out)))"

text \<open>\<open>die\<close> is the number the random generator draws for more than one connection.\<close>

definition redis_randomkey :: "'d env \<Rightarrow> nat \<Rightarrow> string redis" where
  "redis_randomkey E die =
     mbind (con_at 0) (\<lambda>con. mbind all_connections (\<lambda>cons.
       mbind (if length cons > 1 then con_at die else mret con) (\<lambda>con.
         mseq (send_cmd (con_socket con) (build ''RANDOMKEY'' []))
           (recv_bulk_reply E (con_socket con)))))"

text \<open>\<open>rename\<close> across servers copies the value, then deletes the old key.\<close>

definition redis_rename :: "'d env \<Rightarrow> string \<Rightarrow> string \<Rightarrow> unit redis" where
  "redis_rename E old_name new_name =
     mbind (get_socket E old_name) (\<lambda>source_socket.
     mbind (get_socket E new_name) (\<lambda>destin_socket.
       if source_socket \<noteq> destin_socket then
         mbind (redis_type_of E old_name) (\<lambda>ty. case ty of
           datatype_none \<Rightarrow> mret ()
         | datatype_string \<Rightarrow>
             mseq (mbind (redis_get E old_name) (\<lambda>v. redis_set E new_name v))
               (mseq (redis_del E old_name) (mret ()))
         | datatype_list \<Rightarrow>
             mbind (redis_lrange E old_name 0 (-1) []) (\<lambda>(n, content).
               mseq (redis_del E new_name)
                 (mseq (mfor (\<lambda>v. mseq (redis_rpush E new_name v) (mret ())) content)
                   (mseq (redis_del E old_name) (mret ()))))
         | datatype_set \<Rightarrow>
             mbind (redis_smembers E old_name []) (\<lambda>(n, content).
               mseq (redis_del E new_name)
                 (mseq (mfor (\<lambda>v. mseq (redis_sadd E new_name v) (mret ())) content)
                   (mseq (redis_del E old_name) (mret ()))))
         | _ \<Rightarrow> mthrow (Runtime_error
             ''renaming is not supported for this datatype in cluster mode''))
       else mseq (send_cmd source_socket (build ''RENAME'' [mc_str old_name, mc_str new_name]))
         (recv_ok_reply source_socket)))"

definition redis_renamenx :: "'d env \<Rightarrow> string \<Rightarrow> string \<Rightarrow> bool redis" where
  "redis_renamenx E old_name new_name =
     mbind (get_socket E old_name) (\<lambda>source_socket.
     mbind (get_socket E new_name) (\<lambda>destin_socket.
       if source_socket \<noteq> destin_socket then
         mbind (redis_exists E new_name) (\<lambda>ex.
           if ex then mret False else mseq (redis_rename E old_name new_name) (mret True))
       else mseq (send_cmd source_socket (build ''RENAMENX'' [mc_str old_name, mc_str new_name]))
         (mbind (recv_int_reply E source_socket) (\<lambda>n. mret (n = 1)))))"

definition redis_smove :: "'d env \<Rightarrow> string \<Rightarrow> string \<Rightarrow> string \<Rightarrow> unit redis" where
  "redis_smove E srckey dstkey member =
     mbind (get_socket E srckey) (\<lambda>src_socket.
     mbind (get_socket E dstkey) (\<lambda>dst_socket.
       if dst_socket \<noteq> src_socket
       then mseq (redis_srem E srckey member) (mseq (redis_sadd E dstkey member) (mret ()))
       else mseq (send_cmd src_socket (build ''SMOVE'' [mc_str srckey, mc_str dstkey, mc_str member]))
         (recv_int_ok_reply E src_socket)))"

section \<open>Set operations\<close>

text \<open>\<open>std::set_intersection\<close> of two sorted ranges.\<close>

fun set_intersection :: "string list \<Rightarrow> string list \<Rightarrow> string list" where
  "set_intersection (x # xs) (y # ys) =
     (if x < y then set_intersection xs (y # ys)
      else if y < x then set_intersection (x # xs) ys
      else x # set_intersection xs ys)"
| "set_intersection xs ys = []"

definition redis_sinter :: "'d env \<Rightarrow> string list \<Rightarrow> string list \<Rightarrow> (int \<times> string list) redis" where
  "redis_sinter E keys out =
     mbind (scatter E id [] (\<lambda>k ks. ks @ [k]) keys) (\<lambda>per_server.
       mseq (mfor (\<lambda>(s, ks). send_cmd s (build ''SINTER'' [mc_strs ks])) per_server)
         (mbind (mfold (\<lambda>(s, ks) (i, out). mbind (recv_multi_bulk_set E s []) (\<lambda>(n, cur).
             if i > 0 then mret (Suc i, set_intersection out cur) else mret (Suc i, cur)))
           per_server (0, out)) (\<lambda>(i, out). mret (int (length out), out))))"

definition redis_sinterstore :: "'d env \<Rightarrow> string \<Rightarrow> string list \<Rightarrow> int redis" where
  "redis_sinterstore E dstkey keys =
     mbind (get_socket E dstkey) (\<lambda>socket.
     mbind (get_socket_vec E keys) (\<lambda>source_sockets.
       if socket \<noteq> source_sockets then
         mbind (redis_sinter E keys []) (\<lambda>(n, content).
           mseq (redis_del E dstkey)
             (mseq (mfor (\<lambda>v. mseq (redis_sadd E dstkey v) (mret ())) content)
               (mret (int (length content)))))
       else mseq (send_cmd socket (build ''SINTERSTORE'' [mc_str dstkey, mc_strs keys]))
         (recv_int_reply E socket)))"

definition redis_sunion :: "'d env \<Rightarrow> string list \<Rightarrow> string list \<Rightarrow> (int \<times> string list) redis" where
  "redis_sunion E keys out =
     mbind (get_socket_vec E keys) (\<lambda>socket.
       if socket = -1 then
         mbind (scatter E id (makecmd_new ''SUNION'') mc_str keys) (\<lambda>per_socket_keys.
           mseq (mfor (\<lambda>(s, cmd). send_cmd s cmd) per_socket_keys)
             (mbind (mfold (\<lambda>(s, cmd) out. mbind (recv_multi_bulk_set E s out) (\<lambda>(n, out). mret out))
                per_socket_keys out) (\<lambda>out. mret (int (length out), out))))
       else mseq (send_cmd socket (build ''SUNION'' [mc_strs keys]))
         (recv_multi_bulk_set E socket out))"

definition redis_sunionstore :: "'d env \<Rightarrow> string \<Rightarrow> string list \<Rightarrow> int redis" where
  "redis_sunionstore E dstkey keys =
     mbind (get_socket E dstkey) (\<lambda>socket.
     mbind (get_socket_vec E keys) (\<lambda>source_sockets.
       if socket \<noteq> source_sockets then
         mbind (redis_sunion E keys []) (\<lambda>(n, content).
           mseq (redis_del E dstkey) (redis_sadd_range E dstkey content))
       else mseq (send_cmd socket (build ''SUNIONSTORE'' [mc_str dstkey, mc_strs keys]))
         (recv_int_reply E socket)))"

definition redis_sdiff :: "'d env \<Rightarrow> string list \<Rightarrow> string list \<Rightarrow> (int \<times> string list) redis" where
  "redis_sdiff E keys out =
     mbind (get_socket_vec E keys) (\<lambda>socket.
       mseq (send_cmd socket (build ''SDIFF'' [mc_strs keys])) (recv_multi_bulk_set E socket out))"

definition redis_sdiffstore :: "'d env \<Rightarrow> string \<Rightarrow> string list \<Rightarrow> int redis" where
  "redis_sdiffstore E dstkey keys =
     mbind (get_socket E dstkey) (\<lambda>socket.
     mbind (get_socket_vec E keys) (\<lambda>source_sockets.
       if socket \<noteq> source_sockets then mthrow (Runtime_error ''not available in cluster mode'')
       else mseq (send_cmd socket (build ''SDIFFSTORE'' [mc_str dstkey, mc_strs keys]))
         (recv_int_reply E socket)))"

datatype aggregate_type = aggregate_sum | aggregate_min | aggregate_max

fun aggregate_word :: "aggregate_type \<Rightarrow> string" where
  "aggregate_word aggregate_sum = ''SUM''"
| "aggregate_word aggregate_min = ''MIN''"
| "aggregate_word aggregate_max = ''MAX''"

definition zstore_cmd :: "'d env \<Rightarrow> string \<Rightarrow> string \<Rightarrow> string list \<Rightarrow> 'd list \<Rightarrow> aggregate_type \<Rightarrow> makecmd" where
  "zstore_cmd E name dstkey keys weights aggragate =
     build name ([mc_str dstkey, mc_int E (int (length keys)), mc_strs keys]
       @ (if length weights > 0 then [mc_str ''WEIGHTS'', mc_doubles E weights] else [])
       @ [mc_str ''AGGREGATE'', mc_str (aggregate_word aggragate)])"

definition redis_zunionstore ::
  "'d env \<Rightarrow> string \<Rightarrow> string list \<Rightarrow> 'd list \<Rightarrow> aggregate_type \<Rightarrow> int redis" where
  "redis_zunionstore E dstkey keys weights aggragate =
     mbind (get_socket E dstkey) (\<lambda>dst_socket.
     mbind (get_socket_vec E keys) (\<lambda>socket.
       if socket \<noteq> dst_socket then mthrow (Runtime_error ''feature is not available in cluster mode'')
       else mseq (if length weights > 0 then massert (length keys = length weights) else mret ())
         (mseq (send_cmd socket (zstore_cmd E ''ZUNIONSTORE'' dstkey keys weights aggragate))
           (recv_int_reply E socket))))"

definition redis_zinterstore ::
  "'d env \<Rightarrow> string \<Rightarrow> string list \<Rightarrow> 'd list \<Rightarrow> aggregate_type \<Rightarrow> int redis" where
  "redis_zinterstore E dstkey keys weights aggragate =
     mbind (get_socket E dstkey) (\<lambda>dst_socket.
     mbind (get_socket_vec E keys) (\<lambda>socket.
       if socket \<noteq> dst_socket then mthrow (Runtime_error ''feature is not available in cluster mode'')
       else mseq (if length weights > 0 then massert (length keys = length weights) else mret ())
         (mseq (send_cmd socket (zstore_cmd E ''ZINTERSTORE'' dstkey keys weights aggragate))
           (recv_int_reply E socket))))"

end
