(* ===== verification/Redis_Gather.thy ===== *)
theory Redis_Gather
  imports Redis_Cluster
begin

text \<open>
  The scatter/gather commands of \<open>redisclient.h\<close>: what the first loop leaves in the socket map, the
  phase that writes one request on every socket, the phase that reads one reply from every socket,
  and from them the meaning of \<open>mget\<close>, \<open>exec\<close> of a pipeline, \<open>sinter\<close>, \<open>mset\<close> and the transactions.
\<close>

section \<open>The socket map\<close>

definition scattered ::
  "('x \<Rightarrow> 'k::linorder) \<Rightarrow> 'v \<Rightarrow> ('x \<Rightarrow> 'v \<Rightarrow> 'v) \<Rightarrow> 'x list \<Rightarrow> ('k, 'v) omap" where
  "scattered f dflt add xs = fold (\<lambda>x m. omap_upd (f x) dflt (add x) m) xs []"

lemma omap_upd_ok: "omap_ok m \<Longrightarrow> omap_ok (omap_upd k d f m)"
  by (simp add: omap_upd_def omap_put_ok)

lemma omap_upd_find:
  "omap_ok m \<Longrightarrow> map_of (omap_upd k d f m) k' =
     (if k' = k then Some (f (case map_of m k of None \<Rightarrow> d | Some v \<Rightarrow> v)) else map_of m k')"
  by (simp add: omap_upd_def omap_put_find)

lemma scattered_ok: "omap_ok (scattered f dflt add xs)"
  by (induction xs rule: rev_induct) (simp_all add: scattered_def omap_upd_ok)

lemma scattered_find:
  "map_of (scattered f dflt add xs) s =
     (if s \<in> f ` set xs then Some (fold add (filter (\<lambda>x. f x = s) xs) dflt) else None)"
proof (induction xs rule: rev_induct)
  case (snoc x xs)
  have "filter (\<lambda>y. f y = f x) xs = []" if "f x \<notin> f ` set xs"
    using that by (auto simp: filter_empty_conv) (metis imageI)
  then show ?case using snoc scattered_ok [of f dflt add xs]
    by (auto simp: scattered_def omap_upd_find)
qed (simp add: scattered_def)

lemma scattered_entries:
  "(s, v) \<in> set (scattered f dflt add xs) \<longleftrightarrow>
     s \<in> f ` set xs \<and> v = fold add (filter (\<lambda>x. f x = s) xs) dflt"
proof -
  have "distinct (map fst (scattered f dflt add xs))"
    by (rule omap_ok_distinct) (rule scattered_ok)
  then have "(s, v) \<in> set (scattered f dflt add xs) \<longleftrightarrow> map_of (scattered f dflt add xs) s = Some v"
    by simp
  then show ?thesis by (auto simp: scattered_find split: if_splits)
qed

lemma scattered_keys: "set (map fst (scattered f dflt add xs)) = f ` set xs"
  unfolding set_map dom_map_of_conv_image_fst [symmetric]
  by (auto simp: dom_def scattered_find split: if_splits)

lemma scatter_run:
  assumes "\<And>x. x \<in> set xs \<Longrightarrow> route E (connections w) (key x) = Ret (f x)"
  shows "scatter E key dflt add xs w = (Ret (scattered f dflt add xs), w)"
proof -
  have "mfold (\<lambda>x m. mbind (get_socket E (key x)) (\<lambda>socket. mret (omap_upd socket dflt (add x) m))) xs m w
      = (Ret (fold (\<lambda>x m. omap_upd (f x) dflt (add x) m) xs m), w)" for m
    using assms by (induction xs arbitrary: m) (simp_all add: run_simps get_socket_def)
  then show ?thesis by (simp add: scatter_def scattered_def)
qed

section \<open>Writing on every socket, reading from every socket\<close>

definition fleet_ready :: "int set \<Rightarrow> (int \<Rightarrow> string) \<Rightarrow> redis_io \<Rightarrow> bool" where
  "fleet_ready S bs w \<longleftrightarrow> (\<forall>s \<in> S. 0 < s \<and> wr_ready (wrq w s) \<and> rx_ready s (bs s) w)"

text \<open>The state after \<open>msg s\<close> has been written on every socket \<open>s\<close> of \<open>S\<close>.\<close>

definition all_sent :: "int set \<Rightarrow> (int \<Rightarrow> string) \<Rightarrow> redis_io \<Rightarrow> redis_io \<Rightarrow> bool" where
  "all_sent S msg w w' \<longleftrightarrow> frame S w w' \<and> (\<forall>s \<in> S. sent w' s = sent w s @ msg s)"

lemma send_phase:
  assumes "distinct (map fst m)" "fleet_ready (fst ` set m) bs w"
  shows "\<exists>w'. mfor (\<lambda>(s, c). redis_send s (msg s c)) m w = (Ret (), w') \<and> rxq w' = rxq w \<and>
    frame (fst ` set m) w w' \<and> (\<forall>(s, c) \<in> set m. sent w' s = sent w s @ msg s c \<and> wr_ready (wrq w' s))"
  using assms
proof (induction m arbitrary: w)
  case Nil
  then show ?case by (auto simp: run_simps)
next
  case (Cons sc m)
  obtain s c where sc: "sc = (s, c)" by (cases sc)
  from Cons.prems(2) sc have s: "0 \<le> s" "wr_ready (wrq w s)" by (auto simp: fleet_ready_def)
  from redis_send_ok [OF s, of "msg s c"] obtain q where q: "redis_send s (msg s c) w =
      (Ret (), w\<lparr>wrq := (wrq w)(s := q), sent := (sent w)(s := sent w s @ msg s c)\<rparr>)" "wr_ready q" by blast
  let ?w1 = "w\<lparr>wrq := (wrq w)(s := q), sent := (sent w)(s := sent w s @ msg s c)\<rparr>"
  have notin: "s \<notin> fst ` set m" and dm: "distinct (map fst m)" using Cons.prems(1) sc by auto
  have "fleet_ready (fst ` set m) bs ?w1"
    using Cons.prems(2) notin sc by (auto simp: fleet_ready_def rx_ready_def)
  from Cons.IH [OF dm this] obtain w' where w': "mfor (\<lambda>(s, c). redis_send s (msg s c)) m ?w1 = (Ret (), w')"
    "rxq w' = rxq ?w1" "frame (fst ` set m) ?w1 w'"
    "\<forall>(s, c) \<in> set m. sent w' s = sent ?w1 s @ msg s c \<and> wr_ready (wrq w' s)" by blast
  have "mfor (\<lambda>(s, c). redis_send s (msg s c)) (sc # m) w = (Ret (), w')"
    using q(1) w'(1) sc by (simp add: mseq_Ret)
  moreover have "frame (fst ` set (sc # m)) w w'" using w'(3) sc notin by (auto simp: frame_def)
  moreover have "sent w' s = sent w s @ msg s c" "wr_ready (wrq w' s)"
    using w'(3) notin q(2) by (auto simp: frame_def)
  moreover have "\<forall>(s', c') \<in> set m. sent w' s' = sent w s' @ msg s' c' \<and> wr_ready (wrq w' s')"
    using w'(4) notin by (force split: prod.splits)
  ultimately show ?case using w'(2) sc by auto
qed

text \<open>One reply from every socket, folded into an accumulator.\<close>

lemma read_phase:
  assumes "distinct (map fst m)"
    "\<And>s c acc. (s, c) \<in> set m \<Longrightarrow> reads s (f (s, c) acc) (bs s) (Ret (g (s, c) acc))"
    "\<And>s. s \<in> fst ` set m \<Longrightarrow> rx_ready s (bs s @ rest s) w"
  shows "\<exists>w'. mfold f m acc w = (Ret (fold g m acc), w') \<and>
    (\<exists>q. w' = w\<lparr>rxq := q\<rparr> \<and> (\<forall>s. s \<notin> fst ` set m \<longrightarrow> q s = rxq w s)) \<and>
    (\<forall>s \<in> fst ` set m. rx_ready s (rest s) w')"
  using assms
proof (induction m arbitrary: acc w)
  case Nil
  then show ?case by (auto simp: run_simps intro!: exI [of _ "rxq w"])
next
  case (Cons sc m)
  obtain s c where sc: "sc = (s, c)" by (cases sc)
  have "rx_ready s (bs s @ rest s) w" using Cons.prems(3) sc by simp
  from readsD [OF Cons.prems(2) this, of c acc] sc obtain q where
    q: "f (s, c) acc w = (Ret (g (s, c) acc), w\<lparr>rxq := (rxq w)(s := q)\<rparr>)" "rx_quiet q" "rx_bytes q = rest s"
    by auto
  let ?w1 = "w\<lparr>rxq := (rxq w)(s := q)\<rparr>"
  have notin: "s \<notin> fst ` set m" and dm: "distinct (map fst m)" using Cons.prems(1) sc by auto
  have rdy: "rx_ready t (bs t @ rest t) ?w1" if "t \<in> fst ` set m" for t
    using Cons.prems(3) [of t] that notin by (auto simp: rx_ready_def)
  have rd: "reads t (f (t, d) a) (bs t) (Ret (g (t, d) a))" if "(t, d) \<in> set m" for t d a
    using Cons.prems(2) that by simp
  from Cons.IH [OF dm rd rdy, of "g (s, c) acc"] obtain w' qs where
    w': "mfold f m (g (s, c) acc) ?w1 = (Ret (fold g m (g (s, c) acc)), w')"
    "w' = ?w1\<lparr>rxq := qs\<rparr>" "\<forall>t. t \<notin> fst ` set m \<longrightarrow> qs t = rxq ?w1 t"
    "\<forall>t \<in> fst ` set m. rx_ready t (rest t) w'" by blast
  have "mfold f (sc # m) acc w = (Ret (fold g (sc # m) acc), w')"
    using q(1) w'(1) sc by (simp add: mbind_Ret)
  moreover have "rx_ready s (rest s) w'" using q(2,3) w'(2,3) notin by (simp add: rx_ready_def)
  moreover have "w' = w\<lparr>rxq := qs\<rparr>" "\<forall>t. t \<notin> fst ` set (sc # m) \<longrightarrow> qs t = rxq w t"
    using w'(2,3) sc by auto
  ultimately show ?case using w'(4) sc by auto
qed

text \<open>Both phases over a scattered map: every socket gets its request, every reply is folded in.\<close>

lemma send_read_phase:
  fixes add :: "'x \<Rightarrow> 'v \<Rightarrow> 'v" and dflt :: 'v and start :: 'r and f :: "'x \<Rightarrow> int" and xs :: "'x list"
  defines "m \<equiv> scattered f dflt add xs"
  assumes "fleet_ready (f ` set xs) (\<lambda>s. bs s @ rest s) w"
    "\<And>s c acc. s \<in> f ` set xs \<Longrightarrow> c = fold add (filter (\<lambda>x. f x = s) xs) dflt \<Longrightarrow>
      reads s (rd (s, c) acc) (bs s) (Ret (g (s, c) acc))"
  shows "\<exists>w'. mseq (mfor (\<lambda>(s, c). redis_send s (msg s c)) m) (mfold rd m start) w = (Ret (fold g m start), w') \<and>
    all_sent (f ` set xs) (\<lambda>s. msg s (fold add (filter (\<lambda>x. f x = s) xs) dflt)) w w' \<and>
    (\<forall>s \<in> f ` set xs. rx_ready s (rest s) w')"
proof -
  have keys: "fst ` set m = f ` set xs" using scattered_keys [of f dflt add xs] by (simp add: m_def)
  have dist: "distinct (map fst m)" unfolding m_def by (rule omap_ok_distinct [OF scattered_ok])
  have ent: "(s, c) \<in> set m \<Longrightarrow> s \<in> f ` set xs \<and> c = fold add (filter (\<lambda>x. f x = s) xs) dflt" for s c
    by (simp add: m_def scattered_entries)
  from send_phase [OF dist, of "\<lambda>s. bs s @ rest s" w msg] assms(2) obtain w1 where
    w1: "mfor (\<lambda>(s, c). redis_send s (msg s c)) m w = (Ret (), w1)" "rxq w1 = rxq w"
      "frame (f ` set xs) w w1" "\<forall>(s, c) \<in> set m. sent w1 s = sent w s @ msg s c \<and> wr_ready (wrq w1 s)"
    by (auto simp: keys)
  have rdy: "rx_ready s (bs s @ rest s) w1" if "s \<in> fst ` set m" for s
    using assms(2) that w1(2) by (auto simp: fleet_ready_def rx_ready_def keys)
  have rds: "reads s (rd (s, c) acc) (bs s) (Ret (g (s, c) acc))" if "(s, c) \<in> set m" for s c acc
    using ent [OF that] assms(3) by blast
  from read_phase [where acc = start and f = rd and g = g and bs = bs and rest = rest, OF dist rds rdy] obtain w' q where
    w': "mfold rd m start w1 = (Ret (fold g m start), w')" "w' = w1\<lparr>rxq := q\<rparr>"
      "\<forall>s. s \<notin> f ` set xs \<longrightarrow> q s = rxq w1 s" "\<forall>s \<in> f ` set xs. rx_ready s (rest s) w'"
    by (auto simp: keys)
  have "frame (f ` set xs) w w'" using w1(3) w'(2,3) by (simp add: frame_def)
  moreover have "sent w' s = sent w s @ msg s (fold add (filter (\<lambda>x. f x = s) xs) dflt)"
    if s: "s \<in> f ` set xs" for s
  proof -
    have "(s, fold add (filter (\<lambda>x. f x = s) xs) dflt) \<in> set m"
      unfolding m_def scattered_entries using s by simp
    with w1(4) have "sent w1 s = sent w s @ msg s (fold add (filter (\<lambda>x. f x = s) xs) dflt)" by auto
    then show ?thesis using w'(2) by simp
  qed
  ultimately show ?thesis using w1(1) w'(1,4) by (auto simp: mseq_Ret all_sent_def)
qed

text \<open>Two servers, on the sockets 3 and 4; the key b lives on the second one. Used by the witnesses.\<close>

definition demo_fleet :: "(int \<Rightarrow> string) \<Rightarrow> redis_io" where
  "demo_fleet bs = \<lparr>connections =
     [\<lparr>con_host = ''s1'', con_port = 6379, con_dbindex = 0, con_socket = 3\<rparr>,
      \<lparr>con_host = ''s2'', con_port = 6379, con_dbindex = 0, con_socket = 4\<rparr>],
     rxq = (\<lambda>s. rx_put (take 3 (bs s)) (Fail EINTR # rx_put (drop 3 (bs s)) [])), wrq = (\<lambda>_. []),
     sent = (\<lambda>_. []), dials = [], closed_fds = []\<rparr>"

definition demo_env :: "int env" where
  "demo_env = decimal_env (\<lambda>k _. if k = ''b'' then 1 else 0)"

definition demo_socket :: "string \<Rightarrow> int" where
  "demo_socket k = (if k = ''b'' then 4 else 3)"

lemma demo_fleet_ready [simp]: "(\<And>s. s \<in> S \<Longrightarrow> 0 < s) \<Longrightarrow> fleet_ready S bs (demo_fleet bs)"
  by (simp add: fleet_ready_def rx_ready_def demo_fleet_def wr_ready_def)

lemma demo_route [simp]: "route demo_env (connections (demo_fleet bs)) k = Ret (demo_socket k)"
  by (simp add: route_def demo_env_def decimal_env_def demo_fleet_def demo_socket_def)

lemma demo_env_sound [simp]: "lex_sound demo_env"
  by (simp add: demo_env_def)

section \<open>mget\<close>

lemma mget_fold:
  "fold mget_add ys c = c\<lparr>ck_cmd := mc_strs (map snd ys) (ck_cmd c), ck_indices := ck_indices c @ map fst ys\<rparr>"
proof (induction ys arbitrary: c)
  case (Cons y ys)
  then show ?case by (cases y) (simp add: mget_add_def mc_simps)
qed (simp add: mc_strs_def)

lemma gather_updates:
  "length cur \<le> length is \<Longrightarrow>
    gather is cur out = Ret (fold (\<lambda>(i, v) out. out[i := v]) (zip is cur) out)"
  by (induction "is" cur out rule: gather.induct) simp_all

lemma map_snd_filter_zip:
  "length is = length ks \<Longrightarrow> map snd (filter (\<lambda>x. P (snd x)) (zip is ks)) = filter P ks"
  by (induction "is" ks rule: list_induct2) auto

lemma fold_updates_nth:
  assumes "\<forall>(i, v) \<in> set us. v = h i" "j < length out"
  shows "fold (\<lambda>(i, v) out. out[i := v]) us out ! j = (if j \<in> fst ` set us then h j else out ! j)"
  using assms
proof (induction us arbitrary: out)
  case (Cons u us)
  obtain i v where u: "u = (i, v)" by (cases u)
  show ?case using Cons.IH [of "out[i := v]"] Cons.prems u by (auto simp: nth_list_update)
qed simp

lemma length_fold_updates [simp]:
  "length (fold (\<lambda>(i, v) out. out[i := v]) us out) = length out"
  by (induction us arbitrary: out) (auto split: prod.splits)

lemma fold_fold_updates:
  "fold (\<lambda>x. fold (\<lambda>(i, v) out. out[i := v]) (us x)) xs out
    = fold (\<lambda>(i, v) out. out[i := v]) (concat (map us xs)) out"
  by (induction xs arbitrary: out) simp_all

lemma zip_fst_snd: "zip (map fst ys) (map h (map snd ys)) = map (\<lambda>x. (fst x, h (snd x))) ys"
  by (induction ys) simp_all

lemma snd_set_zip: "length is = length ks \<Longrightarrow> snd ` set (zip is ks) = set ks"
  by (metis map_snd_zip set_map)

lemma small_reply_filter: "small_reply (map val ks) \<Longrightarrow> small_reply (map val (filter P ks))"
proof -
  assume ks: "small_reply (map val ks)"
  then have "int (length ks) \<le> long_max" by (simp add: small_reply_def)
  then have "int (length (filter P ks)) \<le> long_max"
    by (rule order_trans [rotated]) simp
  with ks show ?thesis by (auto simp: small_reply_def list_all_iff)
qed

text \<open>Writing the values of each server to the positions of its keys gives the values of all keys in order.\<close>

lemma scattered_positions:
  fixes keys :: "'k list" and f :: "'k \<Rightarrow> 's::linorder"
  defines "xs \<equiv> zip [0..<length keys] keys"
  shows "fold (\<lambda>(s, c). fold (\<lambda>(i, v) out. out[i := v]) (map (\<lambda>x. (fst x, h (snd x))) (filter (\<lambda>x. f (snd x) = s) xs)))
      (scattered (\<lambda>x. f (snd x)) dflt add xs) (replicate (length keys) a) = map h keys"
proof (rule nth_equalityI)
  let ?us = "\<lambda>s. map (\<lambda>x. (fst x, h (snd x))) (filter (\<lambda>x. f (snd x) = s) xs)"
  let ?m = "scattered (\<lambda>x. f (snd x)) dflt add xs"
  let ?l = "fold (\<lambda>(s, c). fold (\<lambda>(i, v) out. out[i := v]) (?us s)) ?m (replicate (length keys) a)"
  let ?all = "concat (map (\<lambda>sc. ?us (fst sc)) ?m)"
  have eq: "?l = fold (\<lambda>(i, v) out. out[i := v]) ?all (replicate (length keys) a)"
    using fold_fold_updates [of "\<lambda>sc. ?us (fst sc)" ?m] by (simp add: case_prod_beta')
  show "length ?l = length (map h keys)" unfolding eq by simp
  fix j assume "j < length ?l"
  then have j: "j < length keys" unfolding eq by simp
  have at: "snd x = keys ! fst x" if "x \<in> set xs" for x using that by (auto simp: xs_def set_zip)
  have ok: "\<forall>(i, v) \<in> set ?all. v = h (keys ! i)" using at by fastforce
  have x: "(j, keys ! j) \<in> set xs" using j by (auto simp: xs_def set_zip intro!: exI [of _ j])
  then have "f (keys ! j) \<in> fst ` set ?m"
    using scattered_keys [of "\<lambda>x. f (snd x)" dflt add xs] by force
  with x have "j \<in> fst ` set ?all" by force
  then show "?l ! j = map h keys ! j"
    unfolding eq using fold_updates_nth [OF ok, of j "replicate (length keys) a"] j by simp
qed



section \<open>Pipelines\<close>

text \<open>Replies read one by one, each from the socket of its element; the sockets' streams interleave.\<close>

lemma read_each:
  assumes "\<And>x. x \<in> set xs \<Longrightarrow> reads (f x) (rd x) (bs x) (Ret (v x))"
    "\<And>s. s \<in> f ` set xs \<Longrightarrow> rx_ready s (concat (map bs (filter (\<lambda>x. f x = s) xs)) @ rest s) w"
  shows "\<exists>q. mmap rd xs w = (Ret (map v xs), w\<lparr>rxq := q\<rparr>) \<and> (\<forall>s. s \<notin> f ` set xs \<longrightarrow> q s = rxq w s) \<and>
    (\<forall>s \<in> f ` set xs. rx_ready s (rest s) (w\<lparr>rxq := q\<rparr>))"
  using assms
proof (induction xs arbitrary: w)
  case Nil
  then show ?case by (auto simp: run_simps intro!: exI [of _ "rxq w"])
next
  case (Cons x xs)
  let ?bs = "\<lambda>s. concat (map bs (filter (\<lambda>x. f x = s) xs)) @ rest s"
  have "rx_ready (f x) (bs x @ ?bs (f x)) w" using Cons.prems(2) [of "f x"] by simp
  from readsD [OF Cons.prems(1) this] obtain q where q: "rd x w = (Ret (v x), w\<lparr>rxq := (rxq w)(f x := q)\<rparr>)"
    "rx_quiet q" "rx_bytes q = ?bs (f x)" by auto
  let ?w1 = "w\<lparr>rxq := (rxq w)(f x := q)\<rparr>"
  have rdy: "rx_ready s (?bs s) ?w1" if "s \<in> f ` set xs" for s
    using q(2,3) Cons.prems(2) [of s] that by (cases "s = f x") (auto simp: rx_ready_def)
  have rds: "reads (f y) (rd y) (bs y) (Ret (v y))" if "y \<in> set xs" for y using Cons.prems(1) that by simp
  from Cons.IH [OF rds rdy] obtain q' where q': "mmap rd xs ?w1 = (Ret (map v xs), ?w1\<lparr>rxq := q'\<rparr>)"
    "\<forall>s. s \<notin> f ` set xs \<longrightarrow> q' s = rxq ?w1 s" "\<forall>s \<in> f ` set xs. rx_ready s (rest s) (?w1\<lparr>rxq := q'\<rparr>)"
    by blast
  have "mmap rd (x # xs) w = (Ret (map v (x # xs)), w\<lparr>rxq := q'\<rparr>)"
    using q(1) q'(1) by (simp add: mbind_Ret run_simps)
  moreover have "rx_ready (f x) (rest (f x)) (w\<lparr>rxq := q'\<rparr>)"
  proof (cases "f x \<in> f ` set xs")
    case True
    then show ?thesis using q'(3) by (auto simp: rx_ready_def)
  next
    case False
    then have "filter (\<lambda>y. f y = f x) xs = []" by (auto simp: filter_empty_conv) (metis imageI)
    then show ?thesis using q(2,3) q'(2) False by (simp add: rx_ready_def)
  qed
  moreover have "\<forall>s. s \<notin> f ` set (x # xs) \<longrightarrow> q' s = rxq w s" using q'(2) by auto
  ultimately show ?case using q'(3) by (intro exI [of _ q']) (auto simp: rx_ready_def)
qed

lemma mmap_cong_on:
  assumes "\<And>x w. x \<in> set xs \<Longrightarrow> P w \<Longrightarrow> f x w = g x w" "\<And>x w. P w \<Longrightarrow> P (snd (g x w))" "P w"
  shows "mmap f xs w = mmap g xs w"
  using assms(1,3)
proof (induction xs arbitrary: w)
  case (Cons x xs)
  obtain r w1 where g: "g x w = (r, w1)" by (cases "g x w")
  have "P w1" using assms(2) [OF Cons.prems(2), of x] g by simp
  then have "mmap f xs w1 = mmap g xs w1" using Cons by simp
  then show ?case using Cons.prems g by (cases r) (simp_all add: run_simps)
qed simp

lemma fold_append_requests: "fold (\<lambda>c s. s @ cm_request c) cs acc = acc @ concat (map cm_request cs)"
  by (induction cs arbitrary: acc) simp_all

lemma recv_generic_reply_cons: "connections (snd (recv_generic_reply E fd w)) = connections w"
  using preservesD [OF recv_generic_reply_frame, of E fd w] by (cases "recv_generic_reply E fd w") (simp add: frame_def)

lemma mmap_map: "mmap f (map g xs) = mmap (\<lambda>x. f (g x)) xs"
  by (induction xs) simp_all

text \<open>Reading a pipeline: every reply comes from the socket of its command.\<close>

lemma exec_routed_replies:
  assumes "\<And>c r. (c, r) \<in> set ps \<Longrightarrow> route E cons (cm_hash_key c) = Ret (f c)" "connections w = cons"
  shows "mmap (\<lambda>c. mbind (get_socket E (cm_hash_key c)) (\<lambda>socket.
      mbind (recv_generic_reply E socket) (\<lambda>r. mret (set_reply r c)))) (map fst ps) w =
    mmap (\<lambda>x. mbind (recv_generic_reply E (f (fst x))) (\<lambda>r. mret (set_reply r (fst x)))) ps w"
    (is "mmap ?rd _ _ = mmap ?gen _ _")
  unfolding mmap_map
proof (rule mmap_cong_on [where P = "\<lambda>w'. connections w' = cons"])
  show "?rd (fst x) w' = ?gen x w'" if "x \<in> set ps" "connections w' = cons" for x w'
    using assms(1) [of "fst x" "snd x"] that by (simp add: mbind_run get_socket_def)
  show "connections (snd (?gen x w')) = cons" if "connections w' = cons" for x w'
    using recv_generic_reply_cons [of E "f (fst x)" w'] that
    by (auto simp: mbind_run mret_run split: prod.splits result.splits)
qed (rule assms(2))



end
