(* ===== verification/Redis_Server.thy ===== *)
theory Redis_Server
  imports Redis_Cluster
begin

text \<open>
  Connections and server administration in \<open>redis::base_client\<close> (\<open>src/common/redisclient.h\<close>):
  \<open>init\<close>, the constructors, \<open>reconnect\<close>, \<open>clone\<close>, the destructor, \<open>auth\<close>, \<open>select\<close>, the commands sent to every
  server, and the parser of the \<open>INFO\<close> reply. The outcome of each \<open>anetTcpConnect\<close> is taken from \<open>dials\<close>:
  a socket, or the message left in \<open>err\<close>.
\<close>

section \<open>Connecting\<close>

definition dial :: "(string + int) redis" where
  "dial = (\<lambda>w. case dials w of [] \<Rightarrow> (Stuck Blocked, w) | d # ds \<Rightarrow> (Ret d, w\<lparr>dials := ds\<rparr>))"

definition set_connections :: "(connection_data list \<Rightarrow> connection_data list) \<Rightarrow> unit redis" where
  "set_connections f = (\<lambda>w. (Ret (), w\<lparr>connections := f (connections w)\<rparr>))"

definition redis_select_con :: "'d env \<Rightarrow> int \<Rightarrow> connection_data \<Rightarrow> unit redis" where
  "redis_select_con E dbindex con =
     mseq (send_cmd (con_socket con) (build ''SELECT'' [mc_int E dbindex]))
     (mseq (recv_ok_reply (con_socket con))
       (set_connections (map (\<lambda>cur. if connection_eq cur con then cur\<lparr>con_dbindex := narrow_int dbindex\<rparr> else cur))))"

text \<open>
  \<open>select(dbindex, con)\<close> takes a connection that is not an element of the vector itself (an alias would
  change under the loop).

  \<open>init(con)\<close> on a reference: \<open>assign\<close> stores the new value of \<open>con\<close> where the reference points. The
  socket is stored before the result of the connection attempt is looked at.
\<close>

definition redis_init :: "'d env \<Rightarrow> (connection_data \<Rightarrow> unit redis) \<Rightarrow> connection_data \<Rightarrow> connection_data redis" where
  "redis_init E assign con =
     mbind dial (\<lambda>d. case d of
       Inl err \<Rightarrow> mseq (assign (con\<lparr>con_socket := -1\<rparr>))
         (mthrow (Connection_error (err @ '' (redis://'' @ con_host con @ '':'' @ dec (unat (con_port con)) @ '')'')))
     | Inr socket \<Rightarrow>
         let con = con\<lparr>con_socket := socket\<rparr> in
         mseq (assign con) (mseq (redis_select_con E (con_dbindex con) con) (mret con)))"

text \<open>The constructors; the new object's vector starts empty and grows by \<open>push_back\<close>.\<close>

definition redis_new :: "'d env \<Rightarrow> string \<Rightarrow> 16 word \<Rightarrow> int \<Rightarrow> unit redis" where
  "redis_new E host port dbindex =
     mseq (set_connections (\<lambda>_. []))
       (mbind (redis_init E (\<lambda>_. mret ())
            \<lparr>con_host = host, con_port = port, con_dbindex = narrow_int dbindex, con_socket = -1\<rparr>)
         (\<lambda>con. set_connections (\<lambda>cons. cons @ [con])))"

definition redis_new_range :: "'d env \<Rightarrow> connection_data list \<Rightarrow> unit redis" where
  "redis_new_range E given =
     mseq (set_connections (\<lambda>_. []))
     (mseq (mfor (\<lambda>c. mbind (redis_init E (\<lambda>_. mret ()) c) (\<lambda>con. set_connections (\<lambda>cons. cons @ [con]))) given)
       (mbind all_connections (\<lambda>cons.
         if cons = [] then mthrow (Runtime_error ''No connections given!'') else mret ())))"

definition redis_reconnect :: "'d env \<Rightarrow> unit redis" where
  "redis_reconnect E =
     mbind all_connections (\<lambda>cons.
       mfor (\<lambda>i. mbind (con_at i) (\<lambda>c.
           mseq (redis_init E (\<lambda>con. set_connections (\<lambda>cons. cons[i := con])) c) (mret ())))
         [0..<length cons mod 2 ^ 32])"

text \<open>\<open>clone\<close> constructs another object from the connections; its own vector is the result.\<close>

definition redis_clone :: "'d env \<Rightarrow> connection_data list redis" where
  "redis_clone E = (\<lambda>w.
     case mseq (redis_new_range E (connections w)) all_connections w of
       (r, w') \<Rightarrow> (r, w'\<lparr>connections := connections w\<rparr>))"

definition redis_destroy :: "unit redis" where
  "redis_destroy = (\<lambda>w. (Ret (), w\<lparr>closed_fds := closed_fds w @
     filter (\<lambda>s. s \<noteq> -1) (map con_socket (connections w))\<rparr>))"

section \<open>Administration\<close>

definition redis_auth :: "'d env \<Rightarrow> string \<Rightarrow> unit redis" where
  "redis_auth E pass =
     mbind all_connections (\<lambda>cons.
       if length cons > 1 then mthrow (Runtime_error ''feature is not available in cluster mode'')
       else mbind (con_at 0) (\<lambda>con.
         mseq (send_cmd (con_socket con) (build ''AUTH'' [mc_str pass])) (recv_ok_reply (con_socket con))))"

text \<open>The commands for all servers: one loop sends, a second one reads.\<close>

definition send_all :: "makecmd \<Rightarrow> unit redis" where
  "send_all m = mbind all_connections (\<lambda>cons. mfor (\<lambda>con. send_cmd (con_socket con) m) cons)"

definition redis_select :: "'d env \<Rightarrow> int \<Rightarrow> unit redis" where
  "redis_select E dbindex =
     mseq (send_all (build ''SELECT'' [mc_int E dbindex]))
       (mbind all_connections (\<lambda>cons.
         mfor (\<lambda>i. mbind (con_at i) (\<lambda>con. mseq (recv_ok_reply (con_socket con))
           (set_connections (\<lambda>cons. cons[i := (cons ! i)\<lparr>con_dbindex := narrow_int dbindex\<rparr>]))))
           [0..<length cons]))"

definition redis_flushdb :: "unit redis" where
  "redis_flushdb =
     mseq (send_all (build ''FLUSHDB'' []))
       (mbind all_connections (\<lambda>cons. mfor (\<lambda>con. recv_ok_reply (con_socket con)) cons))"

definition redis_flushdb_con :: "connection_data \<Rightarrow> unit redis" where
  "redis_flushdb_con con =
     mseq (send_cmd (con_socket con) (build ''FLUSHDB'' [])) (recv_ok_reply (con_socket con))"

definition redis_flushall :: "unit redis" where
  "redis_flushall =
     mbind all_connections (\<lambda>cons.
       if length cons > 1 then mthrow (Runtime_error ''feature is not available in cluster mode'')
       else mbind (con_at 0) (\<lambda>con.
         mseq (send_cmd (con_socket con) (build ''FLUSHALL'' [])) (recv_ok_reply (con_socket con))))"

definition redis_flushall_con :: "connection_data \<Rightarrow> unit redis" where
  "redis_flushall_con con =
     mseq (send_cmd (con_socket con) (build ''FLUSHALL'' [])) (recv_ok_reply (con_socket con))"

definition redis_save :: "unit redis" where
  "redis_save =
     mseq (send_all (build ''SAVE'' []))
       (mbind all_connections (\<lambda>cons. mfor (\<lambda>con. recv_ok_reply (con_socket con)) cons))"

definition redis_save_con :: "connection_data \<Rightarrow> unit redis" where
  "redis_save_con con =
     mseq (send_cmd (con_socket con) (build ''SAVE'' [])) (recv_ok_reply (con_socket con))"

definition recv_bgsave :: "int \<Rightarrow> unit redis" where
  "recv_bgsave socket =
     mbind (recv_single_line_reply socket) (\<lambda>reply.
       if reply \<noteq> ''OK'' \<and> reply \<noteq> ''Background saving started''
       then protocol_error (''Unexpected response on bgsave: '' @ [CHR 0x27] @ reply @ [CHR 0x27])
       else mret ())"

definition redis_bgsave :: "unit redis" where
  "redis_bgsave =
     mseq (send_all (build ''BGSAVE'' []))
       (mbind all_connections (\<lambda>cons. mfor (\<lambda>con. recv_bgsave (con_socket con)) cons))"

definition redis_bgsave_con :: "connection_data \<Rightarrow> unit redis" where
  "redis_bgsave_con con =
     mseq (send_cmd (con_socket con) (build ''BGSAVE'' [])) (recv_bgsave (con_socket con))"

definition redis_lastsave :: "'d env \<Rightarrow> int redis" where
  "redis_lastsave E =
     mbind all_connections (\<lambda>cons.
       mfold (\<lambda>con res.
         mseq (send_cmd (con_socket con) (build ''LASTSAVE'' []))
           (mbind (recv_int_reply E (con_socket con)) (\<lambda>cur.
             mret (if res > 0 then min cur res else cur)))) cons 0)"

definition redis_lastsave_con :: "'d env \<Rightarrow> connection_data \<Rightarrow> int redis" where
  "redis_lastsave_con E con =
     mseq (send_cmd (con_socket con) (build ''LASTSAVE'' [])) (recv_int_reply E (con_socket con))"

definition redis_shutdown_con :: "connection_data \<Rightarrow> unit redis" where
  "redis_shutdown_con con =
     mseq (send_cmd (con_socket con) (build ''SHUTDOWN'' []))
       (mcatch (recv_ok_reply (con_socket con)) (\<lambda>e. case e of
          Connection_error _ \<Rightarrow> mret () | _ \<Rightarrow> mthrow e))"

definition redis_shutdown :: "unit redis" where
  "redis_shutdown = mbind all_connections (\<lambda>cons. mfor redis_shutdown_con cons)"

definition redis_dbsize :: "'d env \<Rightarrow> int redis" where
  "redis_dbsize E =
     mseq (send_all (build ''DBSIZE'' []))
       (mbind all_connections (\<lambda>cons.
         mfold (\<lambda>con val. mbind (recv_int_reply E (con_socket con)) (\<lambda>n. mlift (add_long val n))) cons 0))"

definition redis_dbsize_con :: "'d env \<Rightarrow> connection_data \<Rightarrow> int redis" where
  "redis_dbsize_con E con =
     mseq (send_cmd (con_socket con) (build ''DBSIZE'' [])) (recv_int_reply E (con_socket con))"

section \<open>INFO\<close>

datatype server_role = role_master | role_slave

record server_info =
  version :: string
  bgsave_in_progress :: bool
  connected_clients :: int
  connected_slaves :: int
  used_memory :: int
  changes_since_last_save :: int
  last_save_time :: int
  total_connections_received :: int
  total_commands_processed :: int
  uptime_in_seconds :: int
  uptime_in_days :: int
  si_role :: server_role
  arch_bits :: int
  multiplexing_api :: string
  param_map :: "(string, string) omap"

definition num_field :: "'d env \<Rightarrow> int_ty \<Rightarrow> string \<Rightarrow> (int \<Rightarrow> server_info) \<Rightarrow> server_info result" where
  "num_field E ty val upd = (case lex_int E ty val of Some n \<Rightarrow> Ret (upd n) | None \<Rightarrow> Exn Bad_lexical_cast)"

definition info_entry :: "'d env \<Rightarrow> string \<Rightarrow> string \<Rightarrow> server_info \<Rightarrow> server_info result" where
  "info_entry E key val out =
     (let out = out\<lparr>param_map := omap_put key val (param_map out)\<rparr> in
      if key = ''redis_version'' then Ret (out\<lparr>version := val\<rparr>)
      else if key = ''bgsave_in_progress'' then num_field E U64 val (\<lambda>n. out\<lparr>bgsave_in_progress := (n = 1)\<rparr>)
      else if key = ''connected_clients'' then num_field E U64 val (\<lambda>n. out\<lparr>connected_clients := n\<rparr>)
      else if key = ''connected_slaves'' then num_field E U64 val (\<lambda>n. out\<lparr>connected_slaves := n\<rparr>)
      else if key = ''used_memory'' then num_field E U64 val (\<lambda>n. out\<lparr>used_memory := n\<rparr>)
      else if key = ''changes_since_last_save'' then num_field E U64 val (\<lambda>n. out\<lparr>changes_since_last_save := n\<rparr>)
      else if key = ''last_save_time'' then num_field E U64 val (\<lambda>n. out\<lparr>last_save_time := n\<rparr>)
      else if key = ''total_connections_received''
        then num_field E U64 val (\<lambda>n. out\<lparr>total_connections_received := n\<rparr>)
      else if key = ''total_commands_processed''
        then num_field E U64 val (\<lambda>n. out\<lparr>total_commands_processed := n\<rparr>)
      else if key = ''uptime_in_seconds'' then num_field E U64 val (\<lambda>n. out\<lparr>uptime_in_seconds := n\<rparr>)
      else if key = ''uptime_in_days'' then num_field E U64 val (\<lambda>n. out\<lparr>uptime_in_days := n\<rparr>)
      else if key = ''role'' then Ret (out\<lparr>si_role := (if val = ''master'' then role_master else role_slave)\<rparr>)
      else if key = ''arch_bits'' then num_field E U16 val (\<lambda>n. out\<lparr>arch_bits := n\<rparr>)
      else if key = ''multiplexing_api'' then Ret (out\<lparr>multiplexing_api := val\<rparr>)
      else Ret out)"

fun info_lines :: "'d env \<Rightarrow> string list \<Rightarrow> server_info \<Rightarrow> server_info result" where
  "info_lines E [] out = Ret out"
| "info_lines E (line # lines) out =
     (if line = [] \<or> hd line = CHR ''#'' then info_lines E lines out
      else case getlines CHR '':'' line of
        [key, val] \<Rightarrow>
          (case info_entry E key val out of
             Ret out \<Rightarrow> info_lines E lines out | Exn e \<Rightarrow> Exn e | Stuck k \<Rightarrow> Stuck k)
      | _ \<Rightarrow> Exn (Protocol_error ''unexpected line format for info''))"

text \<open>\<open>split_lines\<close>: lines without their trailing white space.\<close>

definition split_lines :: "string \<Rightarrow> string list" where
  "split_lines str = map (rtrim [CHR '' '', CHR 0x0C, LF, CR, CHR 0x09, CHR 0x0B]) (getlines LF str)"

definition redis_info_con :: "'d env \<Rightarrow> connection_data \<Rightarrow> server_info \<Rightarrow> server_info redis" where
  "redis_info_con E con out =
     mseq (send_cmd (con_socket con) (build ''INFO'' []))
       (mbind (recv_bulk_reply E (con_socket con)) (\<lambda>response.
         if response = [] then protocol_error ''empty''
         else let lines = split_lines response in
           if lines = [] then protocol_error ''empty line for info''
           else mlift (info_lines E lines out)))"

definition redis_info :: "'d env \<Rightarrow> server_info \<Rightarrow> server_info redis" where
  "redis_info E out = mbind (con_at 0) (\<lambda>con. redis_info_con E con out)"

end
