(* ===== verification/Redis_Values.thy ===== *)
theory Redis_Values
  imports Redis_Cluster
begin

text \<open>
  The value classes of \<open>src/common/redisclient.h\<close>: \<open>distributed_value\<close> and its derived classes, objects that
  hold a key and a pointer to a client and forward to it. An object is its key; a method that renames
  the key returns the object it leaves behind. \<open>distributed_base_int\<close> is a template over the integer
  type, the argument \<open>ty\<close>.
\<close>

section \<open>Objects\<close>

record distributed_value =
  dv_key :: string

text \<open>
  The result of an addition in \<open>INT_TYPE\<close>: narrower types are computed in \<open>int\<close> and wrap when converted
  back, unsigned types wrap, \<open>int\<close> and \<open>long\<close> are undefined on overflow.
\<close>

fun arith_ty :: "int_ty \<Rightarrow> int \<Rightarrow> int result" where
  "arith_ty I16 n = Ret (sint (word_of_int n :: 16 word))"
| "arith_ty U16 n = Ret (n mod 2 ^ 16)"
| "arith_ty U32 n = Ret (n mod 2 ^ 32)"
| "arith_ty U64 n = Ret (n mod 2 ^ 64)"
| "arith_ty ty n = (if in_ty ty n then Ret n else Stuck Undefined)"

section \<open>distributed_value\<close>

definition distributed_value_exists :: "'d env \<Rightarrow> distributed_value \<Rightarrow> bool redis" where
  "distributed_value_exists E v =
     redis_exists E (dv_key v)"

definition distributed_value_del :: "'d env \<Rightarrow> distributed_value \<Rightarrow> unit redis" where
  "distributed_value_del E v =
     mseq (redis_del E (dv_key v)) (mret ())"

definition distributed_value_rename :: "'d env \<Rightarrow> distributed_value \<Rightarrow> string \<Rightarrow> distributed_value redis" where
  "distributed_value_rename E v new_name =
     mseq (redis_rename E (dv_key v) new_name) (mret (v\<lparr>dv_key := new_name\<rparr>))"

definition distributed_value_renamenx :: "'d env \<Rightarrow> distributed_value \<Rightarrow> string \<Rightarrow> (bool \<times> distributed_value) redis" where
  "distributed_value_renamenx E v new_name =
     mbind (redis_renamenx E (dv_key v) new_name) (\<lambda>done.
       mret (if done then (True, v\<lparr>dv_key := new_name\<rparr>) else (False, v)))"

definition distributed_value_expire :: "'d env \<Rightarrow> distributed_value \<Rightarrow> 32 word \<Rightarrow> unit redis" where
  "distributed_value_expire E v secs =
     redis_expire E (dv_key v) secs"

definition distributed_value_ttl :: "'d env \<Rightarrow> distributed_value \<Rightarrow> int redis" where
  "distributed_value_ttl E v =
     redis_ttl E (dv_key v)"

definition distributed_value_move :: "'d env \<Rightarrow> distributed_value \<Rightarrow> int \<Rightarrow> unit redis" where
  "distributed_value_move E v dbindex =
     redis_move E (dv_key v) dbindex"

definition distributed_value_type :: "'d env \<Rightarrow> distributed_value \<Rightarrow> redis_type redis" where
  "distributed_value_type E v =
     redis_type_of E (dv_key v)"

section \<open>distributed_string\<close>

definition distributed_string_get :: "'d env \<Rightarrow> distributed_value \<Rightarrow> string redis" where
  "distributed_string_get E v =
     redis_get E (dv_key v)"

definition distributed_string_assign :: "'d env \<Rightarrow> distributed_value \<Rightarrow> string \<Rightarrow> unit redis" where
  "distributed_string_assign E v value =
     redis_set E (dv_key v) value"

definition distributed_string_assign_from :: "'d env \<Rightarrow> distributed_value \<Rightarrow> distributed_value \<Rightarrow> unit redis" where
  "distributed_string_assign_from E v other_str =
     (if dv_key v \<noteq> dv_key other_str
      then mbind (distributed_string_get E other_str) (\<lambda>s. distributed_string_assign E v s)
      else mret ())"

definition distributed_string_getset :: "'d env \<Rightarrow> distributed_value \<Rightarrow> string \<Rightarrow> string redis" where
  "distributed_string_getset E v new_value =
     redis_getset E (dv_key v) new_value"

definition distributed_string_setnx :: "'d env \<Rightarrow> distributed_value \<Rightarrow> string \<Rightarrow> bool redis" where
  "distributed_string_setnx E v value =
     redis_setnx E (dv_key v) value"

definition distributed_string_new_default :: "'d env \<Rightarrow> distributed_value \<Rightarrow> string \<Rightarrow> distributed_value redis" where
  "distributed_string_new_default E v default_value =
     mseq (distributed_string_setnx E v default_value) (mret v)"

definition distributed_string_setex :: "'d env \<Rightarrow> distributed_value \<Rightarrow> string \<Rightarrow> 32 word \<Rightarrow> unit redis" where
  "distributed_string_setex E v value secs =
     redis_setex E (dv_key v) value secs"

definition distributed_string_append :: "'d env \<Rightarrow> distributed_value \<Rightarrow> string \<Rightarrow> nat redis" where
  "distributed_string_append E v value =
     redis_append E (dv_key v) value"

definition distributed_string_append_assign :: "'d env \<Rightarrow> distributed_value \<Rightarrow> string \<Rightarrow> unit redis" where
  "distributed_string_append_assign E v value =
     mseq (distributed_string_append E v value) (mret ())"

definition distributed_string_substr :: "'d env \<Rightarrow> distributed_value \<Rightarrow> int \<Rightarrow> int \<Rightarrow> string redis" where
  "distributed_string_substr E v start end =
     redis_substr E (dv_key v) start end"

definition distributed_string_eq :: "'d env \<Rightarrow> distributed_value \<Rightarrow> string \<Rightarrow> bool redis" where
  "distributed_string_eq E v str =
     mbind (distributed_string_get E v) (\<lambda>s. mret (s = str))"

definition distributed_string_neq :: "'d env \<Rightarrow> distributed_value \<Rightarrow> string \<Rightarrow> bool redis" where
  "distributed_string_neq E v str =
     mbind (distributed_string_get E v) (\<lambda>s. mret (s \<noteq> str))"

text \<open>
  The stream operators; the streams are the characters written and those left to be read. \<open>is >> s_val\<close> takes
  the next word, and nothing when there is none: the empty string is stored then.
\<close>

definition distributed_string_shl :: "'d env \<Rightarrow> string \<Rightarrow> distributed_value \<Rightarrow> string redis" where
  "distributed_string_shl E os sh_str = mbind (distributed_string_get E sh_str) (\<lambda>s. mret (os @ s))"

definition distributed_string_shr :: "'d env \<Rightarrow> string \<Rightarrow> distributed_value \<Rightarrow> string redis" where
  "distributed_string_shr E input sh_str =
     (let s = dropWhile is_space input; s_val = takeWhile (\<lambda>c. \<not> is_space c) s
      in mseq (distributed_string_assign E sh_str s_val) (mret (drop (length s_val) s)))"

section \<open>distributed_base_int\<close>

definition distributed_int_to_int_type :: "'d env \<Rightarrow> int_ty \<Rightarrow> string \<Rightarrow> int redis" where
  "distributed_int_to_int_type E ty val =
     (case lex_int E ty val of Some n \<Rightarrow> mret n
      | None \<Rightarrow> mthrow (Value_error ''value is not of integer type''))"

definition distributed_int_to_int :: "'d env \<Rightarrow> int_ty \<Rightarrow> distributed_value \<Rightarrow> int redis" where
  "distributed_int_to_int E ty v =
     mbind (redis_get E (dv_key v)) (\<lambda>s. distributed_int_to_int_type E ty s)"

definition distributed_int_assign :: "'d env \<Rightarrow> int_ty \<Rightarrow> distributed_value \<Rightarrow> int \<Rightarrow> unit redis" where
  "distributed_int_assign E ty v val =
     redis_set E (dv_key v) (show_int E val)"

definition distributed_int_assign_from :: "'d env \<Rightarrow> int_ty \<Rightarrow> distributed_value \<Rightarrow> distributed_value \<Rightarrow> unit redis" where
  "distributed_int_assign_from E ty v other =
     (if dv_key v \<noteq> dv_key other
      then mbind (distributed_int_to_int E ty other) (\<lambda>n. redis_set E (dv_key v) (show_int E n))
      else mret ())"

definition distributed_int_setnx :: "'d env \<Rightarrow> int_ty \<Rightarrow> distributed_value \<Rightarrow> int \<Rightarrow> bool redis" where
  "distributed_int_setnx E ty v value =
     redis_setnx E (dv_key v) (show_int E value)"

definition distributed_int_new_default :: "'d env \<Rightarrow> int_ty \<Rightarrow> distributed_value \<Rightarrow> int \<Rightarrow> distributed_value redis" where
  "distributed_int_new_default E ty v default_value =
     mseq (distributed_int_setnx E ty v default_value) (mret v)"

definition distributed_int_setex :: "'d env \<Rightarrow> int_ty \<Rightarrow> distributed_value \<Rightarrow> int \<Rightarrow> 32 word \<Rightarrow> unit redis" where
  "distributed_int_setex E ty v value secs =
     redis_setex E (dv_key v) (show_int E value) secs"

definition distributed_int_pre_inc :: "'d env \<Rightarrow> int_ty \<Rightarrow> distributed_value \<Rightarrow> int redis" where
  "distributed_int_pre_inc E ty v =
     redis_incr_ty E ty (dv_key v)"

definition distributed_int_post_inc :: "'d env \<Rightarrow> int_ty \<Rightarrow> distributed_value \<Rightarrow> int redis" where
  "distributed_int_post_inc E ty v =
     mbind (redis_incr_ty E ty (dv_key v)) (\<lambda>n. mlift (arith_ty ty (n - 1)))"

definition distributed_int_pre_dec :: "'d env \<Rightarrow> int_ty \<Rightarrow> distributed_value \<Rightarrow> int redis" where
  "distributed_int_pre_dec E ty v =
     redis_decr_ty E ty (dv_key v)"

definition distributed_int_post_dec :: "'d env \<Rightarrow> int_ty \<Rightarrow> distributed_value \<Rightarrow> int redis" where
  "distributed_int_post_dec E ty v =
     mbind (redis_decr_ty E ty (dv_key v)) (\<lambda>n. mlift (arith_ty ty (n + 1)))"

definition distributed_int_add :: "'d env \<Rightarrow> int_ty \<Rightarrow> distributed_value \<Rightarrow> int \<Rightarrow> int redis" where
  "distributed_int_add E ty v val =
     redis_incrby_ty E ty (dv_key v) val"

definition distributed_int_sub :: "'d env \<Rightarrow> int_ty \<Rightarrow> distributed_value \<Rightarrow> int \<Rightarrow> int redis" where
  "distributed_int_sub E ty v val =
     redis_decrby_ty E ty (dv_key v) val"

section \<open>distributed_list\<close>

definition distributed_list_push_back :: "'d env \<Rightarrow> distributed_value \<Rightarrow> string \<Rightarrow> unit redis" where
  "distributed_list_push_back E v value =
     mseq (redis_rpush E (dv_key v) value) (mret ())"

definition distributed_list_push_front :: "'d env \<Rightarrow> distributed_value \<Rightarrow> string \<Rightarrow> unit redis" where
  "distributed_list_push_front E v value =
     mseq (redis_lpush E (dv_key v) value) (mret ())"

definition distributed_list_pop_back :: "'d env \<Rightarrow> distributed_value \<Rightarrow> string redis" where
  "distributed_list_pop_back E v =
     redis_rpop E (dv_key v)"

definition distributed_list_blocking_pop_back :: "'d env \<Rightarrow> distributed_value \<Rightarrow> int \<Rightarrow> string redis" where
  "distributed_list_blocking_pop_back E v timeout =
     redis_brpop E (dv_key v) timeout"

definition distributed_list_pop_front :: "'d env \<Rightarrow> distributed_value \<Rightarrow> string redis" where
  "distributed_list_pop_front E v =
     redis_lpop E (dv_key v)"

definition distributed_list_blocking_pop_front :: "'d env \<Rightarrow> distributed_value \<Rightarrow> int \<Rightarrow> string redis" where
  "distributed_list_blocking_pop_front E v timeout =
     redis_blpop E (dv_key v) timeout"

definition distributed_list_size :: "'d env \<Rightarrow> distributed_value \<Rightarrow> nat redis" where
  "distributed_list_size E v =
     mbind (redis_llen E (dv_key v)) (\<lambda>n. mret (nat (n mod 2 ^ 64)))"

definition distributed_list_range :: "'d env \<Rightarrow> distributed_value \<Rightarrow> int \<Rightarrow> int \<Rightarrow> string list redis" where
  "distributed_list_range E v begin end =
     mbind (redis_lrange E (dv_key v) begin end []) (\<lambda>(n, res). mret res)"

definition distributed_list_to_vector :: "'d env \<Rightarrow> distributed_value \<Rightarrow> string list redis" where
  "distributed_list_to_vector E v =
     distributed_list_range E v 0 (-1)"

definition distributed_list_trim :: "'d env \<Rightarrow> distributed_value \<Rightarrow> int \<Rightarrow> int \<Rightarrow> unit redis" where
  "distributed_list_trim E v begin end =
     redis_ltrim E (dv_key v) begin end"

definition distributed_list_at :: "'d env \<Rightarrow> distributed_value \<Rightarrow> int \<Rightarrow> string redis" where
  "distributed_list_at E v index =
     redis_lindex E (dv_key v) index"

definition distributed_list_set :: "'d env \<Rightarrow> distributed_value \<Rightarrow> int \<Rightarrow> string \<Rightarrow> unit redis" where
  "distributed_list_set E v index value =
     redis_lset E (dv_key v) index value"

section \<open>distributed_unordered_set\<close>

definition distributed_unordered_set_insert :: "'d env \<Rightarrow> distributed_value \<Rightarrow> string \<Rightarrow> unit redis" where
  "distributed_unordered_set_insert E v value =
     mseq (redis_sadd E (dv_key v) value) (mret ())"

definition distributed_unordered_set_erase :: "'d env \<Rightarrow> distributed_value \<Rightarrow> string \<Rightarrow> unit redis" where
  "distributed_unordered_set_erase E v value =
     redis_srem E (dv_key v) value"

definition distributed_unordered_set_clear :: "'d env \<Rightarrow> distributed_value \<Rightarrow> unit redis" where
  "distributed_unordered_set_clear E v =
     distributed_value_del E v"

definition distributed_unordered_set_count :: "'d env \<Rightarrow> distributed_value \<Rightarrow> int redis" where
  "distributed_unordered_set_count E v =
     redis_scard E (dv_key v)"

definition distributed_unordered_set_pop_random :: "'d env \<Rightarrow> distributed_value \<Rightarrow> string redis" where
  "distributed_unordered_set_pop_random E v =
     redis_spop E (dv_key v)"

definition distributed_unordered_set_get_random :: "'d env \<Rightarrow> distributed_value \<Rightarrow> string redis" where
  "distributed_unordered_set_get_random E v =
     redis_srandmember E (dv_key v)"

definition distributed_unordered_set_contains :: "'d env \<Rightarrow> distributed_value \<Rightarrow> string \<Rightarrow> bool redis" where
  "distributed_unordered_set_contains E v value =
     redis_sismember E (dv_key v) value"

end
