(* ===== verification/Redis_Routing.thy ===== *)
theory Redis_Routing
  imports Redis_Gather Redis_Server Redis_Values
begin

text \<open>
  Routing of key vectors, and what the client does when keys live on different servers: the meaning
  of \<open>get_socket(keys)\<close>, \<open>sinter\<close> over a cluster, transactions, and \<open>mset(keys, values)\<close>, which asks for the
  socket of the whole vector.
\<close>

section \<open>get_socket of a vector\<close>

lemma sockets_agree_run:
  assumes "\<And>k. k \<in> set ks \<Longrightarrow> route E (connections w) k = Ret (f k)"
  shows "sockets_agree E ks s w = (Ret (if \<forall>k \<in> set ks. f k = s then s else -1), w)"
  using assms
proof (induction ks arbitrary: s)
  case (Cons k ks)
  then show ?case by (cases "f k = s") (auto simp: run_simps get_socket_def)
qed (simp add: run_simps)

lemma get_socket_vec_run:
  assumes "keys \<noteq> []" "\<And>k. k \<in> set keys \<Longrightarrow> route E (connections w) k = Ret (f k)"
  shows "get_socket_vec E keys w =
    (Ret (if \<forall>k \<in> set keys. f k = f (hd keys) then f (hd keys) else -1), w)"
proof (cases "length (connections w) = 1")
  case True
  then have "f k = con_socket (connections w ! 0)" if "k \<in> set keys" for k
    using assms(2) [OF that] by (simp add: route_def)
  then show ?thesis using True assms(1) by (simp add: get_socket_vec_def run_simps)
next
  case False
  obtain k ks where keys: "keys = k # ks" using assms(1) by (cases keys) auto
  then have "sockets_agree E ks (f k) w = (Ret (if \<forall>k' \<in> set ks. f k' = f k then f k else -1), w)"
    using assms(2) by (intro sockets_agree_run) simp
  moreover have "get_socket E k w = (Ret (f k), w)" using assms(2) keys by (simp add: get_socket_def)
  ultimately show ?thesis using False keys by (simp add: get_socket_vec_def run_simps)
qed

section \<open>sinter\<close>

lemma set_intersection_props:
  assumes "sorted xs" "distinct xs" "sorted ys" "distinct ys"
  shows "sorted (set_intersection xs ys) \<and> distinct (set_intersection xs ys) \<and>
    set (set_intersection xs ys) = set xs \<inter> set ys"
  using assms
proof (induction xs ys rule: set_intersection.induct)
  case (1 x xs y ys)
  consider "x < y" | "y < x" | "x = y" by fastforce
  then show ?case
  proof cases
    case 1
    then have "x \<notin> set (y # ys)" using "1.prems"(3) by auto
    with 1 "1.IH"(1) "1.prems" show ?thesis by auto
  next
    case 2
    then have "y \<notin> set (x # xs)" using "1.prems"(1) by auto
    with 2 "1.IH"(2) "1.prems" show ?thesis by auto
  next
    case 3
    then have "set_intersection (x # xs) (y # ys) = x # set_intersection xs ys" by simp
    moreover have "sorted (set_intersection xs ys)" "distinct (set_intersection xs ys)"
      "set (set_intersection xs ys) = set xs \<inter> set ys" using 3 "1.IH"(3) "1.prems" by auto
    ultimately show ?thesis using "1.prems" 3 by auto
  qed
qed auto

definition std_set :: "string list \<Rightarrow> bool" where
  "std_set xs \<longleftrightarrow> sorted xs \<and> distinct xs"

lemma std_set_inserts: "std_set (fold insort_insert ds [])" "set (fold insort_insert ds []) = set ds"
  for ds :: "string list"
  using fold_insort_insert [of "[]" ds] by (auto simp: std_set_def)

lemma std_set_inter:
  "std_set xs \<Longrightarrow> std_set ys \<Longrightarrow> std_set (set_intersection xs ys)"
  "std_set xs \<Longrightarrow> std_set ys \<Longrightarrow> set (set_intersection xs ys) = set xs \<inter> set ys"
  using set_intersection_props by (auto simp: std_set_def)

lemma sinter_fold:
  assumes "\<And>s. std_set (cur s)"
  shows "fold (\<lambda>(s, ks) (i, out). (Suc i, if i > 0 then set_intersection out (cur s) else cur s)) m (Suc i, out)
    = (Suc i + length m, fold (\<lambda>(s, ks) out. set_intersection out (cur s)) m out)"
  by (induction m arbitrary: i out) auto

lemma inter_fold:
  assumes "\<And>s. std_set (cur s)" "std_set out"
  shows "std_set (fold (\<lambda>(s, ks) out. set_intersection out (cur s)) m out) \<and>
    set (fold (\<lambda>(s, ks) out. set_intersection out (cur s)) m out) = set out \<inter> (\<Inter>s \<in> fst ` set m. set (cur s))"
  using assms(2)
proof (induction m arbitrary: out)
  case (Cons sc m)
  obtain s c where sc: "sc = (s, c)" by (cases sc)
  have "std_set (set_intersection out (cur s))" "set (set_intersection out (cur s)) = set out \<inter> set (cur s)"
    using std_set_inter assms(1) Cons.prems by auto
  with Cons.IH [of "set_intersection out (cur s)"] sc show ?case by auto
qed simp

lemma fold_snoc_list: "fold (\<lambda>k ks. ks @ [k]) xs acc = acc @ xs"
  by (induction xs arbitrary: acc) simp_all



section \<open>Keys on different servers\<close>

text \<open>\<open>get_socket(keys)\<close> is the common socket of the keys, and -1 exactly when two keys are routed to
  different sockets (no open socket is -1).\<close>

theorem get_socket_vec_meaning:
  assumes "keys \<noteq> []" "\<And>k. k \<in> set keys \<Longrightarrow> route E (connections w) k = Ret (f k) \<and> 0 < f k"
  shows "\<exists>s. get_socket_vec E keys w = (Ret s, w) \<and>
    (s = -1 \<longleftrightarrow> (\<exists>k \<in> set keys. \<exists>k' \<in> set keys. f k \<noteq> f k')) \<and>
    (s \<noteq> -1 \<longrightarrow> (\<forall>k \<in> set keys. f k = s))"
proof -
  have hd: "hd keys \<in> set keys" using assms(1) by simp
  with assms(2) have pos: "f (hd keys) \<noteq> -1" by fastforce
  have "get_socket_vec E keys w =
      (Ret (if \<forall>k \<in> set keys. f k = f (hd keys) then f (hd keys) else -1), w)"
    using assms by (intro get_socket_vec_run) auto
  moreover have "(\<exists>k \<in> set keys. \<exists>k' \<in> set keys. f k \<noteq> f k') \<longleftrightarrow> \<not> (\<forall>k \<in> set keys. f k = f (hd keys))"
    using hd by metis
  ultimately show ?thesis using pos by (cases "\<forall>k \<in> set keys. f k = f (hd keys)") simp_all
qed

theorem get_socket_vec_meaning_witness:
  "get_socket_vec demo_env [''a'', ''b''] (demo_fleet (\<lambda>_. [])) = (Ret (-1), demo_fleet (\<lambda>_. []))"
proof -
  obtain s where "get_socket_vec demo_env [''a'', ''b''] (demo_fleet (\<lambda>_. [])) = (Ret s, demo_fleet (\<lambda>_. []))"
    "s = -1 \<longleftrightarrow> (\<exists>k \<in> set [''a'', ''b'']. \<exists>k' \<in> set [''a'', ''b'']. demo_socket k \<noteq> demo_socket k')"
    using get_socket_vec_meaning [of "[''a'', ''b'']" demo_env "demo_fleet (\<lambda>_. [])" demo_socket]
    by (force simp: demo_socket_def)
  then show ?thesis by (auto simp: demo_socket_def)
qed

text \<open>C36: A transaction whose commands are routed to different servers, all of them connected, is refused with an
  exception before anything is written: the state of the client and of all sockets is unchanged.\<close>

theorem redis_transaction_refused:
  assumes "\<And>c. c \<in> set cs \<Longrightarrow> route E (connections w) (cm_hash_key c) = Ret (f c) \<and> 0 < f c"
    "c1 \<in> set cs" "c2 \<in> set cs" "f c1 \<noteq> f c2"
  shows "redis_exec_transaction E cs w =
    (Exn (Runtime_error ''calls in transaction map to different server!''), w)"
proof -
  let ?step = "\<lambda>c (cmd_socket, cmd_str). mbind (get_socket E (cm_hash_key c)) (\<lambda>socket.
           if cmd_socket = -1 then mret (socket, cmd_str @ cm_request c)
           else if cmd_socket \<noteq> socket
             then mthrow (Runtime_error ''calls in transaction map to different server!'')
           else mret (cmd_socket, cmd_str @ cm_request c))"
  have later: "mfold ?step xs (s, str) w = (Exn (Runtime_error ''calls in transaction map to different server!''), w)"
    if "set xs \<subseteq> set cs" "s \<noteq> -1" "\<exists>x \<in> set xs. f x \<noteq> s" for xs s str
    using that
  proof (induction xs arbitrary: str)
    case (Cons x xs)
    then show ?case using assms(1) [of x]
      by (cases "f x = s") (auto simp: run_simps get_socket_def)
  qed simp
  obtain c cs' where cs: "cs = c # cs'" using assms(2) by (cases cs) auto
  have c: "route E (connections w) (cm_hash_key c) = Ret (f c)" "f c \<noteq> -1" using assms(1) [of c] cs by auto
  have "\<exists>x \<in> set cs. f x \<noteq> f c" using assms(2-4) by metis
  then have "\<exists>x \<in> set cs'. f x \<noteq> f c" using cs by auto
  have "?step c (-1, str) w = (Ret (f c, str @ cm_request c), w)" for str
    using c(1) by (simp add: run_simps get_socket_def)
  then have "mfold ?step cs (-1, str) w = mfold ?step cs' (f c, str @ cm_request c) w" for str
    unfolding cs mfold.simps by (rule mbind_Ret)
  moreover have "mfold ?step cs' (f c, str) w =
      (Exn (Runtime_error ''calls in transaction map to different server!''), w)" for str
    by (rule later) (use cs c(2) \<open>\<exists>x \<in> set cs'. f x \<noteq> f c\<close> in auto)
  ultimately have "mfold ?step cs (-1, str) w =
      (Exn (Runtime_error ''calls in transaction map to different server!''), w)" for str by simp
  then show ?thesis unfolding redis_exec_transaction_def by (rule mbind_Exn)
qed

theorem redis_transaction_refused_witness:
  "redis_exec_transaction demo_env [\<lparr>cm_request = ''x'', cm_hash_key = ''a'', cm_reply = (no_reply, Vint 0)\<rparr>,
      \<lparr>cm_request = ''y'', cm_hash_key = ''b'', cm_reply = (no_reply, Vint 0)\<rparr>] (demo_fleet (\<lambda>_. []))
    = (Exn (Runtime_error ''calls in transaction map to different server!''), demo_fleet (\<lambda>_. []))"
  by (rule redis_transaction_refused [where f = "\<lambda>c. demo_socket (cm_hash_key c)"
      and ?c1.0 = "\<lparr>cm_request = ''x'', cm_hash_key = ''a'', cm_reply = (no_reply, Vint 0)\<rparr>"
      and ?c2.0 = "\<lparr>cm_request = ''y'', cm_hash_key = ''b'', cm_reply = (no_reply, Vint 0)\<rparr>"])
    (auto simp: demo_socket_def)

text \<open>\<open>mset(keys, values)\<close> with keys on different servers fails: it writes to the socket -1 that
  \<open>get_socket(keys)\<close> returns then. No key is set. (The overload for pairs routes each key.)\<close>

theorem redis_mset_split_keys:
  assumes "\<And>k. k \<in> set keys \<Longrightarrow> route E (connections w) k = Ret (f k) \<and> 0 < f k"
    "length vals = length keys" "k1 \<in> set keys" "k2 \<in> set keys" "f k1 \<noteq> f k2"
  shows "redis_mset E keys vals w = (Exn (Connection_error ''Bad file descriptor''), w)"
proof -
  have ne: "keys \<noteq> []" using assms(3) by auto
  have m1: "get_socket_vec E keys w = (Ret (-1), w)"
  proof -
    have differ: "(\<forall>k \<in> set keys. f k = f (hd keys)) = False" using assms(3-5) by metis
    have "get_socket_vec E keys w =
        (Ret (if \<forall>k \<in> set keys. f k = f (hd keys) then f (hd keys) else -1), w)"
      using assms(1) by (intro get_socket_vec_run [OF ne]) blast
    then show ?thesis by (simp only: differ if_False)
  qed
  let ?step = "\<lambda>(k, v) m. mbind (get_socket_vec E keys) (\<lambda>socket.
            mret (omap_upd socket (makecmd_new ''MSET'') (\<lambda>cmd. mc_str v (mc_str k cmd)) m))"
  have later: "\<exists>cmd. mfold ?step kvs [(-1, c)] w = (Ret [(-1, cmd)], w)" for kvs c
  proof (induction kvs arbitrary: c)
    case (Cons kv kvs)
    then show ?case by (cases kv) (simp add: mbind_run m1 mret_run omap_upd_def)
  qed (simp add: mret_run)
  obtain kv kvs where z: "zip keys vals = kv # kvs" using ne assms(2) by (cases keys; cases vals) auto
  obtain k v where kv: "kv = (k, v)" by (cases kv)
  have "mfold ?step (zip keys vals) [] w = mfold ?step kvs [(-1, mc_str v (mc_str k (makecmd_new ''MSET'')))] w"
    unfolding z kv by (simp add: mbind_run m1 mret_run omap_upd_def)
  with later obtain cmd where "mfold ?step (zip keys vals) [] w = (Ret [(-1, cmd)], w)" by metis
  moreover have "send_cmd (-1) cmd w = (Exn (Connection_error ''Bad file descriptor''), w)"
    by (simp add: send_cmd_def redis_send_def anetWrite.simps makecmd_string_def request_bytes_def)
  ultimately show ?thesis using assms(2)
    by (simp add: redis_mset_def mseq_run massert_run mbind_Ret)
qed

theorem redis_mset_split_keys_witness:
  "redis_mset demo_env [''a'', ''b''] [''1'', ''2''] (demo_fleet (\<lambda>_. []))
    = (Exn (Connection_error ''Bad file descriptor''), demo_fleet (\<lambda>_. []))"
  by (rule redis_mset_split_keys [where f = demo_socket and ?k1.0 = "''a''" and ?k2.0 = "''b''"])
    (auto simp: demo_socket_def)

section \<open>Transactions\<close>

lemma reads_mseq: "reads fd m bs (Ret a) \<Longrightarrow> reads fd n bs' r \<Longrightarrow> reads fd (mseq m n) (bs @ bs') r"
  unfolding mseq_def by (rule reads_mbind)

lemma reads_mfor:
  assumes "\<And>x. x \<in> set xs \<Longrightarrow> reads fd (f x) (bs x) (Ret ())"
  shows "reads fd (mfor f xs) (concat (map bs xs)) (Ret ())"
  using assms by (induction xs) (simp_all add: reads_pure reads_mseq)

lemma reads_mmap:
  assumes "\<And>x. x \<in> set xs \<Longrightarrow> reads fd (f x) (bs x) (Ret (v x))"
  shows "reads fd (mmap f xs) (concat (map bs xs)) (Ret (map v xs))"
  using assms
proof (induction xs)
  case (Cons x xs)
  have "reads fd (mbind (mmap f xs) (\<lambda>as. mret (v x # as))) (concat (map bs xs)) (Ret (v x # map v xs))"
    using Cons by (intro reads_then) simp
  then have "reads fd (mbind (f x) (\<lambda>a. mbind (mmap f xs) (\<lambda>as. mret (a # as))))
      (bs x @ concat (map bs xs)) (Ret (v x # map v xs))"
    using Cons.prems by (intro reads_mbind [of _ _ _ "v x"]) simp_all
  then show ?case by simp
qed (simp add: reads_pure)

definition queued :: string where "queued = reply_bytes (Status ''QUEUED'')"

lemma transaction_socket:
  assumes "\<And>c. c \<in> set cs \<Longrightarrow> route E (connections w) (cm_hash_key c) = Ret s" "s \<noteq> -1" "s0 = -1 \<or> s0 = s"
  shows "mfold (\<lambda>c (cmd_socket, cmd_str). mbind (get_socket E (cm_hash_key c)) (\<lambda>socket.
           if cmd_socket = -1 then mret (socket, cmd_str @ cm_request c)
           else if cmd_socket \<noteq> socket
             then mthrow (Runtime_error ''calls in transaction map to different server!'')
           else mret (cmd_socket, cmd_str @ cm_request c))) cs (s0, str) w =
    (Ret (if cs = [] then s0 else s, str @ concat (map cm_request cs)), w)"
  using assms(1,3)
proof (induction cs arbitrary: s0 str)
  case (Cons c cs)
  then show ?case using assms(2) by (auto simp: mbind_run get_socket_def mret_run)
qed (simp add: mret_run)

text \<open>The replies to a transaction: OK for MULTI, QUEUED for every request, and the replies of EXEC.\<close>

lemma queued_reads:
  assumes "0 < s"
  shows "reads s (mbind (recv_single_line_reply s) (\<lambda>resp.
             if resp \<noteq> ''QUEUED''
             then mthrow (Runtime_error (''invalid state (expected 'QUEUED' in transaction but got ''
                    @ [CHR 0x27] @ resp @ [CHR 0x27, CHR '')'']))
             else mret ())) queued (Ret ())"
  unfolding queued_def using assms
  by (intro reads_mbind_pure [OF reads_status]) (simp_all add: plain_line_def reads_pure)

lemma exec_reads:
  assumes "0 < s" "lex_sound E" "\<forall>(c, r) \<in> set ps. wf_reply r \<and> generic_of r = Ret (gv r)"
  shows "reads s (mbind (read_line s) (\<lambda>line.
         if (case line of [] \<Rightarrow> CHR 0x00 | ch # _ \<Rightarrow> ch) \<noteq> CHR ''*''
         then mthrow (Runtime_error ''EXEC does not return a multi bulk reply'')
         else mmap (\<lambda>c. mbind (recv_generic_reply E s) (\<lambda>r. mret (set_reply r c))) (map fst ps)))
      ((CHR ''*'' # dec_int (int (length ps)) @ CRLF) @ concat (map (reply_bytes \<circ> snd) ps))
      (Ret (map (\<lambda>x. set_reply (gv (snd x)) (fst x)) ps))"
proof -
  let ?gen = "\<lambda>c. mbind (recv_generic_reply E s) (\<lambda>r. mret (set_reply r c))"
  have rg: "reads s (mmap (\<lambda>x. ?gen (fst x)) ps) (concat (map (reply_bytes \<circ> snd) ps))
      (Ret (map (\<lambda>x. set_reply (gv (snd x)) (fst x)) ps))"
  proof (rule reads_mmap)
    fix x assume "x \<in> set ps"
    then have "reads s (recv_generic_reply E s) (reply_bytes (snd x)) (Ret (gv (snd x)))"
      using recv_generic_reply_reads [OF assms(1,2), of "snd x"] assms(3) by force
    then show "reads s (?gen (fst x)) ((reply_bytes \<circ> snd) x) (Ret (set_reply (gv (snd x)) (fst x)))"
      unfolding comp_def by (rule reads_then)
  qed
  have rl: "reads s (read_line s) (CHR ''*'' # dec_int (int (length ps)) @ CRLF)
      (Ret (CHR ''*'' # dec_int (int (length ps))))"
    using assms(1) by (intro reads_line_Cons) simp_all
  show ?thesis using rg by (intro reads_mbind [OF rl]) (simp add: mmap_map)
qed

text \<open>A transaction on one server sends MULTI, the requests and EXEC in one write, and when the server
  accepts, queues and executes them, every command gets the reply of its own request.\<close>

theorem redis_transaction_replies:
  assumes "lex_sound E" "ps \<noteq> []" "0 < s" "wr_ready (wrq w s)"
    "\<And>c r. (c, r) \<in> set ps \<Longrightarrow> route E (connections w) (cm_hash_key c) = Ret s \<and> wf_reply r \<and>
      generic_of r = Ret (gv r)"
    "rx_ready s (reply_bytes (Status ''OK'') @ concat (map (\<lambda>_. queued) ps) @
      (CHR ''*'' # dec_int (int (length ps)) @ CRLF) @ concat (map (reply_bytes \<circ> snd) ps) @ rest) w"
  shows "\<exists>w'. redis_exec_transaction E (map fst ps) w = (Ret (map (\<lambda>(c, r). set_reply (gv r) c) ps), w') \<and>
    exchanged s (request_bytes [''MULTI''] @ concat (map (cm_request \<circ> fst) ps) @ request_bytes [''EXEC'']) rest w w'"
proof -
  let ?step = "\<lambda>c (cmd_socket, cmd_str). mbind (get_socket E (cm_hash_key c)) (\<lambda>socket.
           if cmd_socket = -1 then mret (socket, cmd_str @ cm_request c)
           else if cmd_socket \<noteq> socket
             then mthrow (Runtime_error ''calls in transaction map to different server!'')
           else mret (cmd_socket, cmd_str @ cm_request c))"
  let ?hdr = "CHR ''*'' # dec_int (int (length ps)) @ CRLF"
  have "reads s (mfor (\<lambda>_. mbind (recv_single_line_reply s) (\<lambda>resp.
             if resp \<noteq> ''QUEUED''
             then mthrow (Runtime_error (''invalid state (expected 'QUEUED' in transaction but got ''
                    @ [CHR 0x27] @ resp @ [CHR 0x27, CHR '')'']))
             else mret ())) (map fst ps)) (concat (map (\<lambda>_. queued) (map fst ps))) (Ret ())"
    by (rule reads_mfor) (rule queued_reads [OF assms(3)])
  moreover have "concat (map (\<lambda>_. queued) (map fst ps)) = concat (map (\<lambda>_. queued) ps)" by (simp add: comp_def)
  ultimately have r2: "reads s (mfor (\<lambda>_. mbind (recv_single_line_reply s) (\<lambda>resp.
             if resp \<noteq> ''QUEUED''
             then mthrow (Runtime_error (''invalid state (expected 'QUEUED' in transaction but got ''
                    @ [CHR 0x27] @ resp @ [CHR 0x27, CHR '')'']))
             else mret ())) (map fst ps)) (concat (map (\<lambda>_. queued) ps)) (Ret ())" by (simp only:)
  have "\<forall>(c, r) \<in> set ps. wf_reply r \<and> generic_of r = Ret (gv r)" using assms(5) by blast
  note r3 = exec_reads [OF assms(3,1) this]
  note all = reads_mseq [OF reads_ok [OF assms(3)] reads_mseq [OF r2 r3]]
  have sock: "mfold ?step (map fst ps) (-1, makecmd_string (makecmd_new ''MULTI'')) w =
      (Ret (s, request_bytes [''MULTI''] @ concat (map (cm_request \<circ> fst) ps)), w)"
    using assms(2,3) by (subst transaction_socket [where s = s])
      (auto simp: assms(5) makecmd_string_def mc_simps)
  have "rx_ready s ((reply_bytes (Status ''OK'') @ concat (map (\<lambda>_. queued) ps) @ ?hdr @
      concat (map (reply_bytes \<circ> snd) ps)) @ rest) w" using assms(6) by simp
  note ex = send_then_read [OF less_imp_le [OF assms(3)] assms(4) all this]
  note first = mbind_Ret [where m = "mfold ?step (map fst ps) (-1, makecmd_string (makecmd_new ''MULTI''))"
      and s = w, OF sock]
  show ?thesis
    unfolding redis_exec_transaction_def first prod.case
    using ex [of "(request_bytes [''MULTI''] @ concat (map (cm_request \<circ> fst) ps)) @
        makecmd_string (makecmd_new ''EXEC'')"]
    by (simp add: makecmd_string_def mc_simps case_prod_beta')
qed

theorem redis_transaction_replies_witness:
  "\<exists>w'. redis_exec_transaction demo_env [\<lparr>cm_request = ''x'', cm_hash_key = ''a'', cm_reply = (no_reply, Vint 0)\<rparr>]
      (demo_fleet (\<lambda>_. reply_bytes (Status ''OK'') @ queued @ (CHR ''*'' # dec_int 1 @ CRLF) @ reply_bytes (Status ''s'')))
    = (Ret [\<lparr>cm_request = ''x'', cm_hash_key = ''a'', cm_reply = (status_code_reply, Vstring ''s'')\<rparr>], w')"
proof -
  let ?c = "\<lparr>cm_request = ''x'', cm_hash_key = ''a'', cm_reply = (no_reply, Vint 0)\<rparr>"
  let ?bs = "reply_bytes (Status ''OK'') @ queued @ (CHR ''*'' # dec_int 1 @ CRLF) @ reply_bytes (Status ''s'')"
  have "fleet_ready {3} (\<lambda>_. ?bs) (demo_fleet (\<lambda>_. ?bs))" by (rule demo_fleet_ready) simp
  then have "wr_ready (wrq (demo_fleet (\<lambda>_. ?bs)) 3)" "rx_ready 3 ?bs (demo_fleet (\<lambda>_. ?bs))"
    unfolding fleet_ready_def by blast+
  then show ?thesis
    using redis_transaction_replies [where E = demo_env and ps = "[(?c, Status ''s'')]" and s = 3
        and w = "demo_fleet (\<lambda>_. ?bs)" and gv = "\<lambda>_. (status_code_reply, Vstring ''s'')" and rest = "[]",
        OF demo_env_sound]
    by (auto simp: demo_socket_def set_reply_def plain_line_def)
qed

end
