(* ===== verification/Exclusion.thy ===== *)
theory Exclusion
  imports Prelude
begin

text \<open>
  What the program expects of a lock, whichever class provides it: the write side of \<open>RWLockable\<close>
  (\<open>Redis_Pool\<close>) and the plain \<open>CThreadMutex\<close> (\<open>Thread_Sync\<close>). \<open>acquire\<close> gives \<^const>\<open>None\<close> when the caller
  has to wait; \<open>ok\<close> is the provider's well-formedness.
\<close>

locale exclusion =
  fixes ok :: "'l \<Rightarrow> bool"
    and holder :: "'l \<Rightarrow> nat option"
    and acquire :: "nat \<Rightarrow> 'l \<Rightarrow> 'l option"
    and release :: "nat \<Rightarrow> 'l \<Rightarrow> 'l"
  assumes acquire_free: "ok l \<Longrightarrow> holder l = None \<Longrightarrow> \<exists>l'. acquire i l = Some l' \<and> ok l' \<and> holder l' = Some i"
    and acquire_held: "ok l \<Longrightarrow> holder l = Some j \<Longrightarrow> acquire i l = None"
    and release_held: "ok l \<Longrightarrow> holder l = Some i \<Longrightarrow> ok (release i l) \<and> holder (release i l) = None"
begin

lemma acquired:
  assumes "ok l" "acquire i l = Some l'"
  shows "ok l'" "holder l = None" "holder l' = Some i"
  using acquire_free [OF assms(1), of i] acquire_held [OF assms(1), of _ i] assms(2)
  by (cases "holder l"; force)+

lemma acquire_iff: "ok l \<Longrightarrow> (\<exists>l'. acquire i l = Some l') \<longleftrightarrow> holder l = None"
  using acquire_free [of l i] acquired [of l i] by blast

text \<open>If exactly the holder is inside before an operation, exactly the holder is inside after it.\<close>

definition guards :: "(nat \<Rightarrow> bool) \<Rightarrow> 'l \<Rightarrow> bool" where
  "guards inside l \<longleftrightarrow> ok l \<and> (\<forall>i. inside i \<longleftrightarrow> holder l = Some i)"

lemma guards_one: "guards inside l \<Longrightarrow> inside i \<Longrightarrow> inside j \<Longrightarrow> i = j"
  by (auto simp: guards_def)

lemma guards_acquire: "guards inside l \<Longrightarrow> acquire i l = Some l' \<Longrightarrow> guards (inside(i := True)) l'"
  using acquired [of l i l'] by (auto simp: guards_def)

lemma guards_release: "guards inside l \<Longrightarrow> inside i \<Longrightarrow> guards (inside(i := False)) (release i l)"
  using release_held [of l i] by (auto simp: guards_def)

lemma guards_progress: "guards inside l \<Longrightarrow> (\<exists>i. inside i) \<or> (\<exists>l'. acquire j l = Some l')"
  using acquire_iff [of l j] by (cases "holder l") (auto simp: guards_def)

end

end
