(* ===== verification/Redis_Pool.thy ===== *)
theory Redis_Pool
  imports Redis_Server Redis_Frame Exclusion "HOL-Library.Multiset"
begin

text \<open>
  \<open>RedisCliMgr\<close> of \<open>src/common/redisCliMgr.h\<close>, the pool of redis clients that threads share, with the lock of
  \<open>src/common/lock.h\<close>. Clients are numbered in the order they are made. A user is a thread that runs
  \<open>get\<close>, works with the client and gives it back by \<open>GiveBackGuard\<close>; a step is one call of
  \<open>pthread_rwlock_wrlock\<close> or \<open>pthread_rwlock_unlock\<close>, one access to the list, or one construction of a
  client, in any interleaving.
\<close>

section \<open>The lock\<close>

text \<open>\<open>RWLockable\<close>: the number of readers and the writer; a lock that is not free blocks the caller.\<close>

record rwlock =
  rd_count :: nat
  wr_owner :: "nat option"

definition rw_init :: rwlock where
  "rw_init = \<lparr>rd_count = 0, wr_owner = None\<rparr>"

definition RLock :: "rwlock \<Rightarrow> rwlock option" where
  "RLock l = (if wr_owner l = None then Some (l\<lparr>rd_count := Suc (rd_count l)\<rparr>) else None)"

definition WLock :: "nat \<Rightarrow> rwlock \<Rightarrow> rwlock option" where
  "WLock i l = (if wr_owner l = None \<and> rd_count l = 0 then Some (l\<lparr>wr_owner := Some i\<rparr>) else None)"

definition RUnlock :: "rwlock \<Rightarrow> rwlock" where
  "RUnlock l = l\<lparr>rd_count := rd_count l - 1\<rparr>"

definition WUnlock :: "rwlock \<Rightarrow> rwlock" where
  "WUnlock l = l\<lparr>wr_owner := None\<rparr>"

interpretation rw: exclusion "\<lambda>l. rd_count l = 0" wr_owner WLock "\<lambda>_. WUnlock"
  by unfold_locales (simp_all add: WLock_def WUnlock_def)

section \<open>State\<close>

text \<open>
  \<open>Get1\<close>: \<open>get\<close> holds the lock; \<open>Get2 r\<close>: it has looked at the list (\<open>None\<close>: empty) and still holds the
  lock; \<open>Making\<close>: it is constructing a client of its own, without the lock. \<open>Give1\<close>, \<open>Give2\<close>: \<open>giveback\<close>
  holds the lock, before and after \<open>push_back\<close>.
\<close>

datatype user = Outside | Get1 | Get2 "nat option" | Making | Holding nat | Give1 nat | Give2

record pool =
  m_vecCon :: "connection_data list"
  m_listCli :: "nat list"
  m_lock :: rwlock
  clients_made :: nat
  users :: "user list"

text \<open>The constructor asserts that there are connections and makes one client.\<close>

definition mgr_new :: "connection_data list \<Rightarrow> nat \<Rightarrow> pool result" where
  "mgr_new vecCon n = (if vecCon = [] then Stuck Assert_failed
     else Ret \<lparr>m_vecCon = vecCon, m_listCli = [0], m_lock = rw_init, clients_made = 1, users = replicate n Outside\<rparr>)"

text \<open>The two accesses to the list.\<close>

definition mgr_pop :: "pool \<Rightarrow> nat option \<times> pool" where
  "mgr_pop p = (case m_listCli p of [] \<Rightarrow> (None, p) | dummy # cs \<Rightarrow> (Some dummy, p\<lparr>m_listCli := cs\<rparr>))"

definition mgr_push :: "nat \<Rightarrow> pool \<Rightarrow> pool" where
  "mgr_push m p = p\<lparr>m_listCli := m_listCli p @ [m]\<rparr>"

definition move :: "nat \<Rightarrow> user \<Rightarrow> pool \<Rightarrow> pool" where
  "move i u p = p\<lparr>users := (users p)[i := u]\<rparr>"

definition is_at :: "nat \<Rightarrow> user \<Rightarrow> pool \<Rightarrow> bool" where
  "is_at i u p \<longleftrightarrow> i < length (users p) \<and> users p ! i = u"

inductive mgr_step :: "pool \<Rightarrow> pool \<Rightarrow> bool" where
  get_lock: "mgr_step p (move i Get1 (p\<lparr>m_lock := l\<rparr>))"
    if "is_at i Outside p" "WLock i (m_lock p) = Some l"
| get_pop: "mgr_step p (move i (Get2 r) p')"
    if "is_at i Get1 p" "mgr_pop p = (r, p')"
| get_unlock: "mgr_step p (move i (case r of Some c \<Rightarrow> Holding c | None \<Rightarrow> Making) (p\<lparr>m_lock := WUnlock (m_lock p)\<rparr>))"
    if "is_at i (Get2 r) p"
| make: "mgr_step p (move i (Holding (clients_made p)) (p\<lparr>clients_made := Suc (clients_made p)\<rparr>))"
    if "is_at i Making p"
| make_fails: "mgr_step p (move i Outside p)"
    if "is_at i Making p"
| give_lock: "mgr_step p (move i (Give1 c) (p\<lparr>m_lock := l\<rparr>))"
    if "is_at i (Holding c) p" "WLock i (m_lock p) = Some l"
| give_push: "mgr_step p (move i Give2 (mgr_push c p))"
    if "is_at i (Give1 c) p"
| give_unlock: "mgr_step p (move i Outside (p\<lparr>m_lock := WUnlock (m_lock p)\<rparr>))"
    if "is_at i Give2 p"

abbreviation mgr_run :: "pool \<Rightarrow> pool \<Rightarrow> bool" where
  "mgr_run \<equiv> mgr_step\<^sup>*\<^sup>*"

section \<open>Who has which client\<close>

fun owned :: "user \<Rightarrow> nat multiset" where
  "owned (Get2 (Some c)) = {#c#}"
| "owned (Holding c) = {#c#}"
| "owned (Give1 c) = {#c#}"
| "owned _ = {#}"

text \<open>Users that have found the list empty and will make a client.\<close>

fun wanting :: "user \<Rightarrow> nat" where
  "wanting (Get2 None) = 1"
| "wanting Making = 1"
| "wanting _ = 0"

fun locking :: "user \<Rightarrow> bool" where
  "locking Get1 = True"
| "locking (Get2 _) = True"
| "locking (Give1 _) = True"
| "locking Give2 = True"
| "locking _ = False"

text \<open>
  Every client made is in the list or with exactly one user; a client is made only when the list was
  found empty; the lock is held exactly by the user that is inside.
\<close>

definition mgr_inv :: "pool \<Rightarrow> bool" where
  "mgr_inv p \<longleftrightarrow>
     mset (m_listCli p) + sum_list (map owned (users p)) = mset [0..<clients_made p] \<and>
     clients_made p + sum_list (map wanting (users p)) \<le> max 1 (length (users p)) \<and>
     rw.guards (\<lambda>i. i < length (users p) \<and> locking (users p ! i)) (m_lock p)"

lemma sum_list_update_add:
  fixes f :: "'a \<Rightarrow> 'b::comm_monoid_add"
  assumes "i < length xs"
  shows "sum_list (map f (xs[i := x])) + f (xs ! i) = sum_list (map f xs) + f x"
  using assms
proof (induction xs arbitrary: i)
  case (Cons y xs)
  then show ?case by (cases i) (auto simp: ac_simps)
qed simp

lemma size_sum_owned: "size (sum_list (map owned us)) = sum_list (map (\<lambda>u. size (owned u)) us)"
  by (induction us) simp_all

lemma owned_or_wanting: "size (owned u) + wanting u \<le> 1"
  by (cases u rule: owned.cases) simp_all

lemma idle_user:
  assumes "i < length us" "owned (us ! i) = {#}" "wanting (us ! i) = 0"
  shows "sum_list (map (\<lambda>u. size (owned u)) us) + sum_list (map wanting us) + 1 \<le> length us"
proof -
  have all: "sum_list (map (\<lambda>u. size (owned u)) vs) + sum_list (map wanting vs) \<le> length vs" for vs
  proof (induction vs)
    case (Cons v vs)
    with owned_or_wanting [of v] show ?case by simp
  qed simp
  show ?thesis using assms
  proof (induction us arbitrary: i)
    case (Cons v vs)
    show ?case
    proof (cases i)
      case 0
      with Cons.prems all [of vs] show ?thesis by simp
    next
      case (Suc j)
      with Cons.prems Cons.IH [of j] owned_or_wanting [of v] show ?thesis by simp
    qed
  qed simp
qed

text \<open>One user moves; what its step has to respect.\<close>

lemma inv_move:
  assumes "mgr_inv p" "is_at i u p" "users p' = (users p)[i := u']"
    "locking u = locking u' \<and> m_lock p' = m_lock p \<or>
     locking u' \<and> WLock i (m_lock p) = Some (m_lock p') \<or>
     locking u \<and> \<not> locking u' \<and> m_lock p' = WUnlock (m_lock p)"
    "mset (m_listCli p') + mset [0..<clients_made p] + owned u' = mset (m_listCli p) + mset [0..<clients_made p'] + owned u"
    "clients_made p' + wanting u' \<le> clients_made p + wanting u \<or>
      m_listCli p = [] \<and> clients_made p' = clients_made p \<and> owned u = {#} \<and> wanting u = 0 \<and> wanting u' = 1"
  shows "mgr_inv p'"
proof -
  have i: "i < length (users p)" "users p ! i = u" using assms(2) by (simp_all add: is_at_def)
  note sums = sum_list_update_add [OF i(1), of _ u', unfolded i(2)]
  have own: "mset (m_listCli p') + sum_list (map owned (users p')) = mset [0..<clients_made p']"
  proof -
    let ?n = "mset [0..<clients_made p]" and ?n' = "mset [0..<clients_made p']"
    have "mset (m_listCli p') + sum_list (map owned (users p')) + (?n + owned u + owned u') =
        (mset (m_listCli p') + ?n + owned u') + (sum_list (map owned (users p')) + owned u)"
      by (simp add: ac_simps)
    also have "\<dots> = (mset (m_listCli p) + ?n' + owned u) + (sum_list (map owned (users p)) + owned u')"
      using assms(3,5) sums [of owned] by simp
    also have "\<dots> = (mset (m_listCli p) + sum_list (map owned (users p))) + (?n' + owned u + owned u')"
      by (simp add: ac_simps)
    also have "\<dots> = ?n' + (?n + owned u + owned u')"
      using assms(1) by (simp add: mgr_inv_def ac_simps)
    finally show ?thesis by (simp only: add_right_cancel)
  qed
  have want: "clients_made p' + sum_list (map wanting (users p')) \<le> max 1 (length (users p'))"
  proof -
    have w: "sum_list (map wanting (users p')) + wanting u = sum_list (map wanting (users p)) + wanting u'"
      using sums [of wanting] assms(3) by simp
    have bound: "clients_made p + sum_list (map wanting (users p)) \<le> max 1 (length (users p))"
      using assms(1) by (simp add: mgr_inv_def)
    from assms(6) show ?thesis
    proof
      assume "clients_made p' + wanting u' \<le> clients_made p + wanting u"
      with w bound show ?thesis using assms(3) by simp
    next
      assume a: "m_listCli p = [] \<and> clients_made p' = clients_made p \<and> owned u = {#} \<and> wanting u = 0 \<and> wanting u' = 1"
      then have "sum_list (map owned (users p)) = mset [0..<clients_made p]"
        using assms(1) by (simp add: mgr_inv_def)
      then have "clients_made p = sum_list (map (\<lambda>u. size (owned u)) (users p))"
        using size_sum_owned [of "users p"] by simp
      with idle_user [OF i(1)] i(2) a have "clients_made p + sum_list (map wanting (users p)) + 1 \<le> length (users p)"
        by simp
      with w a show ?thesis using assms(3) by simp
    qed
  qed
  let ?inside = "\<lambda>p j. j < length (users p) \<and> locking (users p ! j)"
  have grd: "rw.guards (?inside p) (m_lock p)" using assms(1) by (simp add: mgr_inv_def)
  have inside: "?inside p' = (?inside p)(i := locking u')"
    using i assms(3) by (auto simp: fun_eq_iff nth_list_update)
  have "rw.guards (?inside p') (m_lock p')"
    using assms(4)
  proof (elim disjE conjE)
    assume "locking u = locking u'" "m_lock p' = m_lock p"
    moreover from this have "(?inside p)(i := locking u') = ?inside p" using i by (auto simp: fun_eq_iff)
    ultimately show ?thesis using grd unfolding inside by simp
  next
    assume "locking u'" "WLock i (m_lock p) = Some (m_lock p')"
    with rw.guards_acquire [OF grd] show ?thesis unfolding inside by simp
  next
    assume "locking u" "\<not> locking u'" "m_lock p' = WUnlock (m_lock p)"
    with rw.guards_release [OF grd, of i] i show ?thesis unfolding inside by simp
  qed
  with own want show ?thesis by (simp add: mgr_inv_def)
qed

lemma pool_step_inv: "mgr_step p p' \<Longrightarrow> mgr_inv p \<Longrightarrow> mgr_inv p'"
proof (induction rule: mgr_step.induct)
  case (get_lock i p l)
  show ?case
    by (rule inv_move [OF get_lock.prems get_lock.hyps(1)])
      (use get_lock in \<open>auto simp: move_def\<close>)
next
  case (get_pop i p r p')
  show ?case
    by (rule inv_move [where u' = "Get2 r", OF get_pop.prems get_pop.hyps(1)])
      (use get_pop in \<open>auto simp: move_def mgr_pop_def split: list.splits\<close>)
next
  case (get_unlock i r p)
  show ?case
    by (rule inv_move [where u' = "case r of Some c \<Rightarrow> Holding c | None \<Rightarrow> Making",
          OF get_unlock.prems get_unlock.hyps])
      (use get_unlock in \<open>auto simp: move_def WUnlock_def split: option.splits\<close>)
next
  case (make i p)
  show ?case
    by (rule inv_move [OF make.prems make.hyps]) (use make in \<open>auto simp: move_def\<close>)
next
  case (make_fails i p)
  show ?case
    by (rule inv_move [OF make_fails.prems make_fails.hyps]) (use make_fails in \<open>auto simp: move_def\<close>)
next
  case (give_lock i c p l)
  show ?case
    by (rule inv_move [OF give_lock.prems give_lock.hyps(1)])
      (use give_lock in \<open>auto simp: move_def\<close>)
next
  case (give_push i c p)
  show ?case
    by (rule inv_move [OF give_push.prems give_push.hyps])
      (use give_push in \<open>auto simp: move_def mgr_push_def\<close>)
next
  case (give_unlock i p)
  show ?case
    by (rule inv_move [OF give_unlock.prems give_unlock.hyps])
      (use give_unlock in \<open>auto simp: move_def WUnlock_def\<close>)
qed

lemma pool_run_inv: "mgr_run p p' \<Longrightarrow> mgr_inv p \<Longrightarrow> mgr_inv p'"
  by (induction rule: rtranclp_induct) (auto dest: pool_step_inv)

lemma sum_list_idle [simp]: "sum_list (replicate n {#}) = {#}" "sum_list (replicate n (0 :: nat)) = 0"
  by (induction n) simp_all

lemma pool_new_inv: "mgr_new vecCon n = Ret p \<Longrightarrow> mgr_inv p"
  by (auto simp: mgr_new_def mgr_inv_def rw_init_def rw.guards_def split: if_splits)

lemma pool_step_users: "mgr_step p p' \<Longrightarrow> length (users p') = length (users p)"
  by (induction rule: mgr_step.induct) (auto simp: move_def mgr_pop_def mgr_push_def split: list.splits)

lemma pool_run_users: "mgr_run p p' \<Longrightarrow> length (users p') = length (users p)"
  by (induction rule: rtranclp_induct) (simp_all add: pool_step_users)

lemma owned_two:
  assumes "i < length us" "j < length us" "i \<noteq> j"
  shows "owned (us ! i) + owned (us ! j) \<subseteq># sum_list (map owned us)"
proof -
  have "sum_list (map owned us) = sum_list (map owned (us[i := Outside])) + owned (us ! i)"
    using sum_list_update_add [OF assms(1), of owned Outside] by simp
  moreover have "sum_list (map owned (us[i := Outside])) =
      sum_list (map owned (us[i := Outside, j := Outside])) + owned (us ! j)"
    using sum_list_update_add [of j "us[i := Outside]" owned Outside] assms by simp
  ultimately show ?thesis by simp
qed

lemma owned_one: "i < length us \<Longrightarrow> owned (us ! i) \<subseteq># sum_list (map owned us)"
  using sum_list_update_add [of i us owned Outside] by simp (metis mset_subset_eq_add_right)

lemma inv_count:
  assumes "mgr_inv p"
  shows "count (mset (m_listCli p) + sum_list (map owned (users p))) c \<le> 1"
proof -
  have "count (mset [0..<clients_made p]) c \<le> 1" by (simp add: count_mset_set')
  with assms show ?thesis by (simp only: mgr_inv_def)
qed

text \<open>The steps of a user inside the lock, and of one that works outside it.\<close>

lemma moved: "is_at i u p \<Longrightarrow> users p' = users p \<Longrightarrow> u' \<noteq> u \<Longrightarrow> \<not> is_at i u (move i u' p')"
  by (simp add: is_at_def move_def)

lemma users_simps [simp]:
  "users (mgr_push c p) = users p" "mgr_pop p = (r, p') \<Longrightarrow> users p' = users p"
  by (auto simp: mgr_push_def mgr_pop_def split: list.splits)

lemma locking_step:
  assumes "is_at i u p" "locking u"
  shows "\<exists>p'. mgr_step p p' \<and> \<not> is_at i u p'"
proof (cases u)
  case Get1
  obtain r p' where pop: "mgr_pop p = (r, p')" by (cases "mgr_pop p")
  with assms(1) Get1 have "mgr_step p (move i (Get2 r) p')" by (auto intro: mgr_step.get_pop)
  with moved [OF assms(1)] pop Get1 show ?thesis by fastforce
next
  case (Get2 r)
  with assms(1) mgr_step.get_unlock [of i r p] moved [OF assms(1), of "p\<lparr>m_lock := WUnlock (m_lock p)\<rparr>"] show ?thesis
    by (fastforce split: option.splits)
next
  case (Give1 c)
  with assms(1) mgr_step.give_push [of i c p] moved [OF assms(1), of "mgr_push c p"] show ?thesis by fastforce
next
  case Give2
  with assms(1) mgr_step.give_unlock [of i p] moved [OF assms(1), of "p\<lparr>m_lock := WUnlock (m_lock p)\<rparr>"] show ?thesis
    by fastforce
qed (use assms(2) in simp_all)

lemma free_step:
  assumes "is_at i u p" "\<not> locking u" "u \<noteq> Outside" "WLock i (m_lock p) = Some l"
  shows "\<exists>p'. mgr_step p p' \<and> \<not> is_at i u p'"
proof (cases u)
  case Making
  with assms(1) mgr_step.make [of i p] moved [OF assms(1), of "p\<lparr>clients_made := Suc (clients_made p)\<rparr>"] show ?thesis
    by fastforce
next
  case (Holding c)
  with assms(1,4) mgr_step.give_lock [of i c p l] moved [OF assms(1), of "p\<lparr>m_lock := l\<rparr>"] show ?thesis by fastforce
qed (use assms in simp_all)

section \<open>Properties of the pool\<close>

text \<open>C23: Whatever the interleaving of the users: no client is with two users, none that is with a user is in
  the list too, the list has no duplicates, there are never more clients than users (or one), and when
  no user is at work every client made is back in the list.\<close>

theorem mgr_exclusive_clients:
  assumes "mgr_new vecCon n = Ret p0" "mgr_run p0 p"
  shows "(\<forall>i j c. is_at i (Holding c) p \<longrightarrow> is_at j (Holding c) p \<longrightarrow> i = j) \<and>
    (\<forall>i c. is_at i (Holding c) p \<longrightarrow> c \<notin> set (m_listCli p)) \<and> distinct (m_listCli p) \<and>
    clients_made p \<le> max 1 n \<and>
    (set (users p) \<subseteq> {Outside} \<longrightarrow> set (m_listCli p) = {..<clients_made p})"
proof -
  have inv: "mgr_inv p" by (rule pool_run_inv [OF assms(2) pool_new_inv [OF assms(1)]])
  note one = inv_count [OF inv]
  have "i = j" if "is_at i (Holding c) p" "is_at j (Holding c) p" for i j c
  proof (rule ccontr)
    assume "i \<noteq> j"
    with that owned_two [of i "users p" j] have "{#c, c#} \<subseteq># sum_list (map owned (users p))"
      by (simp add: is_at_def)
    from mset_subset_eq_count [OF this, of c] one [of c] show False by simp
  qed
  moreover have "c \<notin> set (m_listCli p)" if "is_at i (Holding c) p" for i c
  proof
    assume "c \<in> set (m_listCli p)"
    then have "1 \<le> count (mset (m_listCli p)) c" by (metis Suc_leI One_nat_def count_greater_zero_iff set_mset_mset)
    moreover have "{#c#} \<subseteq># sum_list (map owned (users p))"
      using that owned_one [of i "users p"] by (simp add: is_at_def)
    from mset_subset_eq_count [OF this, of c] have "1 \<le> count (sum_list (map owned (users p))) c"
      by (simp only: count_single if_True refl)
    ultimately show False using one [of c] by (simp only: count_union)
  qed
  moreover have "distinct (m_listCli p)"
  proof -
    have "count (mset (m_listCli p)) c \<le> 1" for c using one [of c] by simp
    then show ?thesis unfolding distinct_count_atmost_1
      by (metis count_mset_0_iff less_one nat_less_le in_multiset_in_set not_in_iff)
  qed
  moreover have "clients_made p \<le> max 1 n"
    using inv pool_run_users [OF assms(2)] assms(1) by (auto simp: mgr_inv_def mgr_new_def split: if_splits)
  moreover have "set (m_listCli p) = {..<clients_made p}" if "set (users p) \<subseteq> {Outside}"
  proof -
    have "sum_list (map owned us) = {#}" if "set us \<subseteq> {Outside}" for us
      using that by (induction us) auto
    from this [OF that] have "mset (m_listCli p) = mset [0..<clients_made p]"
      using inv by (simp add: mgr_inv_def)
    from mset_eq_setD [OF this] show ?thesis by (simp add: atLeast0LessThan)
  qed
  ultimately show ?thesis by blast
qed


text \<open>A user that gets a client while nobody else is in the pool.\<close>

lemma pool_get_alone:
  assumes "is_at i Outside p" "m_lock p = rw_init" "m_listCli p = c # cs"
  shows "mgr_run p (move i (Holding c) (p\<lparr>m_listCli := cs\<rparr>))"
proof -
  let ?p1 = "move i Get1 (p\<lparr>m_lock := rw_init\<lparr>wr_owner := Some i\<rparr>\<rparr>)"
  let ?p2 = "move i (Get2 (Some c)) (?p1\<lparr>m_listCli := cs\<rparr>)"
  have "mgr_step p ?p1"
    using assms by (intro mgr_step.get_lock) (simp_all add: WLock_def rw_init_def)
  moreover have "mgr_step ?p1 ?p2"
    using assms by (intro mgr_step.get_pop) (simp_all add: mgr_pop_def move_def is_at_def)
  moreover have "mgr_step ?p2 (move i (case Some c of Some c \<Rightarrow> Holding c | None \<Rightarrow> Making) (?p2\<lparr>m_lock := WUnlock (m_lock ?p2)\<rparr>))"
    using assms by (intro mgr_step.get_unlock) (simp add: is_at_def move_def)
  moreover have "?p2\<lparr>m_lock := WUnlock (m_lock ?p2)\<rparr> = move i (Get2 (Some c)) (p\<lparr>m_listCli := cs\<rparr>)"
    using assms(2) by (simp add: move_def WUnlock_def rw_init_def)
  ultimately have "mgr_run p (move i (Holding c) (move i (Get2 (Some c)) (p\<lparr>m_listCli := cs\<rparr>)))" by simp
  then show ?thesis by (simp add: move_def)
qed

definition demo_con :: connection_data where
  "demo_con = \<lparr>con_host = ''h'', con_port = 6379, con_dbindex = 0, con_socket = 3\<rparr>"

theorem mgr_exclusive_clients_witness:
  "\<exists>p0 p. mgr_new [demo_con] 2 = Ret p0 \<and> mgr_run p0 p \<and> is_at 1 (Holding 0) p \<and> 0 \<notin> set (m_listCli p) \<and>
    clients_made p \<le> 2"
proof -
  obtain p0 where p0: "mgr_new [demo_con] 2 = Ret p0" "m_listCli p0 = [0]" "m_lock p0 = rw_init" "is_at 1 Outside p0"
    by (simp add: mgr_new_def is_at_def)
  then have run: "mgr_run p0 (move 1 (Holding 0) (p0\<lparr>m_listCli := []\<rparr>))" by (intro pool_get_alone) simp_all
  have at: "is_at 1 (Holding 0) (move 1 (Holding 0) (p0\<lparr>m_listCli := []\<rparr>))"
    using p0(4) by (simp add: is_at_def move_def)
  from mgr_exclusive_clients [OF p0(1) run] p0(1) run at show ?thesis
    by (intro exI [of _ p0] exI [of _ "move 1 (Holding 0) (p0\<lparr>m_listCli := []\<rparr>)"]) simp
qed

text \<open>C24: The pool never stops while somebody is at work: in every reachable state in which some user is inside
  \<open>get\<close>, holds a client or is inside \<open>giveback\<close>, some such user has a step of its own to take.\<close>

theorem mgr_no_deadlock:
  assumes "mgr_new vecCon n = Ret p0" "mgr_run p0 p" "is_at i u p" "u \<noteq> Outside"
  shows "\<exists>j v p'. is_at j v p \<and> v \<noteq> Outside \<and> mgr_step p p' \<and> \<not> is_at j v p'"
proof -
  have inv: "mgr_inv p" by (rule pool_run_inv [OF assms(2) pool_new_inv [OF assms(1)]])
  then have grd: "rw.guards (\<lambda>i. i < length (users p) \<and> locking (users p ! i)) (m_lock p)"
    by (simp add: mgr_inv_def)
  show ?thesis
  proof (cases "\<exists>j < length (users p). locking (users p ! j)")
    case True
    then obtain j where j: "is_at j (users p ! j) p" "locking (users p ! j)" by (auto simp: is_at_def)
    with locking_step [OF j] show ?thesis by (intro exI [of _ j] exI [of _ "users p ! j"]) auto
  next
    case False
    with rw.guards_progress [OF grd, of i] obtain l where l: "WLock i (m_lock p) = Some l" by blast
    have "\<not> locking u" using False assms(3) by (auto simp: is_at_def)
    with free_step [OF assms(3) _ assms(4) l] assms(3,4) show ?thesis by blast
  qed
qed

theorem mgr_no_deadlock_witness:
  "\<exists>j v p'. is_at j v (move 1 (Holding 0) \<lparr>m_vecCon = [demo_con], m_listCli = [], m_lock = rw_init,
      clients_made = 1, users = [Outside, Outside]\<rparr>) \<and> v \<noteq> Outside \<and>
    mgr_step (move 1 (Holding 0) \<lparr>m_vecCon = [demo_con], m_listCli = [], m_lock = rw_init,
      clients_made = 1, users = [Outside, Outside]\<rparr>) p' \<and> \<not> is_at j v p'"
proof -
  let ?p0 = "\<lparr>m_vecCon = [demo_con], m_listCli = [0], m_lock = rw_init, clients_made = 1, users = [Outside, Outside]\<rparr>"
  have new: "mgr_new [demo_con] 2 = Ret ?p0" by (simp add: mgr_new_def numeral_2_eq_2)
  have run: "mgr_run ?p0 (move 1 (Holding 0) (?p0\<lparr>m_listCli := []\<rparr>))"
    by (rule pool_get_alone [where c = 0]) (simp_all add: is_at_def)
  have at: "is_at 1 (Holding 0) (move 1 (Holding 0) (?p0\<lparr>m_listCli := []\<rparr>))" by (simp add: is_at_def move_def)
  from mgr_no_deadlock [OF new run at] show ?thesis by simp
qed

section \<open>Operations with a retry\<close>

text \<open>
  The macro \<open>CATCH_REDIS_EXCEPTION\<close> of \<open>src/common/operation.h\<close>. \<open>e.what()\<close> of the redis classes and of
  \<open>std::runtime_error\<close> is their message; the fixed messages of the others are none of the three.
\<close>

definition what :: "exn \<Rightarrow> string option" where
  "what e = (case e of
     Runtime_error s \<Rightarrow> Some s | Connection_error s \<Rightarrow> Some s | Protocol_error s \<Rightarrow> Some s | Key_error s \<Rightarrow> Some s
   | Timeout_error s \<Rightarrow> Some s | Value_error s \<Rightarrow> Some s | _ \<Rightarrow> None)"

definition connection_lost :: "exn \<Rightarrow> bool" where
  "connection_lost e \<longleftrightarrow>
     what e \<in> Some ` {''Broken pipe'', ''connection was closed'', ''Bad file descriptor''}"

text \<open>
  \<open>func\<close> is a statement that stores a result: \<open>old\<close> is what its variable holds when the error is
  swallowed. The second execution is outside the \<open>try\<close>.
\<close>

definition catch_redis_exception :: "'d env \<Rightarrow> 'a redis \<Rightarrow> 'a \<Rightarrow> 'a redis" where
  "catch_redis_exception E func old =
     mcatch func (\<lambda>e. if connection_lost e then mseq (redis_reconnect E) func else mret old)"

text \<open>
  \<open>GPN_OPERATION\<close> for one user that is alone: take a client or make one, run, and give it back, by the
  destructor of the guard, in any case but an abort. The state holds the pool and every client.
\<close>

definition mgr_take :: "'d env \<Rightarrow> pool \<times> (nat \<Rightarrow> redis_io) \<Rightarrow> nat result \<times> pool \<times> (nat \<Rightarrow> redis_io)" where
  "mgr_take E = (\<lambda>(p, ios). case mgr_pop p of
     (Some c, p) \<Rightarrow> (Ret c, p, ios)
   | (None, p) \<Rightarrow> let c = clients_made p in (case redis_new_range E (m_vecCon p) (ios c) of
       (Ret _, io) \<Rightarrow> (Ret c, p\<lparr>clients_made := Suc c\<rparr>, ios(c := io))
     | (Exn e, io) \<Rightarrow> (Exn e, p, ios(c := io))
     | (Stuck k, io) \<Rightarrow> (Stuck k, p, ios(c := io))))"

definition gpn_operation :: "'d env \<Rightarrow> 'a redis \<Rightarrow> 'a \<Rightarrow> (pool \<times> (nat \<Rightarrow> redis_io), 'a) proc" where
  "gpn_operation E func old =
     mbind (mgr_take E) (\<lambda>c (p, ios).
       case catch_redis_exception E func old (ios c) of
         (Stuck k, io) \<Rightarrow> (Stuck k, (p, ios(c := io)))
       | (r, io) \<Rightarrow> (r, (mgr_push c p, ios(c := io))))"

lemma mgr_take_pool:
  "mgr_take E (p, ios) = (Ret c, (p', ios')) \<Longrightarrow>
    (if m_listCli p = [] then c = clients_made p \<and> p' = p\<lparr>clients_made := Suc c\<rparr> else m_listCli p = c # m_listCli p')"
  by (auto simp: mgr_take_def mgr_pop_def Let_def split: list.splits result.splits prod.splits)


lemma read_line_closed:
  "rxq w fd = Closed # q \<Longrightarrow> 0 < fd \<Longrightarrow>
    read_line fd w = (Exn (Connection_error ''connection was closed''), w)"
  by (simp add: read_line_def read_line_max_def run_simps on_rx_def read_line_loop.simps fun_upd_idem)

lemma incr_closed:
  assumes "route E (connections w) key = Ret fd" "0 < fd" "wr_ready (wrq w fd)" "rxq w fd = Closed # q"
  shows "\<exists>w'. redis_incr E key w = (Exn (Connection_error ''connection was closed''), w') \<and>
    sent w' = (sent w)(fd := sent w fd @ request_bytes [''INCR'', key]) \<and> rxq w' = rxq w \<and>
    (\<forall>s. s \<noteq> fd \<longrightarrow> wrq w' s = wrq w s) \<and>
    connections w' = connections w \<and> dials w' = dials w \<and> closed_fds w' = closed_fds w"
proof -
  let ?req = "request_bytes [''INCR'', key]"
  from redis_send_ok [of fd w ?req] assms(2,3) obtain q1 where
    "redis_send fd ?req w = (Ret (), w\<lparr>wrq := (wrq w)(fd := q1), sent := (sent w)(fd := sent w fd @ ?req)\<rparr>)" by auto
  moreover have "read_line fd (w\<lparr>wrq := x, sent := y\<rparr>) =
      (Exn (Connection_error ''connection was closed''), w\<lparr>wrq := x, sent := y\<rparr>)" for x y
    by (rule read_line_closed) (simp_all add: assms)
  ultimately show ?thesis
    by (simp add: redis_incr_def get_socket_def assms(1) mbind_run mseq_run send_cmd_def build_simps
        recv_int_reply_def)
qed

text \<open>\<open>reconnect\<close> of a client with one connection.\<close>

lemma reconnect_one:
  assumes "connections w = [con]" "dials w = Inr fd # ds" "0 < fd" "wr_ready (wrq w fd)"
    "rx_ready fd (reply_bytes (Status ''OK'') @ rest) w"
  shows "\<exists>w' con'. redis_reconnect E w = (Ret (), w') \<and> connections w' = [con'] \<and> con_socket con' = fd \<and>
    sent w' = (sent w)(fd := sent w fd @ request_bytes [''SELECT'', show_int E (con_dbindex con)]) \<and>
    wr_ready (wrq w' fd) \<and> rx_ready fd rest w' \<and> closed_fds w' = closed_fds w \<and>
    (\<forall>s. s \<noteq> fd \<longrightarrow> rxq w' s = rxq w s)"
proof -
  let ?con = "con\<lparr>con_socket := fd\<rparr>"
  let ?w = "w\<lparr>dials := ds, connections := [?con]\<rparr>"
  let ?req = "request_bytes [''SELECT'', show_int E (con_dbindex con)]"
  have ready: "wr_ready (wrq ?w fd)" "rx_ready fd (reply_bytes (Status ''OK'') @ rest) ?w"
    using assms(4,5) by (simp_all add: rx_ready_def)
  from send_then_read [OF _ ready(1) reads_ok [OF assms(3)] ready(2), of ?req] assms(3) obtain w' where
    w': "mseq (redis_send fd ?req) (recv_ok_reply fd) ?w = (Ret (), w')" "exchanged fd ?req rest ?w w'" by auto
  define con' where "con' = (if connection_eq ?con ?con then ?con\<lparr>con_dbindex := narrow_int (con_dbindex con)\<rparr> else ?con)"
  have cons: "connections w' = [?con]" using w'(2) by (simp add: exchanged_def frame_def)
  have sel: "redis_select_con E (con_dbindex con) ?con ?w = (Ret (), w'\<lparr>connections := [con']\<rparr>)"
    using w'(1) cons by (simp add: redis_select_con_def send_cmd_def build_simps set_connections_def con'_def
        mseq_eq_Ret mseq_run split: prod.splits result.splits)
  have init: "redis_init E (\<lambda>con. set_connections (\<lambda>cons. cons[0 := con])) con w =
      mseq (redis_select_con E (con_dbindex con) ?con) (mret ?con) ?w"
    using assms(1,2) by (simp add: redis_init_def dial_def set_connections_def Let_def run_simps)
  have "redis_reconnect E w = (Ret (), w'\<lparr>connections := [con']\<rparr>)"
    using assms(1) sel init
    by (simp add: redis_reconnect_def all_connections_def con_at_def mbind_run mseq_run mret_run)
  moreover have "con_socket con' = fd" by (simp add: con'_def)
  moreover have "sent w' = (sent w)(fd := sent w fd @ ?req)"
    using w'(2) by (auto simp: exchanged_def frame_def fun_eq_iff)
  moreover have "closed_fds w' = closed_fds w" "\<forall>s. s \<noteq> fd \<longrightarrow> rxq w' s = rxq w s"
    using w'(2) by (simp_all add: exchanged_def frame_def)
  ultimately show ?thesis using w'(2)
    by (intro exI [of _ "w'\<lparr>connections := [con']\<rparr>"] exI [of _ con'])
      (simp add: exchanged_def rx_ready_def)
qed


section \<open>What a retry does\<close>

text \<open>A request whose reply never comes because the server closes the connection is sent again on a fresh
  connection, and its second reply is the result: an \<open>INCR\<close> that the server had carried out is carried out
  twice. The old socket is not closed.\<close>

theorem retry_sends_twice:
  assumes "connections w = [con]" "con_socket con = fd" "0 < fd" "wr_ready (wrq w fd)" "rxq w fd = Closed # q"
    "dials w = Inr fd2 # ds" "0 < fd2" "fd2 \<noteq> fd" "wr_ready (wrq w fd2)"
    "rx_ready fd2 (reply_bytes (Status ''OK'') @ reply_bytes (Integer n) @ rest) w"
    "lex_sound E" "in_ty I64 n"
  shows "\<exists>w'. catch_redis_exception E (redis_incr E key) old w = (Ret n, w') \<and>
    sent w' fd = sent w fd @ request_bytes [''INCR'', key] \<and>
    sent w' fd2 = sent w fd2 @ request_bytes [''SELECT'', show_int E (con_dbindex con)] @ request_bytes [''INCR'', key] \<and>
    map con_socket (connections w') = [fd2] \<and> closed_fds w' = closed_fds w"
proof -
  have "route E (connections w) key = Ret fd" using assms(1,2) by (simp add: route_def)
  from incr_closed [OF this assms(3-5)] obtain w1 where
    w1: "redis_incr E key w = (Exn (Connection_error ''connection was closed''), w1)"
      "sent w1 = (sent w)(fd := sent w fd @ request_bytes [''INCR'', key])" "rxq w1 = rxq w"
      "\<forall>s. s \<noteq> fd \<longrightarrow> wrq w1 s = wrq w s" "connections w1 = connections w" "dials w1 = dials w"
      "closed_fds w1 = closed_fds w" by blast
  have "rx_ready fd2 (reply_bytes (Status ''OK'') @ reply_bytes (Integer n) @ rest) w1" "wr_ready (wrq w1 fd2)"
    "connections w1 = [con]" "dials w1 = Inr fd2 # ds"
    using assms(1,6,8,9,10) w1 by (simp_all add: rx_ready_def del: reply_bytes.simps)
  from reconnect_one [OF this(3,4) assms(7) this(2,1)] obtain w2 con' where
    w2: "redis_reconnect E w1 = (Ret (), w2)" "connections w2 = [con']" "con_socket con' = fd2"
      "sent w2 = (sent w1)(fd2 := sent w1 fd2 @ request_bytes [''SELECT'', show_int E (con_dbindex con)])"
      "wr_ready (wrq w2 fd2)" "rx_ready fd2 (reply_bytes (Integer n) @ rest) w2" "closed_fds w2 = closed_fds w1"
    by blast
  have "link_up E key fd2 (reply_bytes (Integer n) @ rest) w2"
    using w2(2,3,5,6) assms(7) by (simp add: link_up_def route_def del: reply_bytes.simps)
  from exchange [where rd = "recv_int_reply E" and m = "build ''INCR'' [mc_str key]", OF this reads_int [OF assms(7,11,12)]]
  obtain w' where w': "redis_incr E key w2 = (Ret n, w')" "exchanged fd2 (request_bytes [''INCR'', key]) rest w2 w'"
    by (auto simp: redis_incr_def build_simps)
  have "connection_lost (Connection_error ''connection was closed'')" by (simp add: connection_lost_def what_def)
  then have "catch_redis_exception E (redis_incr E key) old w = (Ret n, w')"
    using w1(1) w2(1) w'(1) by (simp add: catch_redis_exception_def mcatch_run mseq_run)
  with w'(2) w2 w1(2,7) assms(8) show ?thesis
    by (intro exI [of _ w']) (simp add: exchanged_def frame_def)
qed

definition demo_broken :: redis_io where
  "demo_broken = \<lparr>connections = [demo_con],
    rxq = (\<lambda>fd. if fd = 3 then [Closed] else if fd = 4 then rx_put (reply_bytes (Status ''OK'') @ reply_bytes (Integer 2) @ []) [] else []),
    wrq = (\<lambda>_. []), sent = (\<lambda>_. []), dials = [Inr 4], closed_fds = []\<rparr>"


lemma demo_broken_simps:
  "connections demo_broken = [demo_con]" "con_socket demo_con = 3" "con_dbindex demo_con = 0"
  "rxq demo_broken 3 = Closed # []" "wrq demo_broken = (\<lambda>_. [])" "sent demo_broken = (\<lambda>_. [])"
  "dials demo_broken = Inr 4 # []" "closed_fds demo_broken = []"
  by (simp_all add: demo_broken_def demo_con_def)

theorem retry_sends_twice_witness:
  "\<exists>w'. catch_redis_exception (decimal_env (\<lambda>_ _. 0)) (redis_incr (decimal_env (\<lambda>_ _. 0)) ''k'') 0 demo_broken = (Ret 2, w') \<and>
    sent w' 3 = request_bytes [''INCR'', ''k''] \<and>
    sent w' 4 = request_bytes [''SELECT'', ''0''] @ request_bytes [''INCR'', ''k''] \<and> closed_fds w' = []"
proof -
  have s: "show_int (decimal_env (\<lambda>_ _. 0)) 0 = ''0''" by code_simp
  have "rx_ready 4 (reply_bytes (Status ''OK'') @ reply_bytes (Integer 2) @ []) demo_broken"
    by (simp add: demo_broken_def rx_ready_def del: reply_bytes.simps)
  from retry_sends_twice [OF _ _ _ _ _ _ _ _ _ this decimal_env_sound [of "\<lambda>_ _. 0"], where con = demo_con and fd = 3 and q = "[]"
      and ds = "[]" and key = "''k''" and old = 0] show ?thesis
    by (auto simp: demo_broken_simps wr_ready_def s in_ty_I64 long_max_def)
qed

text \<open>The guard gives the client back whether the operation returns or throws.\<close>

lemma gpn_operation_gives_back:
  assumes "gpn_operation E func old (p, ios) = (r, (p', ios'))" "m_listCli p = c # cs" "\<And>k. r \<noteq> Stuck k"
  shows "m_listCli p' = cs @ [c] \<and> clients_made p' = clients_made p \<and> (\<forall>d. d \<noteq> c \<longrightarrow> ios' d = ios d)"
  using assms
  by (auto simp: gpn_operation_def mbind_run mgr_take_def mgr_pop_def mgr_push_def split: result.splits prod.splits)

end
