(* ===== verification/Os_Calls.thy ===== *)
theory Os_Calls
  imports Sockets Byte_Order
begin

text \<open>
  The calls that create, configure and close descriptors, for \<open>src/common/anet.cpp\<close> and for the tasks of
  \<open>src/common/mytask.cpp\<close>. The answer of each call is taken from a queue, so that every theorem covers
  every pattern of failures; each call is logged with its answer, and the descriptors a program holds
  are read off the log. Name resolution and peer addresses are functions of the state.
\<close>

section \<open>State\<close>

datatype os_call =
    O_socket int
  | O_setsockopt int string
  | O_getfl int
  | O_setfl int nat
  | O_connect int string
  | O_bind int string
  | O_listen int int
  | O_accept int
  | O_select int int
  | O_getpeername int
  | O_chmod string
  | O_unlink string
  | O_close int

type_synonym answer = "errno + nat"

record os =
  os_answers :: "answer list"
  os_log :: "(os_call \<times> answer) list"
  os_aton :: "string \<Rightarrow> 32 word option"
  os_gethostbyname :: "string \<Rightarrow> 32 word option"
  os_peer :: "int \<Rightarrow> 32 word \<times> 16 word"

text \<open>\<open>Inl e\<close>: the call returned -1 and set \<open>errno\<close>; an exhausted queue: it has not returned.\<close>

definition os_do :: "os_call \<Rightarrow> ('a os_scheme, answer) proc" where
  "os_do c = (\<lambda>s. case os_answers s of
     [] \<Rightarrow> (Stuck Blocked, s)
   | a # as \<Rightarrow> (Ret a, s\<lparr>os_answers := as, os_log := os_log s @ [(c, a)]\<rparr>))"

text \<open>A call whose result the code ignores.\<close>

definition os_ignore :: "os_call \<Rightarrow> ('a os_scheme, unit) proc" where
  "os_ignore c = mseq (os_do c) (mret ())"

section \<open>The descriptors that are open\<close>

definition fd_step :: "os_call \<times> answer \<Rightarrow> int list \<Rightarrow> int list" where
  "fd_step e fds = (case e of
     (O_socket d, Inr n) \<Rightarrow> int n # fds
   | (O_accept l, Inr n) \<Rightarrow> int n # fds
   | (O_close fd, a) \<Rightarrow> remove1 fd fds
   | _ \<Rightarrow> fds)"

definition open_fds :: "'a os_scheme \<Rightarrow> int list" where
  "open_fds s = fold fd_step (os_log s) []"

definition last_call :: "'a os_scheme \<Rightarrow> os_call \<times> answer" where
  "last_call s = last (os_log s)"

lemma os_do_cases:
  "os_do c s = (r, s') \<Longrightarrow>
    (os_answers s = [] \<and> r = Stuck Blocked \<and> s' = s) \<or>
    (\<exists>a as. os_answers s = a # as \<and> r = Ret a \<and> s' = s\<lparr>os_answers := as, os_log := os_log s @ [(c, a)]\<rparr>)"
  by (auto simp: os_do_def split: list.splits)

lemma os_do_Ret:
  "os_do c s = (Ret a, s') \<longleftrightarrow>
    (\<exists>as. os_answers s = a # as \<and> s' = s\<lparr>os_answers := as, os_log := os_log s @ [(c, a)]\<rparr>)"
  by (auto simp: os_do_def split: list.splits)

lemma open_fds_log [simp]:
  "open_fds (s\<lparr>os_answers := as, os_log := l @ [e]\<rparr>) = fd_step e (open_fds (s\<lparr>os_log := l\<rparr>))"
  by (simp add: open_fds_def)

lemma open_fds_same [simp]: "open_fds (s\<lparr>os_log := os_log s\<rparr>) = open_fds s"
  by (simp add: open_fds_def)

lemma fd_step_simps [simp]:
  "fd_step (O_socket d, Inl e) fds = fds" "fd_step (O_accept l, Inl e) fds = fds"
  "fd_step (O_socket d, Inr n) fds = int n # fds"
  "fd_step (O_accept l, Inr n) fds = int n # fds"
  "fd_step (O_close fd, a) fds = remove1 fd fds"
  "fd_step (O_setsockopt fd t, a) fds = fds" "fd_step (O_getfl fd, a) fds = fds"
  "fd_step (O_setfl fd k, a) fds = fds" "fd_step (O_connect fd t, a) fds = fds"
  "fd_step (O_bind fd t, a) fds = fds" "fd_step (O_listen fd i, a) fds = fds"
  "fd_step (O_select fd i, a) fds = fds" "fd_step (O_getpeername fd, a) fds = fds"
  "fd_step (O_chmod t, a) fds = fds" "fd_step (O_unlink t, a) fds = fds"
  by (simp_all add: fd_step_def split: os_call.split sum.split)

lemma last_call_log [simp]: "last_call (s\<lparr>os_answers := as, os_log := l @ [e]\<rparr>) = e"
  by (simp add: last_call_def)

lemma mbind_sum_Ret:
  "mbind m (\<lambda>a. case a of Inl e \<Rightarrow> f e | Inr n \<Rightarrow> g n) w = (Ret r, w'') \<longleftrightarrow>
    (\<exists>e w'. m w = (Ret (Inl e), w') \<and> f e w' = (Ret r, w'')) \<or>
    (\<exists>n w'. m w = (Ret (Inr n), w') \<and> g n w' = (Ret r, w''))"
  unfolding mbind_eq_Ret split_sum_ex by auto

lemma os_ignore_Ret: "os_ignore c w = (Ret r, w') \<longleftrightarrow> (\<exists>a. os_do c w = (Ret a, w'))"
  by (auto simp: os_ignore_def mseq_eq_Ret mret_run)

text \<open>One call: its answer is the last one in the log.\<close>

lemma os_do_fds:
  assumes "os_do c w = (Ret a, w')"
  shows "open_fds w' = fd_step (c, a) (open_fds w) \<and> last_call w' = (c, a)"
  using assms by (auto simp: os_do_Ret)

end
