(* ===== verification/Anet.thy ===== *)
theory Anet
  imports Os_Calls
begin

text \<open>
  The connection functions of \<open>src/common/anet.cpp\<close>. A result \<open>Inl err\<close> is \<open>ANET_ERR\<close> with the message
  stored through \<open>err\<close>; \<open>Inr fd\<close> is a descriptor (or \<open>ANET_OK\<close>). The addresses are passed to the calls as
  text.
\<close>

section \<open>Options\<close>

definition anetSetError :: "string \<Rightarrow> string" where
  "anetSetError msg = take 255 msg"

text \<open>A call whose failure is reported with a prefix and the text of \<open>errno\<close>.\<close>

definition anet_try :: "os_call \<Rightarrow> string \<Rightarrow> ('a os_scheme, string + nat) proc" where
  "anet_try c prefix = mbind (os_do c) (\<lambda>a. mret (case a of
     Inl e \<Rightarrow> Inl (anetSetError (prefix @ strerror e)) | Inr n \<Rightarrow> Inr n))"

definition anet_then :: "('s, string + 'b) proc \<Rightarrow> ('b \<Rightarrow> ('s, string + 'c) proc) \<Rightarrow> ('s, string + 'c) proc" where
  "anet_then m f = mbind m (\<lambda>r. case r of Inl err \<Rightarrow> mret (Inl err) | Inr v \<Rightarrow> f v)"

abbreviation O_NONBLOCK :: nat where "O_NONBLOCK \<equiv> 2048"

unbundle bit_operations_syntax

definition anetNonBlock :: "int \<Rightarrow> ('a os_scheme, string + unit) proc" where
  "anetNonBlock fd =
     anet_then (anet_try (O_getfl fd) ''fcntl(F_GETFL): '')
       (\<lambda>flags. anet_then (anet_try (O_setfl fd (flags OR O_NONBLOCK)) ''fcntl(F_SETFL,O_NONBLOCK): '')
         (\<lambda>_. mret (Inr ())))"

definition anet_option :: "int \<Rightarrow> string \<Rightarrow> ('a os_scheme, string + unit) proc" where
  "anet_option fd name = anet_then (anet_try (O_setsockopt fd name) (''setsockopt '' @ name @ '': ''))
     (\<lambda>_. mret (Inr ()))"

definition anetTcpNoDelay :: "int \<Rightarrow> ('a os_scheme, string + unit) proc" where
  "anetTcpNoDelay fd = anet_option fd ''TCP_NODELAY''"

definition anetSetSendBuffer :: "int \<Rightarrow> ('a os_scheme, string + unit) proc" where
  "anetSetSendBuffer fd = anet_option fd ''SO_SNDBUF''"

definition anetTcpKeepAlive :: "int \<Rightarrow> ('a os_scheme, string + unit) proc" where
  "anetTcpKeepAlive fd = anet_option fd ''SO_KEEPALIVE''"

section \<open>Connecting\<close>

text \<open>\<open>inet_aton\<close>, then \<open>gethostbyname\<close>.\<close>

definition lookup_host :: "'a os_scheme \<Rightarrow> string \<Rightarrow> 32 word option" where
  "lookup_host s host = (case os_aton s host of None \<Rightarrow> os_gethostbyname s host | Some a \<Rightarrow> Some a)"

definition anetResolve :: "string \<Rightarrow> ('a os_scheme, string + string) proc" where
  "anetResolve host s = (Ret (case lookup_host s host of
       None \<Rightarrow> Inl (anetSetError (''can't resolve: '' @ host))
     | Some a \<Rightarrow> Inr (inet_ntoa a)), s)"

abbreviation AF_LOCAL :: int where "AF_LOCAL \<equiv> 1"
abbreviation AF_INET :: int where "AF_INET \<equiv> 2"

definition anetCreateSocket :: "int \<Rightarrow> ('a os_scheme, string + int) proc" where
  "anetCreateSocket domain =
     anet_then (anet_try (O_socket domain) ''creating socket: '')
       (\<lambda>s. anet_then (anet_option (int s) ''SO_REUSEADDR'') (\<lambda>_. mret (Inr (int s))))"

text \<open>The common end of the two connect functions, from \<open>anetNonBlock\<close> on.\<close>

definition anet_connect :: "int \<Rightarrow> string \<Rightarrow> bool \<Rightarrow> ('a os_scheme, string + int) proc" where
  "anet_connect s sa nonblock =
     anet_then (if nonblock then anetNonBlock s else mret (Inr ()))
       (\<lambda>_. mbind (os_do (O_connect s sa)) (\<lambda>a. case a of
           Inr _ \<Rightarrow> mret (Inr s)
         | Inl e \<Rightarrow>
             if e = EINPROGRESS \<and> nonblock then mret (Inr s)
             else mseq (os_ignore (O_close s)) (mret (Inl (anetSetError (''connect: '' @ strerror e))))))"

definition anetTcpGenericConnect :: "string \<Rightarrow> 16 word \<Rightarrow> bool \<Rightarrow> ('a os_scheme, string + int) proc" where
  "anetTcpGenericConnect addr port nonblock =
     anet_then (anetCreateSocket AF_INET)
       (\<lambda>s w. case lookup_host w addr of
           None \<Rightarrow> mseq (os_ignore (O_close s)) (mret (Inl (anetSetError (''can't resolve: '' @ addr)))) w
         | Some a \<Rightarrow> anet_connect s (inet_ntoa a @ '':'' @ dec (unat port)) nonblock w)"

definition anetTcpConnect :: "string \<Rightarrow> 16 word \<Rightarrow> ('a os_scheme, string + int) proc" where
  "anetTcpConnect addr port = anetTcpGenericConnect addr port False"

definition anetTcpNonBlockConnect :: "string \<Rightarrow> 16 word \<Rightarrow> ('a os_scheme, string + int) proc" where
  "anetTcpNonBlockConnect addr port = anetTcpGenericConnect addr port True"

text \<open>
  \<open>strncpy\<close> of the path into the first 107 of the 108 bytes of \<open>sun_path\<close>. The server has cleared the array before;
  the client has not: its last byte is what was on the stack (\<open>unset\<close>), and belongs to the path if that is too long.
\<close>

definition sun_path :: "string \<Rightarrow> string" where
  "sun_path path = take 107 path"

definition sun_path_unset :: "char \<Rightarrow> string \<Rightarrow> string" where
  "sun_path_unset unset path =
     (if length path < 107 \<or> unset = CHR 0x00 then sun_path path else sun_path path @ [unset])"

definition anetUnixGenericConnect :: "char \<Rightarrow> string \<Rightarrow> bool \<Rightarrow> ('a os_scheme, string + int) proc" where
  "anetUnixGenericConnect unset path nonblock =
     anet_then (anetCreateSocket AF_LOCAL) (\<lambda>s. anet_connect s (sun_path_unset unset path) nonblock)"

definition anetUnixConnect :: "char \<Rightarrow> string \<Rightarrow> ('a os_scheme, string + int) proc" where
  "anetUnixConnect unset path = anetUnixGenericConnect unset path False"

definition anetUnixNonBlockConnect :: "char \<Rightarrow> string \<Rightarrow> ('a os_scheme, string + int) proc" where
  "anetUnixNonBlockConnect unset path = anetUnixGenericConnect unset path True"

section \<open>Listening and accepting\<close>

definition anet_or_close :: "os_call \<Rightarrow> string \<Rightarrow> int \<Rightarrow> ('a os_scheme, string + unit) proc" where
  "anet_or_close c prefix s = mbind (anet_try c prefix) (\<lambda>r. case r of
     Inl err \<Rightarrow> mseq (os_ignore (O_close s)) (mret (Inl err)) | Inr _ \<Rightarrow> mret (Inr ()))"

definition anetListen :: "int \<Rightarrow> string \<Rightarrow> ('a os_scheme, string + unit) proc" where
  "anetListen s sa =
     anet_then (anet_or_close (O_bind s sa) ''bind: '' s)
       (\<lambda>_. anet_or_close (O_listen s 511) ''listen: '' s)"

definition anetTcpServer :: "16 word \<Rightarrow> string option \<Rightarrow> ('a os_scheme, string + int) proc" where
  "anetTcpServer port bindaddr =
     anet_then (anetCreateSocket AF_INET)
       (\<lambda>s w. let sa = (case bindaddr of None \<Rightarrow> Some 0 | Some b \<Rightarrow> os_aton w b) in
         (case sa of
           None \<Rightarrow> mseq (os_ignore (O_close s)) (mret (Inl (anetSetError ''invalid bind address''))) w
         | Some a \<Rightarrow> anet_then (anetListen s (inet_ntoa a @ '':'' @ dec (unat port))) (\<lambda>_. mret (Inr s)) w))"

definition anetUnixServer :: "string \<Rightarrow> nat \<Rightarrow> ('a os_scheme, string + int) proc" where
  "anetUnixServer path perm =
     anet_then (anetCreateSocket AF_LOCAL)
       (\<lambda>s. anet_then (anetListen s (sun_path path))
         (\<lambda>_. mseq (if perm \<noteq> 0 then os_ignore (O_chmod (sun_path path)) else mret ()) (mret (Inr s))))"

text \<open>\<open>accept\<close> is repeated while it is interrupted; every call uses up an answer of the queue.\<close>

function anetGenericAccept :: "int \<Rightarrow> ('a os_scheme, string + int) proc" where
  "anetGenericAccept s w = (case os_do (O_accept s) w of
     (Ret (Inl e), w') \<Rightarrow>
       if e = EINTR then anetGenericAccept s w'
       else (Ret (Inl (anetSetError (''accept: '' @ strerror e))), w')
   | (Ret (Inr fd), w') \<Rightarrow> (Ret (Inr (int fd)), w')
   | (Exn e, w') \<Rightarrow> (Exn e, w')
   | (Stuck k, w') \<Rightarrow> (Stuck k, w'))"
  by pat_completeness auto
termination
  by (relation "measure (\<lambda>(s, w). length (os_answers w))") (auto simp: os_do_def split: list.splits)

declare anetGenericAccept.simps [simp del]

definition anetTcpAccept :: "int \<Rightarrow> ('a os_scheme, string + int \<times> string \<times> nat) proc" where
  "anetTcpAccept s =
     anet_then (anetGenericAccept s)
       (\<lambda>fd w. case os_peer w fd of (a, port) \<Rightarrow> (Ret (Inr (fd, inet_ntoa a, unat port)), w))"

definition anetUnixAccept :: "int \<Rightarrow> ('a os_scheme, string + int) proc" where
  "anetUnixAccept s = anetGenericAccept s"

text \<open>Without a message: \<open>None\<close> is -1.\<close>

definition anetPeerToString :: "int \<Rightarrow> ('a os_scheme, (string \<times> nat) option) proc" where
  "anetPeerToString fd = mbind (os_do (O_getpeername fd))
     (\<lambda>r w. case r of Inl e \<Rightarrow> (Ret None, w)
       | Inr _ \<Rightarrow> (case os_peer w fd of (a, port) \<Rightarrow> (Ret (Some (inet_ntoa a, unat port)), w)))"

section \<open>Descriptors are not lost\<close>

text \<open>
  The last call was one of those whose failure the functions answer with a plain \<open>return ANET_ERR\<close>.
\<close>

definition option_failed :: "os_call \<times> answer \<Rightarrow> bool" where
  "option_failed e = (case e of
     (O_setsockopt fd name, Inl _) \<Rightarrow> True | (O_getfl fd, Inl _) \<Rightarrow> True | (O_setfl fd flags, Inl _) \<Rightarrow> True
   | _ \<Rightarrow> False)"

text \<open>
  What a function that returns a descriptor does to the open ones: it adds exactly its result, and on an
  error nothing stays open, unless it was setting an option of the new socket that failed.
\<close>

definition fd_result :: "'a os_scheme \<Rightarrow> string + int \<Rightarrow> 'a os_scheme \<Rightarrow> bool" where
  "fd_result w r w' = (case r of
     Inr fd \<Rightarrow> open_fds w' = fd # open_fds w
   | Inl err \<Rightarrow> if option_failed (last_call w') then \<exists>fd. open_fds w' = fd # open_fds w
       else open_fds w' = open_fds w)"

lemma anet_then_Ret:
  "anet_then m f w = (Ret r, w'') \<longleftrightarrow>
    (\<exists>err. m w = (Ret (Inl err), w'') \<and> r = Inl err) \<or>
    (\<exists>v w'. m w = (Ret (Inr v), w') \<and> f v w' = (Ret r, w''))"
  by (auto simp: anet_then_def mbind_sum_Ret mret_run)

lemma anet_try_Ret:
  "anet_try c prefix w = (Ret (Inl err), w') \<longleftrightarrow> (\<exists>e. os_do c w = (Ret (Inl e), w') \<and> err = anetSetError (prefix @ strerror e))"
  "anet_try c prefix w = (Ret (Inr n), w') \<longleftrightarrow> os_do c w = (Ret (Inr n), w')"
  by (auto simp: anet_try_def mbind_eq_Ret split_sum_ex mret_run)

lemmas anet_runs = anet_then_Ret anet_try_Ret os_ignore_Ret mbind_sum_Ret mseq_eq_Ret mret_run

text \<open>A fresh socket, and what connecting or binding it does.\<close>

lemma CreateSocket_fds: "anetCreateSocket d w = (Ret r, w') \<Longrightarrow> fd_result w r w'"
  by (auto simp: anetCreateSocket_def anet_option_def anet_runs fd_result_def option_failed_def dest!: os_do_fds)

lemma connect_fds:
  assumes "anet_connect s sa nb w = (Ret r, w')" "open_fds w = s # fds"
  shows "case r of Inr fd \<Rightarrow> fd = s \<and> open_fds w' = s # fds
    | Inl err \<Rightarrow> open_fds w' = (if option_failed (last_call w') then s # fds else fds)"
  using assms
  by (auto simp: anet_connect_def anetNonBlock_def anet_runs option_failed_def dest!: os_do_fds split: if_splits)

lemma Listen_fds:
  assumes "anetListen s sa w = (Ret r, w')" "open_fds w = s # fds"
  shows "case r of Inr u \<Rightarrow> open_fds w' = s # fds
    | Inl err \<Rightarrow> open_fds w' = fds \<and> \<not> option_failed (last_call w')"
  using assms
  by (auto simp: anetListen_def anet_or_close_def anet_runs option_failed_def dest!: os_do_fds)

text \<open>A function that first creates the socket.\<close>

lemma after_CreateSocket:
  assumes "anet_then (anetCreateSocket d) f w = (Ret r, w')"
    and "\<And>s w1. f s w1 = (Ret r, w') \<Longrightarrow> open_fds w1 = s # open_fds w \<Longrightarrow> fd_result w r w'"
  shows "fd_result w r w'"
proof -
  from assms(1) obtain a w1 where a: "anetCreateSocket d w = (Ret a, w1)"
    "case a of Inl err \<Rightarrow> r = Inl err \<and> w' = w1 | Inr v \<Rightarrow> f v w1 = (Ret r, w')" by (auto simp: anet_then_Ret)
  from CreateSocket_fds [OF a(1)] have "fd_result w a w1" .
  with a(2) assms(2) show ?thesis by (cases a) (auto simp: fd_result_def)
qed

lemma anet_connect_result:
  assumes "anet_connect s sa nb w1 = (Ret r, w')" "open_fds w1 = s # open_fds w"
  shows "fd_result w r w'"
  using connect_fds [OF assms] by (auto simp: fd_result_def split: sum.splits)

lemma anetListen_result:
  assumes "anet_then (anetListen s sa) (\<lambda>_. m) w1 = (Ret r, w')" "open_fds w1 = s # open_fds w"
    and "\<And>w2. m w2 = (Ret r, w') \<Longrightarrow> open_fds w2 = s # open_fds w \<Longrightarrow> fd_result w r w'"
  shows "fd_result w r w'"
proof -
  from assms(1) consider err where "anetListen s sa w1 = (Ret (Inl err), w')" "r = Inl err"
    | u w2 where "anetListen s sa w1 = (Ret (Inr u), w2)" "m w2 = (Ret r, w')"
    by (auto simp: anet_then_Ret)
  then show ?thesis
  proof cases
    case 1
    from Listen_fds [OF 1(1) assms(2)] 1(2) show ?thesis by (simp add: fd_result_def)
  next
    case 2
    from Listen_fds [OF 2(1) assms(2)] assms(3) [OF 2(2)] show ?thesis by simp
  qed
qed

definition fds_accounted :: "('a os_scheme, string + int) proc \<Rightarrow> bool" where
  "fds_accounted m \<longleftrightarrow> (\<forall>w r w'. m w = (Ret r, w') \<longrightarrow> fd_result w r w')"

lemma close_result:
  assumes "mseq (os_ignore (O_close s)) (mret (Inl err)) w1 = (Ret r, w')" "open_fds w1 = s # open_fds w"
  shows "fd_result w r w'"
  using assms
  by (auto simp: mseq_eq_Ret os_ignore_Ret mret_run fd_result_def option_failed_def dest!: os_do_fds)

lemma TcpConnect_accounted: "fds_accounted (anetTcpGenericConnect addr port nb)"
  unfolding fds_accounted_def anetTcpGenericConnect_def
proof (intro allI impI, erule after_CreateSocket)
  fix w w' w1 :: "'a os_scheme" and r s
  assume "(case lookup_host w1 addr of
      None \<Rightarrow> mseq (os_ignore (O_close s)) (mret (Inl (anetSetError (''can't resolve: '' @ addr)))) w1
    | Some a \<Rightarrow> anet_connect s (inet_ntoa a @ '':'' @ dec (unat port)) nb w1) = (Ret r, w')"
    "open_fds w1 = s # open_fds w"
  then show "fd_result w r w'"
    by (cases "lookup_host w1 addr") (auto intro: anet_connect_result close_result)
qed

lemma UnixConnect_accounted: "fds_accounted (anetUnixGenericConnect unset path nb)"
  unfolding fds_accounted_def anetUnixGenericConnect_def
  by (blast intro: after_CreateSocket anet_connect_result)

lemma TcpServer_accounted: "fds_accounted (anetTcpServer port bindaddr)"
  unfolding fds_accounted_def anetTcpServer_def Let_def
proof (intro allI impI, erule after_CreateSocket)
  fix w w' w1 :: "'a os_scheme" and r s
  let ?sa = "case bindaddr of None \<Rightarrow> Some 0 | Some b \<Rightarrow> os_aton w1 b"
  assume "(case (case bindaddr of None \<Rightarrow> Some 0 | Some b \<Rightarrow> os_aton w1 b) of
      None \<Rightarrow> mseq (os_ignore (O_close s)) (mret (Inl (anetSetError ''invalid bind address''))) w1
    | Some a \<Rightarrow> anet_then (anetListen s (inet_ntoa a @ '':'' @ dec (unat port))) (\<lambda>_. mret (Inr s)) w1) = (Ret r, w')"
    and fds: "open_fds w1 = s # open_fds w"
  then consider "mseq (os_ignore (O_close s)) (mret (Inl (anetSetError ''invalid bind address''))) w1 = (Ret r, w')"
    | a where "anet_then (anetListen s (inet_ntoa a @ '':'' @ dec (unat port))) (\<lambda>_. mret (Inr s)) w1 = (Ret r, w')"
    by (cases ?sa) auto
  then show "fd_result w r w'"
  proof cases
    case 1
    from this fds show ?thesis by (rule close_result)
  next
    case 2
    from this fds show ?thesis by (rule anetListen_result) (auto simp: mret_run fd_result_def)
  qed
qed

lemma UnixServer_accounted: "fds_accounted (anetUnixServer path perm)"
  unfolding fds_accounted_def anetUnixServer_def
proof (intro allI impI, erule after_CreateSocket)
  fix w w' w1 :: "'a os_scheme" and r s
  assume "anet_then (anetListen s (sun_path path)) (\<lambda>_. mseq (if perm \<noteq> 0 then os_ignore (O_chmod (sun_path path)) else mret ()) (mret (Inr s))) w1 = (Ret r, w')"
    and fds: "open_fds w1 = s # open_fds w"
  then show "fd_result w r w'"
    by (rule anetListen_result)
      (auto simp: mseq_eq_Ret os_ignore_Ret mret_run fd_result_def dest!: os_do_fds split: if_splits)
qed

section \<open>Properties\<close>

text \<open>C37: Whatever the calls answer, the functions that make a socket keep account of it: on success exactly
  the descriptor they return is open in addition, on an error none is, except after the failure of an
  option of the new socket (\<open>SO_REUSEADDR\<close>, \<open>fcntl\<close>): then the socket stays open and nobody knows it.\<close>

theorem anet_sockets_accounted:
  "fds_accounted (anetTcpGenericConnect addr port nb) \<and> fds_accounted (anetUnixGenericConnect unset path nb) \<and>
   fds_accounted (anetTcpServer port bindaddr) \<and> fds_accounted (anetUnixServer path perm)"
  by (intro conjI TcpConnect_accounted UnixConnect_accounted TcpServer_accounted UnixServer_accounted)

end
