(* ===== verification/Send_Msg.thy ===== *)
theory Send_Msg
  imports Byte_Order
begin

text \<open>
  \<open>CSendMsg\<close> of \<open>src/common/basetask.h\<close> with the address a datagram is sent to. The tasks use the bytes of a
  message only, so in \<open>Base_Task\<close> a message is its bytes. The three \<open>SetAddr\<close> overloads are here; an address
  is kept as \<open>sockaddr_in\<close> keeps it, port and host in network order. \<open>inet_aton\<close> is a parameter.
\<close>

record sockaddr_in =
  sin_family :: "16 word"
  sin_port :: "16 word"
  sin_addr :: "32 word"

record send_msg =
  m_sendBody :: string
  sm_toAddr :: sockaddr_in
  sm_toLen :: nat

abbreviation AF_INET :: "16 word" where "AF_INET \<equiv> 2"
abbreviation sizeof_sockaddr_in :: nat where "sizeof_sockaddr_in \<equiv> 16"

definition no_addr :: sockaddr_in where
  "no_addr = \<lparr>sin_family = 0, sin_port = 0, sin_addr = 0\<rparr>"

text \<open>The overload for a dotted address fills a cleared structure; a text that is no address leaves 0.\<close>

definition sm_SetAddr_text :: "(string \<Rightarrow> 32 word option) \<Rightarrow> string \<Rightarrow> 16 word \<Rightarrow> send_msg \<Rightarrow> send_msg" where
  "sm_SetAddr_text aton sAddr iPort m =
     (let tmpAddr = no_addr\<lparr>sin_port := htons iPort\<rparr>;
          tmpAddr = (case aton sAddr of None \<Rightarrow> tmpAddr | Some a \<Rightarrow> tmpAddr\<lparr>sin_addr := a\<rparr>)
      in m\<lparr>sm_toAddr := tmpAddr, sm_toLen := sizeof_sockaddr_in\<rparr>)"

definition sm_SetAddr_ip :: "32 word \<Rightarrow> 16 word \<Rightarrow> send_msg \<Rightarrow> send_msg" where
  "sm_SetAddr_ip iAddr iPort m =
     m\<lparr>sm_toAddr := no_addr\<lparr>sin_family := AF_INET, sin_addr := iAddr, sin_port := htons iPort\<rparr>,
       sm_toLen := sizeof_sockaddr_in\<rparr>"

definition sm_SetAddr :: "sockaddr_in \<Rightarrow> send_msg \<Rightarrow> send_msg" where
  "sm_SetAddr SoAddr m = m\<lparr>sm_toAddr := SoAddr, sm_toLen := sizeof_sockaddr_in\<rparr>"

section \<open>Lemmas\<close>

text \<open>The two overloads disagree in the family, which the first one leaves 0.\<close>

lemma SetAddr_text_no_family:
  assumes "aton s = Some a"
  shows "sm_SetAddr_text aton s port m =
    (sm_SetAddr_ip a port m)\<lparr>sm_toAddr := (sm_toAddr (sm_SetAddr_ip a port m))\<lparr>sin_family := 0\<rparr>\<rparr>"
  using assms by (simp add: sm_SetAddr_text_def sm_SetAddr_ip_def no_addr_def)

lemma SetAddr_port: "ntohs (sin_port (sm_toAddr (sm_SetAddr_ip a port m))) = port"
  by (simp add: sm_SetAddr_ip_def)

end
