(* ===== verification/Fifo.thy ===== *)
theory Fifo
  imports Prelude
begin

text \<open>
  The contract of a first-in first-out queue as its users see it, with what follows from it: messages
  come out in the order they went in, none is lost and none is invented. \<open>CBaseTask\<close>'s send list and
  \<open>CSynQueue\<close> provide it.
\<close>

locale fifo =
  fixes items :: "'q \<Rightarrow> 'm list" and accepts :: "'m \<Rightarrow> 'q \<Rightarrow> bool"
    and put :: "'m \<Rightarrow> 'q \<Rightarrow> 'q" and get :: "'q \<Rightarrow> 'm option \<times> 'q"
  assumes put_items: "accepts m q \<Longrightarrow> items (put m q) = items q @ [m]"
    and get_none: "items q = [] \<Longrightarrow> fst (get q) = None \<and> items (snd (get q)) = []"
    and get_some: "items q = m # ms \<Longrightarrow> fst (get q) = Some m \<and> items (snd (get q)) = ms"
begin

primrec put_all :: "'m list \<Rightarrow> 'q \<Rightarrow> 'q" where
  "put_all [] q = q"
| "put_all (m # ms) q = put_all ms (put m q)"

primrec get_n :: "nat \<Rightarrow> 'q \<Rightarrow> 'm list \<times> 'q" where
  "get_n 0 q = ([], q)"
| "get_n (Suc n) q = (case get q of
     (None, q') \<Rightarrow> get_n n q'
   | (Some m, q') \<Rightarrow> (case get_n n q' of (ms, q'') \<Rightarrow> (m # ms, q'')))"

primrec accepts_all :: "'m list \<Rightarrow> 'q \<Rightarrow> bool" where
  "accepts_all [] q = True"
| "accepts_all (m # ms) q = (accepts m q \<and> accepts_all ms (put m q))"

lemma put_all_items: "accepts_all ms q \<Longrightarrow> items (put_all ms q) = items q @ ms"
  by (induction ms arbitrary: q) (simp_all add: put_items)

lemma get_n_items:
  "fst (get_n n q) = take n (items q) \<and> items (snd (get_n n q)) = drop n (items q)"
proof (induction n arbitrary: q)
  case (Suc n)
  show ?case
  proof (cases "items q")
    case Nil
    then obtain q' where "get q = (None, q')" "items q' = []" using get_none by (metis prod.collapse)
    with Nil Suc show ?thesis by simp
  next
    case (Cons m ms)
    then obtain q' where q': "get q = (Some m, q')" "items q' = ms" using get_some by (metis prod.collapse)
    obtain out q'' where "get_n n q' = (out, q'')" by (cases "get_n n q'")
    with Suc [of q'] q' Cons show ?thesis by simp
  qed
qed simp

text \<open>Everything put into a queue comes out behind what was there, in order.\<close>

lemma put_get_order:
  assumes "accepts_all ms q"
  shows "fst (get_n (length (items q) + length ms) (put_all ms q)) = items q @ ms"
  using get_n_items [of "length (items q) + length ms" "put_all ms q"] put_all_items [OF assms] by simp

end

end
