(* ===== verification/Base_Task.thy ===== *)
theory Base_Task
  imports Fifo CV_Buffer Sockets
begin

text \<open>
  \<open>CBaseTask\<close> of \<open>src/common/basetask.h\<close> and \<open>basetask.cpp\<close>: a socket registered with an epoll instance,
  with a list of messages to send. The kernel is a queue of outcomes of \<open>send\<close>; the calls of
  \<open>CEpoll\<close> (\<open>src/common/myepoll.cpp\<close>) are recorded with their event masks. A message \<open>CSendMsg\<close> is its bytes.
\<close>

section \<open>State\<close>

datatype epoll_op = Ep_add int nat | Ep_mod int nat | Ep_del int

record base_task =
  m_iSocket :: int
  m_nSendNum :: int
  m_sendList :: "string list"
  m_iCurSendLen :: nat
  m_pCurSendMsg :: "string option"
  tx_events :: "wr list"
  tx_bytes :: string
  bt_errno :: errno
  epoll_ops :: "epoll_op list"
  bt_closed :: "int list"

abbreviation EPOLLIN :: nat where "EPOLLIN \<equiv> 1"
abbreviation EPOLLOUT :: nat where "EPOLLOUT \<equiv> 4"
abbreviation EPOLLERR :: nat where "EPOLLERR \<equiv> 8"
abbreviation EPOLLHUP :: nat where "EPOLLHUP \<equiv> 16"

unbundle bit_operations_syntax

section \<open>CEpoll as the tasks use it\<close>

definition ep_AddToEpoll :: "nat \<Rightarrow> 'a base_task_scheme \<Rightarrow> 'a base_task_scheme" where
  "ep_AddToEpoll event t = t\<lparr>epoll_ops := epoll_ops t @ [Ep_add (m_iSocket t) event]\<rparr>"

definition ep_DelFromEpoll :: "'a base_task_scheme \<Rightarrow> 'a base_task_scheme" where
  "ep_DelFromEpoll t = t\<lparr>epoll_ops := epoll_ops t @ [Ep_del (m_iSocket t)]\<rparr>"

definition ep_ModifyFromEpoll :: "nat \<Rightarrow> 'a base_task_scheme \<Rightarrow> 'a base_task_scheme" where
  "ep_ModifyFromEpoll event t = t\<lparr>epoll_ops := epoll_ops t @ [Ep_mod (m_iSocket t) event]\<rparr>"

section \<open>The members of CBaseTask\<close>

definition bt_new :: "int \<Rightarrow> base_task" where
  "bt_new iSocket = \<lparr>m_iSocket = iSocket, m_nSendNum = 20, m_sendList = [], m_iCurSendLen = 0,
     m_pCurSendMsg = None, tx_events = [], tx_bytes = [], bt_errno = Eother [], epoll_ops = [],
     bt_closed = []\<rparr>"

definition bt_AddToEpoll :: "'a base_task_scheme \<Rightarrow> 'a base_task_scheme" where
  "bt_AddToEpoll t =
     (let tmpEvent = EPOLLERR OR EPOLLHUP OR EPOLLIN;
          tmpEvent = (if length (m_sendList t) \<noteq> 0 \<or> m_pCurSendMsg t \<noteq> None then tmpEvent OR EPOLLOUT
                      else tmpEvent)
      in ep_AddToEpoll tmpEvent t)"

definition bt_Init :: "'a base_task_scheme \<Rightarrow> 'a base_task_scheme" where
  "bt_Init t = bt_AddToEpoll t"

definition bt_DelFromEpoll :: "'a base_task_scheme \<Rightarrow> 'a base_task_scheme" where
  "bt_DelFromEpoll t = (if m_iSocket t = -1 then t else ep_DelFromEpoll t)"

definition bt_close :: "'a base_task_scheme \<Rightarrow> 'a base_task_scheme" where
  "bt_close t = (if m_iSocket t \<noteq> -1
     then t\<lparr>bt_closed := bt_closed t @ [m_iSocket t], m_iSocket := -1\<rparr> else t)"

definition bt_CloseConnect :: "'a base_task_scheme \<Rightarrow> 'a base_task_scheme" where
  "bt_CloseConnect t = bt_close (bt_DelFromEpoll t)"

text \<open>The destructor deletes the unsent messages and closes the socket if it is still open.\<close>

definition bt_destroy :: "'a base_task_scheme \<Rightarrow> 'a base_task_scheme" where
  "bt_destroy t = bt_close (t\<lparr>m_pCurSendMsg := None, m_sendList := []\<rparr>)"

definition bt_DestroySelf :: "'a base_task_scheme \<Rightarrow> 'a base_task_scheme" where
  "bt_DestroySelf t = bt_destroy (bt_CloseConnect t)"

definition bt_GetMsgFromSendList :: "'a base_task_scheme \<Rightarrow> string option \<times> 'a base_task_scheme" where
  "bt_GetMsgFromSendList t = (case m_sendList t of
     [] \<Rightarrow> (None, t) | m # ms \<Rightarrow> (Some m, t\<lparr>m_sendList := ms\<rparr>))"

text \<open>A message pointer is \<open>None\<close> for NULL.\<close>

definition bt_PutMsgToSendList :: "string option \<Rightarrow> 'a base_task_scheme \<Rightarrow> int \<times> 'a base_task_scheme" where
  "bt_PutMsgToSendList pBuf t = (case pBuf of
     None \<Rightarrow> (-1, t)
   | Some m \<Rightarrow>
       if length m = 0 then (-1, t)
       else let t = t\<lparr>m_sendList := m_sendList t @ [m]\<rparr> in
         (0, if m_sendList t \<noteq> [] then ep_ModifyFromEpoll (EPOLLERR OR EPOLLHUP OR EPOLLIN OR EPOLLOUT) t else t))"

text \<open>
  \<open>send(fd, buf, len, MSG_DONTWAIT)\<close>; an exhausted outcome queue means the socket buffer is full. A
  result of 0 leaves \<open>errno\<close> as it was.
\<close>

definition sys_send :: "string \<Rightarrow> 'a base_task_scheme \<Rightarrow> int \<times> 'a base_task_scheme" where
  "sys_send buf t = (case tx_events t of
     [] \<Rightarrow> (-1, t\<lparr>bt_errno := EAGAIN\<rparr>)
   | Took k # q \<Rightarrow> (int (min k (length buf)),
       t\<lparr>tx_events := q, tx_bytes := tx_bytes t @ take k buf\<rparr>)
   | Wfail e # q \<Rightarrow> (-1, t\<lparr>tx_events := q, bt_errno := e\<rparr>))"

text \<open>\<open>CTcpTask::SendData\<close>: 0 the message is out, 1 try again, -1 error; a null message is dereferenced.\<close>

definition tcp_SendData :: "'a base_task_scheme \<Rightarrow> int result \<times> 'a base_task_scheme" where
  "tcp_SendData t = (case m_pCurSendMsg t of
     None \<Rightarrow> (Stuck Undefined, t)
   | Some m \<Rightarrow>
       (case sys_send (drop (m_iCurSendLen t) m) t of (retLen, t) \<Rightarrow>
          if retLen > 0 then
            let t = t\<lparr>m_iCurSendLen := m_iCurSendLen t + nat retLen\<rparr> in
              if m_iCurSendLen t = length m
              then (Ret 0, t\<lparr>m_pCurSendMsg := None, m_iCurSendLen := 0\<rparr>)
              else (Ret 1, t)
          else if bt_errno t = EAGAIN \<or> bt_errno t = EINTR then (Ret 1, t)
          else (Ret (-1), t)))"

text \<open>One round of the loop of \<open>SendProcess\<close>, for a given \<open>SendData\<close>.\<close>

definition send_round ::
  "('a base_task_scheme \<Rightarrow> int result \<times> 'a base_task_scheme) \<Rightarrow> 'a base_task_scheme
    \<Rightarrow> int result \<times> 'a base_task_scheme" where
  "send_round send_data t =
     (if m_pCurSendMsg t \<noteq> None then send_data t
      else (case bt_GetMsgFromSendList t of
        (Some m, t) \<Rightarrow> send_data (t\<lparr>m_pCurSendMsg := Some m\<rparr>)
      | (None, t) \<Rightarrow> (Ret 2, ep_ModifyFromEpoll (EPOLLERR OR EPOLLHUP OR EPOLLIN) t)))"

primrec send_loop ::
  "('a base_task_scheme \<Rightarrow> int result \<times> 'a base_task_scheme) \<Rightarrow> nat \<Rightarrow> int \<Rightarrow> 'a base_task_scheme
    \<Rightarrow> int result \<times> 'a base_task_scheme" where
  "send_loop send_data 0 retValue t = (Ret retValue, t)"
| "send_loop send_data (Suc rounds) retValue t = (case send_round send_data t of
     (Ret v, t) \<Rightarrow> if v = 2 \<or> v = -1 then (Ret v, t) else send_loop send_data rounds v t
   | (Exn e, t) \<Rightarrow> (Exn e, t)
   | (Stuck k, t) \<Rightarrow> (Stuck k, t))"

definition bt_SendProcess ::
  "('a base_task_scheme \<Rightarrow> int result \<times> 'a base_task_scheme) \<Rightarrow> 'a base_task_scheme
    \<Rightarrow> int result \<times> 'a base_task_scheme" where
  "bt_SendProcess send_data t = send_loop send_data (nat (m_nSendNum t)) 0 t"

text \<open>\<open>HandleProcess\<close> with the virtual \<open>RecvProcess\<close> and \<open>SendProcess\<close> of the task as arguments.\<close>

definition bt_HandleProcess ::
  "('a base_task_scheme \<Rightarrow> int result \<times> 'a base_task_scheme)
    \<Rightarrow> ('a base_task_scheme \<Rightarrow> int result \<times> 'a base_task_scheme) \<Rightarrow> nat
    \<Rightarrow> 'a base_task_scheme \<Rightarrow> int result \<times> 'a base_task_scheme" where
  "bt_HandleProcess recv_process send_process events =
     (let events = (if events AND EPOLLERR = EPOLLERR \<or> events AND EPOLLHUP = EPOLLHUP
                    then events OR EPOLLIN OR EPOLLOUT else events)
      in mbind (if events AND EPOLLIN = EPOLLIN then recv_process else mret 0) (\<lambda>ret.
        if events AND EPOLLIN = EPOLLIN \<and> ret = -1 then (\<lambda>t. (Ret (-1), bt_DestroySelf t))
        else mbind (if events AND EPOLLOUT = EPOLLOUT then send_process else mret 0) (\<lambda>ret.
          if events AND EPOLLOUT = EPOLLOUT \<and> ret = -1 then (\<lambda>t. (Ret (-1), bt_DestroySelf t))
          else mret 0)))"

section \<open>The send list is a queue\<close>

interpretation send_list: fifo m_sendList "\<lambda>m (t :: 'a base_task_scheme). m \<noteq> []"
  "\<lambda>m t. snd (bt_PutMsgToSendList (Some m) t)" bt_GetMsgFromSendList
  by unfold_locales
    (auto simp: bt_PutMsgToSendList_def bt_GetMsgFromSendList_def ep_ModifyFromEpoll_def split: list.split)

section \<open>What goes out is what was queued\<close>

text \<open>The bytes still to be sent: the rest of the current message, then the queued messages.\<close>

definition bt_pending :: "'a base_task_scheme \<Rightarrow> string" where
  "bt_pending t = (case m_pCurSendMsg t of None \<Rightarrow> [] | Some m \<Rightarrow> drop (m_iCurSendLen t) m) @ concat (m_sendList t)"

definition bt_wf :: "'a base_task_scheme \<Rightarrow> bool" where
  "bt_wf t \<longleftrightarrow> list_all (\<lambda>m. m \<noteq> []) (m_sendList t) \<and>
     (case m_pCurSendMsg t of None \<Rightarrow> m_iCurSendLen t = 0 | Some m \<Rightarrow> m_iCurSendLen t < length m)"

lemma sys_send_result:
  assumes "sys_send buf t = (n, t')"
  shows "n \<le> int (length buf)" "tx_bytes t' = tx_bytes t @ take (nat n) buf"
    "m_sendList t' = m_sendList t" "m_pCurSendMsg t' = m_pCurSendMsg t" "m_iCurSendLen t' = m_iCurSendLen t"
    "m_nSendNum t' = m_nSendNum t" "m_iSocket t' = m_iSocket t"
  using assms by (auto simp: sys_send_def min_def split: list.splits wr.splits if_splits)

lemma tcp_SendData_conserves:
  assumes "tcp_SendData t = (Ret v, t')" "bt_wf t"
  shows "tx_bytes t' @ bt_pending t' = tx_bytes t @ bt_pending t \<and> bt_wf t'"
proof -
  from assms(1) obtain m where m: "m_pCurSendMsg t = Some m" by (auto simp: tcp_SendData_def split: option.splits)
  obtain n t1 where s: "sys_send (drop (m_iCurSendLen t) m) t = (n, t1)" by (cases "sys_send (drop (m_iCurSendLen t) m) t")
  note r = sys_send_result [OF s]
  have lt: "m_iCurSendLen t < length m" using assms(2) m by (simp add: bt_wf_def)
  show ?thesis
  proof (cases "n > 0")
    case True
    have "drop (m_iCurSendLen t) m = take (nat n) (drop (m_iCurSendLen t) m) @ drop (m_iCurSendLen t + nat n) m"
      using append_take_drop_id [of "nat n" "drop (m_iCurSendLen t) m"] by (simp add: add.commute)
    moreover have "m_iCurSendLen t + nat n \<le> length m" using r(1) True lt by simp
    ultimately show ?thesis using assms m s r True
      by (auto simp: tcp_SendData_def Let_def bt_pending_def bt_wf_def split: if_splits)
  next
    case False
    with assms m s r show ?thesis
      by (auto simp: tcp_SendData_def bt_pending_def bt_wf_def split: if_splits)
  qed
qed

lemma send_round_conserves:
  assumes "send_round tcp_SendData t = (r, t')" "bt_wf t"
  shows "\<exists>v. r = Ret v \<and> v \<in> {-1, 0, 1, 2} \<and> tx_bytes t' @ bt_pending t' = tx_bytes t @ bt_pending t \<and>
    bt_wf t' \<and> (v = 2 \<longrightarrow> bt_pending t' = [])"
proof -
  have Ret: "\<exists>v. r = Ret v \<and> v \<in> {-1, 0, 1}" if "tcp_SendData t1 = (r, t')" "m_pCurSendMsg t1 \<noteq> None" for t1
    using that by (auto simp: tcp_SendData_def Let_def split: if_splits prod.splits)
  show ?thesis
  proof (cases "m_pCurSendMsg t")
    case (Some m)
    with assms Ret [of t] tcp_SendData_conserves [of t] show ?thesis by (auto simp: send_round_def)
  next
    case None
    show ?thesis
    proof (cases "m_sendList t")
      case Nil
      with assms None show ?thesis
        by (auto simp: send_round_def bt_GetMsgFromSendList_def bt_pending_def bt_wf_def ep_ModifyFromEpoll_def)
    next
      case (Cons m ms)
      let ?t = "t\<lparr>m_sendList := ms, m_pCurSendMsg := Some m\<rparr>"
      have "bt_wf ?t" "bt_pending ?t = bt_pending t"
        using assms(2) None Cons by (auto simp: bt_wf_def bt_pending_def)
      with assms None Cons Ret [of ?t] tcp_SendData_conserves [of ?t] show ?thesis
        by (fastforce simp: send_round_def bt_GetMsgFromSendList_def)
    qed
  qed
qed

lemma send_loop_conserves:
  assumes "send_loop tcp_SendData rounds v0 t = (r, t')" "bt_wf t" "v0 \<noteq> 2"
  shows "\<exists>v. r = Ret v \<and> tx_bytes t' @ bt_pending t' = tx_bytes t @ bt_pending t \<and> bt_wf t' \<and>
    (v = 2 \<longrightarrow> bt_pending t' = [])"
  using assms
proof (induction rounds arbitrary: v0 t)
  case (Suc rounds)
  obtain r1 t1 where t1: "send_round tcp_SendData t = (r1, t1)" by (cases "send_round tcp_SendData t")
  from send_round_conserves [OF this Suc.prems(2)] obtain v1 where v1: "r1 = Ret v1"
    "tx_bytes t1 @ bt_pending t1 = tx_bytes t @ bt_pending t" "bt_wf t1" "v1 = 2 \<longrightarrow> bt_pending t1 = []" by auto
  show ?case
  proof (cases "v1 = 2 \<or> v1 = -1")
    case True
    with Suc.prems(1) t1 v1 show ?thesis by (auto split: if_splits)
  next
    case False
    with Suc.prems(1) t1 v1(1) have "send_loop tcp_SendData rounds v1 t1 = (r, t')" by simp
    from Suc.IH [OF this v1(3)] False v1(2) show ?thesis by auto
  qed
qed auto

text \<open>When the kernel takes whole messages, one round sends one message.\<close>

lemma send_round_whole:
  assumes "m_pCurSendMsg t = None" "m_iCurSendLen t = 0" "m_sendList t = m # ms" "m \<noteq> []"
    "tx_events t = Took k # q" "length m \<le> k"
  shows "send_round tcp_SendData t =
    (Ret 0, t\<lparr>m_sendList := ms, tx_events := q, tx_bytes := tx_bytes t @ m\<rparr>)"
  using assms by (simp add: send_round_def bt_GetMsgFromSendList_def tcp_SendData_def sys_send_def Let_def)

lemma send_loop_whole:
  assumes "m_pCurSendMsg t = None" "m_iCurSendLen t = 0" "list_all (\<lambda>m. m \<noteq> [] \<and> length m \<le> k) (m_sendList t)"
    "tx_events t = replicate (length (m_sendList t)) (Took k) @ q" "length (m_sendList t) < rounds"
  shows "send_loop tcp_SendData rounds v t = (Ret 2, t\<lparr>m_sendList := [], tx_events := q,
    tx_bytes := tx_bytes t @ concat (m_sendList t),
    epoll_ops := epoll_ops t @ [Ep_mod (m_iSocket t) (EPOLLERR OR EPOLLHUP OR EPOLLIN)]\<rparr>)"
  using assms
proof (induction "m_sendList t" arbitrary: t rounds v)
  case Nil
  then obtain n where "rounds = Suc n" by (cases rounds) auto
  with Nil show ?case
    by (cases t) (auto simp: send_round_def bt_GetMsgFromSendList_def ep_ModifyFromEpoll_def)
next
  case (Cons m ms)
  note ms = Cons.hyps(2) [symmetric]
  from Cons.prems(5) obtain n where n: "rounds = Suc n" by (cases rounds) auto
  let ?t = "t\<lparr>m_sendList := ms, tx_events := replicate (length ms) (Took k) @ q, tx_bytes := tx_bytes t @ m\<rparr>"
  have "send_round tcp_SendData t = (Ret 0, ?t)"
    by (rule send_round_whole [where k = k]) (use Cons.prems ms in simp_all)
  moreover have "send_loop tcp_SendData n 0 ?t = (Ret 2, ?t\<lparr>m_sendList := [], tx_events := q,
      tx_bytes := tx_bytes ?t @ concat ms,
      epoll_ops := epoll_ops ?t @ [Ep_mod (m_iSocket ?t) (EPOLLERR OR EPOLLHUP OR EPOLLIN)]\<rparr>)"
    using Cons.hyps(1) [of ?t n 0] Cons.prems ms n by simp
  ultimately show ?case using ms n by simp
qed

section \<open>Properties\<close>

text \<open>C29: \<open>SendProcess\<close> of a TCP task, whatever \<open>send\<close> answers (partial writes, a full socket buffer,
  interruptions, errors): it returns, the bytes sent so far followed by the bytes still pending are the
  bytes that were queued, in order, and it reports an empty queue (2) only when nothing is pending.\<close>

theorem tcp_SendProcess_conserves:
  assumes "bt_wf t"
  shows "\<exists>v t'. bt_SendProcess tcp_SendData t = (Ret v, t') \<and> bt_wf t' \<and>
    tx_bytes t' @ bt_pending t' = tx_bytes t @ bt_pending t \<and> (v = 2 \<longrightarrow> bt_pending t' = [])"
proof -
  obtain r t' where "bt_SendProcess tcp_SendData t = (r, t')" by (cases "bt_SendProcess tcp_SendData t")
  with send_loop_conserves [of "nat (m_nSendNum t)" 0 t r t'] assms show ?thesis
    by (auto simp: bt_SendProcess_def)
qed

theorem tcp_SendProcess_conserves_witness:
  "\<exists>v t'. bt_SendProcess tcp_SendData ((bt_new 5)\<lparr>m_sendList := [''abc'', ''de''], tx_events := [Took 2, Wfail EINTR]\<rparr>)
      = (Ret v, t') \<and> bt_wf t' \<and> tx_bytes t' @ bt_pending t' = ''abcde'' \<and> (v = 2 \<longrightarrow> bt_pending t' = [])"
  using tcp_SendProcess_conserves [of "(bt_new 5)\<lparr>m_sendList := [''abc'', ''de''], tx_events := [Took 2, Wfail EINTR]\<rparr>"]
  by (simp add: bt_new_def bt_wf_def bt_pending_def)

text \<open>C30: When no message is half sent, the kernel takes whole messages and fewer than \<open>m_nSendNum\<close> of them (20, as the
  constructor sets it) are queued, none of them empty, one \<open>SendProcess\<close> sends all of them in the order they were put, empties the list and takes \<open>EPOLLOUT\<close>
  out of the event mask.\<close>

theorem tcp_SendProcess_drains:
  assumes "m_pCurSendMsg t = None" "m_iCurSendLen t = 0"
    "list_all (\<lambda>m. m \<noteq> [] \<and> length m \<le> k) (m_sendList t)"
    "tx_events t = replicate (length (m_sendList t)) (Took k) @ q"
    "int (length (m_sendList t)) < m_nSendNum t"
  shows "bt_SendProcess tcp_SendData t = (Ret 2, t\<lparr>m_sendList := [], tx_events := q,
    tx_bytes := tx_bytes t @ concat (m_sendList t),
    epoll_ops := epoll_ops t @ [Ep_mod (m_iSocket t) (EPOLLERR OR EPOLLHUP OR EPOLLIN)]\<rparr>)"
  unfolding bt_SendProcess_def by (rule send_loop_whole [where k = k]) (use assms in simp_all)

theorem tcp_SendProcess_drains_witness:
  "tx_bytes (snd (bt_SendProcess tcp_SendData
     ((bt_new 5)\<lparr>m_sendList := [''abc'', ''de''], tx_events := [Took 9, Took 9]\<rparr>))) = ''abcde''"
  using tcp_SendProcess_drains [of "(bt_new 5)\<lparr>m_sendList := [''abc'', ''de''], tx_events := [Took 9, Took 9]\<rparr>" 9 "[]"]
  by (simp add: bt_new_def)

end
