(* ===== verification/Tcp_Task.thy ===== *)
theory Tcp_Task
  imports Base_Task
begin

text \<open>
  The receiving side of \<open>CTcpTask\<close> (\<open>src/common/mytask.h\<close>, \<open>mytask.cpp\<close>): bytes go from \<open>recv\<close> into a
  \<^typ>\<open>cvbuffer\<close>, from which length-prefixed packets are cut and handed to \<open>CMyserver::PutMsgToList\<close>
  (a virtual function of the application, here a list of the messages handed over). The 16-bit length
  of a packet counts itself; the size of the body is kept in a \<open>short\<close>.
\<close>

section \<open>State\<close>

datatype packet_state = ReadPacketLen | ReadPacket

record tcp_task = base_task +
  m_vReceiveBuffer :: cvbuffer
  m_iDataSize :: "16 word"
  m_iTotalPackLen :: int
  m_state :: packet_state
  rx_events :: "rx list"
  put_msgs :: "string list"

definition tcp_new :: "int \<Rightarrow> cvbuffer \<Rightarrow> tcp_task" where
  "tcp_new ipSocket garbage = base_task.extend (bt_new ipSocket)
     (tcp_task.fields (cv_new garbage) 0 0 ReadPacketLen [] [])"

text \<open>A member function of the buffer, called on the task's buffer.\<close>

definition on_buffer :: "(cvbuffer, 'r) proc \<Rightarrow> ('a tcp_task_scheme, 'r) proc" where
  "on_buffer m t = (case m (m_vReceiveBuffer t) of (r, b) \<Rightarrow> (r, t\<lparr>m_vReceiveBuffer := b\<rparr>))"

section \<open>Packets\<close>

text \<open>\<open>m_iTotalPackLen <= getSize()\<close> compares as \<open>unsigned int\<close>.\<close>

definition tcp_PacketFinished :: "'a tcp_task_scheme \<Rightarrow> bool" where
  "tcp_PacketFinished t \<longleftrightarrow> (of_int (m_iTotalPackLen t) :: 32 word) \<le> cv_getSize (m_vReceiveBuffer t)"

text \<open>
  \<open>new CSendMsg(len, buf)\<close>: a negative length becomes a \<open>memcpy\<close> of nearly \<open>2 ^ 64\<close> bytes.
\<close>

definition send_msg_new :: "int \<Rightarrow> nat \<Rightarrow> (cvbuffer, string) proc" where
  "send_msg_new len off = (if len < 0 then mstuck Undefined else copy_out off (nat len))"

definition tcp_ProcessOnePacket :: "('a tcp_task_scheme, unit) proc" where
  "tcp_ProcessOnePacket t =
     mbind (on_buffer (\<lambda>b. send_msg_new (sint (m_iDataSize t)) (cv_JumpBuffer b) b))
       (\<lambda>pMsg. mseq (on_buffer (\<lambda>b. (Ret (), cv_Jump (signed (m_iDataSize t)) b)))
         (mseq (on_buffer cv_AlignBuf)
           (\<lambda>t. (Ret (), t\<lparr>put_msgs := put_msgs t @ [pMsg]\<rparr>)))) t"

text \<open>The case \<open>ReadPacket\<close>: \<open>Some v\<close> is \<open>return v\<close>, \<open>None\<close> goes back to the loop head.\<close>

definition tcp_read_packet :: "('a tcp_task_scheme, int option) proc" where
  "tcp_read_packet t =
     (if \<not> tcp_PacketFinished t then (Ret (Some 1), t)
      else mseq tcp_ProcessOnePacket (\<lambda>t. (Ret None, t\<lparr>m_state := ReadPacketLen\<rparr>)) t)"

text \<open>The case \<open>ReadPacketLen\<close>, which falls through to the next one.\<close>

definition tcp_read_len :: "('a tcp_task_scheme, int option) proc" where
  "tcp_read_len t =
     (if cv_getSize (m_vReceiveBuffer t) < 2 then (Ret (Some 1), t)
      else mbind (on_buffer (cv_Get_obj 2))
        (\<lambda>r t.
          let iLen = (case r of None \<Rightarrow> 0 | Some bs \<Rightarrow> (word_of_nat (le_value bs) :: 16 word));
              t = t\<lparr>m_iTotalPackLen := int (unat (ntohs iLen))\<rparr>
          in if m_iTotalPackLen t > 400 * 1024 * 1024 \<or> m_iTotalPackLen t \<le> 0 then (Ret (Some (-1)), t)
             else tcp_read_packet (t\<lparr>m_state := ReadPacket,
               m_iDataSize := of_int (m_iTotalPackLen t - 2)\<rparr>)) t)"

definition tcp_body :: "('a tcp_task_scheme, int option) proc" where
  "tcp_body t = (case m_state t of ReadPacketLen \<Rightarrow> tcp_read_len t | ReadPacket \<Rightarrow> tcp_read_packet t)"

text \<open>Every round that goes back to the loop head has taken bytes out of the buffer.\<close>

definition tcp_measure :: "'a tcp_task_scheme \<Rightarrow> nat" where
  "tcp_measure t = 2 * unat (m_uOffset (m_vReceiveBuffer t)) + (if m_state t = ReadPacket then 1 else 0)"

lemma ntohs_0: "ntohs 0 = 0"
  by code_simp

lemma on_buffer_Ret:
  "on_buffer m t = (Ret r, t') \<longleftrightarrow> (\<exists>b. m (m_vReceiveBuffer t) = (Ret r, b) \<and> t' = t\<lparr>m_vReceiveBuffer := b\<rparr>)"
  by (auto simp: on_buffer_def split: prod.splits)

lemma cv_AlignBuf_offset:
  assumes "cv_AlignBuf b = (Ret r, b')"
  shows "unat (m_uOffset b') \<le> unat (m_uOffset b) \<and>
    (0 < unat (m_uGetOffset b) \<longrightarrow> unat (m_uGetOffset b) \<le> unat (m_uOffset b) \<longrightarrow>
      unat (m_uOffset b') < unat (m_uOffset b))"
  using assms
  by (auto simp: cv_AlignBuf_def run_simps copy_in_def copy_out_def word_le_nat_alt unat_sub32 split: if_splits)

lemma cv_Jump_offset:
  assumes "unat n < 2 ^ 15" "unat (m_uGetOffset b) \<le> MAX_CVBUFFER_SIZE"
  shows "m_uOffset (cv_Jump n b) = m_uOffset b"
    "0 < unat (m_uGetOffset b) \<Longrightarrow> unat (m_uGetOffset b) \<le> unat (m_uOffset b) \<Longrightarrow>
      0 < unat (m_uGetOffset (cv_Jump n b)) \<and> unat (m_uGetOffset (cv_Jump n b)) \<le> unat (m_uOffset b)"
  using assms by (auto simp: cv_Jump_def Let_def word_less_nat_alt unat_add32 simp flip: unat_gt_0)

lemma ProcessOnePacket_offset:
  assumes "tcp_ProcessOnePacket t = (Ret u, t')" "b = m_vReceiveBuffer t" "b' = m_vReceiveBuffer t'"
  shows "unat (m_uOffset b') \<le> unat (m_uOffset b) \<and>
    (0 < unat (m_uGetOffset b) \<longrightarrow> unat (m_uGetOffset b) \<le> unat (m_uOffset b) \<longrightarrow>
      unat (m_uGetOffset b) \<le> MAX_CVBUFFER_SIZE \<longrightarrow> unat (m_uOffset b') < unat (m_uOffset b))"
proof -
  let ?n = "signed (m_iDataSize t) :: 32 word"
  have eq: "mbind (on_buffer (\<lambda>b. send_msg_new (sint (m_iDataSize t)) (cv_JumpBuffer b) b))
       (\<lambda>pMsg. mseq (on_buffer (\<lambda>b. (Ret (), cv_Jump ?n b)))
         (mseq (on_buffer cv_AlignBuf)
           (\<lambda>t. (Ret (), t\<lparr>put_msgs := put_msgs t @ [pMsg]\<rparr>)))) t = (Ret u, t')"
    using assms(1) by (simp add: tcp_ProcessOnePacket_def)
  then have nonneg: "0 \<le> sint (m_iDataSize t)"
    by (auto simp: mbind_run on_buffer_def send_msg_new_def run_simps split: if_splits)
  from eq obtain r where al: "cv_AlignBuf (cv_Jump ?n b) = (Ret r, b')"
    using assms(2,3)
    by (auto simp: mbind_eq_Ret mseq_eq_Ret on_buffer_Ret send_msg_new_def copy_out_def mstuck_run split: if_splits)
  have n: "unat ?n < 2 ^ 15"
  proof -
    have "sint (m_iDataSize t) < 2 ^ 15" using signed_take_bit_int_less_exp [of 15] by (simp add: sint_uint)
    moreover have "?n = of_int (sint (m_iDataSize t))" by simp
    ultimately show ?thesis using nonneg by (simp only: unsigned_of_int) (simp add: take_bit_int_eq_self nat_less_iff)
  qed
  show ?thesis
  proof (cases "unat (m_uGetOffset b) \<le> MAX_CVBUFFER_SIZE")
    case True
    from cv_AlignBuf_offset [OF al] cv_Jump_offset [OF n True] show ?thesis by auto
  next
    case False
    have "m_uOffset (cv_Jump ?n b) = m_uOffset b" by (simp add: cv_Jump_def Let_def)
    with cv_AlignBuf_offset [OF al] False show ?thesis by simp
  qed
qed

lemma read_packet_measure:
  assumes "tcp_read_packet t = (Ret None, t')"
  shows "tcp_measure t' \<le> 2 * unat (m_uOffset (m_vReceiveBuffer t)) \<and>
    (0 < unat (m_uGetOffset (m_vReceiveBuffer t)) \<longrightarrow>
      unat (m_uGetOffset (m_vReceiveBuffer t)) \<le> unat (m_uOffset (m_vReceiveBuffer t)) \<longrightarrow>
      unat (m_uGetOffset (m_vReceiveBuffer t)) \<le> MAX_CVBUFFER_SIZE \<longrightarrow>
      tcp_measure t' < 2 * unat (m_uOffset (m_vReceiveBuffer t)))"
proof -
  from assms obtain t1 where t1: "tcp_ProcessOnePacket t = (Ret (), t1)" "t' = t1\<lparr>m_state := ReadPacketLen\<rparr>"
    by (auto simp: tcp_read_packet_def mseq_eq_Ret split: if_splits)
  from ProcessOnePacket_offset [OF t1(1) refl refl] t1(2) show ?thesis by (auto simp: tcp_measure_def)
qed

lemma tcp_body_measure:
  assumes "tcp_body t = (Ret None, t')"
  shows "tcp_measure t' < tcp_measure t"
proof (cases "m_state t")
  case ReadPacket
  with assms read_packet_measure [of t t'] show ?thesis by (auto simp: tcp_body_def tcp_measure_def)
next
  case ReadPacketLen
  let ?b = "m_vReceiveBuffer t"
  from assms ReadPacketLen obtain r b1 tot siz where
    r: "cv_Get_obj 2 ?b = (Ret r, b1)" "r \<noteq> None"
      "tcp_read_packet (t\<lparr>m_vReceiveBuffer := b1, m_iTotalPackLen := tot, m_state := ReadPacket,
        m_iDataSize := siz\<rparr>) = (Ret None, t')"
    by (cases "fst (cv_Get_obj 2 ?b)")
      (auto simp: tcp_body_def tcp_read_len_def mbind_eq_Ret on_buffer_Ret Let_def ntohs_0 split: if_splits option.splits)
  from r(1,2) have b1: "m_uOffset b1 = m_uOffset ?b" "m_uGetOffset b1 = m_uGetOffset ?b + 2"
    "\<not> m_uOffset ?b < m_uGetOffset ?b + 2" "unat (m_uGetOffset ?b) + 2 \<le> MAX_CVBUFFER_SIZE"
    by (auto simp: cv_Get_obj_def copy_out_def run_simps split: if_splits)
  then have "unat (m_uGetOffset b1) = unat (m_uGetOffset ?b) + 2" by (simp add: unat_add32)
  with b1 read_packet_measure [OF r(3)] ReadPacketLen show ?thesis
    by (simp add: tcp_measure_def word_less_nat_alt)
qed

text \<open>\<open>while (m_vReceiveBuffer.getSize())\<close>; \<open>return 0\<close> follows the loop.\<close>

function tcp_loop :: "'a tcp_task_scheme \<Rightarrow> int result \<times> 'a tcp_task_scheme" where
  "tcp_loop t =
     (if cv_getSize (m_vReceiveBuffer t) = 0 then (Ret 0, t)
      else case tcp_body t of
        (Ret None, t') \<Rightarrow> tcp_loop t'
      | (Ret (Some v), t') \<Rightarrow> (Ret v, t')
      | (Exn e, t') \<Rightarrow> (Exn e, t')
      | (Stuck k, t') \<Rightarrow> (Stuck k, t'))"
  by pat_completeness auto
termination
  by (relation "measure tcp_measure") (auto dest: tcp_body_measure [OF sym])

declare tcp_loop.simps [simp del]

section \<open>RecvProcess\<close>

text \<open>
  One \<open>recv\<close> with \<open>MSG_DONTWAIT\<close> to the address \<open>JumpBuffer()\<close>, then the loop. A full buffer
  (\<open>uMaxReceive\<close> 0) goes on with what it has.
\<close>

definition tcp_RecvProcess :: "('a tcp_task_scheme, int) proc" where
  "tcp_RecvProcess t =
     (let uMaxReceive = of_nat MAX_CVBUFFER_SIZE - cv_getSize (m_vReceiveBuffer t)
      in case sys_recv (unat uMaxReceive) False (rx_events t) of
        (None, q) \<Rightarrow> (Ret 0, t\<lparr>rx_events := q, bt_errno := EAGAIN\<rparr>)
      | (Some (Inl e), q) \<Rightarrow>
          (Ret (if e = EAGAIN \<or> e = EINTR then 0 else -1), t\<lparr>rx_events := q, bt_errno := e\<rparr>)
      | (Some (Inr bs), q) \<Rightarrow>
          let t = t\<lparr>rx_events := q\<rparr> in
          if bs = [] \<and> uMaxReceive \<noteq> 0 then (Ret (-1), t)
          else mseq (on_buffer (copy_in (cv_JumpBuffer (m_vReceiveBuffer t)) bs (length bs)))
                 (mseq (on_buffer (cv_AddDataSize (of_nat (length bs)))) tcp_loop) t)"

definition tcp_SendProcess :: "('a tcp_task_scheme, int) proc" where
  "tcp_SendProcess = bt_SendProcess tcp_SendData"

definition tcp_HandleProcess :: "nat \<Rightarrow> ('a tcp_task_scheme, int) proc" where
  "tcp_HandleProcess = bt_HandleProcess tcp_RecvProcess tcp_SendProcess"

section \<open>Whole packets\<close>

text \<open>A packet on the wire: its own length, header included, in network order, and the body.\<close>

definition frame :: "string \<Rightarrow> string" where
  "frame m = wire_bytes (F16 (of_nat (length m + 2))) @ m"

abbreviation frame_max :: nat where "frame_max \<equiv> 32767"

lemma length_frame [simp]: "length (frame m) = length m + 2"
  by (simp add: frame_def del: wire_bytes.simps)

lemma frame_ne [simp]: "frame m \<noteq> []"
  using length_frame [of m] by (metis add_2_eq_Suc' length_0_conv nat.distinct(1))

text \<open>Reading the length field.\<close>

lemma ntohs_wire: "ntohs (word_of_nat (le_value (wire_bytes (F16 v)))) = v"
  using wire_field_bytes [of "F16 v"] by (simp del: wire_field_bytes wire_bytes.simps)

lemma Get_short:
  assumes "cv_inv b" "cv_unread b = wire_bytes (F16 v) @ rest"
  shows "\<exists>b'. cv_Get_obj 2 b = (Ret (Some (wire_bytes (F16 v))), b') \<and> cv_inv b' \<and> cv_unread b' = rest \<and>
    m_uOffset b' = m_uOffset b \<and> m_uGetOffset b' = m_uGetOffset b + 2"
proof -
  have len: "length (wire_bytes (F16 v)) = 2" by (simp del: wire_bytes.simps)
  have eq: "cv_Get_obj 2 = cv_Get True 2" using cv_Get_obj_eq [of 2] by simp
  from cv_Get_bytes [OF assms(1), of 2] assms(2) len obtain b' where
    b': "cv_Get True 2 b = (Ret (Some (wire_bytes (F16 v))), b')" "cv_inv b'" "cv_unread b' = rest"
      "m_uOffset b' = m_uOffset b" by (auto simp del: wire_bytes.simps)
  moreover from b'(1) have "m_uGetOffset b' = m_uGetOffset b + 2"
    by (auto simp: cv_Get_def run_simps copy_out_def split: if_splits)
  ultimately show ?thesis by (auto simp: eq)
qed

text \<open>The body, taken from the buffer at the read offset.\<close>

lemma ProcessOnePacket_body:
  assumes "cv_inv (m_vReceiveBuffer t)" "cv_unread (m_vReceiveBuffer t) = m @ rest"
    "m_iDataSize t = of_nat (length m)" "length m \<le> frame_max"
  shows "\<exists>b'. tcp_ProcessOnePacket t =
      (Ret (), t\<lparr>m_vReceiveBuffer := b', put_msgs := put_msgs t @ [m]\<rparr>) \<and>
    cv_inv b' \<and> cv_unread b' = rest \<and> m_uGetOffset b' = 0"
proof -
  let ?b = "m_vReceiveBuffer t" and ?w = "of_nat (length m) :: 32 word"
  have size: "sint (m_iDataSize t) = int (length m)"
    using assms(3,4) by (simp add: sint_uint unsigned_of_nat take_bit_nat_eq_self signed_take_bit_int_eq_self)
  then have sg: "(signed (m_iDataSize t) :: 32 word) = ?w" by (metis of_int_of_nat_eq of_int_sint)
  have w: "unat ?w = length m" using assms(4) by (simp add: unsigned_of_nat take_bit_nat_eq_self)
  have bound: "unat (m_uGetOffset ?b) + length m \<le> unat (m_uOffset ?b)" "unat (m_uOffset ?b) \<le> MAX_CVBUFFER_SIZE"
    using assms(1,2) length_cv_unread [of ?b] by (auto simp: cv_inv_def)
  have read: "copy_out (cv_JumpBuffer ?b) (length m) ?b = (Ret m, ?b)"
  proof (cases "m = []")
    case True
    then show ?thesis using bound by (simp add: copy_out_def cv_JumpBuffer_def)
  next
    case False
    then have "0 < length m" by simp
    with bound(1) have "m_uGetOffset ?b < m_uOffset ?b" unfolding word_less_nat_alt by linarith
    moreover have "read_mem (unat (m_uGetOffset ?b)) (length m) (m_Buffer ?b) = take (length m) (cv_unread ?b)"
      unfolding cv_unread_def by (rule read_mem_take) (use bound in simp)
    ultimately show ?thesis using bound assms(2) by (simp add: copy_out_def cv_JumpBuffer_def)
  qed
  from cv_Jump_inv [OF assms(1), of ?w] cv_AlignBuf_spec obtain b' where
    b': "cv_AlignBuf (cv_Jump ?w ?b) = (Ret True, b')" "cv_inv b'"
      "cv_unread b' = cv_unread (cv_Jump ?w ?b)" "m_uGetOffset b' = 0" by blast
  have "cv_unread b' = rest"
    using cv_Jump_unread [OF assms(1), of ?w] b'(3) assms(2) w bound by simp
  moreover have "tcp_ProcessOnePacket t = (Ret (), t\<lparr>m_vReceiveBuffer := b', put_msgs := put_msgs t @ [m]\<rparr>)"
    using size sg read b'(1) by (simp add: tcp_ProcessOnePacket_def on_buffer_def send_msg_new_def run_simps)
  ultimately show ?thesis using b'(2,4) by blast
qed

text \<open>The task between two packets: an aligned buffer whose bytes are the beginning of a packet.\<close>

definition tcp_ready :: "'a tcp_task_scheme \<Rightarrow> bool" where
  "tcp_ready t \<longleftrightarrow> m_state t = ReadPacketLen \<and> cv_inv (m_vReceiveBuffer t) \<and> m_uGetOffset (m_vReceiveBuffer t) = 0"

lemma ready_size: "tcp_ready t \<Longrightarrow> unat (cv_getSize (m_vReceiveBuffer t)) = length (cv_unread (m_vReceiveBuffer t))"
  by (simp add: tcp_ready_def length_cv_unread cv_getSize_def)

lemma tcp_body_frame:
  assumes "tcp_ready t" "cv_unread (m_vReceiveBuffer t) = frame m @ rest" "length m \<le> frame_max"
  shows "\<exists>t'. tcp_body t = (Ret None, t') \<and> tcp_ready t' \<and> cv_unread (m_vReceiveBuffer t') = rest \<and>
    put_msgs t' = put_msgs t @ [m] \<and> rx_events t' = rx_events t"
proof -
  let ?b = "m_vReceiveBuffer t" and ?v = "of_nat (length m + 2) :: 16 word"
  have inv: "cv_inv ?b" and ub: "cv_unread ?b = wire_bytes (F16 ?v) @ m @ rest"
    using assms(1,2) by (simp_all add: tcp_ready_def frame_def)
  from Get_short [OF this] obtain b1 where b1: "cv_Get_obj 2 ?b = (Ret (Some (wire_bytes (F16 ?v))), b1)"
    "cv_inv b1" "cv_unread b1 = m @ rest" "m_uOffset b1 = m_uOffset ?b" by blast
  have v: "unat ?v = length m + 2"
    by (subst unsigned_of_nat) (use assms(3) in \<open>simp add: take_bit_nat_eq_self\<close>)
  define t1 where "t1 = t\<lparr>m_vReceiveBuffer := b1, m_iTotalPackLen := int (length m + 2),
    m_state := ReadPacket, m_iDataSize := of_nat (length m)\<rparr>"
  have size: "unat (cv_getSize ?b) = length m + 2 + length rest"
    using ready_size [OF assms(1)] ub by (simp del: wire_bytes.simps)
  have len: "tcp_read_len t = tcp_read_packet t1"
  proof -
    have "\<not> cv_getSize ?b < 2" using size by (simp add: word_less_nat_alt)
    moreover have "uint ?v = int (length m + 2)" using v by (simp only: uint_nat)
    moreover have "(of_int (int (length m + 2) - 2) :: 16 word) = of_nat (length m)" by simp
    ultimately show ?thesis using b1(1) v assms(3)
      by (simp add: tcp_read_len_def mbind_Ret on_buffer_def run_simps ntohs_wire Let_def t1_def del: wire_bytes.simps)
  qed
  have "tcp_PacketFinished t1"
  proof -
    have "unat (of_nat (length m + 2) :: 32 word) = length m + 2"
      by (subst unsigned_of_nat) (use assms(3) in \<open>simp add: take_bit_nat_eq_self\<close>)
    then show ?thesis using size b1(4)
      by (simp add: tcp_PacketFinished_def t1_def word_le_nat_alt cv_getSize_def)
  qed
  moreover obtain b' where "tcp_ProcessOnePacket t1 = (Ret (), t1\<lparr>m_vReceiveBuffer := b', put_msgs := put_msgs t1 @ [m]\<rparr>)"
    "cv_inv b'" "cv_unread b' = rest" "m_uGetOffset b' = 0"
    using ProcessOnePacket_body [of t1 m rest] b1(2,3) assms(3) by (auto simp: t1_def)
  ultimately show ?thesis using assms(1)
    by (simp add: tcp_body_def tcp_ready_def len tcp_read_packet_def mseq_Ret) (simp add: t1_def)
qed

lemma tcp_loop_frames:
  assumes "tcp_ready t" "cv_unread (m_vReceiveBuffer t) = concat (map frame ms) @ rest"
    "list_all (\<lambda>m. length m \<le> frame_max) ms"
  shows "\<exists>t'. tcp_loop t = tcp_loop t' \<and> tcp_ready t' \<and> cv_unread (m_vReceiveBuffer t') = rest \<and>
    put_msgs t' = put_msgs t @ ms \<and> rx_events t' = rx_events t"
  using assms
proof (induction ms arbitrary: t)
  case (Cons m ms)
  obtain t1 where t1: "tcp_body t = (Ret None, t1)" "tcp_ready t1"
    "cv_unread (m_vReceiveBuffer t1) = concat (map frame ms) @ rest" "put_msgs t1 = put_msgs t @ [m]"
    "rx_events t1 = rx_events t"
    using tcp_body_frame [OF Cons.prems(1), of m] Cons.prems(2,3) by auto
  have "cv_getSize (m_vReceiveBuffer t) \<noteq> 0"
    using ready_size [OF Cons.prems(1)] Cons.prems(2) by (auto simp flip: unat_gt_0)
  then have "tcp_loop t = tcp_loop t1" using t1(1) by (subst tcp_loop.simps) simp
  with Cons.IH [OF t1(2,3)] Cons.prems(3) t1(4,5) show ?case by auto
qed auto

text \<open>What is left over is the beginning of a packet: one byte, or at least the length field.\<close>

lemma tcp_loop_empty: "cv_getSize (m_vReceiveBuffer t) = 0 \<Longrightarrow> tcp_loop t = (Ret 0, t)"
  by (simp add: tcp_loop.simps)

lemma tcp_loop_one_byte:
  assumes "tcp_ready t" "length (cv_unread (m_vReceiveBuffer t)) = 1"
  shows "tcp_loop t = (Ret 1, t)"
proof -
  have "unat (cv_getSize (m_vReceiveBuffer t)) = 1" using ready_size [OF assms(1)] assms(2) by simp
  then have "cv_getSize (m_vReceiveBuffer t) = 1" by (metis unat_1 word_unat_eq_iff)
  then show ?thesis using assms(1) by (subst tcp_loop.simps) (simp add: tcp_body_def tcp_ready_def tcp_read_len_def)
qed

lemma tcp_loop_partial:
  assumes "tcp_ready t" "cv_unread (m_vReceiveBuffer t) = take k (frame m)" "2 \<le> k" "k < length (frame m)"
    "length m \<le> frame_max"
  shows "\<exists>t'. tcp_loop t = (Ret 1, t') \<and> m_state t' = ReadPacket \<and> cv_inv (m_vReceiveBuffer t') \<and>
    m_uGetOffset (m_vReceiveBuffer t') = 2 \<and> unat (m_uOffset (m_vReceiveBuffer t')) = k \<and>
    m_iTotalPackLen t' = int (length m + 2) \<and> m_iDataSize t' = of_nat (length m) \<and>
    put_msgs t' = put_msgs t \<and> rx_events t' = rx_events t"
proof -
  let ?b = "m_vReceiveBuffer t" and ?v = "of_nat (length m + 2) :: 16 word"
  have len2: "length (wire_bytes (F16 ?v)) = 2" by (simp del: wire_bytes.simps)
  then have "take k (frame m) = wire_bytes (F16 ?v) @ take (k - 2) m"
    using assms(3) by (simp add: frame_def del: wire_bytes.simps)
  with assms(1,2) have inv: "cv_inv ?b" and ub: "cv_unread ?b = wire_bytes (F16 ?v) @ take (k - 2) m"
    by (simp_all add: tcp_ready_def)
  from Get_short [OF this] obtain b1 where b1: "cv_Get_obj 2 ?b = (Ret (Some (wire_bytes (F16 ?v))), b1)"
    "cv_inv b1" "m_uOffset b1 = m_uOffset ?b" "m_uGetOffset b1 = m_uGetOffset ?b + 2" by blast
  have k: "unat (cv_getSize ?b) = k"
    using ready_size [OF assms(1)] assms(2,4) by (simp del: length_frame) 
  have "unat ?v = length m + 2"
    by (subst unsigned_of_nat) (use assms(5) in \<open>simp add: take_bit_nat_eq_self\<close>)
  then have u: "uint ?v = int (length m + 2)" by (simp only: uint_nat)
  have dsize: "(of_int (int (length m + 2) - 2) :: 16 word) = of_nat (length m)" by simp
  define t1 where "t1 = t\<lparr>m_vReceiveBuffer := b1, m_iTotalPackLen := int (length m + 2),
    m_state := ReadPacket, m_iDataSize := of_nat (length m)\<rparr>"
  have big: "\<not> cv_getSize ?b < 2" "cv_getSize ?b \<noteq> 0" using k assms(3) by (auto simp: word_less_nat_alt)
  have "unat (of_nat (length m + 2) :: 32 word) = length m + 2"
    by (subst unsigned_of_nat) (use assms(5) in \<open>simp add: take_bit_nat_eq_self\<close>)
  then have "\<not> tcp_PacketFinished t1"
    using k b1(3) assms(4) by (simp add: tcp_PacketFinished_def t1_def word_le_nat_alt cv_getSize_def)
  then have "tcp_read_packet t1 = (Ret (Some 1), t1)" by (simp add: tcp_read_packet_def)
  then have "tcp_body t = (Ret (Some 1), t1)"
    using b1(1) u assms(1,5) dsize big(1)
    by (simp add: tcp_body_def tcp_ready_def tcp_read_len_def mbind_Ret on_buffer_def run_simps ntohs_wire
        Let_def t1_def del: wire_bytes.simps)
  then have "tcp_loop t = (Ret 1, t1)" using big(2) by (subst tcp_loop.simps) simp
  moreover have "m_uGetOffset b1 = 2" "unat (m_uOffset b1) = k"
    using b1(3,4) assms(1) k by (simp_all add: tcp_ready_def cv_getSize_def)
  ultimately show ?thesis using b1(2) by (simp add: t1_def)
qed

lemma recv_chunk:
  assumes "tcp_ready t" "cv_unread (m_vReceiveBuffer t) = []" "rx_events t = rx_put bs q"
    "bs \<noteq> []" "length bs \<le> MAX_CVBUFFER_SIZE"
  shows "\<exists>b. tcp_RecvProcess t = tcp_loop (t\<lparr>rx_events := q, m_vReceiveBuffer := b\<rparr>) \<and>
    tcp_ready (t\<lparr>rx_events := q, m_vReceiveBuffer := b\<rparr>) \<and> cv_unread b = bs"
proof -
  let ?b = "m_vReceiveBuffer t"
  define b' where "b' = ?b\<lparr>m_Buffer := write_mem 0 bs (m_Buffer ?b), m_uOffset := of_nat (length bs)\<rparr>"
  have off: "m_uOffset ?b = 0" "m_uGetOffset ?b = 0"
    using assms(1,2) length_cv_unread [of ?b] by (auto simp: tcp_ready_def unat_eq_zero)
  obtain c cs where bs: "bs = c # cs" using assms(4) by (cases bs) auto
  have n: "unat (of_nat (length bs) :: 32 word) = length bs"
    using assms(5) by (simp add: unsigned_of_nat take_bit_nat_eq_self)
  have "tcp_RecvProcess t = tcp_loop (t\<lparr>rx_events := q, m_vReceiveBuffer := b'\<rparr>)"
    using assms(3,5) bs off
    by (simp add: tcp_RecvProcess_def cv_getSize_def rx_put_def Let_def mseq_run on_buffer_def copy_in_def
        cv_JumpBuffer_def cv_AddDataSize_def b'_def)
  moreover have "cv_unread b' = bs"
    using read_mem_written [of 0 bs] off n by (simp add: b'_def cv_unread_def)
  moreover have "cv_inv b'" using off n assms(5) by (simp add: b'_def cv_inv_def)
  ultimately show ?thesis using assms(1) off by (auto simp: tcp_ready_def b'_def)
qed

text \<open>A later chunk goes to the read offset; with the packet complete, the loop hands it over.\<close>

lemma recv_over_partial:
  assumes "cv_inv (m_vReceiveBuffer t)" "m_uGetOffset (m_vReceiveBuffer t) = 2"
    "unat (m_uOffset (m_vReceiveBuffer t)) = k" "2 < k" "rx_events t = rx_put bs q" "bs \<noteq> []"
    "length bs + k \<le> MAX_CVBUFFER_SIZE"
  shows "\<exists>b. tcp_RecvProcess t = tcp_loop (t\<lparr>rx_events := q, m_vReceiveBuffer := b\<rparr>) \<and> cv_inv b \<and>
    m_uGetOffset b = 2 \<and> unat (m_uOffset b) = k + length bs \<and> take (length bs) (cv_unread b) = bs"
proof -
  let ?b = "m_vReceiveBuffer t"
  define b' where "b' = ?b\<lparr>m_Buffer := write_mem 2 bs (m_Buffer ?b), m_uOffset := m_uOffset ?b + of_nat (length bs)\<rparr>"
  obtain c cs where bs: "bs = c # cs" using assms(6) by (cases bs) auto
  have n: "unat (of_nat (length bs) :: 32 word) = length bs"
    using assms(7) by (simp add: unsigned_of_nat take_bit_nat_eq_self)
  have off: "unat (m_uOffset b') = k + length bs"
    using assms(3,7) n by (simp add: b'_def unat_add32)
  have room: "unat (of_nat MAX_CVBUFFER_SIZE - m_uOffset ?b) = MAX_CVBUFFER_SIZE - k"
    using assms(3,7) by (subst unat_sub32) simp_all
  have "cv_JumpBuffer ?b = 2" using assms(2-4) by (simp add: cv_JumpBuffer_def word_less_nat_alt)
  with bs room assms(4,5,7) have "tcp_RecvProcess t = tcp_loop (t\<lparr>rx_events := q, m_vReceiveBuffer := b'\<rparr>)"
    by (simp add: tcp_RecvProcess_def cv_getSize_def rx_put_def Let_def mseq_run on_buffer_def copy_in_def
        cv_AddDataSize_def b'_def)
  moreover have "cv_inv b'" "m_uGetOffset b' = 2"
    using off assms(2,4,7) by (simp_all add: cv_inv_def) (simp_all add: b'_def)
  moreover have "take (length bs) (cv_unread b') = bs"
  proof -
    have "take (length bs) (cv_unread b') = read_mem 2 (length bs) (m_Buffer b')"
      using off assms(4) \<open>m_uGetOffset b' = 2\<close> by (simp add: cv_unread_def flip: read_mem_take)
    then show ?thesis using read_mem_written [of 2 bs] by (simp add: b'_def)
  qed
  ultimately show ?thesis using off by blast
qed

lemma tcp_loop_complete:
  assumes "m_state t = ReadPacket" "cv_inv (m_vReceiveBuffer t)" "m_iTotalPackLen t = int (length msg + 2)"
    "m_iDataSize t = of_nat (length msg)" "cv_unread (m_vReceiveBuffer t) = msg"
    "unat (m_uOffset (m_vReceiveBuffer t)) = length msg + 2" "length msg \<le> frame_max"
  shows "\<exists>t'. tcp_loop t = (Ret 0, t') \<and> put_msgs t' = put_msgs t @ [msg]"
proof -
  obtain b where b: "tcp_ProcessOnePacket t = (Ret (), t\<lparr>m_vReceiveBuffer := b, put_msgs := put_msgs t @ [msg]\<rparr>)"
      "cv_unread b = []" "m_uGetOffset b = 0"
    using ProcessOnePacket_body [of t msg "[]"] assms(2,4,5,7) by auto
  let ?t = "t\<lparr>m_vReceiveBuffer := b, put_msgs := put_msgs t @ [msg], m_state := ReadPacketLen\<rparr>"
  have "unat (of_nat (length msg + 2) :: 32 word) = length msg + 2"
    by (subst unsigned_of_nat) (use assms(7) in \<open>simp add: take_bit_nat_eq_self\<close>)
  then have "tcp_PacketFinished t"
    using assms(3,6) by (simp add: tcp_PacketFinished_def word_le_nat_alt cv_getSize_def)
  then have "tcp_body t = (Ret None, ?t)"
    using assms(1) b(1) by (simp add: tcp_body_def tcp_read_packet_def mseq_Ret)
  moreover have "cv_getSize (m_vReceiveBuffer t) \<noteq> 0" using assms(6) by (auto simp: cv_getSize_def)
  ultimately have "tcp_loop t = tcp_loop ?t" by (subst tcp_loop.simps) simp
  also have "\<dots> = (Ret 0, ?t)"
    by (rule tcp_loop_empty) (use b(2,3) length_cv_unread [of b] in \<open>simp add: cv_getSize_def unat_eq_zero\<close>)
  finally show ?thesis by simp
qed

section \<open>Properties\<close>

text \<open>C28: Whole packets with bodies of at most 32767 bytes, possibly followed by the beginning of another one, which
  arrive together in one \<open>recv\<close>, at most 64 KiB, while the task waits for a length field with an empty receive
  buffer, are received in one call: every body is handed over, in order and unchanged, and the call returns 0
  when nothing is left over, 1 (more data needed) otherwise. (Longer bodies, and packets that arrive in pieces, are
  not received: \<open>tcp_RecvProcess_bad_length\<close>, \<open>tcp_RecvProcess_split_packet\<close>.)\<close>

theorem tcp_RecvProcess_packets:
  assumes "tcp_ready t" "cv_unread (m_vReceiveBuffer t) = []"
    "rx_events t = rx_put (concat (map frame ms) @ take k (frame m)) q"
    "concat (map frame ms) @ take k (frame m) \<noteq> []" "k < length (frame m)"
    "length (concat (map frame ms) @ take k (frame m)) \<le> MAX_CVBUFFER_SIZE"
    "list_all (\<lambda>m. length m \<le> frame_max) (m # ms)"
  shows "\<exists>t'. tcp_RecvProcess t = (Ret (if k = 0 then 0 else 1), t') \<and>
    put_msgs t' = put_msgs t @ ms \<and> rx_events t' = q"
proof -
  from recv_chunk [OF assms(1-4,6)] obtain b where
    b: "tcp_RecvProcess t = tcp_loop (t\<lparr>rx_events := q, m_vReceiveBuffer := b\<rparr>)"
      "tcp_ready (t\<lparr>rx_events := q, m_vReceiveBuffer := b\<rparr>)"
      "cv_unread b = concat (map frame ms) @ take k (frame m)" by blast
  with tcp_loop_frames [of "t\<lparr>rx_events := q, m_vReceiveBuffer := b\<rparr>" ms "take k (frame m)"] assms(7)
  obtain t1 where t1: "tcp_RecvProcess t = tcp_loop t1" "tcp_ready t1"
    "cv_unread (m_vReceiveBuffer t1) = take k (frame m)" "put_msgs t1 = put_msgs t @ ms" "rx_events t1 = q"
    by auto
  have size: "unat (cv_getSize (m_vReceiveBuffer t1)) = k"
    using ready_size [OF t1(2)] t1(3) assms(5) by simp
  consider "k = 0" | "k = 1" | "2 \<le> k" by linarith
  then show ?thesis
  proof cases
    case 1
    with size have "cv_getSize (m_vReceiveBuffer t1) = 0" by (simp add: unat_eq_zero)
    with tcp_loop_empty [of t1] t1 1 show ?thesis by simp
  next
    case 2
    with t1(3) have "length (cv_unread (m_vReceiveBuffer t1)) = 1" by simp
    with tcp_loop_one_byte [OF t1(2)] t1 2 show ?thesis by simp
  next
    case 3
    with tcp_loop_partial [OF t1(2,3)] t1 assms(5,7) show ?thesis by auto
  qed
qed

definition demo_tcp :: "rx list \<Rightarrow> tcp_task" where
  "demo_tcp q = (tcp_new 5 \<lparr>m_Buffer = \<lambda>_. CHR 0x00, m_uOffset = 9, m_uGetOffset = 3\<rparr>)\<lparr>rx_events := q\<rparr>"

lemma demo_tcp_simps [simp]:
  "tcp_ready (demo_tcp q)" "cv_unread (m_vReceiveBuffer (demo_tcp q)) = []"
  "rx_events (demo_tcp q) = q" "put_msgs (demo_tcp q) = []"
  by (simp_all add: demo_tcp_def tcp_new_def tcp_ready_def tcp_task.defs base_task.defs bt_new_def cv_new_def
      cv_Clear_def cv_inv_def length_cv_unread flip: length_0_conv)

theorem tcp_RecvProcess_packets_witness:
  "\<exists>t'. tcp_RecvProcess (demo_tcp (rx_put (concat (map frame [''ab'', ''c'']) @ take 3 (frame ''xyz'')) [Closed]))
     = (Ret 1, t') \<and> put_msgs t' = [''ab'', ''c''] \<and> rx_events t' = [Closed]"
  using tcp_RecvProcess_packets [of "demo_tcp (rx_put (concat (map frame [''ab'', ''c'']) @ take 3 (frame ''xyz'')) [Closed])"
    "[''ab'', ''c'']" 3 "''xyz''" "[Closed]"] by simp

text \<open>A packet that arrives in two chunks, the first one longer than the length field, is handed over
  corrupted: the second chunk is received at the read offset, over the unread part of the first, so the
  body begins with the second chunk (and ends with bytes that do not belong to it).\<close>

theorem tcp_RecvProcess_split_packet:
  assumes "tcp_ready t" "cv_unread (m_vReceiveBuffer t) = []"
    "rx_events t = rx_put c1 (rx_put c2 q)" "c1 @ c2 = frame m" "2 < length c1" "c2 \<noteq> []"
    "length m \<le> frame_max"
  shows "\<exists>t1 t2 msg. tcp_RecvProcess t = (Ret 1, t1) \<and> tcp_RecvProcess t1 = (Ret 0, t2) \<and>
    put_msgs t2 = put_msgs t @ [msg] \<and> length msg = length m \<and> take (length c2) msg = c2"
proof -
  let ?k = "length c1"
  have len: "?k + length c2 = length m + 2" using assms(4) by (metis length_append length_frame)
  have c1: "c1 = take ?k (frame m)" using assms(4) by (metis append_eq_conv_conj)
  have k: "2 \<le> ?k" "?k < length (frame m)" using len assms(5,6) by (cases c2; simp)+
  have "c1 \<noteq> []" "?k \<le> MAX_CVBUFFER_SIZE" using assms(5,7) len by auto
  from recv_chunk [OF assms(1-3) this] obtain b where
    b: "tcp_RecvProcess t = tcp_loop (t\<lparr>rx_events := rx_put c2 q, m_vReceiveBuffer := b\<rparr>)"
      "tcp_ready (t\<lparr>rx_events := rx_put c2 q, m_vReceiveBuffer := b\<rparr>)" "cv_unread b = c1" by blast
  from tcp_loop_partial [OF b(2) _ k assms(7)] b(1,3) c1 obtain t1 where
    t1: "tcp_RecvProcess t = (Ret 1, t1)" "m_state t1 = ReadPacket" "cv_inv (m_vReceiveBuffer t1)"
      "m_uGetOffset (m_vReceiveBuffer t1) = 2" "unat (m_uOffset (m_vReceiveBuffer t1)) = ?k"
      "m_iTotalPackLen t1 = int (length m + 2)" "m_iDataSize t1 = of_nat (length m)"
      "put_msgs t1 = put_msgs t" "rx_events t1 = rx_put c2 q" by auto
  have "length c2 + ?k \<le> MAX_CVBUFFER_SIZE" using len assms(7) by simp
  from recv_over_partial [OF t1(3-5) assms(5) t1(9) assms(6) this] obtain b2 where
    b2: "tcp_RecvProcess t1 = tcp_loop (t1\<lparr>rx_events := q, m_vReceiveBuffer := b2\<rparr>)" "cv_inv b2"
      "m_uGetOffset b2 = 2" "unat (m_uOffset b2) = length m + 2" "take (length c2) (cv_unread b2) = c2"
    using len by auto
  have msg: "length (cv_unread b2) = length m" using b2(3,4) by (simp add: length_cv_unread)
  obtain t2 where "tcp_RecvProcess t1 = (Ret 0, t2)" "put_msgs t2 = put_msgs t1 @ [cv_unread b2]"
    using tcp_loop_complete [of "t1\<lparr>rx_events := q, m_vReceiveBuffer := b2\<rparr>" "cv_unread b2"]
      t1(2,6,7) b2(1,2,4) msg assms(7) by auto
  with t1(1,8) msg b2(5) show ?thesis by auto
qed

theorem tcp_RecvProcess_split_packet_witness:
  "\<exists>t1 t2 msg. tcp_RecvProcess (demo_tcp (rx_put (take 4 (frame ''abcdef'')) (rx_put ''cdef'' []))) = (Ret 1, t1) \<and>
    tcp_RecvProcess t1 = (Ret 0, t2) \<and> put_msgs t2 = [msg] \<and> take 4 msg = ''cdef''"
proof -
  let ?t = "demo_tcp (rx_put (take 4 (frame ''abcdef'')) (rx_put ''cdef'' []))"
  have whole: "take 4 (frame ''abcdef'') @ ''cdef'' = frame ''abcdef''"
    by (simp add: frame_def del: wire_bytes.simps)
  have "2 < length (take 4 (frame ''abcdef''))" "''cdef'' \<noteq> []" "length ''abcdef'' \<le> frame_max" by simp_all
  from tcp_RecvProcess_split_packet [OF demo_tcp_simps(1-3) whole this] obtain t1 t2 msg where
    "tcp_RecvProcess ?t = (Ret 1, t1)" "tcp_RecvProcess t1 = (Ret 0, t2)"
    "put_msgs t2 = put_msgs ?t @ [msg]" "take (length ''cdef'') msg = ''cdef''" by blast
  moreover have "length ''cdef'' = 4" by simp
  ultimately show ?thesis by (metis append_Nil demo_tcp_simps(4))
qed

text \<open>The size of the body is kept in a \<open>short\<close>: these length fields make it negative.\<close>

lemma negative_size:
  fixes v :: "16 word"
  assumes "unat v = 1 \<or> 32770 \<le> unat v"
  shows "sint (of_int (uint v - 2) :: 16 word) < 0"
proof -
  have u: "uint v = 1 \<or> 32770 \<le> uint v" using assms unfolding uint_nat by linarith
  have lt: "uint v < 65536" using uint_lt2p [of v] by simp
  have "odd ((uint v - 2) div 32768)"
  proof (cases "uint v = 1")
    case False
    with u lt have "(uint v - 2) div 32768 = 1"
      by (intro int_div_pos_eq [where r = "uint v - 2 - 32768"]) linarith+
    then show ?thesis by simp
  qed simp
  then show ?thesis by (subst signed_of_int) (simp add: signed_take_bit_negative_iff bit_iff_odd)
qed

lemma ProcessOnePacket_negative:
  assumes "sint (m_iDataSize t) < 0"
  shows "tcp_ProcessOnePacket t = (Stuck Undefined, t)"
proof -
  have "on_buffer (\<lambda>b. send_msg_new (sint (m_iDataSize t)) (cv_JumpBuffer b) b) t = (Stuck Undefined, t)"
    using assms by (simp add: on_buffer_def send_msg_new_def mstuck_run)
  then show ?thesis unfolding tcp_ProcessOnePacket_def by (rule mbind_Stuck)
qed

text \<open>A packet whose length field is 0 ends the connection (-1); a complete one whose length field is 1,
  or 32770 and more, gives the body a negative size: the copy of the body is undefined behaviour.\<close>

theorem tcp_RecvProcess_bad_length:
  assumes "tcp_ready t" "cv_unread (m_vReceiveBuffer t) = []"
    "rx_events t = rx_put (wire_bytes (F16 v) @ rest) q" "length rest + 2 \<le> MAX_CVBUFFER_SIZE"
    "unat v \<le> length rest + 2" "unat v = 0 \<or> unat v = 1 \<or> 32770 \<le> unat v"
  shows "fst (tcp_RecvProcess t) = (if unat v = 0 then Ret (-1) else Stuck Undefined)"
proof -
  let ?bs = "wire_bytes (F16 v) @ rest"
  have len: "length (wire_bytes (F16 v)) = 2" by (simp del: wire_bytes.simps)
  then have "?bs \<noteq> []" "length ?bs \<le> MAX_CVBUFFER_SIZE"
    using assms(4) by (cases "wire_bytes (F16 v)"; simp del: wire_bytes.simps)+
  from recv_chunk [OF assms(1-3) this] obtain b where
    b: "tcp_RecvProcess t = tcp_loop (t\<lparr>rx_events := q, m_vReceiveBuffer := b\<rparr>)"
      "tcp_ready (t\<lparr>rx_events := q, m_vReceiveBuffer := b\<rparr>)" "cv_unread b = ?bs" by blast
  let ?t = "t\<lparr>rx_events := q, m_vReceiveBuffer := b\<rparr>"
  have "cv_inv b" using b(2) by (simp add: tcp_ready_def)
  from Get_short [OF this b(3)] obtain b1 where b1:
    "cv_Get_obj 2 b = (Ret (Some (wire_bytes (F16 v))), b1)" "m_uOffset b1 = m_uOffset b" by blast
  have size: "unat (cv_getSize b) = length rest + 2"
    using ready_size [OF b(2)] b(3) len by (simp del: wire_bytes.simps)
  then have big: "\<not> cv_getSize b < 2" "cv_getSize b \<noteq> 0" by (auto simp: word_less_nat_alt)
  let ?t1 = "?t\<lparr>m_vReceiveBuffer := b1, m_iTotalPackLen := uint v\<rparr>"
  let ?t2 = "?t1\<lparr>m_state := ReadPacket, m_iDataSize := of_int (uint v - 2)\<rparr>"
  have lt: "uint v < 65536" using uint_lt2p [of v] by simp
  have body: "tcp_body ?t = (if uint v = 0 then (Ret (Some (-1)), ?t1) else tcp_read_packet ?t2)"
    using b(2) b1(1) big(1) lt uint_ge_0 [of v]
    by (simp add: tcp_body_def tcp_ready_def tcp_read_len_def mbind_Ret on_buffer_def ntohs_wire Let_def
        del: wire_bytes.simps)
  have loop: "tcp_loop ?t = (case tcp_body ?t of
        (Ret None, t') \<Rightarrow> tcp_loop t' | (Ret (Some v), t') \<Rightarrow> (Ret v, t')
      | (Exn e, t') \<Rightarrow> (Exn e, t') | (Stuck k, t') \<Rightarrow> (Stuck k, t'))"
    using big(2) by (subst tcp_loop.simps) simp
  show ?thesis
  proof (cases "unat v = 0")
    case True
    then have "uint v = 0" by (simp only: uint_nat of_nat_0)
    then show ?thesis using True by (simp add: b(1) loop body)
  next
    case False
    then have nz: "uint v \<noteq> 0" by (simp only: uint_nat of_nat_eq_0_iff not_False_eq_True)
    define t2 where "t2 = ?t2"
    have "sint (m_iDataSize t2) < 0"
      unfolding t2_def using negative_size [of v] False assms(6) by (simp del: signed_of_int)
    then have one: "tcp_ProcessOnePacket t2 = (Stuck Undefined, t2)" by (rule ProcessOnePacket_negative)
    have "unat (of_int (uint v) :: 32 word) = unat v"
      using unsigned_less [of v, where 'a = nat]
      by (simp only: uint_nat of_int_of_nat_eq unsigned_of_nat) (simp add: take_bit_nat_eq_self)
    then have "tcp_PacketFinished t2"
      using assms(5) size b1(2) by (simp add: t2_def tcp_PacketFinished_def word_le_nat_alt cv_getSize_def)
    with one have "tcp_read_packet t2 = (Stuck Undefined, t2)"
      by (simp add: tcp_read_packet_def mseq_def mbind_Stuck)
    with body nz have "tcp_body ?t = (Stuck Undefined, t2)" by (simp only: t2_def if_False)
    then show ?thesis using False b(1) loop by simp
  qed
qed

theorem tcp_RecvProcess_bad_length_witness:
  "fst (tcp_RecvProcess (demo_tcp (rx_put (wire_bytes (F16 1)) []))) = Stuck Undefined"
  using tcp_RecvProcess_bad_length [of "demo_tcp (rx_put (wire_bytes (F16 1)) [])" 1 "[]" "[]"]
  by (simp del: wire_bytes.simps)

end
