(* ===== verification/Udp_Task.thy ===== *)
theory Udp_Task
  imports Tcp_Task
begin

text \<open>
  \<open>CUdpTask\<close> (\<open>src/common/mytask.h\<close>, \<open>mytask.cpp\<close>): every datagram is one packet, with the same 16-bit
  length in front as on TCP, kept here in an \<open>unsigned short\<close>. The kernel is a queue of results of
  \<open>recvfrom\<close>; the addresses the datagrams come from and go to are not part of the model.
\<close>

section \<open>State\<close>

record udp_task = base_task +
  u_vReceiveBuffer :: cvbuffer
  u_iDataSize :: "16 word"
  u_events :: "(errno + string) list"
  u_put_msgs :: "string list"

definition on_udp_buffer :: "(cvbuffer, 'r) proc \<Rightarrow> ('a udp_task_scheme, 'r) proc" where
  "on_udp_buffer m t = (case m (u_vReceiveBuffer t) of (r, b) \<Rightarrow> (r, t\<lparr>u_vReceiveBuffer := b\<rparr>))"

section \<open>Receiving\<close>

definition udp_PacketFinished :: "('a udp_task_scheme, bool) proc" where
  "udp_PacketFinished =
     mbind (on_udp_buffer (cv_Get_obj 2))
       (\<lambda>r t. let iLen = (case r of None \<Rightarrow> 0 | Some bs \<Rightarrow> word_of_nat (le_value bs));
                  sLen = ntohs iLen
              in (Ret (unat sLen \<le> unat (cv_getSize (u_vReceiveBuffer t))), t\<lparr>u_iDataSize := sLen - 2\<rparr>))"

definition udp_ProcessOnePacket :: "('a udp_task_scheme, unit) proc" where
  "udp_ProcessOnePacket t =
     mbind (on_udp_buffer (\<lambda>b. send_msg_new (int (unat (u_iDataSize t))) (cv_JumpBuffer b) b))
       (\<lambda>pMsg t. (Ret (), t\<lparr>u_put_msgs := u_put_msgs t @ [pMsg]\<rparr>)) t"

text \<open>One datagram of the loop, from \<open>recvfrom\<close> (into the cleared buffer) to its end.\<close>

definition udp_datagram :: "string \<Rightarrow> ('a udp_task_scheme, unit) proc" where
  "udp_datagram bs =
     mseq (on_udp_buffer (copy_in 0 bs (length bs)))
     (mseq (on_udp_buffer (cv_AddDataSize (of_nat (length bs))))
     (mbind udp_PacketFinished (\<lambda>fin. if fin then udp_ProcessOnePacket else mret ())))"

text \<open>
  \<open>while (1)\<close>: the loop ends when \<open>recvfrom\<close> gives nothing, an error or an empty datagram, always with 0.
  The argument is the queue of events; a longer datagram is cut to the size of the buffer.
\<close>

primrec udp_loop :: "(errno + string) list \<Rightarrow> ('a udp_task_scheme, int) proc" where
  "udp_loop [] t = (Ret 0, t\<lparr>u_vReceiveBuffer := cv_Clear (u_vReceiveBuffer t), u_events := [], bt_errno := EAGAIN\<rparr>)"
| "udp_loop (ev # q) t =
     (let t = t\<lparr>u_vReceiveBuffer := cv_Clear (u_vReceiveBuffer t), u_events := q\<rparr> in
      case ev of
        Inl e \<Rightarrow> (Ret 0, t\<lparr>bt_errno := e\<rparr>)
      | Inr bs \<Rightarrow> if bs = [] then (Ret 0, t)
                 else mseq (udp_datagram (take MAX_CVBUFFER_SIZE bs)) (udp_loop q) t)"

definition udp_RecvProcess :: "('a udp_task_scheme, int) proc" where
  "udp_RecvProcess t = udp_loop (u_events t) t"

section \<open>Sending\<close>

text \<open>
  \<open>SendData\<close> starts every message from its first byte; on an error other than a retry the message is
  dropped and the next one may go.
\<close>

definition udp_SendData :: "'a base_task_scheme \<Rightarrow> int result \<times> 'a base_task_scheme" where
  "udp_SendData t = (case m_pCurSendMsg t of
     None \<Rightarrow> (Stuck Undefined, t)
   | Some m \<Rightarrow>
       (case sys_send m (t\<lparr>m_iCurSendLen := 0\<rparr>) of (retLen, t) \<Rightarrow>
          if retLen > 0 then
            let t = t\<lparr>m_iCurSendLen := nat retLen\<rparr> in
              if m_iCurSendLen t = length m
              then (Ret 0, t\<lparr>m_pCurSendMsg := None, m_iCurSendLen := 0\<rparr>)
              else (Ret 1, t)
          else if bt_errno t = EAGAIN \<or> bt_errno t = EINTR then (Ret 1, t)
          else (Ret 0, t\<lparr>m_pCurSendMsg := None\<rparr>)))"

definition udp_SendProcess :: "'a base_task_scheme \<Rightarrow> int result \<times> 'a base_task_scheme" where
  "udp_SendProcess = bt_SendProcess udp_SendData"

definition udp_HandleProcess :: "nat \<Rightarrow> ('a udp_task_scheme, int) proc" where
  "udp_HandleProcess = bt_HandleProcess udp_RecvProcess udp_SendProcess"

section \<open>Every datagram on its own\<close>

lemma on_udp_buffer_Ret:
  "m (u_vReceiveBuffer t) = (Ret r, b) \<Longrightarrow> on_udp_buffer m t = (Ret r, t\<lparr>u_vReceiveBuffer := b\<rparr>)"
  by (simp add: on_udp_buffer_def)

text \<open>The buffer after a datagram has been received into the cleared one.\<close>

definition udp_filled :: "string \<Rightarrow> cvbuffer \<Rightarrow> cvbuffer" where
  "udp_filled bs b = b\<lparr>m_uGetOffset := 0, m_Buffer := write_mem 0 bs (m_Buffer b), m_uOffset := of_nat (length bs)\<rparr>"

lemma udp_filled:
  assumes "length bs \<le> MAX_CVBUFFER_SIZE"
  shows "cv_inv (udp_filled bs b)" "cv_unread (udp_filled bs b) = bs"
    "unat (m_uOffset (udp_filled bs b)) = length bs"
proof -
  have n: "unat (of_nat (length bs) :: 32 word) = length bs"
    using assms by (simp add: unsigned_of_nat take_bit_nat_eq_self)
  then show "cv_inv (udp_filled bs b)" "unat (m_uOffset (udp_filled bs b)) = length bs"
    using assms by (simp_all add: udp_filled_def cv_inv_def)
  show "cv_unread (udp_filled bs b) = bs"
    using read_mem_written [of 0 bs] n by (simp add: udp_filled_def cv_unread_def)
qed

lemma udp_datagram_start:
  assumes "u_vReceiveBuffer t = cv_Clear b" "length bs \<le> MAX_CVBUFFER_SIZE"
  shows "udp_datagram bs t = mbind udp_PacketFinished (\<lambda>fin. if fin then udp_ProcessOnePacket else mret ())
    (t\<lparr>u_vReceiveBuffer := udp_filled bs b\<rparr>)"
  using assms
  by (simp add: udp_datagram_def mseq_run on_udp_buffer_def copy_in_def cv_AddDataSize_def udp_filled_def cv_Clear_def)

lemma send_msg_new_nat: "send_msg_new (int n) off = copy_out off n"
  by (simp add: send_msg_new_def)

lemma udp_datagram_frame:
  assumes "u_vReceiveBuffer t = cv_Clear b" "length m + 2 < 65536" "length (frame m @ junk) \<le> MAX_CVBUFFER_SIZE"
  shows "\<exists>b' n. udp_datagram (frame m @ junk) t =
    (Ret (), t\<lparr>u_vReceiveBuffer := b', u_iDataSize := n, u_put_msgs := u_put_msgs t @ [m]\<rparr>)"
proof -
  let ?bs = "frame m @ junk" and ?v = "of_nat (length m + 2) :: 16 word"
  let ?b = "udp_filled ?bs b"
  note f = udp_filled [OF assms(3), of b]
  have "cv_unread ?b = wire_bytes (F16 ?v) @ m @ junk" using f(2) by (simp add: frame_def)
  from Get_short [OF f(1) this] obtain b1 where b1: "cv_Get_obj 2 ?b = (Ret (Some (wire_bytes (F16 ?v))), b1)"
    "cv_inv b1" "cv_unread b1 = m @ junk" "m_uOffset b1 = m_uOffset ?b" "m_uGetOffset b1 = m_uGetOffset ?b + 2"
    by blast
  have v: "unat ?v = length m + 2"
    by (subst unsigned_of_nat) (use assms(2) in \<open>simp add: take_bit_nat_eq_self\<close>)
  have size: "unat (?v - 2) = length m" using v by (subst unat_sub) (simp_all add: word_le_nat_alt)
  have get: "m_uGetOffset b1 = 2" using b1(5) by (simp add: udp_filled_def)
  have off: "unat (m_uOffset b1) = length m + 2 + length junk" using b1(4) f(3) by simp
  have "copy_out (cv_JumpBuffer b1) (length m) b1 = (Ret m, b1)"
  proof (cases "m = []")
    case True
    then show ?thesis using get by (simp add: copy_out_def cv_JumpBuffer_def)
  next
    case False
    then have "0 < length m" by simp
    with off get have "m_uGetOffset b1 < m_uOffset b1" by (simp add: word_less_nat_alt)
    moreover have "read_mem 2 (length m) (m_Buffer b1) = take (length m) (cv_unread b1)"
      using get off by (simp add: cv_unread_def flip: read_mem_take)
    ultimately show ?thesis using get b1(3) assms(3) by (simp add: copy_out_def cv_JumpBuffer_def)
  qed
  then have msg: "send_msg_new (int (unat (?v - 2))) (cv_JumpBuffer b1) b1 = (Ret m, b1)"
    by (simp only: send_msg_new_nat size)
  let ?t = "t\<lparr>u_vReceiveBuffer := ?b\<rparr>"
  have "udp_PacketFinished ?t = (Ret True, t\<lparr>u_vReceiveBuffer := b1, u_iDataSize := ?v - 2\<rparr>)"
    using b1(1) v off
    by (simp add: udp_PacketFinished_def mbind_Ret [OF on_udp_buffer_Ret] ntohs_wire cv_getSize_def Let_def
        del: wire_bytes.simps of_nat_add)
  moreover have "udp_ProcessOnePacket (t\<lparr>u_vReceiveBuffer := b1, u_iDataSize := ?v - 2\<rparr>) =
      (Ret (), t\<lparr>u_vReceiveBuffer := b1, u_iDataSize := ?v - 2, u_put_msgs := u_put_msgs t @ [m]\<rparr>)"
    using msg by (simp add: udp_ProcessOnePacket_def mbind_Ret [OF on_udp_buffer_Ret] del: of_nat_add)
  ultimately have "udp_datagram ?bs t =
      (Ret (), t\<lparr>u_vReceiveBuffer := b1, u_iDataSize := ?v - 2, u_put_msgs := u_put_msgs t @ [m]\<rparr>)"
    by (simp add: udp_datagram_start [OF assms(1,3)] mbind_Ret del: length_append)
  then show ?thesis by blast
qed

lemma udp_loop_frames:
  assumes "list_all (\<lambda>(m, junk). length m + 2 < 65536 \<and> length (frame m @ junk) \<le> MAX_CVBUFFER_SIZE) ps"
    "rest = [] \<or> (\<exists>e q. rest = Inl e # q) \<or> (\<exists>q. rest = Inr [] # q)"
  shows "\<exists>t'. udp_loop (map (\<lambda>(m, junk). Inr (frame m @ junk)) ps @ rest) t = (Ret 0, t') \<and>
    u_put_msgs t' = u_put_msgs t @ map fst ps \<and> u_events t' = tl rest"
  using assms(1)
proof (induction ps arbitrary: t)
  case Nil
  from assms(2) show ?case by auto
next
  case (Cons p ps)
  obtain m junk where p: "p = (m, junk)" by (cases p)
  let ?q = "map (\<lambda>(m, junk). Inr (frame m @ junk)) ps @ rest"
  let ?t = "t\<lparr>u_vReceiveBuffer := cv_Clear (u_vReceiveBuffer t), u_events := ?q\<rparr>"
  have len: "length m + 2 < 65536" "length (frame m @ junk) \<le> MAX_CVBUFFER_SIZE"
    using Cons.prems p by auto
  have "u_vReceiveBuffer ?t = cv_Clear (u_vReceiveBuffer t)" by simp
  from udp_datagram_frame [OF this len] obtain b n where
    d: "udp_datagram (frame m @ junk) ?t =
      (Ret (), ?t\<lparr>u_vReceiveBuffer := b, u_iDataSize := n, u_put_msgs := u_put_msgs ?t @ [m]\<rparr>)" by blast
  have "take MAX_CVBUFFER_SIZE (frame m @ junk) = frame m @ junk" using len(2) by (rule take_all)
  then have "udp_loop (Inr (frame m @ junk) # ?q) t = udp_loop ?q
      (?t\<lparr>u_vReceiveBuffer := b, u_iDataSize := n, u_put_msgs := u_put_msgs ?t @ [m]\<rparr>)"
    using d by (simp add: Let_def mseq_run)
  moreover from Cons.prems have "list_all (\<lambda>(m, junk). length m + 2 < 65536 \<and>
      length (frame m @ junk) \<le> MAX_CVBUFFER_SIZE) ps" by simp
  note Cons.IH [OF this, of "?t\<lparr>u_vReceiveBuffer := b, u_iDataSize := n, u_put_msgs := u_put_msgs ?t @ [m]\<rparr>"]
  ultimately show ?case using p by auto
qed

text \<open>A length field of 0 or 1: the size of the body wraps.\<close>

lemma udp_datagram_small:
  assumes "u_vReceiveBuffer t = cv_Clear b" "unat v \<le> 1"
    "length (wire_bytes (F16 v) @ rest) \<le> MAX_CVBUFFER_SIZE"
  shows "\<exists>b1. udp_datagram (wire_bytes (F16 v) @ rest) t =
      udp_ProcessOnePacket (t\<lparr>u_vReceiveBuffer := b1, u_iDataSize := v - 2\<rparr>) \<and>
    cv_JumpBuffer b1 = (if rest = [] then 0 else 2) \<and> unat (v - 2) = 65534 + unat v"
proof -
  let ?bs = "wire_bytes (F16 v) @ rest"
  let ?b = "udp_filled ?bs b"
  note f = udp_filled [OF assms(3), of b]
  from Get_short [OF f(1,2)] obtain b1 where b1: "cv_Get_obj 2 ?b = (Ret (Some (wire_bytes (F16 v))), b1)"
    "m_uOffset b1 = m_uOffset ?b" "m_uGetOffset b1 = m_uGetOffset ?b + 2" by blast
  have len: "length (wire_bytes (F16 v)) = 2" by (simp del: wire_bytes.simps)
  have get: "m_uGetOffset b1 = 2" using b1(3) by (simp add: udp_filled_def)
  have off: "unat (m_uOffset b1) = 2 + length rest" using b1(2) f(3) len by (simp del: wire_bytes.simps)
  have "udp_PacketFinished (t\<lparr>u_vReceiveBuffer := ?b\<rparr>) =
      (Ret True, t\<lparr>u_vReceiveBuffer := b1, u_iDataSize := v - 2\<rparr>)"
    using b1(1) off assms(2)
    by (simp add: udp_PacketFinished_def mbind_Ret [OF on_udp_buffer_Ret] ntohs_wire cv_getSize_def Let_def
        del: wire_bytes.simps)
  then have "udp_datagram ?bs t = udp_ProcessOnePacket (t\<lparr>u_vReceiveBuffer := b1, u_iDataSize := v - 2\<rparr>)"
    by (simp add: udp_datagram_start [OF assms(1,3)] mbind_Ret del: length_append wire_bytes.simps)
  moreover have "cv_JumpBuffer b1 = (if rest = [] then 0 else 2)"
    using get off by (simp add: cv_JumpBuffer_def word_less_nat_alt)
  moreover have "unat (v - 2) = 65534 + unat v"
  proof -
    from assms(2) have "unat v = 0 \<or> unat v = 1" by linarith
    then have "v = 0 \<or> v = 1" by (metis unat_0 unat_1 word_unat_eq_iff)
    then show ?thesis by (auto simp: unsigned_minus_1_eq_mask mask_eq_exp_minus_1)
  qed
  ultimately show ?thesis by blast
qed

section \<open>Properties\<close>

text \<open>Every datagram is handled on its own: of each one that begins with a well-formed packet exactly its
  body is handed over, in the order of arrival, whatever follows the packet in the datagram, until
  \<open>recvfrom\<close> has nothing, fails or gives an empty datagram; the result is 0.\<close>

theorem udp_RecvProcess_packets:
  assumes "list_all (\<lambda>(m, junk). length m + 2 < 65536 \<and> length (frame m @ junk) \<le> MAX_CVBUFFER_SIZE) ps"
    "u_events t = map (\<lambda>(m, junk). Inr (frame m @ junk)) ps @ rest"
    "rest = [] \<or> (\<exists>e q. rest = Inl e # q) \<or> (\<exists>q. rest = Inr [] # q)"
  shows "\<exists>t'. udp_RecvProcess t = (Ret 0, t') \<and> u_put_msgs t' = u_put_msgs t @ map fst ps \<and> u_events t' = tl rest"
  unfolding udp_RecvProcess_def assms(2) by (rule udp_loop_frames [OF assms(1,3)])

definition demo_udp :: "(errno + string) list \<Rightarrow> udp_task" where
  "demo_udp q = base_task.extend (bt_new 7)
     (udp_task.fields \<lparr>m_Buffer = \<lambda>_. CHR ''s'', m_uOffset = 0, m_uGetOffset = 0\<rparr> 0 q [])"

lemma demo_udp_simps [simp]:
  "u_events (demo_udp q) = q" "u_put_msgs (demo_udp q) = []"
  by (simp_all add: demo_udp_def udp_task.defs base_task.defs bt_new_def)

theorem udp_RecvProcess_packets_witness:
  "\<exists>t'. udp_RecvProcess (demo_udp (map (\<lambda>(m, junk). Inr (frame m @ junk)) [(''ab'', ''?''), ([], [])] @ [Inl EINTR]))
     = (Ret 0, t') \<and> u_put_msgs t' = [''ab'', []]"
  using udp_RecvProcess_packets [of "[(''ab'', ''?''), ([], [])]"
    "demo_udp (map (\<lambda>(m, junk). Inr (frame m @ junk)) [(''ab'', ''?''), ([], [])] @ [Inl EINTR])" "[Inl EINTR]"]
  by auto

text \<open>A datagram whose length field is 0 or 1 passes the size check with a body size wrapped to 65534 or
  65535: bytes left from earlier datagrams are handed over with it, or, for a field of 1 with anything
  behind it, the copy leaves the buffer.\<close>

theorem udp_datagram_bad_length:
  assumes "u_vReceiveBuffer t = cv_Clear b" "unat v \<le> 1"
    "length (wire_bytes (F16 v) @ rest) \<le> MAX_CVBUFFER_SIZE"
  shows "if unat v = 1 \<and> rest \<noteq> [] then fst (udp_datagram (wire_bytes (F16 v) @ rest) t) = Stuck Undefined
    else \<exists>t' x. udp_datagram (wire_bytes (F16 v) @ rest) t = (Ret (), t') \<and>
      u_put_msgs t' = u_put_msgs t @ [x] \<and> length x = 65534 + unat v"
proof -
  from udp_datagram_small [OF assms] obtain b1 where
    b1: "udp_datagram (wire_bytes (F16 v) @ rest) t =
        udp_ProcessOnePacket (t\<lparr>u_vReceiveBuffer := b1, u_iDataSize := v - 2\<rparr>)"
      "cv_JumpBuffer b1 = (if rest = [] then 0 else 2)" "unat (v - 2) = 65534 + unat v" by blast
  let ?t = "t\<lparr>u_vReceiveBuffer := b1, u_iDataSize := v - 2\<rparr>"
  have msg: "send_msg_new (int (unat (v - 2))) (cv_JumpBuffer b1) b1 =
      (if unat v = 1 \<and> rest \<noteq> [] then (Stuck Undefined, b1)
       else (Ret (read_mem (cv_JumpBuffer b1) (65534 + unat v) (m_Buffer b1)), b1))"
    unfolding send_msg_new_nat b1(3) using b1(2) assms(2) by (auto simp: copy_out_def)
  show ?thesis
  proof (cases "unat v = 1 \<and> rest \<noteq> []")
    case True
    with msg have "fst (udp_ProcessOnePacket ?t) = Stuck Undefined"
      by (simp add: udp_ProcessOnePacket_def on_udp_buffer_def mbind_run)
    with True b1(1) show ?thesis by (simp del: wire_bytes.simps)
  next
    case False
    with msg have "udp_ProcessOnePacket ?t = (Ret (), ?t\<lparr>u_put_msgs := u_put_msgs t @
        [read_mem (cv_JumpBuffer b1) (65534 + unat v) (m_Buffer b1)]\<rparr>)"
      by (simp add: udp_ProcessOnePacket_def mbind_Ret [OF on_udp_buffer_Ret] del: signed_of_int)
    then show ?thesis unfolding if_not_P [OF False] b1(1) by auto
  qed
qed

theorem udp_datagram_bad_length_witness:
  "\<forall>cb. fst (udp_datagram (wire_bytes (F16 1) @ ''x'') ((demo_udp [])\<lparr>u_vReceiveBuffer := cv_Clear cb\<rparr>)) = Stuck Undefined"
proof
  fix cb
  show "fst (udp_datagram (wire_bytes (F16 1) @ ''x'') ((demo_udp [])\<lparr>u_vReceiveBuffer := cv_Clear cb\<rparr>)) = Stuck Undefined"
    using udp_datagram_bad_length [of "(demo_udp [])\<lparr>u_vReceiveBuffer := cv_Clear cb\<rparr>" cb 1 "''x''"]
    by (simp del: wire_bytes.simps)
qed

end
