(* ===== verification/Task_Setup.thy ===== *)
theory Task_Setup
  imports Udp_Task Os_Calls
begin

text \<open>
  How the tasks of \<open>src/common/mytask.cpp\<close> get their sockets: \<open>CBaseTask::SetNonBlocking\<close>, binding a UDP
  socket, listening on a unix socket, accepting, and \<open>CLongConTask::Init\<close>. The state is the task together
  with the calls of the operating system (\<^typ>\<open>os\<close>). Reading a member that no constructor has set is
  modelled by an arbitrary value, an argument of the constructor.
\<close>

section \<open>State\<close>

record longcon_task = tcp_task +
  m_toAddr :: string
  m_iTimeOut :: int
  m_toLen :: int

record udp_socket_task = udp_task +
  ub_sAddr :: string
  ub_iPort :: int

record accept_task = base_task +
  ac_sAddr :: string
  accept_num :: int
  ac_instance :: "longcon_task option"
  ac_destroyed :: "longcon_task list"

text \<open>
  The constructors, before any event. That of \<open>CUdpTask\<close> leaves \<open>m_iDataSize\<close> to the memory it finds
  (\<open>sz\<close>); \<open>static\<close>s start with 0 and NULL.
\<close>

definition udp_new :: "string \<Rightarrow> int \<Rightarrow> cvbuffer \<Rightarrow> 16 word \<Rightarrow> udp_socket_task" where
  "udp_new sAddr port garbage sz =
     udp_task.extend (base_task.extend (bt_new (-1)) (udp_task.fields (cv_new garbage) sz [] []))
       (udp_socket_task.fields sAddr port)"

definition acc_new :: "string \<Rightarrow> accept_task" where
  "acc_new sAddr = base_task.extend (bt_new (-1)) (accept_task.fields sAddr 0 None [])"

text \<open>Calls on the operating system part of the state.\<close>

definition on_os :: "('w, 'r) proc \<Rightarrow> ('t \<times> 'w, 'r) proc" where
  "on_os m = (\<lambda>(t, w). case m w of (r, w) \<Rightarrow> (r, (t, w)))"

definition on_task :: "('t \<Rightarrow> 't) \<Rightarrow> ('t \<times> 'w, unit) proc" where
  "on_task f = (\<lambda>(t, w). (Ret (), (f t, w)))"

section \<open>Descriptors\<close>

unbundle bit_operations_syntax

definition bt_SetNonBlocking :: "int \<Rightarrow> ('w os_scheme, int) proc" where
  "bt_SetNonBlocking nSocket =
     mbind (os_do (O_getfl nSocket)) (\<lambda>a. case a of
       Inl _ \<Rightarrow> mret (-1)
     | Inr opts \<Rightarrow>
         mbind (os_do (O_setfl nSocket (opts OR 2048))) (\<lambda>a. case a of
           Inl _ \<Rightarrow> mret (-1)
         | Inr _ \<Rightarrow>
             mseq (os_ignore (O_setsockopt nSocket ''SO_SNDBUF''))
             (mseq (os_ignore (O_setsockopt nSocket ''SO_RCVBUF''))
             (mseq (os_ignore (O_setsockopt nSocket ''TCP_NODELAY'')) (mret 0)))))"

text \<open>The part \<open>CreateBindSocket\<close> and \<open>CreateListenSocket\<close> share: \<open>None\<close> is their \<open>return -1\<close>.\<close>

definition bound_socket :: "int \<Rightarrow> string \<Rightarrow> ('w os_scheme, int option) proc" where
  "bound_socket domain sa =
     mbind (os_do (O_socket domain)) (\<lambda>a. case a of
       Inl _ \<Rightarrow> mret None
     | Inr n \<Rightarrow>
         mseq (os_ignore (O_setsockopt (int n) ''SO_REUSEADDR''))
         (mseq (bt_SetNonBlocking (int n))
         (mbind (os_do (O_bind (int n) sa)) (\<lambda>a. case a of
           Inl _ \<Rightarrow> mseq (os_ignore (O_close (int n))) (mret None)
         | Inr _ \<Rightarrow> mret (Some (int n))))))"

text \<open>An empty address, and one that \<open>inet_aton\<close> does not understand, stand for any address.\<close>

definition udp_address :: "'w os_scheme \<Rightarrow> string \<Rightarrow> 16 word \<Rightarrow> string" where
  "udp_address w sAddr port =
     inet_ntoa (if sAddr = [] then 0 else case os_aton w sAddr of None \<Rightarrow> 0 | Some a \<Rightarrow> a) @ '':'' @ dec (unat port)"

definition udp_CreateBindSocket :: "('t udp_socket_task_scheme \<times> 'w os_scheme, int) proc" where
  "udp_CreateBindSocket = (\<lambda>(t, w).
     mbind (on_os (bound_socket 2 (udp_address w (ub_sAddr t) (word_of_int (ub_iPort t))))) (\<lambda>r. case r of
       None \<Rightarrow> mret (-1)
     | Some iSocket \<Rightarrow>
         mseq (on_task (\<lambda>t. let t = t\<lparr>m_iSocket := iSocket\<rparr> in if iSocket \<noteq> 0 then bt_Init t else t))
           (mret 0)) (t, w))"

text \<open>\<open>strcpy\<close> into the 108 bytes of \<open>sun_path\<close>.\<close>

definition strcpy_sun_path :: "string \<Rightarrow> ('s, string) proc" where
  "strcpy_sun_path s = (if length s < 108 then mret s else mstuck Undefined)"

definition acc_CreateListenSocket :: "('t accept_task_scheme \<times> 'w os_scheme, int) proc" where
  "acc_CreateListenSocket = (\<lambda>(t, w).
     mseq (on_os (os_ignore (O_unlink (ac_sAddr t))))
     (mbind (strcpy_sun_path (ac_sAddr t)) (\<lambda>sa.
       mbind (on_os (bound_socket 1 sa)) (\<lambda>r. case r of
         None \<Rightarrow> mret (-1)
       | Some iSocket \<Rightarrow>
           mbind (on_os (os_do (O_listen iSocket 250))) (\<lambda>a. case a of
             Inl _ \<Rightarrow> mret (-1)
           | Inr _ \<Rightarrow>
               mseq (on_task (\<lambda>t. if iSocket \<noteq> 0 then bt_Init (t\<lparr>m_iSocket := iSocket\<rparr>) else t))
                 (mret 0))))) (t, w))"

section \<open>Long connections\<close>

definition longcon_new_addr :: "string \<Rightarrow> int \<Rightarrow> cvbuffer \<Rightarrow> longcon_task" where
  "longcon_new_addr sAddr iTimeOut garbage =
     tcp_task.extend (tcp_new (-1) garbage) (longcon_task.fields sAddr iTimeOut 0)"

text \<open>The constructor for an accepted socket sets neither \<open>m_iTimeOut\<close> nor \<open>m_toLen\<close>.\<close>

definition longcon_new_socket :: "int \<Rightarrow> cvbuffer \<Rightarrow> int \<Rightarrow> longcon_task" where
  "longcon_new_socket ipSocket garbage iTimeOut =
     tcp_task.extend (tcp_new ipSocket garbage) (longcon_task.fields [] iTimeOut 0)"

text \<open>
  The loop around \<open>select\<close>; every call uses up an answer. A descriptor that does not fit an \<open>fd_set\<close> is
  undefined behaviour in \<open>FD_SET\<close>.
\<close>

function lc_wait :: "int \<Rightarrow> int \<Rightarrow> ('w os_scheme, int) proc" where
  "lc_wait fd nTimeOut w =
     (if fd < 0 \<or> fd \<ge> 1024 then (Stuck Undefined, w)
      else case os_do (O_select fd nTimeOut) w of
        (Ret (Inl e), w') \<Rightarrow> if e = EINTR then lc_wait fd nTimeOut w' else (Ret (-1), w')
      | (Ret (Inr nRet), w') \<Rightarrow> (Ret (if nRet = 0 then -1 else 0), w')
      | (Exn e, w') \<Rightarrow> (Exn e, w')
      | (Stuck k, w') \<Rightarrow> (Stuck k, w'))"
  by pat_completeness auto
termination
  by (relation "measure (\<lambda>(fd, n, w). length (os_answers w))") (auto simp: os_do_def split: list.splits if_splits)

declare lc_wait.simps [simp del]

text \<open>
  \<open>Connect\<close> stores the new socket in \<open>m_iSocket\<close> without looking at what was there, and passes the memory of
  the member \<open>m_toAddr\<close> (a \<open>std::string\<close> object), not \<open>sToAddr\<close>, to \<open>connect\<close>.
\<close>

definition lc_Connect :: "string \<Rightarrow> int \<Rightarrow> ('t longcon_task_scheme \<times> 'w os_scheme, int) proc" where
  "lc_Connect sAddr nTimeOut =
     (if nTimeOut < 0 then mret (-1)
      else mbind (on_os (os_do (O_socket 1))) (\<lambda>a.
        let fd = (case a of Inl _ \<Rightarrow> -1 | Inr n \<Rightarrow> int n) in
        mseq (on_task (\<lambda>t. t\<lparr>m_iSocket := fd\<rparr>))
        (mseq (mbind (strcpy_sun_path sAddr) (\<lambda>_. mret ()))
        (mseq (on_task (\<lambda>t. t\<lparr>m_toLen := 110\<rparr>))
        (mseq (on_os (bt_SetNonBlocking fd))
        (mseq (on_os (os_ignore (O_connect fd ''the object m_toAddr'')))
          (on_os (lc_wait fd nTimeOut))))))))"

definition lc_Init :: "('t longcon_task_scheme \<times> 'w os_scheme, int) proc" where
  "lc_Init = (\<lambda>(t, w).
     mseq (lc_Connect (m_toAddr t) (m_iTimeOut t)) (mseq (on_task bt_Init) (mret 0)) (t, w))"

section \<open>Accepting\<close>

text \<open>\<open>CMySingleton<CLongConTask>::SetInstance\<close> deletes the instance there was.\<close>

definition acc_SetInstance :: "longcon_task \<Rightarrow> 't accept_task_scheme \<times> 'w os_scheme \<Rightarrow>
    unit result \<times> ('t accept_task_scheme \<times> 'w os_scheme)" where
  "acc_SetInstance p = (\<lambda>(t, w). case ac_instance t of
     None \<Rightarrow> (Ret (), (t\<lparr>ac_instance := Some p\<rparr>, w))
   | Some old \<Rightarrow>
       mseq (if m_iSocket old \<noteq> -1 then on_os (os_ignore (O_close (m_iSocket old))) else mret ())
         (on_task (\<lambda>t. t\<lparr>ac_instance := Some p, ac_destroyed := ac_destroyed t @ [bt_destroy old]\<rparr>)) (t, w))"

text \<open>
  What happens to one accepted socket, for the memory \<open>garbage\<close> and \<open>iTimeOut\<close> the new task finds. The
  counter \<open>accept_num\<close> is a static of the function that nothing changes.
\<close>

definition acc_one :: "cvbuffer \<Rightarrow> int \<Rightarrow> int \<Rightarrow> ('t accept_task_scheme \<times> 'w os_scheme, unit) proc" where
  "acc_one garbage iTimeOut iSocket = (\<lambda>(t, w).
     if accept_num t > 10 * 1024 * 1024 then on_os (os_ignore (O_close iSocket)) (t, w)
     else case bt_SetNonBlocking iSocket w of
       (Ret _, w) \<Rightarrow>
         (case lc_Init (longcon_new_socket iSocket garbage iTimeOut, w) of
            (Ret _, (p, w)) \<Rightarrow> acc_SetInstance p (t, w)
          | (Exn e, (p, w)) \<Rightarrow> (Exn e, (t, w))
          | (Stuck k, (p, w)) \<Rightarrow> (Stuck k, (t, w)))
     | (Exn e, w) \<Rightarrow> (Exn e, (t, w))
     | (Stuck k, w) \<Rightarrow> (Stuck k, (t, w)))"

text \<open>
  The loop of \<open>HandleProcess\<close>: \<open>news\<close> gives the garbage for each accepted connection and bounds their number
  (the loop accepts until \<open>accept\<close> fails or gives descriptor 0); a longer run is not covered.
\<close>

primrec acc_loop :: "(cvbuffer \<times> int) list \<Rightarrow> ('t accept_task_scheme \<times> 'w os_scheme, unit) proc" where
  "acc_loop [] = mstuck Blocked"
| "acc_loop (g # news) = (\<lambda>(t, w).
     mbind (on_os (os_do (O_accept (m_iSocket t)))) (\<lambda>a. case a of
       Inl _ \<Rightarrow> mret ()
     | Inr n \<Rightarrow> if n = 0 then mret ()
         else mseq (acc_one (fst g) (snd g) (int n)) (acc_loop news)) (t, w))"

definition acc_HandleProcess :: "(cvbuffer \<times> int) list \<Rightarrow> nat \<Rightarrow> ('t accept_task_scheme \<times> 'w os_scheme, int) proc" where
  "acc_HandleProcess news event =
     mseq (if event AND EPOLLIN \<noteq> 0 then acc_loop news else mret ()) (mret 0)"

section \<open>Descriptors are kept\<close>

text \<open>Procedures that neither open nor close a descriptor.\<close>

abbreviation keeps_fds :: "('w os_scheme, 'r) proc \<Rightarrow> bool" where
  "keeps_fds \<equiv> preserves (\<lambda>w w'. open_fds w' = open_fds w)"

definition quiet_call :: "os_call \<Rightarrow> bool" where
  "quiet_call c = (case c of O_socket d \<Rightarrow> False | O_accept l \<Rightarrow> False | O_close fd \<Rightarrow> False | _ \<Rightarrow> True)"

lemma keeps_relation: "reflp (\<lambda>w w'. open_fds w' = open_fds w)" "transp (\<lambda>w w'. open_fds w' = open_fds w)"
  by (auto simp: reflp_def transp_def)

lemma keeps_os_do: "quiet_call c \<Longrightarrow> keeps_fds (os_do c)"
  by (auto simp: preserves_def os_do_def quiet_call_def split: list.split os_call.splits)

lemma keeps_os_ignore: "quiet_call c \<Longrightarrow> keeps_fds (os_ignore c)"
  unfolding os_ignore_def by (intro preserves_mseq preserves_pure keeps_relation keeps_os_do)

lemma keeps_sum: "(\<And>e. keeps_fds (f e)) \<Longrightarrow> (\<And>n. keeps_fds (g n)) \<Longrightarrow>
    keeps_fds (case a of Inl e \<Rightarrow> f e | Inr n \<Rightarrow> g n)"
  by (cases a) simp_all

lemmas keeps_intros = preserves_mbind preserves_mseq preserves_pure keeps_relation keeps_os_do keeps_os_ignore keeps_sum

lemma SetNonBlocking_keeps: "keeps_fds (bt_SetNonBlocking fd)"
  unfolding bt_SetNonBlocking_def by (intro keeps_intros) (simp_all add: quiet_call_def)

lemma lc_wait_keeps: "lc_wait fd n w = (r, w') \<Longrightarrow> open_fds w' = open_fds w"
proof (induction fd n w arbitrary: r w' rule: lc_wait.induct)
  case (1 fd n w)
  have q: "open_fds w1 = open_fds w" if "os_do (O_select fd n) w = (a, w1)" for a w1
    using preservesD [OF keeps_os_do that] by (simp add: quiet_call_def)
  show ?case
  proof (cases "fd < 0 \<or> fd \<ge> 1024")
    case True
    with "1.prems" show ?thesis by (simp add: lc_wait.simps [of fd n w])
  next
    case False
    obtain a w1 where a: "os_do (O_select fd n) w = (a, w1)" by (cases "os_do (O_select fd n) w")
    show ?thesis
    proof (cases "a = Ret (Inl EINTR)")
      case True
      with "1.prems" False a have "lc_wait fd n w1 = (r, w')" by (simp add: lc_wait.simps [of fd n w])
      with "1.IH" [OF False] a True q [OF a] show ?thesis by auto
    next
      case False
      with "1.prems" \<open>\<not> (fd < 0 \<or> fd \<ge> 1024)\<close> a q [OF a] show ?thesis
        by (auto simp: lc_wait.simps [of fd n w] split: result.splits sum.splits if_splits)
    qed
  qed
qed

lemma on_os_Ret: "on_os m (t, w) = (Ret r, (t', w')) \<longleftrightarrow> m w = (Ret r, w') \<and> t' = t"
  by (auto simp: on_os_def split: prod.splits)

lemma on_task_Ret: "on_task f (t, w) = (Ret r, (t', w')) \<longleftrightarrow> t' = f t \<and> w' = w"
  by (auto simp: on_task_def)

lemma bound_socket_fds:
  assumes "bound_socket d sa w = (Ret r, w')"
  shows "case r of None \<Rightarrow> open_fds w' = open_fds w \<and> \<not> (\<exists>fd n e. last_call w' = (O_listen fd n, Inl e))
    | Some fd \<Rightarrow> open_fds w' = fd # open_fds w \<and> 0 \<le> fd"
proof -
  let ?rest = "\<lambda>n. mseq (os_ignore (O_setsockopt (int n) ''SO_REUSEADDR''))
      (mseq (bt_SetNonBlocking (int n))
      (mbind (os_do (O_bind (int n) sa)) (\<lambda>a. case a of
        Inl _ \<Rightarrow> mseq (os_ignore (O_close (int n))) (mret None)
      | Inr _ \<Rightarrow> mret (Some (int n)))))"
  from assms consider e where "os_do (O_socket d) w = (Ret (Inl e), w')" "r = None"
    | n w1 where "os_do (O_socket d) w = (Ret (Inr n), w1)" "?rest n w1 = (Ret r, w')"
    by (auto simp: bound_socket_def mbind_sum_Ret mret_run)
  then show ?thesis
  proof cases
    case 1
    from os_do_fds [OF 1(1)] 1(2) show ?thesis by simp
  next
    case 2
    from 2(2) obtain u v w2 w3 where
      w2: "os_ignore (O_setsockopt (int n) ''SO_REUSEADDR'') w1 = (Ret u, w2)" and
      w3: "bt_SetNonBlocking (int n) w2 = (Ret v, w3)" and
      fin: "mbind (os_do (O_bind (int n) sa)) (\<lambda>a. case a of
        Inl _ \<Rightarrow> mseq (os_ignore (O_close (int n))) (mret None) | Inr _ \<Rightarrow> mret (Some (int n))) w3 = (Ret r, w')"
      by (auto simp: mseq_eq_Ret)
    have "open_fds w3 = int n # open_fds w"
      using os_do_fds [OF 2(1)] preservesD [OF keeps_os_ignore w2] preservesD [OF SetNonBlocking_keeps w3]
      by (simp add: quiet_call_def)
    with fin show ?thesis
      by (auto simp: mbind_sum_Ret mseq_eq_Ret os_ignore_Ret mret_run dest!: os_do_fds)
  qed
qed

text \<open>What a successful \<open>Connect\<close> leaves behind.\<close>

lemma lc_Connect_fds:
  assumes "lc_Connect sAddr n (t, w) = (Ret r, (t', w'))" "0 \<le> n"
  shows "open_fds w' = m_iSocket t' # open_fds w" "t' = t\<lparr>m_iSocket := m_iSocket t', m_toLen := 110\<rparr>"
proof -
  from assms obtain a w1 where a: "os_do (O_socket 1) w = (Ret a, w1)" and
    rest: "(let fd = (case a of Inl _ \<Rightarrow> -1 | Inr n \<Rightarrow> int n) in
        mseq (on_task (\<lambda>t. t\<lparr>m_iSocket := fd\<rparr>))
        (mseq (mbind (strcpy_sun_path sAddr) (\<lambda>_. mret ()))
        (mseq (on_task (\<lambda>t. t\<lparr>m_toLen := 110\<rparr>))
        (mseq (on_os (bt_SetNonBlocking fd))
        (mseq (on_os (os_ignore (O_connect fd ''the object m_toAddr'')))
          (on_os (lc_wait fd n))))))) (t, w1) = (Ret r, (t', w'))"
    by (auto simp: lc_Connect_def mbind_eq_Ret on_os_Ret)
  define fd where "fd = (case a of Inl _ \<Rightarrow> -1 | Inr n \<Rightarrow> int n)"
  have str: "strcpy_sun_path sAddr x = (Ret u, y) \<Longrightarrow> y = x"
    for x y :: "'a longcon_task_scheme \<times> 'b os_scheme" and u
    by (auto simp: strcpy_sun_path_def mret_run mstuck_run split: if_splits)
  from rest obtain v w2 w3 u where
    nb: "bt_SetNonBlocking fd w1 = (Ret v, w2)" and
    con: "os_ignore (O_connect fd ''the object m_toAddr'') w2 = (Ret u, w3)" and
    wait: "lc_wait fd n w3 = (Ret r, w')" and t': "t' = t\<lparr>m_iSocket := fd, m_toLen := 110\<rparr>"
    unfolding Let_def fd_def [symmetric]
    by (auto simp: mseq_eq_Ret mbind_eq_Ret on_os_Ret on_task_Ret mret_run dest!: str)
  have "0 \<le> fd" using wait by (auto simp: lc_wait.simps [of fd n w3] split: if_splits)
  then obtain k where k: "a = Inr k" "fd = int k" by (cases a) (auto simp: fd_def)
  have "open_fds w' = open_fds w1"
    using lc_wait_keeps [OF wait] preservesD [OF keeps_os_ignore con] preservesD [OF SetNonBlocking_keeps nb]
    by (simp add: quiet_call_def)
  with os_do_fds [OF a] k t' show "open_fds w' = m_iSocket t' # open_fds w"
    "t' = t\<lparr>m_iSocket := m_iSocket t', m_toLen := 110\<rparr>" by simp_all
qed

section \<open>Properties\<close>

text \<open>\<open>CreateBindSocket\<close> keeps account of its socket: on success the task owns the one new descriptor and is
  registered for reading, on failure nothing has changed.\<close>

theorem udp_CreateBindSocket_outcomes:
  assumes "udp_CreateBindSocket (t, w) = (Ret r, (t', w'))"
  shows "(r = -1 \<and> t' = t \<and> open_fds w' = open_fds w) \<or>
    (r = 0 \<and> (\<exists>fd. open_fds w' = fd # open_fds w \<and>
      t' = (if fd \<noteq> 0 then bt_Init (t\<lparr>m_iSocket := fd\<rparr>) else t\<lparr>m_iSocket := fd\<rparr>)))"
proof -
  from assms obtain a w1 where a: "bound_socket 2 (udp_address w (ub_sAddr t) (word_of_int (ub_iPort t))) w = (Ret a, w1)"
    "(case a of None \<Rightarrow> mret (-1) | Some iSocket \<Rightarrow>
       mseq (on_task (\<lambda>t. let t = t\<lparr>m_iSocket := iSocket\<rparr> in if iSocket \<noteq> 0 then bt_Init t else t))
         (mret 0)) (t, w1) = (Ret r, (t', w'))"
    by (auto simp: udp_CreateBindSocket_def mbind_eq_Ret on_os_Ret)
  with bound_socket_fds [OF a(1)] show ?thesis
    by (cases a) (auto simp: mret_run mseq_eq_Ret on_task_Ret Let_def)
qed

definition demo_os :: "answer list \<Rightarrow> os" where
  "demo_os as = \<lparr>os_answers = as, os_log = [], os_aton = (\<lambda>_. None), os_gethostbyname = (\<lambda>_. None),
     os_peer = (\<lambda>_. (0, 0))\<rparr>"

definition demo_udp_socket :: udp_socket_task where
  "demo_udp_socket = udp_task.extend (demo_udp []) (udp_socket_task.fields [] 53)"

theorem udp_CreateBindSocket_outcomes_witness:
  "\<exists>t' w'. udp_CreateBindSocket (demo_udp_socket, demo_os [Inr 8, Inr 0, Inl EBADF, Inl EBADF, Inr 0]) = (Ret (-1), (t', w')) \<and>
    open_fds w' = []"
proof -
  have "\<exists>t' w'. udp_CreateBindSocket (demo_udp_socket, demo_os [Inr 8, Inr 0, Inl EBADF, Inl EBADF, Inr 0]) = (Ret (-1), (t', w'))"
    by (simp add: udp_CreateBindSocket_def demo_os_def bound_socket_def bt_SetNonBlocking_def os_do_def os_ignore_def
        on_os_def run_simps)
  then obtain t' w' where "udp_CreateBindSocket (demo_udp_socket, demo_os [Inr 8, Inr 0, Inl EBADF, Inl EBADF, Inr 0]) = (Ret (-1), (t', w'))"
    by blast
  with udp_CreateBindSocket_outcomes [OF this] show ?thesis by (auto simp: demo_os_def open_fds_def)
qed

text \<open>\<open>CreateListenSocket\<close> keeps account of its socket as well, except that a failing \<open>listen\<close> leaves it open
  and unknown to the task.\<close>

theorem acc_CreateListenSocket_outcomes:
  assumes "acc_CreateListenSocket (t, w) = (Ret r, (t', w'))"
  shows "(r = 0 \<and> (\<exists>fd. open_fds w' = fd # open_fds w \<and> t' = (if fd \<noteq> 0 then bt_Init (t\<lparr>m_iSocket := fd\<rparr>) else t))) \<or>
    (r = -1 \<and> t' = t \<and>
     (if \<exists>fd n e. last_call w' = (O_listen fd n, Inl e) then \<exists>fd. open_fds w' = fd # open_fds w
      else open_fds w' = open_fds w))"
proof -
  let ?listen = "\<lambda>r. case r of None \<Rightarrow> mret (-1) | Some iSocket \<Rightarrow>
       mbind (on_os (os_do (O_listen iSocket 250))) (\<lambda>a. case a of
         Inl _ \<Rightarrow> mret (-1)
       | Inr _ \<Rightarrow> mseq (on_task (\<lambda>t. if iSocket \<noteq> 0 then bt_Init (t\<lparr>m_iSocket := iSocket\<rparr>) else t)) (mret 0))"
  have str: "strcpy_sun_path (ac_sAddr t) x = (Ret u, y) \<Longrightarrow> y = x"
    for x y :: "'a accept_task_scheme \<times> 'b os_scheme" and u
    by (auto simp: strcpy_sun_path_def mret_run mstuck_run split: if_splits)
  from assms obtain u w1 sa a w2 where
    w1: "os_ignore (O_unlink (ac_sAddr t)) w = (Ret u, w1)" and
    a: "bound_socket 1 sa w1 = (Ret a, w2)" and fin: "?listen a (t, w2) = (Ret r, (t', w'))"
    by (auto simp: acc_CreateListenSocket_def mseq_eq_Ret mbind_eq_Ret on_os_Ret dest!: str)
  have "open_fds w1 = open_fds w" using preservesD [OF keeps_os_ignore w1] by (simp add: quiet_call_def)
  note fds = bound_socket_fds [OF a, unfolded this]
  show ?thesis
  proof (cases a)
    case None
    with fds fin have "r = -1 \<and> t' = t \<and> open_fds w' = open_fds w \<and> \<not> (\<exists>fd n e. last_call w' = (O_listen fd n, Inl e))"
      by (simp add: mret_run)
    then show ?thesis by simp
  next
    case (Some fd)
    with fin consider e where "os_do (O_listen fd 250) w2 = (Ret (Inl e), w')" "r = -1" "t' = t"
      | n where "os_do (O_listen fd 250) w2 = (Ret (Inr n), w')" "r = 0"
        "t' = (if fd \<noteq> 0 then bt_Init (t\<lparr>m_iSocket := fd\<rparr>) else t)"
      by (auto simp: mbind_sum_Ret on_os_Ret mret_run mseq_eq_Ret on_task_Ret)
    then show ?thesis
    proof cases
      case 1
      from os_do_fds [OF 1(1)] fds Some 1 show ?thesis by simp
    next
      case 2
      from os_do_fds [OF 2(1)] fds Some 2 show ?thesis by simp
    qed
  qed
qed

definition demo_accept :: accept_task where
  "demo_accept = acc_new ''/tmp/s''"

theorem acc_CreateListenSocket_outcomes_witness:
  "\<exists>t' w' fd. acc_CreateListenSocket (demo_accept, demo_os [Inr 0, Inr 8, Inr 0, Inl EBADF, Inr 0, Inl EBADF])
      = (Ret (-1), (t', w')) \<and> t' = demo_accept \<and> open_fds w' = [fd]"
proof -
  let ?w = "demo_os [Inr 0, Inr 8, Inr 0, Inl EBADF, Inr 0, Inl EBADF]"
  have "\<exists>t' w'. acc_CreateListenSocket (demo_accept, ?w) = (Ret (-1), (t', w')) \<and>
      (\<exists>fd n e. last_call w' = (O_listen fd n, Inl e))"
    by (simp add: acc_CreateListenSocket_def demo_os_def bound_socket_def bt_SetNonBlocking_def os_do_def os_ignore_def
        on_os_def run_simps last_call_def strcpy_sun_path_def demo_accept_def acc_new_def accept_task.defs base_task.defs bt_new_def)
  then obtain t' w' where r: "acc_CreateListenSocket (demo_accept, ?w) = (Ret (-1), (t', w'))"
    "\<exists>fd n e. last_call w' = (O_listen fd n, Inl e)" by blast
  with acc_CreateListenSocket_outcomes [OF r(1)] show ?thesis by (auto simp: demo_os_def open_fds_def)
qed

text \<open>An accepted connection is never served: the task made for it opens a new socket of its own in \<open>Init\<close>,
  keeps and registers that one, and the accepted descriptor stays open without any task knowing it.\<close>

theorem acc_one_loses_connection:
  assumes "acc_one garbage iTimeOut n (t, w) = (Ret (), (t', w'))" "0 \<le> iTimeOut"
    "accept_num t \<le> 10 * 1024 * 1024" "ac_instance t = None" "n \<in> set (open_fds w)"
  shows "\<exists>p. ac_instance t' = Some p \<and> open_fds w' = m_iSocket p # open_fds w \<and>
    epoll_ops p = [Ep_add (m_iSocket p) 25] \<and> n \<in> set (open_fds w')"
proof -
  let ?p = "longcon_new_socket n garbage iTimeOut"
  from assms(1,3,4) obtain v w1 u p where
    nb: "bt_SetNonBlocking n w = (Ret v, w1)" and init: "lc_Init (?p, w1) = (Ret u, (p, w'))" and
    t': "t' = t\<lparr>ac_instance := Some p\<rparr>"
    by (auto simp: acc_one_def acc_SetInstance_def split: prod.splits result.splits)
  from init obtain r p1 where con: "lc_Connect (m_toAddr ?p) (m_iTimeOut ?p) (?p, w1) = (Ret r, (p1, w'))"
    and p: "p = bt_Init p1"
    by (auto simp: lc_Init_def mseq_eq_Ret on_task_Ret mret_run)
  have "m_iTimeOut ?p = iTimeOut" "m_sendList ?p = []" "m_pCurSendMsg ?p = None" "epoll_ops ?p = []"
    by (simp_all add: longcon_new_socket_def longcon_task.defs tcp_task.defs base_task.defs tcp_new_def bt_new_def)
  note q = this
  note fds = lc_Connect_fds [OF con]
  have "0 \<le> m_iTimeOut ?p" using q(1) assms(2) by simp
  from fds(1) [OF this] fds(2) [OF this] obtain k where
    k: "open_fds w' = k # open_fds w1" "p1 = ?p\<lparr>m_iSocket := k, m_toLen := 110\<rparr>" by blast
  have "m_iSocket p = k" "epoll_ops p = [Ep_add k 25]"
    using q(2-4) by (simp_all add: p k(2) bt_Init_def bt_AddToEpoll_def ep_AddToEpoll_def Let_def)
  moreover have "open_fds w1 = open_fds w" using preservesD [OF SetNonBlocking_keeps nb] .
  ultimately show ?thesis using t' k(1) assms(5) by simp
qed

theorem acc_one_loses_connection_witness:
  "\<exists>t' w' p. acc_one \<lparr>m_Buffer = \<lambda>_. CHR ''x'', m_uOffset = 0, m_uGetOffset = 0\<rparr> 2 5
      (demo_accept, (demo_os [Inl EBADF, Inr 6, Inl EBADF, Inl EBADF, Inr 1])\<lparr>os_log := [(O_accept 4, Inr 5)]\<rparr>) = (Ret (), (t', w')) \<and>
    ac_instance t' = Some p \<and> open_fds w' = [m_iSocket p, 5]"
proof -
  let ?w = "(demo_os [Inl EBADF, Inr 6, Inl EBADF, Inl EBADF, Inr 1])\<lparr>os_log := [(O_accept 4, Inr 5)]\<rparr>"
  let ?g = "\<lparr>m_Buffer = \<lambda>_. CHR ''x'', m_uOffset = 0, m_uGetOffset = 0\<rparr>"
  have "\<exists>t' w'. acc_one ?g 2 5 (demo_accept, ?w) = (Ret (), (t', w'))"
    by (simp add: acc_one_def lc_Init_def lc_Connect_def acc_SetInstance_def longcon_new_socket_def
        longcon_task.defs tcp_task.defs base_task.defs tcp_new_def bt_new_def demo_os_def bt_SetNonBlocking_def
        os_do_def os_ignore_def on_os_def on_task_def run_simps strcpy_sun_path_def demo_accept_def acc_new_def accept_task.defs
        Let_def lc_wait.simps)
  then obtain t' w' where r: "acc_one ?g 2 5 (demo_accept, ?w) = (Ret (), (t', w'))" by blast
  have "open_fds ?w = [5]" by (simp add: open_fds_def demo_os_def)
  moreover have "accept_num demo_accept = 0" "ac_instance demo_accept = None"
    by (simp_all add: demo_accept_def acc_new_def accept_task.defs base_task.defs bt_new_def)
  ultimately show ?thesis using acc_one_loses_connection [OF r] r by auto
qed

end
