(* ===== verification/Syn_Queue.thy ===== *)
theory Syn_Queue
  imports Fifo
begin

text \<open>
  \<open>CSynQueue\<close> of \<open>src/common/synqueue_t.h\<close>: a \<open>deque\<close> of message pointers shared by any number of threads,
  guarded by a mutex and two counting semaphores. Each thread is a program counter; a step is one call
  of \<open>sem_wait\<close>, \<open>pthread_mutex_lock\<close>, the access to the deque, \<open>pthread_mutex_unlock\<close> or \<open>sem_post\<close> of one
  thread, in any interleaving. A thread blocked in a call is one whose next step is not enabled. The code ignores the
  result of \<open>sem_wait\<close>; here it waits until it has taken a slot: no signal interrupts it.
\<close>

section \<open>State\<close>

text \<open>
  \<open>Put1 m pri\<close>: past \<open>sem_wait(&m_sem_write)\<close>; \<open>Put2\<close>: holds the mutex; \<open>Put3\<close>: has accessed the deque;
  \<open>Put4\<close>: has released the mutex. \<open>pri\<close> is \<open>None\<close> for \<open>put(pMsg)\<close>. \<open>Get1\<close> to \<open>Get4\<close> likewise, with the
  result (\<open>None\<close> for NULL) once it is known.
\<close>

datatype 'm pc =
    Idle
  | Put1 'm "int option" | Put2 'm "int option" | Put3 | Put4
  | Get1 | Get2 | Get3 "'m option" | Get4 "'m option"

record 'm syn_queue =
  m_maxsize :: nat
  m_queue :: "'m list"
  m_sem_write :: nat
  m_sem_read :: nat
  m_mutex :: "nat option"
  threads :: "'m pc list"

abbreviation MAX_QUEUE_SIZE :: nat where "MAX_QUEUE_SIZE \<equiv> 512000"
abbreviation CQUE_PRI_HIGH :: int where "CQUE_PRI_HIGH \<equiv> 1"

definition sq_new :: "nat \<Rightarrow> 'm syn_queue" where
  "sq_new n = \<lparr>m_maxsize = MAX_QUEUE_SIZE, m_queue = [], m_sem_write = MAX_QUEUE_SIZE - 1, m_sem_read = 0,
     m_mutex = None, threads = replicate n Idle\<rparr>"

section \<open>The critical sections\<close>

definition sq_push :: "'m \<Rightarrow> int option \<Rightarrow> 'm syn_queue \<Rightarrow> 'm syn_queue" where
  "sq_push pMsg pri q = (case pri of
     None \<Rightarrow> q\<lparr>m_queue := m_queue q @ [pMsg]\<rparr>
   | Some p \<Rightarrow> if CQUE_PRI_HIGH = p then q\<lparr>m_queue := pMsg # m_queue q\<rparr> else q)"

definition sq_pop :: "'m syn_queue \<Rightarrow> 'm option \<times> 'm syn_queue" where
  "sq_pop q = (case m_queue q of [] \<Rightarrow> (None, q) | m # ms \<Rightarrow> (Some m, q\<lparr>m_queue := ms\<rparr>))"

definition sq_size :: "'m syn_queue \<Rightarrow> nat" where
  "sq_size q = length (m_queue q)"

definition sq_length :: "'m syn_queue \<Rightarrow> nat" where
  "sq_length q = m_maxsize q"

interpretation syn_queue: fifo m_queue "\<lambda>m q. True" "\<lambda>m q. sq_push m None q" sq_pop
  by unfold_locales (auto simp: sq_push_def sq_pop_def split: list.split)

section \<open>Steps\<close>

datatype 'm event =
    Begin_put nat 'm "int option"
  | Begin_get nat
  | Lock nat
  | Push nat 'm "int option"
  | Pop nat "'m option"
  | Unlock nat
  | Post nat

definition goto :: "nat \<Rightarrow> 'm pc \<Rightarrow> 'm syn_queue \<Rightarrow> 'm syn_queue" where
  "goto i p q = q\<lparr>threads := (threads q)[i := p]\<rparr>"

definition at_pc :: "nat \<Rightarrow> 'm pc \<Rightarrow> 'm syn_queue \<Rightarrow> bool" where
  "at_pc i p q \<longleftrightarrow> i < length (threads q) \<and> threads q ! i = p"

inductive sq_step :: "'m syn_queue \<Rightarrow> 'm event \<Rightarrow> 'm syn_queue \<Rightarrow> bool" where
  begin_put: "sq_step q (Begin_put i m pri) (goto i (Put1 m pri) (q\<lparr>m_sem_write := m_sem_write q - 1\<rparr>))"
    if "at_pc i Idle q" "0 < m_sem_write q"
| lock_put: "sq_step q (Lock i) (goto i (Put2 m pri) (q\<lparr>m_mutex := Some i\<rparr>))"
    if "at_pc i (Put1 m pri) q" "m_mutex q = None"
| push: "sq_step q (Push i m pri) (goto i Put3 (sq_push m pri q))"
    if "at_pc i (Put2 m pri) q"
| unlock_put: "sq_step q (Unlock i) (goto i Put4 (q\<lparr>m_mutex := None\<rparr>))"
    if "at_pc i Put3 q"
| post_read: "sq_step q (Post i) (goto i Idle (q\<lparr>m_sem_read := Suc (m_sem_read q)\<rparr>))"
    if "at_pc i Put4 q"
| begin_get: "sq_step q (Begin_get i) (goto i Get1 (q\<lparr>m_sem_read := m_sem_read q - 1\<rparr>))"
    if "at_pc i Idle q" "0 < m_sem_read q"
| lock_get: "sq_step q (Lock i) (goto i Get2 (q\<lparr>m_mutex := Some i\<rparr>))"
    if "at_pc i Get1 q" "m_mutex q = None"
| pop: "sq_step q (Pop i r) (goto i (Get3 r) q')"
    if "at_pc i Get2 q" "sq_pop q = (r, q')"
| unlock_get: "sq_step q (Unlock i) (goto i (Get4 r) (q\<lparr>m_mutex := None\<rparr>))"
    if "at_pc i (Get3 r) q"
| post_write: "sq_step q (Post i) (goto i Idle (q\<lparr>m_sem_write := Suc (m_sem_write q)\<rparr>))"
    if "at_pc i (Get4 r) q"

inductive_cases beginE [elim!]: "sq_step q (Begin_put i m pri) q'"
inductive_cases popE [elim!]: "sq_step q (Pop i r) q'"
inductive_simps step_push: "sq_step q (Push i m pri) q'"
inductive_simps step_begin_get: "sq_step q (Begin_get i) q'"

text \<open>Runs, with what happened.\<close>

inductive sq_run :: "'m syn_queue \<Rightarrow> 'm event list \<Rightarrow> 'm syn_queue \<Rightarrow> bool" where
  start: "sq_run q [] q"
| step: "sq_run q (tr @ [ev]) q''" if "sq_run q tr q'" "sq_step q' ev q''"

section \<open>Counting\<close>

text \<open>Who holds a slot of which semaphore: writers before and after their push, readers likewise.\<close>

fun holds_slot :: "'m pc \<Rightarrow> bool" where
  "holds_slot (Put1 m pri) = True" | "holds_slot (Put2 m pri) = True"
| "holds_slot (Get3 r) = True" | "holds_slot (Get4 r) = True" | "holds_slot p = False"

fun holds_item :: "'m pc \<Rightarrow> bool" where
  "holds_item Put3 = True" | "holds_item Put4 = True"
| "holds_item Get1 = True" | "holds_item Get2 = True" | "holds_item p = False"

fun holds_mutex :: "'m pc \<Rightarrow> bool" where
  "holds_mutex (Put2 m pri) = True" | "holds_mutex Put3 = True"
| "holds_mutex Get2 = True" | "holds_mutex (Get3 r) = True" | "holds_mutex p = False"

definition number :: "('m pc \<Rightarrow> bool) \<Rightarrow> 'm syn_queue \<Rightarrow> nat" where
  "number P q = length (filter P (threads q))"

text \<open>
  Every slot is free, or held by a thread, or stands for an item that can be read; there are at most as
  many items in the deque as permissions to take one; the mutex is held by the thread in its section.
\<close>

definition sq_inv :: "'m syn_queue \<Rightarrow> bool" where
  "sq_inv q \<longleftrightarrow> m_sem_write q + number holds_slot q + (m_sem_read q + number holds_item q) = MAX_QUEUE_SIZE - 1 \<and>
     length (m_queue q) \<le> m_sem_read q + number holds_item q \<and>
     (\<forall>i < length (threads q). holds_mutex (threads q ! i) \<longleftrightarrow> m_mutex q = Some i) \<and>
     (\<forall>i. m_mutex q = Some i \<longrightarrow> i < length (threads q))"

lemma number_goto:
  assumes "at_pc i p q"
  shows "number P (goto i p' q) + of_bool (P p) = number P q + of_bool (P p')"
proof -
  have upd: "length (filter P (xs[i := p'])) + of_bool (P (xs ! i)) = length (filter P xs) + of_bool (P p')"
    if "i < length xs" for xs
    using that
  proof (induction xs arbitrary: i)
    case (Cons x xs)
    then show ?case by (cases i) (auto simp: of_bool_def)
  qed simp
  from upd [of "threads q"] assms show ?thesis by (simp add: at_pc_def goto_def number_def)
qed

lemma number_update [simp]:
  "number P (q\<lparr>m_queue := x\<rparr>) = number P q" "number P (q\<lparr>m_sem_write := k\<rparr>) = number P q"
  "number P (q\<lparr>m_sem_read := k\<rparr>) = number P q" "number P (q\<lparr>m_mutex := h\<rparr>) = number P q"
  by (simp_all add: number_def)

lemma goto_fields [simp]:
  "m_queue (goto i p q) = m_queue q" "m_sem_write (goto i p q) = m_sem_write q"
  "m_sem_read (goto i p q) = m_sem_read q" "m_mutex (goto i p q) = m_mutex q"
  "threads (goto i p q) = (threads q)[i := p]"
  by (simp_all add: goto_def)

lemma at_pc_update [simp]:
  "at_pc i p (q\<lparr>m_queue := x\<rparr>) = at_pc i p q" "at_pc i p (q\<lparr>m_sem_write := k\<rparr>) = at_pc i p q"
  "at_pc i p (q\<lparr>m_sem_read := k\<rparr>) = at_pc i p q" "at_pc i p (q\<lparr>m_mutex := h\<rparr>) = at_pc i p q"
  by (simp_all add: at_pc_def)

text \<open>One thread moves: what its step has to respect.\<close>

lemma number_moves:
  assumes "at_pc i p q" "threads q' = (threads q)[i := p']"
  shows "number P q' + of_bool (P p) = number P q + of_bool (P p')"
proof -
  have "number P q' = number P (goto i p' q)" using assms(2) by (simp add: number_def)
  then show ?thesis using number_goto [OF assms(1), of P p'] by simp
qed

lemma inv_moves:
  assumes "at_pc i p q" "sq_inv q" "threads q' = (threads q)[i := p']"
    and "m_sem_write q' + of_bool (holds_slot p') + (m_sem_read q' + of_bool (holds_item p')) =
      m_sem_write q + of_bool (holds_slot p) + (m_sem_read q + of_bool (holds_item p))"
    and "m_queue q' = [] \<or> length (m_queue q') + (m_sem_read q + of_bool (holds_item p)) \<le>
      length (m_queue q) + (m_sem_read q' + of_bool (holds_item p'))"
    and "m_mutex q' = m_mutex q \<and> holds_mutex p' = holds_mutex p \<or>
      m_mutex q = None \<and> m_mutex q' = Some i \<and> holds_mutex p' \<or>
      m_mutex q' = None \<and> holds_mutex p \<and> \<not> holds_mutex p'"
  shows "sq_inv q'"
proof -
  note n = number_moves [OF assms(1,3), of holds_slot] number_moves [OF assms(1,3), of holds_item]
  have "m_sem_write q' + number holds_slot q' + (m_sem_read q' + number holds_item q') = MAX_QUEUE_SIZE - 1"
    using assms(2,4) n unfolding sq_inv_def by linarith
  moreover have "length (m_queue q') \<le> m_sem_read q' + number holds_item q'"
    using assms(5)
  proof
    assume "length (m_queue q') + (m_sem_read q + of_bool (holds_item p)) \<le>
      length (m_queue q) + (m_sem_read q' + of_bool (holds_item p'))"
    then show ?thesis using assms(2) n(2) unfolding sq_inv_def by linarith
  qed simp
  moreover have "(\<forall>j < length (threads q'). holds_mutex (threads q' ! j) \<longleftrightarrow> m_mutex q' = Some j) \<and>
      (\<forall>j. m_mutex q' = Some j \<longrightarrow> j < length (threads q'))"
    using assms(1,2,3,6) unfolding sq_inv_def at_pc_def by (auto simp: nth_list_update)
  ultimately show ?thesis unfolding sq_inv_def by blast
qed

lemma sq_push_fields [simp]:
  "threads (sq_push m pri q) = threads q" "m_mutex (sq_push m pri q) = m_mutex q"
  "m_sem_write (sq_push m pri q) = m_sem_write q" "m_sem_read (sq_push m pri q) = m_sem_read q"
  by (simp_all add: sq_push_def split: option.split)

lemma length_sq_push: "length (m_queue (sq_push m pri q)) \<le> Suc (length (m_queue q))"
  by (simp add: sq_push_def split: option.split)

lemma sq_pop_fields:
  assumes "sq_pop q = (r, q')"
  shows "threads q' = threads q" "m_mutex q' = m_mutex q" "m_sem_write q' = m_sem_write q"
    "m_sem_read q' = m_sem_read q" "length (m_queue q') = length (m_queue q) - 1"
    "m_queue q = (case r of None \<Rightarrow> [] | Some m \<Rightarrow> [m]) @ m_queue q'"
  using assms by (auto simp: sq_pop_def split: list.splits)

lemma step_inv: "sq_step q ev q' \<Longrightarrow> sq_inv q \<Longrightarrow> sq_inv q'"
proof (induction rule: sq_step.induct)
  case (begin_put i q m pri)
  then show ?case by - (rule inv_moves [of i Idle q _ "Put1 m pri"], simp_all)
next
  case (lock_put i m pri q)
  then show ?case by - (rule inv_moves [of i "Put1 m pri" q _ "Put2 m pri"], simp_all)
next
  case (push i m pri q)
  then show ?case using length_sq_push [of m pri q] by - (rule inv_moves [of i "Put2 m pri" q _ Put3], simp_all)
next
  case (unlock_put i q)
  then show ?case by - (rule inv_moves [of i Put3 q _ Put4], simp_all)
next
  case (post_read i q)
  then show ?case by - (rule inv_moves [of i Put4 q _ Idle], simp_all)
next
  case (begin_get i q)
  then show ?case by - (rule inv_moves [of i Idle q _ Get1], simp_all)
next
  case (lock_get i q)
  then show ?case by - (rule inv_moves [of i Get1 q _ Get2], simp_all)
next
  case (pop i q r q')
  note f = sq_pop_fields [OF pop(2)]
  have "m_queue q' = [] \<or> Suc (length (m_queue q')) \<le> length (m_queue q)"
    using pop(2) by (auto simp: sq_pop_def split: list.splits)
  with pop(1,3) f(1-4) show ?case by - (rule inv_moves [of i Get2 q _ "Get3 r"], simp_all)
next
  case (unlock_get i r q)
  then show ?case by - (rule inv_moves [of i "Get3 r" q _ "Get4 r"], simp_all)
next
  case (post_write i r q)
  then show ?case by - (rule inv_moves [of i "Get4 r" q _ Idle], simp_all)
qed

lemma new_inv: "sq_inv (sq_new n)"
  by (auto simp: sq_inv_def sq_new_def number_def filter_empty_conv)

lemma run_inv: "sq_run q tr q' \<Longrightarrow> sq_inv q \<Longrightarrow> sq_inv q'"
  by (induction rule: sq_run.induct) (auto intro: step_inv)

section \<open>Runs without lost messages\<close>

text \<open>The messages put and taken in a run, in order; \<open>only P tr\<close>: every push has a priority in \<open>P\<close>.\<close>

fun pushed :: "'m event list \<Rightarrow> 'm list" where
  "pushed [] = []"
| "pushed (Push i m pri # tr) = m # pushed tr"
| "pushed (ev # tr) = pushed tr"

fun popped :: "'m event list \<Rightarrow> 'm option list" where
  "popped [] = []"
| "popped (Pop i r # tr) = r # popped tr"
| "popped (ev # tr) = popped tr"

fun only :: "int option set \<Rightarrow> 'm event list \<Rightarrow> bool" where
  "only P [] = True"
| "only P (Push i m pri # tr) = (pri \<in> P \<and> only P tr)"
| "only P (ev # tr) = only P tr"

lemma trace_append [simp]:
  "pushed (tr @ tr') = pushed tr @ pushed tr'" "popped (tr @ tr') = popped tr @ popped tr'"
  "only P (tr @ tr') = (only P tr \<and> only P tr')"
  by (induction tr rule: pushed.induct; simp)+

text \<open>When every put really pushes, there is an item for every permission to take one.\<close>

definition sq_exact :: "'m syn_queue \<Rightarrow> bool" where
  "sq_exact q \<longleftrightarrow> length (m_queue q) = m_sem_read q + number holds_item q"

lemma exact_moves:
  assumes "at_pc i p q" "sq_exact q" "threads q' = (threads q)[i := p']"
    and "length (m_queue q') + (m_sem_read q + of_bool (holds_item p)) =
      length (m_queue q) + (m_sem_read q' + of_bool (holds_item p'))"
  shows "sq_exact q'"
  using number_moves [OF assms(1,3), of holds_item] assms(2,4) unfolding sq_exact_def by linarith

lemma exact_pop:
  assumes "sq_exact q" "at_pc i Get2 q" "sq_pop q = (r, q')"
  shows "r \<noteq> None"
proof
  assume "r = None"
  then have "m_queue q = []" using assms(3) by (auto simp: sq_pop_def split: list.splits)
  moreover have "0 < number holds_item q"
    using number_moves [OF assms(2), of "goto i Idle q" Idle holds_item] by simp
  ultimately show False using assms(1) by (simp add: sq_exact_def)
qed

lemma step_exact:
  assumes "sq_step q ev q'" "sq_exact q" "only {None, Some CQUE_PRI_HIGH} [ev]"
  shows "sq_exact q' \<and> None \<notin> set (popped [ev])"
  using assms
proof (induction rule: sq_step.induct)
  case (begin_put i q m pri)
  then show ?case by - (rule conjI, rule exact_moves [of i Idle q _ "Put1 m pri"], simp_all)
next
  case (lock_put i m pri q)
  then show ?case by - (rule conjI, rule exact_moves [of i "Put1 m pri" q _ "Put2 m pri"], simp_all)
next
  case (push i m pri q)
  then have "length (m_queue (sq_push m pri q)) = Suc (length (m_queue q))" by (auto simp: sq_push_def)
  with push show ?case by - (rule conjI, rule exact_moves [of i "Put2 m pri" q _ Put3], simp_all)
next
  case (unlock_put i q)
  then show ?case by - (rule conjI, rule exact_moves [of i Put3 q _ Put4], simp_all)
next
  case (post_read i q)
  then show ?case by - (rule conjI, rule exact_moves [of i Put4 q _ Idle], simp_all)
next
  case (begin_get i q)
  then show ?case by - (rule conjI, rule exact_moves [of i Idle q _ Get1], simp_all)
next
  case (lock_get i q)
  then show ?case by - (rule conjI, rule exact_moves [of i Get1 q _ Get2], simp_all)
next
  case (pop i q r q')
  note f = sq_pop_fields [OF pop(2)] and r = exact_pop [OF pop(3,1,2)]
  then obtain m where m: "r = Some m" by blast
  then have "Suc (length (m_queue q')) = length (m_queue q)" using f(6) by simp
  with pop(1,3) f(1,4) m show ?case by - (rule conjI, rule exact_moves [of i Get2 q _ "Get3 r"], simp_all)
next
  case (unlock_get i r q)
  then show ?case by - (rule conjI, rule exact_moves [of i "Get3 r" q _ "Get4 r"], simp_all)
next
  case (post_write i r q)
  then show ?case by - (rule conjI, rule exact_moves [of i "Get4 r" q _ Idle], simp_all)
qed

lemma run_exact:
  assumes "sq_run q tr q'" "sq_exact q" "only {None, Some CQUE_PRI_HIGH} tr"
  shows "sq_exact q' \<and> None \<notin> set (popped tr)"
  using assms by (induction rule: sq_run.induct) (auto dest: step_exact)

lemma new_exact: "sq_exact (sq_new n)"
  by (simp add: sq_exact_def sq_new_def number_def filter_empty_conv)

text \<open>The deque is the abstract queue: a push appends to it, a pop takes its head, nothing else touches it.\<close>

lemma step_fifo:
  assumes "sq_step q ev q'" "only {None} [ev]" "sq_exact q"
  shows "m_queue q @ pushed [ev] = map the (popped [ev]) @ m_queue q'"
  using assms
proof (induction rule: sq_step.induct)
  case (push i m pri q)
  then show ?case by (simp add: sq_push_def)
next
  case (pop i q r q')
  from exact_pop [OF pop(4,1,2)] sq_pop_fields(6) [OF pop(2)] show ?case by (cases r) simp_all
qed simp_all

lemma only_mono: "only P tr \<Longrightarrow> P \<subseteq> Q \<Longrightarrow> only Q tr"
  by (induction tr rule: pushed.induct) auto

lemma run_fifo:
  assumes "sq_run q tr q'" "only {None} tr" "sq_exact q"
  shows "m_queue q @ pushed tr = map the (popped tr) @ m_queue q'"
  using assms
proof (induction rule: sq_run.induct)
  case (step q tr q' ev q'')
  have "sq_exact q'"
    using run_exact [OF step.hyps(1) step.prems(2)] step.prems(1) by (auto intro: only_mono)
  with step_fifo [OF step.hyps(2)] step.prems have ev: "m_queue q' @ pushed [ev] = map the (popped [ev]) @ m_queue q''" by simp
  have "m_queue q @ pushed (tr @ [ev]) = (m_queue q @ pushed tr) @ pushed [ev]" by simp
  also have "\<dots> = map the (popped tr) @ m_queue q' @ pushed [ev]" using step.IH step.prems by simp
  also have "\<dots> = map the (popped (tr @ [ev])) @ m_queue q''" unfolding ev by simp
  finally show ?case .
qed simp

section \<open>Properties\<close>

text \<open>C31: In every run of any number of threads and in every interleaving: the deque never holds more than
  \<open>MAX_QUEUE_SIZE - 1\<close> messages, no slot is lost (every one is free, held by a thread, or stands for a
  message that can be taken), and at most one thread is between lock and unlock.\<close>

theorem sq_run_invariant:
  assumes "sq_run (sq_new n) tr q"
  shows "length (m_queue q) \<le> MAX_QUEUE_SIZE - 1 \<and>
    m_sem_write q + number holds_slot q + (m_sem_read q + number holds_item q) = MAX_QUEUE_SIZE - 1 \<and>
    (\<forall>i j. i < length (threads q) \<longrightarrow> j < length (threads q) \<longrightarrow>
      holds_mutex (threads q ! i) \<longrightarrow> holds_mutex (threads q ! j) \<longrightarrow> i = j)"
proof -
  from run_inv [OF assms new_inv] have inv: "sq_inv q" .
  then have "length (m_queue q) \<le> MAX_QUEUE_SIZE - 1" unfolding sq_inv_def by linarith
  with inv show ?thesis unfolding sq_inv_def by (metis option.inject)
qed

text \<open>A thread that puts, and one that takes, running alone.\<close>

definition put_trace :: "nat \<Rightarrow> 'm \<Rightarrow> int option \<Rightarrow> 'm event list" where
  "put_trace i m pri = [Begin_put i m pri, Lock i, Push i m pri, Unlock i, Post i]"

definition get_trace :: "nat \<Rightarrow> 'm option \<Rightarrow> 'm event list" where
  "get_trace i r = [Begin_get i, Lock i, Pop i r, Unlock i, Post i]"

lemma put_alone:
  assumes "sq_run q0 tr q" "at_pc i Idle q" "0 < m_sem_write q" "m_mutex q = None"
  shows "sq_run q0 (tr @ put_trace i m pri)
    ((sq_push m pri q)\<lparr>m_sem_write := m_sem_write q - 1, m_sem_read := Suc (m_sem_read q)\<rparr>)"
proof -
  let ?q1 = "goto i (Put1 m pri) (q\<lparr>m_sem_write := m_sem_write q - 1\<rparr>)"
  let ?q2 = "goto i (Put2 m pri) (?q1\<lparr>m_mutex := Some i\<rparr>)"
  let ?q3 = "goto i Put3 (sq_push m pri ?q2)"
  let ?q4 = "goto i Put4 (?q3\<lparr>m_mutex := None\<rparr>)"
  let ?q5 = "goto i Idle (?q4\<lparr>m_sem_read := Suc (m_sem_read ?q4)\<rparr>)"
  have at: "at_pc i (Put1 m pri) ?q1" "at_pc i (Put2 m pri) ?q2" "at_pc i Put3 ?q3" "at_pc i Put4 ?q4"
    using assms(2) by (simp_all add: at_pc_def)
  have "sq_step q (Begin_put i m pri) ?q1" by (rule sq_step.begin_put) (use assms(2,3) in simp_all)
  moreover have "sq_step ?q1 (Lock i) ?q2" by (rule sq_step.lock_put) (use assms(4) at(1) in simp_all)
  moreover have "sq_step ?q2 (Push i m pri) ?q3" by (rule sq_step.push) (use at(2) in simp)
  moreover have "sq_step ?q3 (Unlock i) ?q4" by (rule sq_step.unlock_put) (use at(3) in simp)
  moreover have "sq_step ?q4 (Post i) ?q5" by (rule sq_step.post_read) (use at(4) in simp)
  ultimately have "sq_run q0 (((((tr @ [Begin_put i m pri]) @ [Lock i]) @ [Push i m pri]) @ [Unlock i]) @ [Post i]) ?q5"
    by (rule sq_run.step [OF sq_run.step [OF sq_run.step [OF sq_run.step [OF sq_run.step [OF assms(1)]]]]])
  moreover have "?q5 = (sq_push m pri q)\<lparr>m_sem_write := m_sem_write q - 1, m_sem_read := Suc (m_sem_read q)\<rparr>"
    using assms(2,4) by (cases q) (auto simp: goto_def sq_push_def at_pc_def list_update_same_conv split: option.split)
  ultimately show ?thesis by (simp add: put_trace_def)
qed

lemma get_alone:
  assumes "sq_run q0 tr q" "at_pc i Idle q" "0 < m_sem_read q" "m_mutex q = None" "sq_pop q = (r, q')"
  shows "sq_run q0 (tr @ get_trace i r)
    (q'\<lparr>m_sem_read := m_sem_read q - 1, m_sem_write := Suc (m_sem_write q)\<rparr>)"
proof -
  let ?q1 = "goto i Get1 (q\<lparr>m_sem_read := m_sem_read q - 1\<rparr>)"
  let ?q2 = "goto i Get2 (?q1\<lparr>m_mutex := Some i\<rparr>)"
  let ?q3 = "goto i (Get3 r) (snd (sq_pop ?q2))"
  let ?q4 = "goto i (Get4 r) (?q3\<lparr>m_mutex := None\<rparr>)"
  let ?q5 = "goto i Idle (?q4\<lparr>m_sem_write := Suc (m_sem_write ?q4)\<rparr>)"
  have pop: "sq_pop ?q2 = (r, snd (sq_pop ?q2))"
    using assms(5) by (auto simp: sq_pop_def split: list.splits)
  have at: "at_pc i Get1 ?q1" "at_pc i Get2 ?q2" "at_pc i (Get3 r) ?q3" "at_pc i (Get4 r) ?q4"
    using assms(2) sq_pop_fields(1) [OF pop] by (simp_all add: at_pc_def)
  have "sq_step q (Begin_get i) ?q1" by (rule sq_step.begin_get) (use assms(2,3) in simp_all)
  moreover have "sq_step ?q1 (Lock i) ?q2" by (rule sq_step.lock_get) (use assms(4) at(1) in simp_all)
  moreover have "sq_step ?q2 (Pop i r) ?q3" by (rule sq_step.pop [OF at(2) pop])
  moreover have "sq_step ?q3 (Unlock i) ?q4" by (rule sq_step.unlock_get [OF at(3)])
  moreover have "sq_step ?q4 (Post i) ?q5" by (rule sq_step.post_write [OF at(4)])
  ultimately have "sq_run q0 (((((tr @ [Begin_get i]) @ [Lock i]) @ [Pop i r]) @ [Unlock i]) @ [Post i]) ?q5"
    by (rule sq_run.step [OF sq_run.step [OF sq_run.step [OF sq_run.step [OF sq_run.step [OF assms(1)]]]]])
  moreover have "?q5 = q'\<lparr>m_sem_read := m_sem_read q - 1, m_sem_write := Suc (m_sem_write q)\<rparr>"
    using assms(2,4,5)
    by (cases q) (auto simp: goto_def sq_pop_def at_pc_def list_update_same_conv split: list.splits)
  ultimately show ?thesis by (simp add: get_trace_def)
qed

theorem sq_run_invariant_witness:
  "\<exists>q. sq_run (sq_new 1) (put_trace 0 (7 :: nat) None) q \<and> length (m_queue q) = 1 \<and>
    m_sem_write q + number holds_slot q + (m_sem_read q + number holds_item q) = MAX_QUEUE_SIZE - 1"
proof -
  define q0 :: "nat syn_queue" where "q0 = sq_new 1"
  have "sq_run q0 ([] @ put_trace 0 7 None)
      ((sq_push 7 None q0)\<lparr>m_sem_write := m_sem_write q0 - 1, m_sem_read := Suc (m_sem_read q0)\<rparr>)"
    by (rule put_alone [OF sq_run.start]) (simp_all add: q0_def sq_new_def at_pc_def)
  then obtain q where q: "sq_run (sq_new 1) (put_trace 0 (7 :: nat) None) q" "length (m_queue q) = 1"
    by (auto simp: sq_push_def sq_new_def q0_def)
  from sq_run_invariant [OF q(1)] q show ?thesis by blast
qed

text \<open>C32: First in, first out: in every run in which messages are put without a priority, the messages taken
  so far followed by the messages in the deque are the messages put, in the order of their pushes, and no
  \<open>get\<close> returns NULL.\<close>

theorem sq_run_fifo:
  assumes "sq_run (sq_new n) tr q" "only {None} tr"
  shows "pushed tr = map the (popped tr) @ m_queue q \<and> None \<notin> set (popped tr)"
proof -
  have "only {None, Some CQUE_PRI_HIGH} tr" using assms(2) by (rule only_mono) simp
  with run_exact [OF assms(1) new_exact] run_fifo [OF assms new_exact] show ?thesis
    by (simp add: sq_new_def)
qed

lemma demo_two_puts_one_get:
  "\<exists>q. sq_run (sq_new 2) ((put_trace 0 ''a'' None @ put_trace 1 ''b'' None) @ get_trace 1 (Some ''a'')) q \<and>
    m_queue q = [''b'']"
proof -
  define q0 :: "string syn_queue" where "q0 = sq_new 2"
  define q1 where "q1 = (sq_push ''a'' None q0)\<lparr>m_sem_write := m_sem_write q0 - 1, m_sem_read := Suc (m_sem_read q0)\<rparr>"
  define q2 where "q2 = (sq_push ''b'' None q1)\<lparr>m_sem_write := m_sem_write q1 - 1, m_sem_read := Suc (m_sem_read q1)\<rparr>"
  note defs = q2_def q1_def q0_def sq_new_def sq_push_def at_pc_def sq_pop_def
  have "sq_run q0 ([] @ put_trace 0 ''a'' None) q1"
    unfolding q1_def by (rule put_alone [OF sq_run.start]) (simp_all add: defs)
  then have "sq_run q0 (([] @ put_trace 0 ''a'' None) @ put_trace 1 ''b'' None) q2"
    unfolding q2_def by (rule put_alone) (simp_all add: defs numeral_2_eq_2)
  moreover have "at_pc 1 Idle q2" "0 < m_sem_read q2" "m_mutex q2 = None" "m_queue q2 = [''a'', ''b'']"
    by (simp_all add: defs numeral_2_eq_2)
  moreover then have "sq_pop q2 = (Some ''a'', q2\<lparr>m_queue := [''b'']\<rparr>)" by (simp add: sq_pop_def)
  ultimately have "sq_run q0 (([] @ put_trace 0 ''a'' None @ put_trace 1 ''b'' None) @ get_trace 1 (Some ''a''))
      (q2\<lparr>m_queue := [''b''], m_sem_read := m_sem_read q2 - 1, m_sem_write := Suc (m_sem_write q2)\<rparr>)"
    using get_alone [of q0 "([] @ put_trace 0 ''a'' None) @ put_trace 1 ''b'' None" q2 1] by simp
  then have "\<exists>q. sq_run q0 (([] @ put_trace 0 ''a'' None @ put_trace 1 ''b'' None) @ get_trace 1 (Some ''a'')) q \<and>
      m_queue q = [''b'']"
    by - (rule exI, rule conjI, assumption, simp)
  then show ?thesis unfolding q0_def append_Nil .
qed

theorem sq_run_fifo_witness:
  "\<exists>q. sq_run (sq_new 2) ((put_trace 0 ''a'' None @ put_trace 1 ''b'' None) @ get_trace 1 (Some ''a'')) q \<and>
    [''a'', ''b''] = map the [Some ''a''] @ m_queue q"
proof -
  obtain q where q: "sq_run (sq_new 2) ((put_trace 0 ''a'' None @ put_trace 1 ''b'' None) @ get_trace 1 (Some ''a'')) q"
    using demo_two_puts_one_get by blast
  from sq_run_fifo [OF this] q show ?thesis by (auto simp: put_trace_def get_trace_def)
qed

text \<open>C33: A put or get that has passed its \<open>sem_wait\<close> is never stuck: in every reachable state in which a
  thread is inside one, some thread inside one can take its next step.\<close>

theorem sq_run_no_deadlock:
  assumes "sq_run (sq_new n) tr q" "i < length (threads q)" "threads q ! i \<noteq> Idle"
  shows "\<exists>ev q'. sq_step q ev q' \<and> (\<forall>j m pri. ev \<noteq> Begin_put j m pri \<and> ev \<noteq> Begin_get j)"
proof -
  from run_inv [OF assms(1) new_inv] have inv: "sq_inv q" .
  show ?thesis
  proof (cases "m_mutex q")
    case None
    with inv assms(2) have "\<not> holds_mutex (threads q ! i)" by (auto simp: sq_inv_def)
    moreover have "at_pc i (threads q ! i) q" using assms(2) by (simp add: at_pc_def)
    ultimately show ?thesis using None assms(3)
      by (cases "threads q ! i") (auto dest: sq_step.lock_put sq_step.lock_get sq_step.post_read sq_step.post_write)
  next
    case (Some j)
    with inv have "holds_mutex (threads q ! j)" "at_pc j (threads q ! j) q" by (auto simp: sq_inv_def at_pc_def)
    moreover obtain r q' where "sq_pop q = (r, q')" by (cases "sq_pop q")
    ultimately show ?thesis
      by (cases "threads q ! j") (auto dest: sq_step.push sq_step.unlock_put sq_step.pop sq_step.unlock_get)
  qed
qed

theorem sq_run_no_deadlock_witness:
  "\<exists>ev q'. sq_step (goto 0 (Put1 ''m'' None) ((sq_new 1)\<lparr>m_sem_write := 511998\<rparr>)) ev q' \<and>
    (\<forall>j m pri. ev \<noteq> Begin_put j m pri \<and> ev \<noteq> Begin_get j)"
proof (rule sq_run_no_deadlock [where i = 0])
  define q0 :: "string syn_queue" where "q0 = sq_new 1"
  have "sq_step q0 (Begin_put 0 ''m'' None) (goto 0 (Put1 ''m'' None) (q0\<lparr>m_sem_write := m_sem_write q0 - 1\<rparr>))"
    by (rule sq_step.begin_put) (simp_all add: q0_def sq_new_def at_pc_def)
  from sq_run.step [OF sq_run.start this]
  show "sq_run (sq_new 1) [Begin_put 0 ''m'' None] (goto 0 (Put1 ''m'' None) ((sq_new 1)\<lparr>m_sem_write := 511998\<rparr>))"
    by (simp add: sq_new_def q0_def)
qed (simp_all add: sq_new_def goto_def)

text \<open>A message put with a priority other than \<open>CQUE_PRI_HIGH\<close> is lost: the semaphore for readers is
  posted although nothing was pushed, and the next \<open>get\<close> returns NULL.\<close>

theorem sq_other_priority_lost:
  assumes "p \<noteq> CQUE_PRI_HIGH"
  shows "sq_run (sq_new (Suc n)) (put_trace 0 m (Some p) @ get_trace 0 None) (sq_new (Suc n))"
proof -
  define q0 :: "'a syn_queue" where "q0 = sq_new (Suc n)"
  define q1 where "q1 = (sq_push m (Some p) q0)\<lparr>m_sem_write := m_sem_write q0 - 1, m_sem_read := Suc (m_sem_read q0)\<rparr>"
  note defs = q1_def q0_def sq_new_def sq_push_def at_pc_def sq_pop_def
  have "sq_run q0 ([] @ put_trace 0 m (Some p)) q1"
    unfolding q1_def by (rule put_alone [OF sq_run.start]) (simp_all add: defs)
  then have "sq_run q0 (([] @ put_trace 0 m (Some p)) @ get_trace 0 None)
      (q1\<lparr>m_sem_read := m_sem_read q1 - 1, m_sem_write := Suc (m_sem_write q1)\<rparr>)"
    by (rule get_alone) (use assms in \<open>simp_all add: defs\<close>)
  moreover have "q1\<lparr>m_sem_read := m_sem_read q1 - 1, m_sem_write := Suc (m_sem_write q1)\<rparr> = q0"
    using assms by (simp add: defs)
  ultimately show ?thesis by (simp add: q0_def)
qed

theorem sq_other_priority_lost_witness:
  "sq_run (sq_new 1) (put_trace 0 ''m'' (Some 2) @ get_trace 0 None) (sq_new 1)"
  using sq_other_priority_lost [of 2 0 "''m''"] by simp

end
