(* ===== verification/Thread_Sync.thy ===== *)
theory Thread_Sync
  imports Exclusion
begin

text \<open>
  The wrappers of \<open>src/common/threadmutex.h\<close> and \<open>threadmutex.cpp\<close>: a mutex, recursive or not, and a condition
  variable. A call that blocks is \<^const>\<open>Blocked\<close>; threads are numbered. The condition variable keeps the
  threads waiting on it; there is no predicate, so a signal that finds nobody waiting is lost.
\<close>

section \<open>CThreadMutex and CThreadLock\<close>

record thread_mutex =
  mx_recursive :: bool
  mx_owner :: "nat option"
  mx_depth :: nat

definition mx_new :: "bool \<Rightarrow> thread_mutex" where
  "mx_new bMutil = \<lparr>mx_recursive = bMutil, mx_owner = None, mx_depth = 0\<rparr>"

definition mx_Lock :: "nat \<Rightarrow> (thread_mutex, unit) proc" where
  "mx_Lock i m = (case mx_owner m of
     None \<Rightarrow> (Ret (), m\<lparr>mx_owner := Some i, mx_depth := 1\<rparr>)
   | Some j \<Rightarrow> if j = i \<and> mx_recursive m then (Ret (), m\<lparr>mx_depth := Suc (mx_depth m)\<rparr>) else (Stuck Blocked, m))"

text \<open>Unlocking a mutex of another thread is undefined.\<close>

definition mx_UnLock :: "nat \<Rightarrow> (thread_mutex, unit) proc" where
  "mx_UnLock i m =
     (if mx_owner m \<noteq> Some i then (Stuck Undefined, m)
      else if mx_depth m = 1 then (Ret (), m\<lparr>mx_owner := None, mx_depth := 0\<rparr>)
      else (Ret (), m\<lparr>mx_depth := mx_depth m - 1\<rparr>))"

text \<open>A block guarded by a \<open>CThreadLock\<close>: the destructor unlocks when it returns or throws.\<close>

definition with_lock :: "nat \<Rightarrow> (thread_mutex, 'a) proc \<Rightarrow> (thread_mutex, 'a) proc" where
  "with_lock i body = mseq (mx_Lock i) (\<lambda>m. case body m of
     (Stuck k, m) \<Rightarrow> (Stuck k, m)
   | (r, m) \<Rightarrow> (case mx_UnLock i m of (Ret _, m) \<Rightarrow> (r, m) | (Exn e, m) \<Rightarrow> (Exn e, m) | (Stuck k, m) \<Rightarrow> (Stuck k, m)))"

definition mx_ok :: "thread_mutex \<Rightarrow> bool" where
  "mx_ok m \<longleftrightarrow> (case mx_owner m of None \<Rightarrow> mx_depth m = 0 | Some _ \<Rightarrow> 0 < mx_depth m \<and> (\<not> mx_recursive m \<longrightarrow> mx_depth m = 1))"

lemma mx_Lock_UnLock:
  assumes "mx_ok m" "mx_Lock i m = (Ret (), m')"
  shows "mx_ok m'" "mx_UnLock i m' = (Ret (), m)"
  using assms by (auto simp: mx_Lock_def mx_UnLock_def mx_ok_def split: option.splits if_splits)

text \<open>A guarded block that leaves the mutex as it found it gives it back exactly as it was before.\<close>

lemma with_lock_restores:
  assumes "mx_ok m" "mx_Lock i m = (Ret (), m1)" "body m1 = (r, m1)" "r \<notin> range Stuck"
  shows "with_lock i body m = (r, m)"
  using mx_Lock_UnLock [OF assms(1,2)] assms(2-4)
  by (cases r) (simp_all add: with_lock_def mseq_run)

text \<open>The plain mutex is a lock in the sense of \<^theory_text>\<open>exclusion\<close>; the recursive one is not: its holder may lock it again.\<close>

interpretation mx: exclusion "\<lambda>m. mx_ok m \<and> \<not> mx_recursive m" mx_owner
  "\<lambda>i m. case mx_Lock i m of (Ret _, m') \<Rightarrow> Some m' | _ \<Rightarrow> None" "\<lambda>i m. snd (mx_UnLock i m)"
  by unfold_locales (auto simp: mx_ok_def mx_Lock_def mx_UnLock_def split: option.splits)

text \<open>At most one thread is between \<open>Lock\<close> and \<open>UnLock\<close>.\<close>

lemma mx_one_inside:
  assumes "mx_ok m" "\<not> mx_recursive m" "mx_Lock i m = (Ret (), m')" "mx_Lock j m' = (Ret (), m'')"
  shows False
proof -
  have "(case mx_Lock i m of (Ret _, m') \<Rightarrow> Some m' | _ \<Rightarrow> None) = Some m'" using assms(3) by simp
  note i = mx.acquired [OF conjI [OF assms(1,2)] this]
  have "(case mx_Lock j m' of (Ret _, m') \<Rightarrow> Some m' | _ \<Rightarrow> None) = Some m''" using assms(4) by simp
  from mx.acquired(2) [OF i(1) this] i(3) show False by simp
qed

lemma nested_lock_blocks: "with_lock i (mx_Lock i) (mx_new False) = (Stuck Blocked, \<lparr>mx_recursive = False, mx_owner = Some i, mx_depth = 1\<rparr>)"
  by (simp add: with_lock_def mseq_run mx_Lock_def mx_new_def)

section \<open>CThreadCond\<close>

record thread_cond =
  cond_is_init :: bool
  cond_is_create :: bool
  cond_waiting :: "nat list"

definition cond_new :: thread_cond where
  "cond_new = \<lparr>cond_is_init = False, cond_is_create = False, cond_waiting = []\<rparr>"

text \<open>The copy constructor copies the objects of the C library byte by byte: the copy has no waiters of its own.\<close>

definition cond_copy :: "thread_cond \<Rightarrow> thread_cond" where
  "cond_copy c = \<lparr>cond_is_init = cond_is_init c, cond_is_create = False, cond_waiting = []\<rparr>"

definition cond_init :: "thread_cond \<Rightarrow> thread_cond" where
  "cond_init c = c\<lparr>cond_is_create := True, cond_is_init := True, cond_waiting := []\<rparr>"

definition cond_destory :: "thread_cond \<Rightarrow> thread_cond" where
  "cond_destory c = (if cond_is_create c then c\<lparr>cond_is_init := False\<rparr> else c)"

text \<open>
  \<open>WaitCond\<close>: 2 before \<open>init\<close>, otherwise the thread waits (\<open>None\<close>) until a signal picks it; \<open>SetCond\<close> wakes the
  first waiter, if there is one.
\<close>

definition WaitCond :: "nat \<Rightarrow> thread_cond \<Rightarrow> int option \<times> thread_cond" where
  "WaitCond i c = (if \<not> cond_is_init c then (Some 2, c) else (None, c\<lparr>cond_waiting := cond_waiting c @ [i]\<rparr>))"

definition SetCond :: "thread_cond \<Rightarrow> int \<times> thread_cond" where
  "SetCond c = (if \<not> cond_is_init c then (2, c) else (0, c\<lparr>cond_waiting := tl (cond_waiting c)\<rparr>))"

lemma signal_lost: "cond_is_init c \<Longrightarrow> cond_waiting c = [] \<Longrightarrow> snd (WaitCond i (snd (SetCond c))) = c\<lparr>cond_waiting := [i]\<rparr>"
  by (simp add: SetCond_def WaitCond_def)

text \<open>
  The deadline of \<open>WaitCondTimeOut(msec)\<close>, for the time \<open>tv_sec\<close>, \<open>tv_usec\<close>: \<open>msec * 1000\<close> is an \<open>int\<close>, the sum a
  64-bit unsigned number.
\<close>

definition wait_deadline :: "nat \<Rightarrow> nat \<Rightarrow> int \<Rightarrow> (nat \<times> nat) result" where
  "wait_deadline tv_sec tv_usec msec =
     (if msec * 1000 < - (2 ^ 31) \<or> 2 ^ 31 \<le> msec * 1000 then Stuck Undefined
      else let tmp = nat ((int tv_sec * 1000000 + int tv_usec + msec * 1000) mod 2 ^ 64);
               sec = tmp div 1000000
           in Ret (sec, (tmp - sec * 1000000) * 1000))"

definition WaitCondTimeOut :: "nat \<Rightarrow> nat \<Rightarrow> nat \<Rightarrow> int \<Rightarrow> (thread_cond, (int + nat \<times> nat)) proc" where
  "WaitCondTimeOut i tv_sec tv_usec msec c =
     (if \<not> cond_is_init c then (Ret (Inl 2), c)
      else case wait_deadline tv_sec tv_usec msec of
        Ret to \<Rightarrow> (Ret (Inr to), c\<lparr>cond_waiting := cond_waiting c @ [i]\<rparr>)
      | Exn e \<Rightarrow> (Exn e, c) | Stuck k \<Rightarrow> (Stuck k, c))"

section \<open>Properties\<close>

text \<open>The deadline handed to \<open>pthread_cond_timedwait\<close> is well formed (fewer than a thousand million
  nanoseconds) and is exactly \<open>msec\<close> milliseconds after the time read, for every delay that fits and every
  time until the year 200000.\<close>

theorem wait_deadline_exact:
  assumes "0 \<le> msec" "msec \<le> 2147483" "tv_usec < 1000000" "tv_sec < 2 ^ 42"
  shows "\<exists>sec nsec. wait_deadline tv_sec tv_usec msec = Ret (sec, nsec) \<and> nsec < 1000000000 \<and>
    int sec * 1000000000 + int nsec = int tv_sec * 1000000000 + int tv_usec * 1000 + msec * 1000000"
proof -
  define us where "us = int tv_sec * 1000000 + int tv_usec + msec * 1000"
  have "int tv_sec < 2 ^ 42" using assms(4) by (simp only: of_nat_less_numeral_power_cancel_iff)
  then have range: "0 \<le> us" "us < 2 ^ 64" using assms(1-3) by (simp_all add: us_def)
  then have m: "us mod 2 ^ 64 = us" by (rule mod_pos_pos_trivial)
  define n where "n = nat us"
  have n: "int n = us" using range(1) by (simp add: n_def)
  have "wait_deadline tv_sec tv_usec msec = Ret (n div 1000000, (n - n div 1000000 * 1000000) * 1000)"
    using assms(1,2) m by (simp add: wait_deadline_def Let_def us_def [symmetric] n_def)
  moreover have "(n - n div 1000000 * 1000000) * 1000 = n mod 1000000 * 1000"
    by (simp add: minus_div_mult_eq_mod)
  moreover have "int (n div 1000000) * 1000000000 + int (n mod 1000000 * 1000) = us * 1000"
  proof -
    have "n div 1000000 * 1000000000 + n mod 1000000 * 1000 = n * 1000"
      using div_mult_mod_eq [of n 1000000] by linarith
    then show ?thesis using n by (metis of_nat_add of_nat_mult of_nat_numeral)
  qed
  moreover have "n mod 1000000 * 1000 < 1000000000"
    using mod_less_divisor [of 1000000 n] by linarith
  ultimately show ?thesis by (auto simp: us_def)
qed

theorem wait_deadline_exact_witness:
  "\<exists>sec nsec. wait_deadline 1469091900 999000 2 = Ret (sec, nsec) \<and> nsec < 1000000000 \<and>
    int sec * 1000000000 + int nsec = int 1469091900 * 1000000000 + int 999000 * 1000 + 2 * 1000000"
  by (rule wait_deadline_exact) simp_all

end
