(* ===== verification/Epoll_Loop.thy ===== *)
theory Epoll_Loop
  imports Tcp_Task
begin

text \<open>
  \<open>CEpoll\<close> of \<open>src/common/myepoll.cpp\<close>: creation, the wait loop that hands every event to its task, and the
  destructor. (The registration calls are in \<open>Base_Task\<close>.) A task pointer is an address of a heap; a task
  that destroys itself is gone from the heap, and using it afterwards is undefined. What \<open>epoll_create\<close> and
  \<open>epoll_wait\<close> answer is an argument.
\<close>

section \<open>CEpoll\<close>

record cepoll =
  m_nEpollFd :: int
  m_nEpollSize :: int
  m_nEpollWaitTime :: int
  m_epollEvents :: "nat option"
  ce_closed :: "int list"

text \<open>The constructor leaves \<open>m_nEpollWaitTime\<close> unset; \<open>m_epollEvents\<close> is NULL or the size of the array.\<close>

definition ce_new :: "int \<Rightarrow> cepoll" where
  "ce_new garbage = \<lparr>m_nEpollFd = 0, m_nEpollSize = 0, m_nEpollWaitTime = garbage, m_epollEvents = None, ce_closed = []\<rparr>"

definition ce_Init :: "int \<Rightarrow> int \<Rightarrow> errno + nat \<Rightarrow> cepoll \<Rightarrow> int \<times> cepoll" where
  "ce_Init epollSize epollWaitTime answer e =
     (let e = e\<lparr>m_nEpollWaitTime := epollWaitTime, m_nEpollSize := epollSize,
                m_nEpollFd := (case answer of Inl _ \<Rightarrow> -1 | Inr fd \<Rightarrow> int fd)\<rparr>
      in if m_nEpollFd e = -1 then (-1, e) else (0, e\<lparr>m_epollEvents := Some (nat epollSize)\<rparr>))"

definition ce_destroy :: "cepoll \<Rightarrow> cepoll" where
  "ce_destroy e = e\<lparr>m_epollEvents := None, ce_closed := ce_closed e @ [m_nEpollFd e]\<rparr>"

text \<open>\<open>EpollWait\<close>; \<open>handle\<close> is the virtual \<open>HandleProcess\<close>, an event is a task pointer and a mask.\<close>

definition ce_EpollWait ::
  "(nat \<Rightarrow> nat \<Rightarrow> ('w, int) proc) \<Rightarrow> errno + (nat option \<times> nat) list \<Rightarrow> ('w, int) proc" where
  "ce_EpollWait handle answer = (case answer of
     Inl _ \<Rightarrow> mret 0
   | Inr evs \<Rightarrow>
       mseq (mfor (\<lambda>(ptr, events). case ptr of
               None \<Rightarrow> mret ()
             | Some tmpTask \<Rightarrow> mseq (handle tmpTask events) (mret ())) evs)
         (mret (int (length evs))))"

section \<open>Tasks on a heap\<close>

text \<open>
  \<open>HandleProcess\<close> of a TCP task returns -1 exactly when it has destroyed itself. A TCP task has no pointers to other
  tasks, so its handler changes its own cell only.
\<close>

type_synonym tasks = "nat \<Rightarrow> tcp_task option"

definition heap_handle :: "nat \<Rightarrow> nat \<Rightarrow> (tasks, int) proc" where
  "heap_handle a events heap = (case heap a of
     None \<Rightarrow> (Stuck Undefined, heap)
   | Some t \<Rightarrow> (case tcp_HandleProcess events t of
       (r, t') \<Rightarrow> (r, heap(a := if r = Ret (-1) then None else Some t'))))"

text \<open>What becomes of the task of one event.\<close>

definition after_event :: "nat \<Rightarrow> tcp_task \<Rightarrow> tcp_task option" where
  "after_event events t = (case tcp_HandleProcess events t of (r, t') \<Rightarrow> if r = Ret (-1) then None else Some t')"

definition handles :: "nat \<Rightarrow> tcp_task \<Rightarrow> bool" where
  "handles events t \<longleftrightarrow> (\<exists>v t'. tcp_HandleProcess events t = (Ret v, t'))"

lemma heap_handle_run:
  assumes "heap a = Some t" "handles events t"
  shows "\<exists>v. heap_handle a events heap = (Ret v, heap(a := after_event events t))"
  using assms by (auto simp: heap_handle_def handles_def after_event_def)

lemma dispatch_all:
  assumes "distinct (map fst evs)" "\<forall>(a, events) \<in> set evs. \<exists>t. heap a = Some t \<and> handles events t"
  shows "mfor (\<lambda>(ptr, events). case ptr of None \<Rightarrow> mret () | Some tmpTask \<Rightarrow> mseq (heap_handle tmpTask events) (mret ()))
      (map (\<lambda>(a, events). (Some a, events)) evs) heap =
    (Ret (), \<lambda>a. case map_of evs a of None \<Rightarrow> heap a | Some events \<Rightarrow> Option.bind (heap a) (after_event events))"
  using assms
proof (induction evs arbitrary: heap)
  case (Cons ev evs)
  obtain a events where ev: "ev = (a, events)" by (cases ev)
  with Cons.prems obtain t where t: "heap a = Some t" "handles events t" by auto
  let ?heap = "heap(a := after_event events t)"
  let ?step = "\<lambda>(ptr, events). case ptr of None \<Rightarrow> mret () | Some tmpTask \<Rightarrow> mseq (heap_handle tmpTask events) (mret ())"
  let ?some = "\<lambda>(a :: nat, events :: nat). (Some a, events)"
  obtain v where v: "heap_handle a events heap = (Ret v, ?heap)" using heap_handle_run [of heap a t events] t by auto
  have "a \<notin> fst ` set evs" using Cons.prems(1) ev by simp
  with Cons.prems ev have "\<forall>(b, events) \<in> set evs. \<exists>t. ?heap b = Some t \<and> handles events t"
    by (force split: if_splits)
  moreover have "distinct (map fst evs)" using Cons.prems(1) by simp
  ultimately have rest: "mfor ?step (map ?some evs) ?heap =
      (Ret (), \<lambda>b. case map_of evs b of None \<Rightarrow> ?heap b | Some events \<Rightarrow> Option.bind (?heap b) (after_event events))"
    by (intro Cons.IH)
  have "map_of evs a = None" using \<open>a \<notin> fst ` set evs\<close> by (simp add: map_of_eq_None_iff)
  then have "(\<lambda>b. case map_of evs b of None \<Rightarrow> ?heap b | Some events \<Rightarrow> Option.bind (?heap b) (after_event events)) =
      (\<lambda>b. case map_of (ev # evs) b of None \<Rightarrow> heap b | Some events \<Rightarrow> Option.bind (heap b) (after_event events))"
    using t(1) ev by (auto simp: fun_eq_iff split: option.splits)
  with v rest ev show ?case by (simp add: mseq_run mret_run)
qed (simp add: mret_run)

section \<open>Properties\<close>

text \<open>When the events of one wait belong to different live tasks, \<open>EpollWait\<close> never uses a destroyed task:
  it returns the number of events, every task with an event has handled exactly that event (and is gone
  from the heap if it destroyed itself), and every other task is untouched.\<close>

theorem EpollWait_dispatches:
  assumes "distinct (map fst evs)" "\<forall>(a, events) \<in> set evs. \<exists>t. heap a = Some t \<and> handles events t"
  shows "ce_EpollWait heap_handle (Inr (map (\<lambda>(a, events). (Some a, events)) evs)) heap =
    (Ret (int (length evs)),
     \<lambda>a. case map_of evs a of None \<Rightarrow> heap a | Some events \<Rightarrow> Option.bind (heap a) (after_event events))"
  using dispatch_all [OF assms] by (simp add: ce_EpollWait_def mseq_run mret_run)


definition demo_heap :: tasks where
  "demo_heap a = (if a \<in> {1, 2, 3} then Some ((tcp_new (int a) \<lparr>m_Buffer = \<lambda>_. CHR 0x00, m_uOffset = 0, m_uGetOffset = 0\<rparr>)
     \<lparr>rx_events := if a = 1 then [Closed] else []\<rparr>) else None)"

lemma demo_events:
  "demo_heap 1 = Some t \<Longrightarrow> \<exists>t'. tcp_HandleProcess EPOLLIN t = (Ret (-1), t')"
  "demo_heap 2 = Some t \<Longrightarrow> \<exists>t'. tcp_HandleProcess EPOLLIN t = (Ret 0, t')"
  by (auto simp: demo_heap_def tcp_HandleProcess_def bt_HandleProcess_def tcp_RecvProcess_def run_simps Let_def
      tcp_new_def base_task.defs tcp_task.defs bt_new_def cv_new_def cv_Clear_def cv_getSize_def)

theorem EpollWait_dispatches_witness:
  "\<exists>heap. ce_EpollWait heap_handle (Inr (map (\<lambda>(a, events). (Some a, events)) [(2, EPOLLIN), (1, EPOLLIN)])) demo_heap =
      (Ret 2, heap) \<and> heap 1 = None \<and> heap 2 \<noteq> None \<and> heap 3 = demo_heap 3"
proof -
  obtain t1 t2 where t: "demo_heap 1 = Some t1" "demo_heap 2 = Some t2" by (simp add: demo_heap_def)
  from demo_events(1) [OF t(1)] demo_events(2) [OF t(2)] obtain u1 u2 where
    u: "tcp_HandleProcess EPOLLIN t1 = (Ret (-1), u1)" "tcp_HandleProcess EPOLLIN t2 = (Ret 0, u2)" by blast
  have "\<forall>(a, events) \<in> set [(2, EPOLLIN), (1, EPOLLIN)]. \<exists>t. demo_heap a = Some t \<and> handles events t"
    using t u by (simp add: handles_def)
  from EpollWait_dispatches [OF _ this] t u show ?thesis by (simp add: after_event_def)
qed

text \<open>A \<open>CEpoll\<close> that was never initialised closes descriptor 0.\<close>

lemma ce_new_closes_stdin: "ce_closed (ce_destroy (ce_new garbage)) = [0]"
  by (simp add: ce_new_def ce_destroy_def)

end
