(* ===== verification/Config_File.thy ===== *)
theory Config_File
  imports Std_Lib
begin

text \<open>
  \<open>Magic_Config\<close> of \<open>src/common/Config.h\<close> and \<open>Config.cpp\<close>: an ini file as a map of sections, each a map of
  items. Files are a function from names to contents (\<open>None\<close>: cannot be opened); the outcomes of opening
  for writing and of each write are a queue, success when it is exhausted. The contract is that what is
  written can be read back.
\<close>

section \<open>State\<close>

type_synonym config_type = "(string, string) omap"

record magic_config =
  m_config :: string
  m_section :: "(string, config_type) omap"
  files :: "string \<Rightarrow> string option"
  out_results :: "bool list"

abbreviation MAX_LINE_LEN :: nat where "MAX_LINE_LEN \<equiv> 10240"
abbreviation NUL :: char where "NUL \<equiv> CHR 0x00"
abbreviation SP :: char where "SP \<equiv> CHR '' ''"

section \<open>Reading\<close>

text \<open>
  \<open>TrimString\<close>: in a string of blanks only, \<open>find_first_not_of\<close> gives \<open>npos\<close> and \<open>substr\<close> throws.
\<close>

definition TrimString :: "string \<Rightarrow> string result" where
  "TrimString str = (if str = [] then Ret str
     else if set str \<subseteq> {SP} then Exn Out_of_range
     else Ret (rtrim [SP] (dropWhile (\<lambda>c. c = SP) str)))"

text \<open>The local variables of \<open>LoadFile\<close> and the map it fills.\<close>

record load_state =
  ld_section :: string
  ld_getsection :: bool
  ld_keyvalue :: config_type
  ld_sections :: "(string, config_type) omap"

text \<open>\<open>tmp.substr(pos + 1, endpos - pos - 1)\<close> with unsigned positions.\<close>

definition between :: "nat \<Rightarrow> nat \<Rightarrow> string \<Rightarrow> string" where
  "between pos endpos tmp = (if endpos < pos then drop (pos + 1) tmp else take (endpos - pos - 1) (drop (pos + 1) tmp))"

definition load_section :: "string \<Rightarrow> nat \<Rightarrow> (load_state, bool) proc" where
  "load_section tmp pos ld = (case find_last CHR '']'' tmp of
     None \<Rightarrow> (Ret False, ld)
   | Some endpos \<Rightarrow> (Ret True,
       ld\<lparr>ld_sections := (if ld_getsection ld then omap_put (ld_section ld) (ld_keyvalue ld) (ld_sections ld)
                         else ld_sections ld),
         ld_section := between pos endpos tmp, ld_getsection := True, ld_keyvalue := []\<rparr>))"

definition load_item :: "string \<Rightarrow> (load_state, bool) proc" where
  "load_item tmp =
     (if find_first CHR '';'' tmp \<noteq> Some 0 \<and> find_first CHR ''#'' tmp \<noteq> Some 0 then
        (case find_first CHR ''='' tmp of
           None \<Rightarrow> mret True
         | Some keypos \<Rightarrow>
             mbind (mlift (TrimString (take keypos tmp))) (\<lambda>key.
             mbind (mlift (TrimString (drop (keypos + 1) tmp))) (\<lambda>value ld.
               (Ret True, ld\<lparr>ld_keyvalue := omap_put key value (ld_keyvalue ld)\<rparr>))))
      else mret True)"

text \<open>One round of the loop; \<open>False\<close> is \<open>return -1\<close>. The buffer holds the line up to its first NUL.\<close>

definition config_line :: "string \<Rightarrow> (load_state, bool) proc" where
  "config_line l =
     (let buf = takeWhile (\<lambda>c. c \<noteq> NUL) l in
      if buf = [] then mret True
      else let tmp = (if last buf = CR then butlast buf else buf) in
        if tmp = [] then mret True
        else mbind (mlift (TrimString tmp)) (\<lambda>tmp.
          case find_first CHR ''['' tmp of
            Some pos \<Rightarrow> load_section tmp pos
          | None \<Rightarrow> load_item tmp))"

primrec load_lines :: "string list \<Rightarrow> (load_state, bool) proc" where
  "load_lines [] = mret True"
| "load_lines (l # ls) = mbind (config_line l) (\<lambda>go. if go then load_lines ls else mret False)"

text \<open>\<open>getline(buf, MAX_LINE_LEN)\<close> fails on a line that does not fit, which ends the loop.\<close>

definition config_lines :: "string \<Rightarrow> string list" where
  "config_lines content = takeWhile (\<lambda>l. length l < MAX_LINE_LEN) (getlines LF content)"

definition LoadFile :: "(magic_config, int) proc" where
  "LoadFile c = (case files c (m_config c) of
     None \<Rightarrow> (Ret (-1), c)
   | Some content \<Rightarrow>
       (case load_lines (config_lines content)
           \<lparr>ld_section = [], ld_getsection = False, ld_keyvalue = [], ld_sections = m_section c\<rparr> of
          (Ret True, ld) \<Rightarrow> (Ret 0, c\<lparr>m_section := (if ld_section ld \<noteq> []
             then omap_put (ld_section ld) (ld_keyvalue ld) (ld_sections ld) else ld_sections ld)\<rparr>)
        | (Ret False, ld) \<Rightarrow> (Ret (-1), c\<lparr>m_section := ld_sections ld\<rparr>)
        | (Exn e, ld) \<Rightarrow> (Exn e, c\<lparr>m_section := ld_sections ld\<rparr>)
        | (Stuck k, ld) \<Rightarrow> (Stuck k, c\<lparr>m_section := ld_sections ld\<rparr>)))"

definition config_Init :: "(magic_config, int) proc" where
  "config_Init = LoadFile"

definition config_assign :: "magic_config \<Rightarrow> magic_config \<Rightarrow> magic_config" where
  "config_assign file c = c\<lparr>m_config := m_config file, m_section := m_section file\<rparr>"

definition getSection :: "string \<Rightarrow> magic_config \<Rightarrow> int \<times> config_type option" where
  "getSection name c = (case map_of (m_section c) name of None \<Rightarrow> (-1, None) | Some s \<Rightarrow> (0, Some s))"

definition getSectionList :: "magic_config \<Rightarrow> string list \<Rightarrow> string list" where
  "getSectionList c sectionlist = sectionlist @ map fst (m_section c)"

text \<open>The result and, where the code assigns \<open>itemvalue\<close>, its value.\<close>

definition ReadItem :: "string \<Rightarrow> string \<Rightarrow> string \<Rightarrow> magic_config \<Rightarrow> int \<times> string option" where
  "ReadItem section key defaultvalue c = (case map_of (m_section c) section of
     None \<Rightarrow> (-1, None)
   | Some config \<Rightarrow> (0, Some (case map_of config key of None \<Rightarrow> defaultvalue | Some v \<Rightarrow> v)))"

section \<open>Writing\<close>

definition secitem :: "string \<Rightarrow> string" where
  "secitem section = ''['' @ section @ '']'' @ [LF]"

definition item_text :: "string \<times> string \<Rightarrow> string" where
  "item_text kv = fst kv @ ''='' @ snd kv @ [LF]"

definition section_texts :: "string \<times> config_type \<Rightarrow> string list" where
  "section_texts sec = secitem (fst sec) # map item_text (snd sec)"

text \<open>\<open>dumpinfo\<close> prints the same pieces.\<close>

definition dumpinfo :: "magic_config \<Rightarrow> string" where
  "dumpinfo c = concat (concat (map section_texts (m_section c)))"

definition out_ok :: "(magic_config, bool) proc" where
  "out_ok c = (case out_results c of [] \<Rightarrow> (Ret True, c) | r # rs \<Rightarrow> (Ret r, c\<lparr>out_results := rs\<rparr>))"

definition write_piece :: "string \<Rightarrow> (magic_config, bool) proc" where
  "write_piece s = mbind out_ok (\<lambda>ok c. (Ret ok,
     if ok then c\<lparr>files := (files c)(m_config c := Some ((case files c (m_config c) of None \<Rightarrow> [] | Some t \<Rightarrow> t) @ s))\<rparr> else c))"

primrec write_pieces :: "string list \<Rightarrow> (magic_config, bool) proc" where
  "write_pieces [] = mret True"
| "write_pieces (s # ss) = mbind (write_piece s) (\<lambda>ok. if ok then write_pieces ss else mret False)"

definition WriteFile :: "(magic_config, int) proc" where
  "WriteFile =
     mbind out_ok (\<lambda>ok c.
       if \<not> ok then (Ret (-1), c)
       else mbind (write_pieces (concat (map section_texts (m_section c))))
              (\<lambda>ok. mret (if ok then 0 else -1)) (c\<lparr>files := (files c)(m_config c := Some [])\<rparr>))"

text \<open>The search of \<open>WriteItem\<close> runs to the end in any case, so the item is always stored by \<open>config[key]\<close>.\<close>

definition WriteItem :: "string \<Rightarrow> string \<Rightarrow> string \<Rightarrow> (magic_config, int) proc" where
  "WriteItem section key value = (\<lambda>c. case map_of (m_section c) section of
     None \<Rightarrow> WriteFile (c\<lparr>m_section := omap_put section [(key, value)] (m_section c)\<rparr>)
   | Some config \<Rightarrow> WriteFile (c\<lparr>m_section := omap_put section
       (omap_put key value (map (\<lambda>(k, v). if k = key then (k, value) else (k, v)) config)) (m_section c)\<rparr>))"

section \<open>What is written can be read\<close>

definition plain_text :: "string \<Rightarrow> bool" where
  "plain_text s \<longleftrightarrow> NUL \<notin> set s \<and> LF \<notin> set s"

text \<open>
  Items and sections that survive: no bracket, no equals sign in the key, no comment sign at its start, no
  blanks or tabs around key or value, no carriage return at the end, and lines that fit the buffer. (Tabs around a
  value survive as well, although \<open>Config.h\<close> says that they are trimmed.)
\<close>

definition clean_item :: "string \<times> string \<Rightarrow> bool" where
  "clean_item kv \<longleftrightarrow> (case kv of (k, v) \<Rightarrow>
     plain_text k \<and> plain_text v \<and> CHR ''['' \<notin> set (k @ v) \<and> CHR ''='' \<notin> set k \<and>
     (k \<noteq> [] \<longrightarrow> hd k \<notin> {SP, CHR 0x09, CHR '';'', CHR ''#''} \<and> last k \<notin> {SP, CHR 0x09}) \<and>
     (v \<noteq> [] \<longrightarrow> hd v \<notin> {SP, CHR 0x09} \<and> last v \<notin> {SP, CHR 0x09, CR}) \<and>
     length (k @ v) + 1 < MAX_LINE_LEN)"

definition clean_section :: "string \<times> config_type \<Rightarrow> bool" where
  "clean_section sec \<longleftrightarrow> plain_text (fst sec) \<and> fst sec \<noteq> [] \<and> length (fst sec) + 2 < MAX_LINE_LEN \<and>
     omap_ok (snd sec) \<and> list_all clean_item (snd sec)"

lemma TrimString_clean:
  assumes "s = [] \<or> hd s \<noteq> SP \<and> last s \<noteq> SP"
  shows "TrimString s = Ret s"
proof (cases s)
  case (Cons c cs)
  with assms have c: "c \<noteq> SP" "last s \<noteq> SP" by auto
  then have "dropWhile (\<lambda>c. c = SP) s = s" "\<not> set s \<subseteq> {SP}" using Cons by auto
  moreover have "rtrim [SP] s = s" by (rule rtrim_id) (use c in simp)
  ultimately show ?thesis by (simp add: TrimString_def)
qed (simp add: TrimString_def)

lemma takeWhile_plain: "plain_text s \<Longrightarrow> takeWhile (\<lambda>c. c \<noteq> NUL) s = s"
  by (auto simp: plain_text_def takeWhile_eq_all_conv)

lemma find_last_snoc: "find_last c (s @ [c]) = Some (length s)"
  by (induction s) auto

lemma line_section:
  assumes "plain_text sec"
  shows "config_line (''['' @ sec @ '']'') ld = (Ret True,
    ld\<lparr>ld_sections := (if ld_getsection ld then omap_put (ld_section ld) (ld_keyvalue ld) (ld_sections ld)
        else ld_sections ld),
      ld_section := sec, ld_getsection := True, ld_keyvalue := []\<rparr>)"
proof -
  let ?l = "CHR ''['' # sec @ '']''"
  have "plain_text ?l" using assms by (auto simp: plain_text_def)
  then have "takeWhile (\<lambda>c. c \<noteq> NUL) ?l = ?l" by (rule takeWhile_plain)
  moreover have "TrimString ?l = Ret ?l" by (rule TrimString_clean) simp
  moreover have "find_last CHR '']'' ?l = Some (Suc (length sec))" using find_last_snoc [of "CHR '']''" sec] by simp
  ultimately show ?thesis by (simp add: config_line_def run_simps load_section_def between_def Let_def)
qed

lemma line_item:
  assumes "clean_item (k, v)"
  shows "config_line (k @ ''='' @ v) ld = (Ret True, ld\<lparr>ld_keyvalue := omap_put k v (ld_keyvalue ld)\<rparr>)"
proof -
  define l where "l = k @ CHR ''='' # v"
  note c = assms [unfolded clean_item_def prod.case]
  have "plain_text l" using c by (auto simp: plain_text_def l_def)
  then have tw: "takeWhile (\<lambda>c. c \<noteq> NUL) l = l" by (rule takeWhile_plain)
  have ne: "l \<noteq> []" by (simp add: l_def)
  have lst: "last l \<noteq> CR" "last l \<noteq> SP" using c by (cases "v = []"; auto simp: l_def)+
  have hd: "hd l \<notin> {SP, CHR '';'', CHR ''#''}" using c by (cases k) (auto simp: l_def)
  have trim: "TrimString l = Ret l" by (rule TrimString_clean) (use hd lst in auto)
  have none: "find_first CHR ''['' l = None" using c by (auto simp: l_def)
  have start: "find_first ch l \<noteq> Some 0" if "ch \<in> {CHR '';'', CHR ''#''}" for ch
    using hd that ne by (cases l) auto
  have eq: "find_first CHR ''='' l = Some (length k)"
    unfolding l_def by (rule find_first_append) (use c in simp)
  have kv: "TrimString (take (length k) l) = Ret k" "TrimString (drop (length k + 1) l) = Ret v"
    using c by (auto simp: l_def intro!: TrimString_clean)
  have "load_item l ld = (Ret True, ld\<lparr>ld_keyvalue := omap_put k v (ld_keyvalue ld)\<rparr>)"
    unfolding load_item_def using start eq kv by (simp add: run_simps)
  then have "config_line l ld = (Ret True, ld\<lparr>ld_keyvalue := omap_put k v (ld_keyvalue ld)\<rparr>)"
    unfolding config_line_def Let_def tw using ne lst(1) trim none by (simp add: run_simps del: find_first_None)
  then show ?thesis by (simp add: l_def)
qed

lemma omap_put_snoc: "\<forall>x \<in> fst ` set m. x < k \<Longrightarrow> omap_put k v m = m @ [(k, v)]"
  for m :: "('k::linorder, 'v) omap"
  by (induction k v m rule: omap_put.induct) auto

lemma omap_ok_snoc: "omap_ok (m @ (k, v) # r) \<Longrightarrow> \<forall>x \<in> fst ` set m. x < k"
  for m :: "('k::linorder, 'v) omap"
  by (force simp: omap_ok_def sorted_wrt_append)

text \<open>The lines of a file, without their line feeds.\<close>

definition section_lines :: "string \<times> config_type \<Rightarrow> string list" where
  "section_lines sec = (''['' @ fst sec @ '']'') # map (\<lambda>(k, v). k @ ''='' @ v) (snd sec)"

lemma load_items:
  assumes "list_all clean_item items" "omap_ok (ld_keyvalue ld @ items)"
  shows "load_lines (map (\<lambda>(k, v). k @ ''='' @ v) items @ rest) ld =
    load_lines rest (ld\<lparr>ld_keyvalue := ld_keyvalue ld @ items\<rparr>)"
  using assms
proof (induction items arbitrary: ld)
  case (Cons kv items)
  obtain k v where kv: "kv = (k, v)" by (cases kv)
  from Cons.prems kv have "config_line (k @ ''='' @ v) ld = (Ret True, ld\<lparr>ld_keyvalue := omap_put k v (ld_keyvalue ld)\<rparr>)"
    by (intro line_item) simp
  moreover have "omap_put k v (ld_keyvalue ld) = ld_keyvalue ld @ [(k, v)]"
    by (rule omap_put_snoc, rule omap_ok_snoc [of _ k v items]) (use Cons.prems(2) kv in simp)
  ultimately have "load_lines (map (\<lambda>(k, v). k @ ''='' @ v) (kv # items) @ rest) ld =
      load_lines (map (\<lambda>(k, v). k @ ''='' @ v) items @ rest) (ld\<lparr>ld_keyvalue := ld_keyvalue ld @ [(k, v)]\<rparr>)"
    by (simp add: kv mbind_Ret)
  also have "\<dots> = load_lines rest (ld\<lparr>ld_keyvalue := ld_keyvalue ld @ kv # items\<rparr>)"
    using Cons.IH [of "ld\<lparr>ld_keyvalue := ld_keyvalue ld @ [(k, v)]\<rparr>"] Cons.prems
    unfolding kv by simp
  finally show ?case .
qed simp

text \<open>What \<open>LoadFile\<close> makes of the final state of the loop.\<close>

definition load_end :: "load_state \<Rightarrow> (string, config_type) omap" where
  "load_end ld = (if ld_section ld \<noteq> [] then omap_put (ld_section ld) (ld_keyvalue ld) (ld_sections ld) else ld_sections ld)"

lemma load_sections:
  assumes "list_all clean_section secs" "omap_ok (load_end ld @ secs)" "ld_getsection ld = (ld_section ld \<noteq> [])"
  shows "\<exists>ld'. load_lines (concat (map section_lines secs)) ld = (Ret True, ld') \<and> load_end ld' = load_end ld @ secs"
  using assms
proof (induction secs arbitrary: ld)
  case Nil
  then show ?case by (simp add: mret_run)
next
  case (Cons sec secs)
  obtain s items where sec: "sec = (s, items)" by (cases sec)
  have clean: "plain_text s" "s \<noteq> []" "omap_ok items" "list_all clean_item items"
    using Cons.prems(1) sec by (simp_all add: clean_section_def)
  let ?ld = "ld\<lparr>ld_sections := load_end ld, ld_section := s, ld_getsection := True, ld_keyvalue := items\<rparr>"
  have start: "config_line (''['' @ s @ '']'') ld = (Ret True, ?ld\<lparr>ld_keyvalue := []\<rparr>)"
    using line_section [OF clean(1), of ld] Cons.prems(3) by (simp add: load_end_def)
  have "load_lines (section_lines sec @ rest) ld = load_lines rest ?ld" for rest
    using load_items [OF clean(4), of "?ld\<lparr>ld_keyvalue := []\<rparr>" rest] clean(3) start
    by (simp add: section_lines_def sec mbind_Ret)
  moreover have "load_end ?ld = load_end ld @ [sec]"
    using omap_put_snoc [OF omap_ok_snoc] Cons.prems(2) clean(2) sec by (simp add: load_end_def [of ?ld])
  ultimately show ?case using Cons.IH [of ?ld] Cons.prems(1,2) clean(2) by simp
qed

lemma config_lines_sections:
  assumes "list_all clean_section secs"
  shows "config_lines (concat (concat (map section_texts secs))) = concat (map section_lines secs)"
proof -
  have piece: "concat (section_texts sec) = concat (map (\<lambda>l. l @ [LF]) (section_lines sec))" for sec
    by (simp add: section_texts_def section_lines_def secitem_def item_text_def [abs_def] comp_def case_prod_beta)
  then have content: "concat (concat (map section_texts secs)) =
      concat (map (\<lambda>l. l @ [LF]) (concat (map section_lines secs)))"
    by (induction secs) (simp_all add: piece)
  have line: "LF \<notin> set l \<and> length l < MAX_LINE_LEN" if "l \<in> set (concat (map section_lines secs))" for l
    using that assms
    by (fastforce simp: section_lines_def list_all_iff clean_section_def clean_item_def plain_text_def)
  have "getlines LF (concat (concat (map section_texts secs))) = concat (map section_lines secs)"
    unfolding content by (rule getlines_concat) (use line in blast)
  then show ?thesis using line by (simp add: config_lines_def takeWhile_eq_all_conv del: set_concat)
qed

lemma write_pieces_all:
  assumes "out_results c = []" "files c (m_config c) = Some t"
  shows "write_pieces ss c = (Ret True, c\<lparr>files := (files c)(m_config c := Some (t @ concat ss))\<rparr>)"
  using assms
proof (induction ss arbitrary: c t)
  case (Cons s ss)
  let ?c = "c\<lparr>files := (files c)(m_config c := Some (t @ s))\<rparr>"
  have "write_piece s c = (Ret True, ?c)" using Cons.prems by (simp add: write_piece_def run_simps out_ok_def)
  moreover have "write_pieces ss ?c = (Ret True, ?c\<lparr>files := (files ?c)(m_config ?c := Some ((t @ s) @ concat ss))\<rparr>)"
    by (rule Cons.IH) (use Cons.prems in simp_all)
  ultimately have "write_pieces (s # ss) c = (Ret True, ?c\<lparr>files := (files ?c)(m_config ?c := Some ((t @ s) @ concat ss))\<rparr>)"
    by (simp only: write_pieces.simps mbind_Ret if_True)
  also have "?c\<lparr>files := (files ?c)(m_config ?c := Some ((t @ s) @ concat ss))\<rparr> =
      c\<lparr>files := (files c)(m_config c := Some (t @ concat (s # ss)))\<rparr>" by simp
  finally show ?case .
qed (simp add: mret_run fun_upd_idem)

section \<open>Properties\<close>

text \<open>C34: What \<open>WriteFile\<close> writes, a fresh object for the same file reads back: the same sections with the same
  items, when no write fails and the sections and items are clean (\<open>clean_section\<close>): named sections, no line feeds or
  NULs, no bracket in an item, no equals sign in a key and no comment sign at its start, no blanks or tabs around
  keys and values, no carriage return at the end of a value, and no line as long as the buffer of 10240 bytes.\<close>

theorem config_round_trip:
  assumes "omap_ok (m_section c)" "list_all clean_section (m_section c)" "out_results c = []"
  shows "\<exists>c'. WriteFile c = (Ret 0, c') \<and> m_section c' = m_section c \<and>
    LoadFile (c'\<lparr>m_section := []\<rparr>) = (Ret 0, c')"
proof -
  let ?content = "concat (concat (map section_texts (m_section c)))"
  define c' where "c' = c\<lparr>files := (files c)(m_config c := Some ?content)\<rparr>"
  have written: "WriteFile c = (Ret 0, c')"
    using write_pieces_all [of "c\<lparr>files := (files c)(m_config c := Some [])\<rparr>" "[]"] assms(3)
    by (simp add: WriteFile_def out_ok_def run_simps c'_def)
  let ?ld = "\<lparr>ld_section = [], ld_getsection = False, ld_keyvalue = [], ld_sections = []\<rparr>"
  obtain ld where ld: "load_lines (concat (map section_lines (m_section c))) ?ld = (Ret True, ld)"
      "load_end ld = m_section c"
    using load_sections [OF assms(2), of ?ld] assms(1) by (auto simp: load_end_def)
  have "LoadFile (c'\<lparr>m_section := []\<rparr>) = (Ret 0, c'\<lparr>m_section := load_end ld\<rparr>)"
    using ld(1) by (simp add: LoadFile_def c'_def config_lines_sections [OF assms(2)] load_end_def)
  moreover have "c'\<lparr>m_section := load_end ld\<rparr> = c'" using ld(2) by (simp add: c'_def)
  ultimately show ?thesis using written by (simp add: c'_def)
qed

definition demo_config :: "(string, config_type) omap \<Rightarrow> magic_config" where
  "demo_config secs = \<lparr>m_config = ''a.ini'', m_section = secs, files = (\<lambda>_. None), out_results = []\<rparr>"

theorem config_round_trip_witness:
  "\<exists>c'. WriteFile (demo_config [(''net'', [(''host'', ''10.0.0.1''), (''port'', ''80 81'')])]) = (Ret 0, c') \<and>
    m_section c' = [(''net'', [(''host'', ''10.0.0.1''), (''port'', ''80 81'')])] \<and>
    LoadFile (c'\<lparr>m_section := []\<rparr>) = (Ret 0, c')"
  using config_round_trip [of "demo_config [(''net'', [(''host'', ''10.0.0.1''), (''port'', ''80 81'')])]"]
  by (simp add: demo_config_def omap_ok_def clean_section_def clean_item_def plain_text_def list_less_def
      lexord_simps less_char_def)

text \<open>Tabs are not trimmed.\<close>

theorem TrimString_keeps_tabs: "TrimString [CHR 0x09, CHR ''a'', CHR 0x09] = Ret [CHR 0x09, CHR ''a'', CHR 0x09]"
  by (rule TrimString_clean) simp

text \<open>Writing does not change the map.\<close>

lemma WriteFile_frame: "preserves (\<lambda>c c'. m_section c' = m_section c) WriteFile"
proof -
  let ?R = "\<lambda>c c' :: magic_config. m_section c' = m_section c"
  have rel: "reflp ?R" "transp ?R" by (auto simp: reflp_def transp_def)
  have ok: "preserves ?R out_ok" by (simp add: preserves_def out_ok_def split: list.split)
  have piece: "preserves ?R (write_piece s)" for s
    unfolding write_piece_def by (rule preserves_mbind [OF rel(2) ok]) (simp add: preserves_def)
  have pieces: "preserves ?R (write_pieces ss)" for ss
    by (induction ss) (auto intro!: preserves_intros rel piece)
  have "preserves ?R (\<lambda>c. if \<not> ok then (Ret (-1), c) else mbind (write_pieces (ss c))
      (\<lambda>ok. mret (if ok then 0 else - 1 :: int)) (c\<lparr>files := f c\<rparr>))" for ok ss f
  proof -
    have "preserves ?R (mbind (write_pieces xs) (\<lambda>ok. mret (if ok then 0 else - 1 :: int)))" for xs
      by (intro preserves_mbind preserves_pure rel pieces)
    then have "m_section (snd (mbind (write_pieces (ss c)) (\<lambda>ok. mret (if ok then 0 else - 1 :: int)) (c\<lparr>files := f c\<rparr>)))
        = m_section (c\<lparr>files := f c\<rparr>)" for c by (simp add: preserves_def)
    then show ?thesis by (simp add: preserves_def)
  qed
  then show ?thesis unfolding WriteFile_def by (intro preserves_mbind rel ok)
qed

text \<open>\<open>WriteItem\<close> then \<open>ReadItem\<close>: the item has the value, whatever became of the file, and every other item
  of every section reads as before (a section that did not exist now exists).\<close>

theorem WriteItem_ReadItem:
  assumes "WriteItem section key value c = (Ret r, c')" "omap_ok (m_section c)"
    "\<forall>config \<in> snd ` set (m_section c). omap_ok config"
  shows "ReadItem section key d c' = (0, Some value) \<and>
    ((s, k) \<noteq> (section, key) \<longrightarrow> ReadItem s k d c' =
      (if s = section \<and> map_of (m_section c) section = None then (0, Some d) else ReadItem s k d c))"
proof -
  note frame = preservesD [OF WriteFile_frame]
  show ?thesis
  proof (cases "map_of (m_section c) section")
    case None
    with assms(1) have "m_section c' = omap_put section [(key, value)] (m_section c)"
      by (auto simp: WriteItem_def dest!: frame)
    with None show ?thesis by (auto simp: ReadItem_def omap_put_find [OF assms(2)])
  next
    case (Some config)
    let ?config = "map (\<lambda>(k, v). if k = key then (k, value) else (k, v)) config"
    have fst: "map fst ?config = map fst config" by (simp add: comp_def case_prod_beta if_distrib cong: if_cong)
    have "omap_ok config" using Some assms(3) by (force dest: map_of_SomeD)
    then have ok: "omap_ok ?config" unfolding omap_ok_def fst .
    have find: "map_of ?config k = map_of config k" if "k \<noteq> key" for k
      using that by (induction config) auto
    from Some assms(1) have "m_section c' = omap_put section (omap_put key value ?config) (m_section c)"
      by (auto simp: WriteItem_def dest!: frame)
    with Some find show ?thesis
      by (auto simp: ReadItem_def omap_put_find [OF assms(2)] omap_put_find [OF ok])
  qed
qed

theorem WriteItem_ReadItem_witness:
  "ReadItem ''net'' ''port'' [] (snd (WriteItem ''net'' ''port'' ''9'' (demo_config []))) = (0, Some ''9'')"
proof -
  have "\<exists>c'. WriteItem ''net'' ''port'' ''9'' (demo_config []) = (Ret 0, c')"
    by (simp add: WriteItem_def WriteFile_def demo_config_def out_ok_def section_texts_def write_piece_def run_simps)
  then obtain c' where c': "WriteItem ''net'' ''port'' ''9'' (demo_config []) = (Ret 0, c')" by blast
  from WriteItem_ReadItem [OF c'] c' show ?thesis by (simp add: demo_config_def)
qed

text \<open>A line of blanks only (shorter than the buffer) makes \<open>LoadFile\<close> throw \<open>std::out_of_range\<close>.\<close>

theorem LoadFile_blank_line:
  assumes "files c (m_config c) = Some (l @ LF # rest)" "l \<noteq> []" "set l \<subseteq> {SP}" "length l < MAX_LINE_LEN"
  shows "fst (LoadFile c) = Exn Out_of_range"
proof -
  have "LF \<notin> set l" using assms(3) by auto
  then have lines: "config_lines (l @ LF # rest) = l # config_lines rest"
    using assms(4) by (simp add: config_lines_def getlines_line)
  have tw: "takeWhile (\<lambda>c. c \<noteq> NUL) l = l" using assms(3) by (auto simp: takeWhile_eq_all_conv)
  have "last l = SP" using assms(2,3) by (meson last_in_set singletonD subsetD)
  then have "config_line l ld = (Exn Out_of_range, ld)" for ld
    unfolding config_line_def Let_def tw using assms(2,3) by (simp add: TrimString_def run_simps)
  then show ?thesis using assms(1) by (simp add: LoadFile_def lines mbind_Exn)
qed

theorem LoadFile_blank_line_witness:
  "fst (LoadFile ((demo_config [])\<lparr>files := (\<lambda>_. Some (''  '' @ LF # ''[a]''))\<rparr>)) = Exn Out_of_range"
  by (rule LoadFile_blank_line [where l = "''  ''" and rest = "''[a]''"]) (simp_all add: demo_config_def)

end
