(* ===== verification/Work_Thread.thy ===== *)
theory Work_Thread
  imports CV_Buffer Std_Lib
begin

text \<open>
  \<open>CWorkThread\<close> of \<open>src/common/work_thread.cpp\<close> with the registry of commands of \<open>src/common/PlugContext.h\<close>
  and \<open>GetUdpServerAddr\<close> of \<open>src/common/common.cpp\<close>. The generated protobuf code, the HTTP client, the JSON
  reader, the plug-in classes and the server object are parameters (\<open>worker_env\<close> and the factories); the
  type \<open>'w\<close> is whatever state they have.
\<close>

section \<open>Commands and their registry\<close>

datatype scmd = SCmd (uiCmd: "32 word") (uiSubCmd: "32 word")

text \<open>\<open>operator<\<close> of \<open>SCmd\<close> is a linear order, which is what \<open>std::map\<close> relies on.\<close>

lemma scmd_eq_iff: "x = y \<longleftrightarrow> uiCmd x = uiCmd y \<and> uiSubCmd x = uiSubCmd y"
  by (cases x; cases y) simp

definition scmd_less :: "scmd \<Rightarrow> scmd \<Rightarrow> bool" where
  "scmd_less lsh rsh \<longleftrightarrow>
     (if uiCmd lsh \<noteq> uiCmd rsh then uiCmd lsh < uiCmd rsh else uiSubCmd lsh < uiSubCmd rsh)"

instantiation scmd :: linorder
begin

definition less_scmd :: "scmd \<Rightarrow> scmd \<Rightarrow> bool" where
  "lsh < rsh \<longleftrightarrow> scmd_less lsh rsh"

definition less_eq_scmd :: "scmd \<Rightarrow> scmd \<Rightarrow> bool" where
  "lsh \<le> rsh \<longleftrightarrow> lsh < rsh \<or> lsh = (rsh :: scmd)"

instance
  by standard (auto simp: less_eq_scmd_def less_scmd_def scmd_less_def scmd_eq_iff split: if_splits)

end

text \<open>
  A factory: \<open>CreateDataObject\<close> gets the body and gives NULL or an object, and the object's \<open>Process\<close>, after
  \<open>SetCmd\<close>, a return value and a result string.
\<close>

type_synonym 'w factory = "string \<Rightarrow> ('w, (32 word \<Rightarrow> ('w, int \<times> string) proc) option) proc"

record 'w scallback =
  cb_uiCmd :: "32 word"
  cb_uiSubCmd :: "32 word"
  pFactory :: "'w factory option"

type_synonym 'w cmd_map = "(scmd, 'w scallback) omap"

definition op_regi :: "32 word \<Rightarrow> 32 word \<Rightarrow> 'w factory \<Rightarrow> 'w cmd_map \<Rightarrow> 'w cmd_map" where
  "op_regi cmd sub imp m = (case map_of m (SCmd cmd sub) of
     None \<Rightarrow> omap_put (SCmd cmd sub) \<lparr>cb_uiCmd = cmd, cb_uiSubCmd = sub, pFactory = Some imp\<rparr> m
   | Some _ \<Rightarrow> m)"

text \<open>The registrations of a program, in the order its static objects are built.\<close>

definition registered :: "(32 word \<times> 32 word \<times> 'w factory) list \<Rightarrow> 'w cmd_map" where
  "registered rs = fold (\<lambda>(cmd, sub, imp). op_regi cmd sub imp) rs []"

section \<open>Parameters\<close>

text \<open>
  \<open>parse_head\<close>: \<open>SSHead::ParseFromArray\<close> and \<open>command()\<close>. \<open>http_get\<close>: \<open>CHttpClient::Get\<close>. \<open>json_parse\<close>:
  \<open>Json::Reader::parse\<close>, giving \<open>JRspData[name].asString()\<close>, which may throw. \<open>send_udp\<close>:
  \<open>CMyserver::GetInstance()->SendToUdpServer\<close>.
\<close>

record 'w worker_env =
  parse_head :: "string \<Rightarrow> 32 word option"
  http_get :: "string \<Rightarrow> ('w, int \<times> string) proc"
  json_parse :: "string \<Rightarrow> (string \<Rightarrow> string result) option"
  send_udp :: "32 word \<Rightarrow> string \<Rightarrow> 16 word \<Rightarrow> string \<Rightarrow> 16 word \<Rightarrow> ('w, int) proc"

section \<open>GetUdpServerAddr\<close>

text \<open>
  \<open>None\<close> is the return value -1, with \<open>sAddr\<close> and \<open>iPort\<close> unset. The type goes to \<open>iUpSrvType\<close>, which is
  passed by value: it is lost, and \<open>iSelfType\<close> is never assigned.
\<close>

definition parse_server :: "'w worker_env \<Rightarrow> string \<Rightarrow> ('w, (string \<times> 16 word) option) proc" where
  "parse_server E sRsp = (case json_parse E sRsp of
     None \<Rightarrow> mret None
   | Some JRspData \<Rightarrow>
       mbind (mlift (JRspData ''errno'')) (\<lambda>sErrCode.
         if sErrCode \<noteq> ''200'' then mret None
         else mbind (mlift (JRspData ''ip'')) (\<lambda>sAddr.
              mbind (mlift (JRspData ''port'')) (\<lambda>port.
              mbind (mlift (JRspData ''type'')) (\<lambda>_. mret (Some (sAddr, word_of_int (atoi port))))))))"

definition GetUdpServerAddr :: "'w worker_env \<Rightarrow> string \<Rightarrow> ('w, (string \<times> 16 word) option) proc" where
  "GetUdpServerAddr E sDisPatchAddr =
     mbind (http_get E sDisPatchAddr) (\<lambda>(iRet, sRsp).
       if iRet \<noteq> 0 then mret None else parse_server E sRsp)"

section \<open>The worker\<close>

text \<open>
  The first half of \<open>Process\<close>: the message is read through a \<open>CVBuffer\<close> on the stack, whose memory holds
  anything before. \<open>None\<close> is a \<open>return -1\<close>, otherwise the command and \<open>sBuf\<close>.
\<close>

definition wt_read :: "'w worker_env \<Rightarrow> string \<Rightarrow> (cvbuffer, (32 word \<times> string) option) proc" where
  "wt_read E body =
     mseq (cv_new_from (Some body) (of_nat (length body)))
     (mbind (cv_shr T16) (\<lambda>h. let usHeadLen = (case h of F16 v \<Rightarrow> v | _ \<Rightarrow> 0) in
     (\<lambda>b. mbind (copy_out (cv_JumpBuffer b) (unat usHeadLen)) (\<lambda>bs.
        case parse_head E bs of
          None \<Rightarrow> mret None
        | Some cmd \<Rightarrow> (\<lambda>b. mbind (cv_shr T16) (\<lambda>l b.
            let usBodyLen = (case l of F16 v \<Rightarrow> v | _ \<Rightarrow> 0) in
            if cv_RemainSize b \<noteq> int (unat usBodyLen) then mret None b
            else mbind (copy_out (cv_JumpBuffer b) (nat (cv_RemainSize b))) (\<lambda>sBuf. mret (Some (cmd, sBuf))) b)
            (cv_Jump (ucast usHeadLen) b))) b)))"

text \<open>
  The second half: look the command up (with subcommand 0), create the object, run it, and send its
  result, if it has one, to the server the dispatcher names. \<open>sDispAdr\<close> is an empty string and \<open>iSelfType\<close>
  is never set: \<open>self\<close> stands for what it holds.
\<close>

definition wt_reply :: "'w worker_env \<Rightarrow> 16 word \<Rightarrow> 32 word \<Rightarrow> string \<Rightarrow> ('w, int) proc" where
  "wt_reply E self cmd strResult =
     mbind (GetUdpServerAddr E []) (\<lambda>r. case r of
       None \<Rightarrow> mret (-1)
     | Some (sIp, iPort) \<Rightarrow> mseq (send_udp E cmd strResult self sIp iPort) (mret 0))"

definition wt_object ::
  "'w worker_env \<Rightarrow> 16 word \<Rightarrow> 32 word \<Rightarrow> 'w factory \<Rightarrow> string \<Rightarrow> ('w, int) proc" where
  "wt_object E self cmd imp sBuf =
     mbind (imp sBuf) (\<lambda>pObject. case pObject of
       None \<Rightarrow> mret (-1)
     | Some process \<Rightarrow>
         mbind (process cmd) (\<lambda>(iRet, strResult).
           if iRet \<noteq> 0 then mret (-1)
           else if strResult \<noteq> [] then wt_reply E self cmd strResult
           else mret 0))"

definition wt_run :: "'w worker_env \<Rightarrow> 'w cmd_map \<Rightarrow> 16 word \<Rightarrow> 32 word \<Rightarrow> string \<Rightarrow> ('w, int) proc" where
  "wt_run E m self cmd sBuf = (case map_of m (SCmd cmd 0) of
     None \<Rightarrow> mret (-1)
   | Some oCallback \<Rightarrow> (case pFactory oCallback of
       None \<Rightarrow> mret (-1)
     | Some imp \<Rightarrow> wt_object E self cmd imp sBuf))"

definition wt_Process ::
  "'w worker_env \<Rightarrow> 'w cmd_map \<Rightarrow> cvbuffer \<Rightarrow> 16 word \<Rightarrow> string \<Rightarrow> ('w, int) proc" where
  "wt_Process E m garbage self body =
     mbind (mlift (fst (wt_read E body garbage))) (\<lambda>r. case r of
       None \<Rightarrow> mret (-1) | Some (cmd, sBuf) \<Rightarrow> wt_run E m self cmd sBuf)"

text \<open>
  The thread object. \<open>m_pMsgList\<close> is the contents of its queue (the concurrent use of which is the subject
  of \<open>Syn_Queue\<close>).
\<close>

record work_thread =
  m_nRunFlag :: int
  m_pMsgList :: "string list"

definition wt_new :: work_thread where
  "wt_new = \<lparr>m_nRunFlag = 0, m_pMsgList = []\<rparr>"

definition wt_Stop :: "work_thread \<Rightarrow> work_thread" where
  "wt_Stop t = t\<lparr>m_nRunFlag := 0\<rparr>"

definition wt_PutMsgToInputList :: "string \<Rightarrow> work_thread \<Rightarrow> int \<times> work_thread" where
  "wt_PutMsgToInputList pMsg t = (0, t\<lparr>m_pMsgList := m_pMsgList t @ [pMsg]\<rparr>)"

definition wt_destroy :: "work_thread \<Rightarrow> work_thread" where
  "wt_destroy t = t\<lparr>m_pMsgList := []\<rparr>"

text \<open>
  \<open>Run\<close> and \<open>ThreadEntry\<close>. While \<open>get\<close> waits, other threads put a message or call \<open>Stop\<close>, in any order
  (\<open>wt_event\<close>; a \<open>Stop\<close> during \<open>Process\<close> is one before its message); \<open>Wake\<close> is a \<open>get\<close> that returns: NULL
  when nothing is in the queue. The memory \<open>Process\<close> finds on its stack belongs to the event.
\<close>

datatype wt_event = Put string | Stop | Wake cvbuffer "16 word"

primrec wt_loop ::
  "'w worker_env \<Rightarrow> 'w cmd_map \<Rightarrow> wt_event list \<Rightarrow> (work_thread \<times> 'w, int) proc" where
  "wt_loop E m [] = mstuck Blocked"
| "wt_loop E m (ev # evs) = (\<lambda>(t, w). case ev of
     Put pMsg \<Rightarrow> wt_loop E m evs (snd (wt_PutMsgToInputList pMsg t), w)
   | Stop \<Rightarrow> wt_loop E m evs (wt_Stop t, w)
   | Wake garbage self \<Rightarrow>
       (let (r, t, w) = (case m_pMsgList t of
              [] \<Rightarrow> (Ret 0, t, w)
            | body # q \<Rightarrow> let (r, w) = wt_Process E m garbage self body w in (r, t\<lparr>m_pMsgList := q\<rparr>, w))
        in case r of
             Ret _ \<Rightarrow> if m_nRunFlag t = 0 then (Ret 0, (t, w)) else wt_loop E m evs (t, w)
           | Exn e \<Rightarrow> (Exn e, (t, w))
           | Stuck k \<Rightarrow> (Stuck k, (t, w))))"

definition wt_Run :: "'w worker_env \<Rightarrow> 'w cmd_map \<Rightarrow> wt_event list \<Rightarrow> (work_thread \<times> 'w, int) proc" where
  "wt_Run E m evs = (\<lambda>(t, w). if m_nRunFlag t = 0 then (Ret 0, (t, w)) else wt_loop E m evs (t, w))"

section \<open>Lemmas\<close>

lemma op_regi_find:
  "omap_ok m \<Longrightarrow> map_of (op_regi cmd sub imp m) c =
    (if c = SCmd cmd sub \<and> map_of m c = None then Some \<lparr>cb_uiCmd = cmd, cb_uiSubCmd = sub, pFactory = Some imp\<rparr>
     else map_of m c)"
  by (auto simp: op_regi_def omap_put_find split: option.splits)

lemma op_regi_ok: "omap_ok m \<Longrightarrow> omap_ok (op_regi cmd sub imp m)"
  by (auto simp: op_regi_def omap_put_ok split: option.splits)

lemma registered_fold:
  assumes "omap_ok m"
  shows "omap_ok (fold (\<lambda>(cmd, sub, imp). op_regi cmd sub imp) rs m) \<and>
    map_option pFactory (map_of (fold (\<lambda>(cmd, sub, imp). op_regi cmd sub imp) rs m) (SCmd cmd sub)) =
      (case map_of m (SCmd cmd sub) of
         Some cb \<Rightarrow> Some (pFactory cb)
       | None \<Rightarrow> map_option (Some \<circ> snd \<circ> snd) (find (\<lambda>(c, s, _). c = cmd \<and> s = sub) rs))"
  using assms
proof (induction rs arbitrary: m)
  case (Cons r rs)
  obtain c s imp where r: "r = (c, s, imp)" by (cases r)
  have ok: "omap_ok (op_regi c s imp m)" by (rule op_regi_ok) (rule Cons.prems)
  show ?case
    using Cons.IH [OF ok] by (cases "map_of m (SCmd cmd sub)") (auto simp: r op_regi_find [OF Cons.prems])
qed (simp split: option.split)

text \<open>The part of a message: a two-byte length and that many bytes.\<close>

definition part :: "string \<Rightarrow> string" where
  "part bs = wire_bytes (F16 (of_nat (length bs))) @ bs"

lemma length_part [simp]: "length (part bs) = length bs + 2"
  by (simp add: part_def del: wire_bytes.simps)

lemma wt_run_registered:
  "wt_run E (registered rs) self cmd sBuf = (case find (\<lambda>(c, s, _). c = cmd \<and> s = 0) rs of
     None \<Rightarrow> mret (-1) | Some (_, _, imp) \<Rightarrow> wt_object E self cmd imp sBuf)"
proof -
  let ?m = "fold (\<lambda>(cmd, sub, imp). op_regi cmd sub imp) rs []"
  have "map_option pFactory (map_of ?m (SCmd cmd 0)) =
      map_option (Some \<circ> snd \<circ> snd) (find (\<lambda>(c, s, _). c = cmd \<and> s = 0) rs)"
    using registered_fold [of "[]" rs cmd 0] by simp
  then show ?thesis
    by (cases "map_of ?m (SCmd cmd 0)"; cases "find (\<lambda>(c, s, _). c = cmd \<and> s = 0) rs")
      (auto simp: wt_run_def registered_def split: prod.splits)
qed

lemma sint_small: "sint w = int (unat w)" if "unat w < 2 ^ 31" for w :: "32 word"
proof -
  have "int (unat w) < 2 ^ 31" using that by (simp only: of_nat_less_numeral_power_cancel_iff)
  then have "uint w < 2 ^ 31" by simp
  moreover have "- (2 ^ 31) \<le> uint w" by (rule order_trans [OF _ uint_ge_0]) simp
  ultimately show ?thesis by (simp add: sint_uint signed_take_bit_int_eq_self)
qed

lemma cv_RemainSize_unread: "cv_RemainSize b = int (length (cv_unread b))" if "cv_inv b"
proof -
  have le: "unat (m_uOffset b) - unat (m_uGetOffset b) \<le> MAX_CVBUFFER_SIZE"
    "unat (m_uGetOffset b) \<le> unat (m_uOffset b)"
    using that unfolding cv_inv_def by linarith+
  then have "unat (m_uOffset b - m_uGetOffset b) = unat (m_uOffset b) - unat (m_uGetOffset b)"
    by (simp add: unat_sub32)
  then have "sint (m_uOffset b - m_uGetOffset b) = int (unat (m_uOffset b) - unat (m_uGetOffset b))"
    using le(1) by (subst sint_small) simp_all
  then show ?thesis by (simp add: cv_RemainSize_def length_cv_unread word_less_nat_alt)
qed

lemma copy_out_unread:
  assumes "cv_inv b" "n \<le> length (cv_unread b)"
  shows "copy_out (cv_JumpBuffer b) n b = (Ret (take n (cv_unread b)), b)"
proof (cases "m_uGetOffset b < m_uOffset b")
  case True
  have "unat (m_uGetOffset b) + n \<le> MAX_CVBUFFER_SIZE"
    using assms unfolding cv_inv_def length_cv_unread by linarith
  with True assms read_mem_take [of n "length (cv_unread b)" "unat (m_uGetOffset b)" "m_Buffer b"] show ?thesis
    by (simp add: copy_out_def cv_JumpBuffer_def cv_inv_def length_cv_unread cv_unread_def)
next
  case False
  with assms show ?thesis
    by (simp add: copy_out_def cv_JumpBuffer_def word_less_nat_alt length_cv_unread)
qed


text \<open>A length field is read by \<open>>>\<close>; a short buffer gives 0.\<close>

lemma cv_shr_part:
  assumes "cv_inv b" "cv_unread b = wire_bytes (F16 n) @ rest"
  shows "\<exists>b'. cv_shr T16 b = (Ret (F16 n), b') \<and> cv_inv b' \<and> cv_unread b' = rest"
  using cv.recv_ok [OF assms] by simp

lemma cv_shr_nothing:
  assumes "cv_inv b" "cv_unread b = []"
  shows "cv_shr T16 b = (Ret (F16 0), b)"
proof -
  have "cv_Get True 2 b = (Ret None, b)"
    by (rule cv_Get_short) (use assms in \<open>auto simp: cv_inv_def\<close>)
  then show ?thesis by (simp add: cv_shr_def run_simps)
qed

lemma cv_new_from_spec:
  assumes "length bs \<le> MAX_CVBUFFER_SIZE" "bs \<noteq> []"
  shows "\<exists>b. cv_new_from (Some bs) (of_nat (length bs)) g = (Ret (), b) \<and> cv_inv b \<and> cv_unread b = bs \<and>
    m_Buffer b = write_mem 0 bs (m_Buffer g) \<and> m_uGetOffset b = 0 \<and> m_uOffset b = of_nat (length bs)"
proof -
  have n: "unat (of_nat (length bs) :: 32 word) = length bs"
    using assms(1) by (simp add: unsigned_of_nat take_bit_nat_eq_self)
  with assms(2) have ne: "(of_nat (length bs) :: 32 word) \<noteq> 0" by (metis length_0_conv unsigned_0)
  define b where "b = g\<lparr>m_Buffer := write_mem 0 bs (m_Buffer g), m_uOffset := of_nat (length bs), m_uGetOffset := 0\<rparr>"
  have "cv_setBuffer (Some bs) (of_nat (length bs)) g = (Ret True, b)"
    using assms ne n by (simp add: cv_setBuffer_def run_simps copy_in_def b_def word_less_nat_alt)
  then have "cv_new_from (Some bs) (of_nat (length bs)) g = (Ret (), b)"
    by (simp add: cv_new_from_def run_simps)
  moreover have "cv_unread b = bs" using read_mem_written [of 0 bs "m_Buffer g"] by (simp add: b_def cv_unread_def n)
  moreover have "cv_inv b" using assms(1) n by (simp add: b_def cv_inv_def)
  ultimately show ?thesis by (auto simp: b_def)
qed

text \<open>What \<open>wt_read\<close> does once the length of the head is read.\<close>

definition wt_tail :: "'w worker_env \<Rightarrow> 16 word \<Rightarrow> (cvbuffer, (32 word \<times> string) option) proc" where
  "wt_tail E usHeadLen = (\<lambda>b. mbind (copy_out (cv_JumpBuffer b) (unat usHeadLen)) (\<lambda>bs.
        case parse_head E bs of
          None \<Rightarrow> mret None
        | Some cmd \<Rightarrow> (\<lambda>b. mbind (cv_shr T16) (\<lambda>l b.
            let usBodyLen = (case l of F16 v \<Rightarrow> v | _ \<Rightarrow> 0) in
            if cv_RemainSize b \<noteq> int (unat usBodyLen) then mret None b
            else mbind (copy_out (cv_JumpBuffer b) (nat (cv_RemainSize b))) (\<lambda>sBuf. mret (Some (cmd, sBuf))) b)
            (cv_Jump (ucast usHeadLen) b))) b)"

lemma wt_read_head:
  assumes "cv_shr T16 b = (Ret (F16 v), b')" "cv_new_from (Some bs) (of_nat (length bs)) g = (Ret (), b)"
  shows "wt_read E bs g = wt_tail E v b'"
  using assms by (simp add: wt_read_def wt_tail_def mseq_run mbind_Ret)

lemma wt_tail_message:
  assumes inv: "cv_inv b" and un: "cv_unread b = head @ wire_bytes (F16 n) @ body" and v: "unat v = length head"
  shows "fst (wt_tail E v b) = Ret (case parse_head E head of
    None \<Rightarrow> None | Some cmd \<Rightarrow> if unat n = length body then Some (cmd, body) else None)"
proof (cases "parse_head E head")
  case (Some cmd)
  have "unat v < 2 ^ 32" by (rule less_trans [OF unsigned_less]) simp
  then have u: "unat (ucast v :: 32 word) = length head" by (simp add: v unsigned_ucast_eq take_bit_nat_eq_self)
  let ?b = "cv_Jump (ucast v) b"
  have "unat (m_uGetOffset b) + unat (ucast v :: 32 word) < 2 ^ 32"
    using inv unsigned_less [of v, where 'a = nat] unfolding cv_inv_def u v by simp
  then have "cv_unread ?b = wire_bytes (F16 n) @ body" using cv_Jump_unread [OF inv] un u by simp
  from cv_shr_part [OF cv_Jump_inv [OF inv] this] obtain b1 where
    b1: "cv_shr T16 ?b = (Ret (F16 n), b1)" "cv_inv b1" "cv_unread b1 = body" by blast
  have "copy_out (cv_JumpBuffer b) (unat v) b = (Ret head, b)"
    using copy_out_unread [OF inv, of "unat v"] un v by simp
  moreover have "int (length body) = uint n \<longleftrightarrow> length body = unat n"
    by (simp only: uint_nat of_nat_eq_iff)
  ultimately show ?thesis
    using Some b1 copy_out_unread [OF b1(2), of "length body"]
    by (auto simp: wt_tail_def mbind_Ret cv_RemainSize_unread mret_run)
next
  case None
  have "copy_out (cv_JumpBuffer b) (unat v) b = (Ret head, b)"
    using copy_out_unread [OF inv, of "unat v"] un v by simp
  with None show ?thesis by (simp add: wt_tail_def mbind_Ret mret_run)
qed

lemma wire_bytes_ne [simp]: "wire_bytes v \<noteq> []"
  by (rule ccontr) (metis length_wire_bytes list.size(3) not_less_zero notnotD sizeof_pos(1))

lemma wt_read_message:
  assumes "length head + length body + 4 \<le> MAX_CVBUFFER_SIZE"
  shows "fst (wt_read E (part head @ wire_bytes (F16 n) @ body) g) = Ret (case parse_head E head of
    None \<Rightarrow> None | Some cmd \<Rightarrow> if unat n = length body then Some (cmd, body) else None)"
proof -
  let ?bs = "part head @ wire_bytes (F16 n) @ body"
  have len: "length ?bs \<le> MAX_CVBUFFER_SIZE" "?bs \<noteq> []"
    using assms by (simp_all add: part_def del: wire_bytes.simps)
  from cv_new_from_spec [OF this] obtain b where
    b: "cv_new_from (Some ?bs) (of_nat (length ?bs)) g = (Ret (), b)" "cv_inv b" "cv_unread b = ?bs" by blast
  then have "cv_unread b = wire_bytes (F16 (of_nat (length head))) @ head @ wire_bytes (F16 n) @ body"
    by (simp add: part_def del: wire_bytes.simps)
  from cv_shr_part [OF b(2) this] obtain b' where b': "cv_shr T16 b = (Ret (F16 (of_nat (length head))), b')"
    "cv_inv b'" "cv_unread b' = head @ wire_bytes (F16 n) @ body" by blast
  have "unat (of_nat (length head) :: 16 word) = length head"
    using assms by (simp add: unsigned_of_nat take_bit_nat_eq_self)
  from wt_tail_message [OF b'(2,3) this] show ?thesis unfolding wt_read_head [OF b'(1) b(1)] .
qed


text \<open>A message that ends inside its head.\<close>

lemma cv_shr_state:
  "cv_shr t b = (Ret v, b') \<Longrightarrow> b' = b \<or> b' = b\<lparr>m_uGetOffset := m_uGetOffset b + of_nat (sizeof t)\<rparr>"
  by (auto simp: cv_shr_def cv_Get_def run_simps copy_out_def split: if_splits)

lemma read_mem_beyond: "off' + length bs \<le> off \<Longrightarrow> read_mem off n (write_mem off' bs mem) = read_mem off n mem"
  by (simp add: read_mem_def write_mem_def)

lemma wt_tail_truncated:
  assumes inv: "cv_inv b" and un: "cv_unread b = rest" and len: "length rest < unat v"
    and out: "copy_out (cv_JumpBuffer b) (unat v) b = (Ret bs, b)"
  shows "fst (wt_tail E v b) = Ret (map_option (\<lambda>cmd. (cmd, [])) (parse_head E bs))"
proof -
  let ?b = "cv_Jump (ucast v) b"
  have "unat v < 2 ^ 32" by (rule less_trans [OF unsigned_less]) simp
  then have u: "unat (ucast v :: 32 word) = unat v" by (simp add: unsigned_ucast_eq take_bit_nat_eq_self)
  have "unat (m_uGetOffset b) + unat (ucast v :: 32 word) < 2 ^ 32"
    using inv unsigned_less [of v, where 'a = nat] unfolding cv_inv_def u by simp
  then have un': "cv_unread ?b = []" using cv_Jump_unread [OF inv] un u len by simp
  have "copy_out (cv_JumpBuffer ?b) 0 ?b = (Ret [], ?b)" 
    using copy_out_unread [OF cv_Jump_inv [OF inv], of 0] un' by simp
  then show ?thesis
    using cv_shr_nothing [OF cv_Jump_inv [OF inv] un'] cv_RemainSize_unread [OF cv_Jump_inv [OF inv]] un'
    by (auto simp: wt_tail_def out mbind_Ret mret_run split: option.split)
qed

lemma wt_read_truncated_lemma:
  assumes "rest \<noteq> []" "length rest < unat h" "unat h + 2 \<le> MAX_CVBUFFER_SIZE"
  shows "fst (wt_read E (wire_bytes (F16 h) @ rest) g) = Ret (map_option (\<lambda>cmd. (cmd, []))
    (parse_head E (rest @ read_mem (length rest + 2) (unat h - length rest) (m_Buffer g))))"
proof -
  let ?bs = "wire_bytes (F16 h) @ rest"
  have len: "length ?bs \<le> MAX_CVBUFFER_SIZE" "?bs \<noteq> []" using assms by (simp_all del: wire_bytes.simps)
  from cv_new_from_spec [OF this] obtain b where
    b: "cv_new_from (Some ?bs) (of_nat (length ?bs)) g = (Ret (), b)" "cv_inv b" "cv_unread b = ?bs"
      "m_Buffer b = write_mem 0 ?bs (m_Buffer g)" "m_uGetOffset b = 0" by blast
  from cv_shr_part [OF b(2,3)] obtain b' where b': "cv_shr T16 b = (Ret (F16 h), b')" "cv_inv b'" "cv_unread b' = rest"
    by blast
  have "b' \<noteq> b"
  proof
    assume "b' = b"
    then have "rest = ?bs" using b(3) b'(3) by simp
    then have "length rest = length ?bs" by (rule arg_cong)
    then show False by (simp del: wire_bytes.simps)
  qed
  with cv_shr_state [OF b'(1)] b(5) have b1: "b' = b\<lparr>m_uGetOffset := 2\<rparr>" by simp
  then have lr: "length rest = unat (m_uOffset b) - 2" using b'(3) by (auto simp: length_cv_unread)
  with assms(1) have lt: "2 < unat (m_uOffset b)" by (cases rest) auto
  then have jb: "cv_JumpBuffer b' = 2" by (simp add: b1 cv_JumpBuffer_def word_less_nat_alt)
  have "read_mem 2 (length rest) (m_Buffer b) = rest" using b'(3) lr by (simp add: b1 cv_unread_def)
  moreover have "read_mem (2 + length rest) (unat h - length rest) (m_Buffer b) =
      read_mem (length rest + 2) (unat h - length rest) (m_Buffer g)"
    unfolding b(4) by (subst read_mem_beyond) (simp_all add: add.commute del: wire_bytes.simps)
  ultimately have "read_mem 2 (unat h) (m_Buffer b) =
      rest @ read_mem (length rest + 2) (unat h - length rest) (m_Buffer g)"
    using read_mem_add [of 2 "length rest" "unat h - length rest" "m_Buffer b"] assms(2) by simp
  then have "copy_out (cv_JumpBuffer b') (unat h) b' =
      (Ret (rest @ read_mem (length rest + 2) (unat h - length rest) (m_Buffer g)), b')"
    using assms(3) unfolding jb by (simp add: copy_out_def b1)
  from wt_tail_truncated [OF b'(2,3) assms(2) this] show ?thesis unfolding wt_read_head [OF b'(1) b(1)] .
qed


text \<open>What a request amounts to: the object of the first factory registered for its command gets its body.\<close>

definition dispatch ::
  "'w worker_env \<Rightarrow> (32 word \<times> 32 word \<times> 'w factory) list \<Rightarrow> 16 word \<Rightarrow> string \<Rightarrow> string \<Rightarrow> ('w, int) proc" where
  "dispatch E rs self head body = (case parse_head E head of
     None \<Rightarrow> mret (-1)
   | Some cmd \<Rightarrow> (case find (\<lambda>(c, s, _). c = cmd \<and> s = 0) rs of
       None \<Rightarrow> mret (-1) | Some (_, _, imp) \<Rightarrow> wt_object E self cmd imp body))"

lemma wt_Process_message:
  assumes "length head + length body + 4 \<le> MAX_CVBUFFER_SIZE"
  shows "wt_Process E (registered rs) g self (part head @ wire_bytes (F16 n) @ body) =
    (if unat n = length body then dispatch E rs self head body else mret (-1))"
  by (rule ext, simp add: wt_Process_def wt_read_message [OF assms] dispatch_def mlift_run mbind_Ret mret_run
      wt_run_registered del: wire_bytes.simps split: option.split)

lemma wt_Process_parts:
  assumes "length head + length body + 4 \<le> MAX_CVBUFFER_SIZE"
  shows "wt_Process E (registered rs) g self (part head @ part body) = dispatch E rs self head body"
proof -
  have "unat (of_nat (length body) :: 16 word) = length body"
    using assms by (simp add: unsigned_of_nat take_bit_nat_eq_self)
  then show ?thesis unfolding part_def [of body] wt_Process_message [OF assms] by simp
qed

section \<open>Properties\<close>

text \<open>A message made of a head and a body, each behind its length: \<open>Process\<close> hands exactly the body to the
  object made by the first factory registered for the command of the head, and every failure (head that
  does not parse, wrong length of the body, unknown command) returns -1 without calling anything.\<close>

theorem wt_Process_dispatch:
  assumes "length head + length body + 4 \<le> MAX_CVBUFFER_SIZE"
  shows "wt_Process E (registered rs) g self (part head @ wire_bytes (F16 n) @ body) w =
    (case parse_head E head of
       Some cmd \<Rightarrow>
         if unat n = length body then
           (case find (\<lambda>(c, s, _). c = cmd \<and> s = 0) rs of
              Some (_, _, imp) \<Rightarrow> wt_object E self cmd imp body w
            | None \<Rightarrow> (Ret (-1), w))
         else (Ret (-1), w)
     | None \<Rightarrow> (Ret (-1), w))"
  unfolding wt_Process_message [OF assms]
  by (simp add: dispatch_def mret_run del: wire_bytes.simps split: option.split)

text \<open>An example: the head is the four bytes of the command, the plug-in echoes, the dispatcher names a server.\<close>

definition demo_env :: "(string list) worker_env" where
  "demo_env = \<lparr>parse_head = (\<lambda>bs. if length bs = 4 then Some (word_of_nat (le_value bs)) else None),
    http_get = (\<lambda>url w. (Ret (0, ''{}''), w)),
    json_parse = (\<lambda>_. Some (\<lambda>name. Ret (if name = ''errno'' then ''200'' else if name = ''port'' then ''80'' else ''a''))),
    send_udp = (\<lambda>cmd s self ip port w. (Ret 0, w @ [s]))\<rparr>"

definition demo_factory :: "(string list) factory" where
  "demo_factory sBuf = mret (Some (\<lambda>cmd. mret (0, ''echo '' @ sBuf)))"

theorem wt_Process_dispatch_witness:
  "wt_Process demo_env (registered [(7, 1, \<lambda>_. mret None), (7, 0, demo_factory), (7, 0, \<lambda>_. mret None)])
      \<lparr>m_Buffer = \<lambda>_. CHR 0x00, m_uOffset = 9, m_uGetOffset = 3\<rparr> 0
      (part [CHR 0x07, CHR 0x00, CHR 0x00, CHR 0x00] @ wire_bytes (F16 2) @ ''hi'') [] = (Ret 0, [''echo hi''])"
proof -
  have len: "length [CHR 0x07, CHR 0x00, CHR 0x00, CHR 0x00] + length ''hi'' + 4 \<le> MAX_CVBUFFER_SIZE" by simp
  show ?thesis unfolding wt_Process_dispatch [OF len]
    by (simp add: demo_env_def wt_object_def demo_factory_def wt_reply_def GetUdpServerAddr_def parse_server_def run_simps)
qed

text \<open>The length of the head is not compared with the length of the message: a message that ends inside
  its head is parsed together with bytes of the stack behind it, and if that parses, the command is
  executed with an empty body.\<close>

theorem wt_read_truncated:
  assumes "rest \<noteq> []" "length rest < unat h" "unat h + 2 \<le> MAX_CVBUFFER_SIZE"
  shows "wt_Process E m g self (wire_bytes (F16 h) @ rest) w =
    (case parse_head E (rest @ read_mem (length rest + 2) (unat h - length rest) (m_Buffer g)) of
       Some cmd \<Rightarrow> wt_run E m self cmd [] w
     | None \<Rightarrow> (Ret (-1), w))"
  by (simp add: wt_Process_def wt_read_truncated_lemma [OF assms] mlift_run mbind_Ret mret_run
      del: wire_bytes.simps split: option.split)

theorem wt_read_truncated_witness:
  "wt_Process demo_env (registered [(7, 0, demo_factory)])
      \<lparr>m_Buffer = \<lambda>_. CHR 0x00, m_uOffset = 9, m_uGetOffset = 3\<rparr> 0
      (wire_bytes (F16 4) @ [CHR 0x07]) [] = (Ret 0, [''echo ''])"
proof -
  have len: "[CHR 0x07] \<noteq> []" "length [CHR 0x07] < unat (4 :: 16 word)" "unat (4 :: 16 word) + 2 \<le> MAX_CVBUFFER_SIZE"
    by simp_all
  show ?thesis unfolding wt_read_truncated [OF len]
    by (simp add: demo_env_def wt_run_registered wt_object_def demo_factory_def wt_reply_def GetUdpServerAddr_def
        parse_server_def run_simps read_mem_def upt_rec)
qed

text \<open>A worker whose flag nobody has set: \<open>Run\<close> returns at once, with its messages unprocessed.\<close>

lemma wt_new_never_runs: "wt_Run E m evs (wt_new, w) = (Ret 0, (wt_new, w))"
  by (simp add: wt_Run_def wt_new_def)

end
