(* ===== verification/Http_Client.thy ===== *)
theory Http_Client
  imports Work_Thread
begin

text \<open>
  \<open>CHttpClient\<close> of \<open>src/common/http_client.cpp\<close>, a wrapper of libcurl. The library is a parameter: whether
  \<open>curl_easy_init\<close> gives a handle, and what \<open>curl_easy_perform\<close> does with the options set so far: the chunks
  it passes to the write callback, and its code. The options are recorded in the order they are set.
\<close>

datatype curl_opt =
    Verbose | Debug_function | Url string | Post_method | Post_fields string | No_read_function
  | Write_function | Write_data | No_signal | Connect_timeout nat | Timeout nat
  | Verify_peer bool | Verify_host bool | Ca_info string

record 'w curl_env =
  easy_init :: "('w, bool) proc"
  easy_perform :: "curl_opt list \<Rightarrow> ('w, string list \<times> int) proc"
  easy_cleanup :: "('w, unit) proc"

abbreviation CURLE_OK :: int where "CURLE_OK \<equiv> 0"
abbreviation CURLE_FAILED_INIT :: int where "CURLE_FAILED_INIT \<equiv> 2"

text \<open>
  \<open>OnWirteData\<close> appends \<open>size * nmemb\<close> bytes and returns \<open>nmemb\<close> (\<open>size\<close> is 1); a null pointer gives -1.
\<close>

definition OnWirteData :: "string option \<Rightarrow> string \<Rightarrow> int \<times> string" where
  "OnWirteData buffer str = (case buffer of None \<Rightarrow> (-1, str) | Some bs \<Rightarrow> (int (length bs), str @ bs))"

text \<open>One transfer: every chunk goes through the callback into \<open>strResponse\<close>.\<close>

definition perform :: "'w curl_env \<Rightarrow> curl_opt list \<Rightarrow> string \<Rightarrow> ('w, int \<times> string) proc" where
  "perform C opts strResponse =
     mbind (easy_perform C opts) (\<lambda>(chunks, res).
       mret (res, fold (\<lambda>bs str. snd (OnWirteData (Some bs) str)) chunks strResponse))"

definition debug_opts :: "bool \<Rightarrow> curl_opt list" where
  "debug_opts m_Debug = (if m_Debug then [Verbose, Debug_function] else [])"

definition ca_opts :: "string option \<Rightarrow> curl_opt list" where
  "ca_opts pCaPath = (case pCaPath of
     None \<Rightarrow> [Verify_peer False, Verify_host False] | Some path \<Rightarrow> [Verify_peer True, Ca_info path])"

text \<open>
  The four requests, over the flag \<open>m_Debug\<close> and the string the answer is appended to. \<open>Get\<close> and \<open>Posts\<close>
  perform twice and do not clean up; the second code is dropped.
\<close>

definition Post :: "'w curl_env \<Rightarrow> bool \<Rightarrow> string \<Rightarrow> string \<Rightarrow> string \<Rightarrow> ('w, int \<times> string) proc" where
  "Post C m_Debug strUrl strPost strResponse =
     mbind (easy_init C) (\<lambda>curl. if \<not> curl then mret (CURLE_FAILED_INIT, strResponse)
       else mbind (perform C (debug_opts m_Debug @ [Url strUrl, Post_method, Post_fields strPost, No_read_function,
                Write_function, Write_data, No_signal, Connect_timeout 2, Timeout 2]) strResponse)
              (\<lambda>(res, strResponse). mseq (easy_cleanup C) (mret (res, strResponse))))"

definition Get :: "'w curl_env \<Rightarrow> bool \<Rightarrow> string \<Rightarrow> string \<Rightarrow> ('w, int \<times> string) proc" where
  "Get C m_Debug strUrl strResponse =
     mbind (easy_init C) (\<lambda>curl. if \<not> curl then mret (CURLE_FAILED_INIT, strResponse)
       else let opts = debug_opts m_Debug @ [Url strUrl, No_read_function, Write_function, Write_data, No_signal,
                Connect_timeout 20, Timeout 20]
         in mbind (perform C opts strResponse) (\<lambda>(res, strResponse).
              mbind (perform C opts strResponse) (\<lambda>(_, strResponse). mret (res, strResponse))))"

definition Posts ::
  "'w curl_env \<Rightarrow> bool \<Rightarrow> string \<Rightarrow> string \<Rightarrow> string option \<Rightarrow> string \<Rightarrow> ('w, int \<times> string) proc" where
  "Posts C m_Debug strUrl strPost pCaPath strResponse =
     mbind (easy_init C) (\<lambda>curl. if \<not> curl then mret (CURLE_FAILED_INIT, strResponse)
       else let opts = debug_opts m_Debug @ [Url strUrl, Post_method, Post_fields strPost, No_read_function,
                Write_function, Write_data, No_signal] @ ca_opts pCaPath @ [Connect_timeout 10, Timeout 10]
         in mbind (perform C opts strResponse) (\<lambda>(res, strResponse).
              mbind (perform C opts strResponse) (\<lambda>(_, strResponse). mret (res, strResponse))))"

definition Gets :: "'w curl_env \<Rightarrow> bool \<Rightarrow> string \<Rightarrow> string option \<Rightarrow> string \<Rightarrow> ('w, int \<times> string) proc" where
  "Gets C m_Debug strUrl pCaPath strResponse =
     mbind (easy_init C) (\<lambda>curl. if \<not> curl then mret (CURLE_FAILED_INIT, strResponse)
       else mbind (perform C (debug_opts m_Debug @ [Url strUrl, No_read_function, Write_function, Write_data,
                No_signal] @ ca_opts pCaPath @ [Connect_timeout 3, Timeout 3]) strResponse)
              (\<lambda>(res, strResponse). mseq (easy_cleanup C) (mret (res, strResponse))))"

section \<open>What a caller gets\<close>

lemma perform_appends:
  "perform C opts str w = (case easy_perform C opts w of
     (Ret (chunks, res), w') \<Rightarrow> (Ret (res, str @ concat chunks), w')
   | (Exn e, w') \<Rightarrow> (Exn e, w') | (Stuck k, w') \<Rightarrow> (Stuck k, w'))"
proof -
  have "fold (\<lambda>bs str. snd (OnWirteData (Some bs) str)) chunks str = str @ concat chunks" for chunks
    by (induction chunks arbitrary: str) (simp_all add: OnWirteData_def)
  then show ?thesis by (simp add: perform_def mbind_run mret_run split: result.splits prod.splits)
qed

text \<open>The worker's dispatcher request through this client.\<close>

definition dispatcher_get :: "'w curl_env \<Rightarrow> bool \<Rightarrow> string \<Rightarrow> ('w, int \<times> string) proc" where
  "dispatcher_get C m_Debug url = Get C m_Debug url []"

section \<open>Properties\<close>

text \<open>Through \<open>CHttpClient::Get\<close>, \<open>GetUdpServerAddr\<close> asks the dispatcher twice and parses both answers
  glued together: when the server answers both requests with the same \<open>answer\<close>, the JSON reader gets
  \<open>answer @ answer\<close>. The code checked is that of the first request, and the handle is never cleaned up.\<close>

theorem dispatcher_answer_doubled:
  assumes "http_get E = dispatcher_get C dbg" "easy_init C w = (Ret True, w1)"
    "\<And>opts w. \<exists>w'. easy_perform C opts w = (Ret (chunks, CURLE_OK), w')"
  shows "\<exists>w'. GetUdpServerAddr E url w = parse_server E (concat chunks @ concat chunks) w'"
proof -
  let ?opts = "debug_opts dbg @ [Url url, No_read_function, Write_function, Write_data, No_signal,
              Connect_timeout 20, Timeout 20]"
  from assms(3) obtain w2 where w2: "easy_perform C ?opts w1 = (Ret (chunks, CURLE_OK), w2)" by blast
  from assms(3) obtain w3 where w3: "easy_perform C ?opts w2 = (Ret (chunks, CURLE_OK), w3)" by blast
  have "Get C dbg url [] w = (Ret (CURLE_OK, concat chunks @ concat chunks), w3)"
    using assms(2) w2 w3 by (simp add: Get_def mbind_run Let_def perform_appends mret_run)
  with assms(1) show ?thesis
    by (intro exI [of _ w3]) (simp add: GetUdpServerAddr_def dispatcher_get_def mbind_run)
qed

text \<open>An example: the dispatcher answers in two chunks; the state counts the requests.\<close>

definition demo_curl :: "nat curl_env" where
  "demo_curl = \<lparr>easy_init = mret True, easy_perform = (\<lambda>opts w. (Ret ([''{}'', ''.''], CURLE_OK), w + 1)),
    easy_cleanup = mret ()\<rparr>"

definition demo_dispatch :: "nat worker_env" where
  "demo_dispatch = \<lparr>parse_head = (\<lambda>_. None), http_get = dispatcher_get demo_curl False,
    json_parse = (\<lambda>s. if s = ''{}.{}.'' then Some (\<lambda>name. Ret ''200'') else None),
    send_udp = (\<lambda>_ _ _ _ _. mret 0)\<rparr>"

theorem dispatcher_answer_doubled_witness:
  "\<exists>w'. GetUdpServerAddr demo_dispatch ''http'' 0 = (Ret (Some (''200'', 200)), w')"
proof -
  have "\<exists>w'. easy_perform demo_curl opts w = (Ret ([''{}'', ''.''], CURLE_OK), w')" for opts w
    by (simp add: demo_curl_def)
  from dispatcher_answer_doubled [of demo_dispatch demo_curl False 0 0, OF _ _ this, of "''http''"]
  have "\<exists>w'. GetUdpServerAddr demo_dispatch ''http'' 0 = parse_server demo_dispatch (concat [''{}'', ''.''] @ concat [''{}'', ''.'']) w'"
    by (simp add: demo_dispatch_def demo_curl_def mret_run)
  moreover have "atoi ''200'' = 200" by code_simp
  ultimately show ?thesis by (simp add: parse_server_def demo_dispatch_def run_simps)
qed

end
