(* ===== verification/Zoo_Client.thy ===== *)
theory Zoo_Client
  imports Std_Lib "HOL-Library.Word"
begin

text \<open>
  The zookeeper client of \<open>src/common/zooClient.cpp\<close>: registering this server, watching the lists of other
  servers, and telling the callbacks which servers came and went. The zookeeper library is a parameter
  (\<open>zoo_env\<close>, over a state of its own); the callbacks are recorded in the order they are called. Loops
  that may run forever give \<open>None\<close>.
\<close>

section \<open>HostInfo\<close>

record host_info =
  m_name :: string
  m_ip :: string
  m_port :: "16 word"

definition host_eq :: "host_info \<Rightarrow> host_info \<Rightarrow> bool" where
  "host_eq a b \<longleftrightarrow> m_name b = m_name a \<and> m_ip b = m_ip a \<and> m_port b = m_port a"

definition host_toString :: "host_info \<Rightarrow> string" where
  "host_toString h = m_name h @ '' '' @ m_ip h @ '' '' @ dec (unat (m_port h))"

text \<open>\<open>SplitString\<close> works on the C string, which ends at the first NUL byte.\<close>

definition SplitString :: "string \<Rightarrow> string \<Rightarrow> string list \<Rightarrow> string list" where
  "SplitString srcStr delim strList = strList @ tokens delim (takeWhile (\<lambda>c. c \<noteq> CHR 0x00) srcStr)"

definition parseHostInfo :: "string \<Rightarrow> host_info result" where
  "parseHostInfo path =
     (let vecStr = SplitString path ''/'' [] in
      if length vecStr \<noteq> 2 then Stuck Assert_failed
      else let name = vecStr ! 0; vecStr = SplitString (vecStr ! 1) '':'' [] in
        if length vecStr \<noteq> 2 then Stuck Assert_failed
        else Ret \<lparr>m_name = name, m_ip = vecStr ! 0, m_port = word_of_int (atoi (vecStr ! 1))\<rparr>)"

definition generateAddrInfo :: "host_info \<Rightarrow> string" where
  "generateAddrInfo info = m_ip info @ '':'' @ dec (unat (m_port info))"

section \<open>compareHostInfo\<close>

text \<open>The inner loop: \<open>flag\<close> stays true when no element of the other list is equal.\<close>

primrec host_absent :: "host_info \<Rightarrow> host_info list \<Rightarrow> bool" where
  "host_absent cmp1 [] = True"
| "host_absent cmp1 (cmp2 # rest) = (if host_eq cmp1 cmp2 then False else host_absent cmp1 rest)"

primrec push_absent :: "host_info list \<Rightarrow> host_info list \<Rightarrow> host_info list \<Rightarrow> host_info list" where
  "push_absent others [] out = out"
| "push_absent others (cmp1 # rest) out =
     push_absent others rest (if host_absent cmp1 others then out @ [cmp1] else out)"

definition compareHostInfo ::
  "host_info list \<Rightarrow> host_info list \<Rightarrow> host_info list \<Rightarrow> host_info list \<Rightarrow> host_info list \<times> host_info list" where
  "compareHostInfo newinfos oldinfos addlist minuslist =
     (push_absent oldinfos newinfos addlist, push_absent newinfos oldinfos minuslist)"

section \<open>The client\<close>

datatype eopt = E_ADD | E_DEL | E_UPDATE

text \<open>An entry of \<open>_mapCallBack\<close>: whether the callback is set, and the hosts it has been told of.\<close>

record callback_obj =
  cb_func :: bool
  vecHost :: "host_info list"

record 'z zook_client =
  zk_state :: 'z
  zhandle_open :: bool
  localInfo :: host_info
  zooServerList :: string
  session_timeout :: int
  mapCallBack :: "(string, callback_obj) omap"
  callbacks :: "(string \<times> host_info list \<times> eopt) list"

text \<open>
  \<open>zk_exists\<close> gives the return code and the \<open>ephemeralOwner\<close> that is then in the \<open>Stat\<close> (if the code is not
  \<open>ZOK\<close>, whatever it held); \<open>zk_acreate path data flags\<close>; \<open>zk_get_children\<close> the code and the strings of the
  vector, which has no elements unless the code is \<open>ZOK\<close>.
\<close>

record 'z zoo_env =
  zk_init :: "string \<Rightarrow> int \<Rightarrow> ('z, bool) proc"
  zk_close :: "('z, unit) proc"
  zk_client_id :: "'z \<Rightarrow> 64 word"
  zk_exists :: "string \<Rightarrow> ('z, int \<times> 64 word) proc"
  zk_acreate :: "string \<Rightarrow> string \<Rightarrow> int \<Rightarrow> ('z, int) proc"
  zk_delete :: "string \<Rightarrow> int \<Rightarrow> ('z, int) proc"
  zk_get_children :: "string \<Rightarrow> ('z, int \<times> string list) proc"

abbreviation ZOK :: int where "ZOK \<equiv> 0"
abbreviation ZNONODE :: int where "ZNONODE \<equiv> -101"
abbreviation ZOO_EPHEMERAL :: int where "ZOO_EPHEMERAL \<equiv> 1"
abbreviation ZOO_SESSION_EVENT :: int where "ZOO_SESSION_EVENT \<equiv> -1"
abbreviation ZOO_CONNECTED_STATE :: int where "ZOO_CONNECTED_STATE \<equiv> 3"
abbreviation ZOO_EXPIRED_SESSION_STATE :: int where "ZOO_EXPIRED_SESSION_STATE \<equiv> -112"
abbreviation DELETED_EVENT_DEF :: int where "DELETED_EVENT_DEF \<equiv> 2"
abbreviation CHILD_EVENT_DEF :: int where "CHILD_EVENT_DEF \<equiv> 4"

definition on_zk :: "('z, 'r) proc \<Rightarrow> ('z zook_client, 'r) proc" where
  "on_zk m c = (case m (zk_state c) of (r, z) \<Rightarrow> (r, c\<lparr>zk_state := z\<rparr>))"

definition zook_init :: "'z zoo_env \<Rightarrow> ('z zook_client, int) proc" where
  "zook_init Z c =
     mseq (if zhandle_open c then on_zk (zk_close Z) else mret ())
       (mbind (on_zk (zk_init Z (zooServerList c) (session_timeout c)))
         (\<lambda>ok c. (Ret (if ok then 0 else -1), c\<lparr>zhandle_open := ok\<rparr>))) c"

definition zook_new ::
  "'z zoo_env \<Rightarrow> 'z \<Rightarrow> host_info \<Rightarrow> string \<Rightarrow> (string, bool) omap \<Rightarrow> int result \<times> 'z zook_client" where
  "zook_new Z z info serverList callFunc = zook_init Z
     \<lparr>zk_state = z, zhandle_open = False, localInfo = info, zooServerList = serverList, session_timeout = 3000,
      mapCallBack = map (\<lambda>(k, f). (k, \<lparr>cb_func = f, vecHost = []\<rparr>)) callFunc, callbacks = []\<rparr>"

text \<open>
  The loops over the children count with a \<open>uint8_t\<close>: \<open>for (uint8_t i = 0; i < n; i++)\<close>.
\<close>

partial_function (option) children_loop :: "string list \<Rightarrow> 8 word \<Rightarrow> string list \<Rightarrow> string list option" where
  "children_loop data i node_list =
     (if unat i < length data then children_loop data (i + 1) (node_list @ [data ! unat i])
      else Some node_list)"

declare children_loop.simps [code]

definition zoo_wget_children ::
  "'z zoo_env \<Rightarrow> string \<Rightarrow> 'z zook_client \<Rightarrow> ((int \<times> string list) result \<times> 'z zook_client) option" where
  "zoo_wget_children Z path c = (case on_zk (zk_get_children Z path) c of
     (Ret (ret, data), c) \<Rightarrow>
       if ret = 0 then map_option (\<lambda>node_list. (Ret (ret, node_list), c)) (children_loop data 0 [])
       else Some (Ret (ret, []), c)
   | (Exn e, c) \<Rightarrow> Some (Exn e, c)
   | (Stuck k, c) \<Rightarrow> Some (Stuck k, c))"

partial_function (option) servers_loop ::
  "string \<Rightarrow> string list \<Rightarrow> 8 word \<Rightarrow> host_info list \<Rightarrow> host_info list result option" where
  "servers_loop path names i vecInfo =
     (if unat i < length names then
        (case parseHostInfo (path @ ''/'' @ names ! unat i) of
           Ret temInfo \<Rightarrow> servers_loop path names (i + 1) (vecInfo @ [temInfo])
         | Exn e \<Rightarrow> Some (Exn e)
         | Stuck k \<Rightarrow> Some (Stuck k))
      else Some (Ret vecInfo))"

text \<open>The return code of \<open>zoo_wget_children\<close> is not looked at.\<close>

definition getServerList ::
  "'z zoo_env \<Rightarrow> string \<Rightarrow> 'z zook_client \<Rightarrow> (host_info list result \<times> 'z zook_client) option" where
  "getServerList Z serverName c = (case zoo_wget_children Z serverName c of
     None \<Rightarrow> None
   | Some (Ret (ret, temVecStr), c) \<Rightarrow> map_option (\<lambda>r. (r, c)) (servers_loop serverName temVecStr 0 [])
   | Some (Exn e, c) \<Rightarrow> Some (Exn e, c)
   | Some (Stuck k, c) \<Rightarrow> Some (Stuck k, c))"

text \<open>\<open>callBack(infos, opt)\<close>: nothing when no function is set.\<close>

definition call_back :: "string \<Rightarrow> bool \<Rightarrow> host_info list \<Rightarrow> eopt \<Rightarrow> 'z zook_client \<Rightarrow> 'z zook_client" where
  "call_back path func infos opt c = (if func then c\<lparr>callbacks := callbacks c @ [(path, infos, opt)]\<rparr> else c)"

definition tell_changes :: "string \<Rightarrow> callback_obj \<Rightarrow> host_info list \<Rightarrow> 'z zook_client \<Rightarrow> 'z zook_client" where
  "tell_changes path obj vecInfo c =
     (let c = (if vecInfo \<noteq> [] then
                 (case compareHostInfo vecInfo (vecHost obj) [] [] of (addlist, dellist) \<Rightarrow>
                    let c = (if addlist \<noteq> [] then call_back path (cb_func obj) addlist E_ADD c else c)
                    in if dellist \<noteq> [] then call_back path (cb_func obj) dellist E_DEL c else c)
               else if vecHost obj \<noteq> [] then call_back path (cb_func obj) (vecHost obj) E_DEL c else c)
      in c\<lparr>mapCallBack := omap_put path (obj\<lparr>vecHost := vecInfo\<rparr>) (mapCallBack c)\<rparr>)"

definition updateServer ::
  "'z zoo_env \<Rightarrow> string \<Rightarrow> 'z zook_client \<Rightarrow> (unit result \<times> 'z zook_client) option" where
  "updateServer Z path c = (case map_of (mapCallBack c) path of
     None \<Rightarrow> Some (Ret (), c)
   | Some obj \<Rightarrow> (case getServerList Z path c of
       None \<Rightarrow> None
     | Some (Ret vecInfo, c) \<Rightarrow> Some (Ret (), tell_changes path obj vecInfo c)
     | Some (Exn e, c) \<Rightarrow> Some (Exn e, c)
     | Some (Stuck k, c) \<Rightarrow> Some (Stuck k, c)))"

text \<open>\<open>delServer\<close> only parses.\<close>

definition delServer :: "string \<Rightarrow> ('z zook_client, unit) proc" where
  "delServer path = mseq (mlift (parseHostInfo path)) (mret ())"

definition registerSelf :: "'z zoo_env \<Rightarrow> ('z zook_client, unit) proc" where
  "registerSelf Z c =
     (let father_path = ''/'' @ m_name (localInfo c);
          full_path = father_path @ ''/'' @ generateAddrInfo (localInfo c)
      in mbind (on_zk (zk_exists Z father_path)) (\<lambda>(ret, _).
         mseq (if ret = ZNONODE then mseq (on_zk (zk_acreate Z father_path father_path 0)) (mret ()) else mret ())
         (mbind (on_zk (zk_exists Z full_path)) (\<lambda>(ret, owner) c.
           mseq (if ret \<noteq> ZNONODE \<and> owner \<noteq> zk_client_id Z (zk_state c)
                 then mseq (on_zk (zk_delete Z full_path (-1))) (mret ()) else mret ())
             (mseq (on_zk (zk_acreate Z full_path full_path ZOO_EPHEMERAL)) (mret ())) c))) c)"

primrec observe_paths :: "'z zoo_env \<Rightarrow> string list \<Rightarrow> 'z zook_client \<Rightarrow> (unit result \<times> 'z zook_client) option" where
  "observe_paths Z [] c = Some (Ret (), c)"
| "observe_paths Z (path # paths) c =
     (case mbind (on_zk (zk_exists Z path)) (\<lambda>(ret, _).
             if ret = ZNONODE then mseq (on_zk (zk_acreate Z path path 0)) (mret ()) else mret ()) c of
        (Ret _, c) \<Rightarrow> (case updateServer Z path c of
            None \<Rightarrow> None
          | Some (Ret _, c) \<Rightarrow> observe_paths Z paths c
          | Some r \<Rightarrow> Some r)
      | r \<Rightarrow> Some r)"

definition observer :: "'z zoo_env \<Rightarrow> 'z zook_client \<Rightarrow> (unit result \<times> 'z zook_client) option" where
  "observer Z c = observe_paths Z (map fst (mapCallBack c)) c"

text \<open>The watchers the library calls.\<close>

definition g_watcher_init_function ::
  "'z zoo_env \<Rightarrow> int \<Rightarrow> int \<Rightarrow> 'z zook_client \<Rightarrow> (unit result \<times> 'z zook_client) option" where
  "g_watcher_init_function Z ty state c =
     (if ty = ZOO_SESSION_EVENT then
        if state = ZOO_CONNECTED_STATE then
          (case registerSelf Z c of (Ret _, c) \<Rightarrow> observer Z c | r \<Rightarrow> Some r)
        else if state = ZOO_EXPIRED_SESSION_STATE then Some (mseq (zook_init Z) (mret ()) c)
        else Some (Ret (), c)
      else Some (Ret (), c))"

definition watcher_process ::
  "'z zoo_env \<Rightarrow> int \<Rightarrow> int \<Rightarrow> string \<Rightarrow> 'z zook_client \<Rightarrow> (unit result \<times> 'z zook_client) option" where
  "watcher_process Z ty state path c =
     (if state = ZOO_CONNECTED_STATE then
        if ty = DELETED_EVENT_DEF then Some (delServer path c)
        else if ty = CHILD_EVENT_DEF then updateServer Z path c
        else Some (Ret (), c)
      else Some (Ret (), c))"


section \<open>The forwarding members\<close>

text \<open>
  The members that pass their arguments to the library, with the handle of the client. Watchers and
  completions are numbers; \<open>zoo_wexists\<close> gives the code and the owner in the \<open>Stat\<close>. \<open>zooCreate\<close>, \<open>zoo_wget\<close> and
  \<open>zoo_set\<close> are declared but nowhere defined.
\<close>

record 'z zoo_api = "'z zoo_env" +
  zk_wexists :: "string \<Rightarrow> nat \<Rightarrow> ('z, int \<times> 64 word) proc"
  zk_adelete :: "string \<Rightarrow> int \<Rightarrow> nat \<Rightarrow> ('z, int) proc"
  zk_awexists :: "string \<Rightarrow> nat \<Rightarrow> nat \<Rightarrow> ('z, int) proc"
  zk_awget :: "string \<Rightarrow> nat \<Rightarrow> nat \<Rightarrow> ('z, int) proc"
  zk_aset :: "string \<Rightarrow> string \<Rightarrow> int \<Rightarrow> nat \<Rightarrow> ('z, int) proc"
  zk_awget_children :: "string \<Rightarrow> nat \<Rightarrow> nat \<Rightarrow> ('z, int) proc"

definition zook_delete :: "'z zoo_api \<Rightarrow> string \<Rightarrow> int \<Rightarrow> ('z zook_client, int) proc" where
  "zook_delete Z path version = on_zk (zk_delete Z path version)"

definition zook_wexists :: "'z zoo_api \<Rightarrow> string \<Rightarrow> nat \<Rightarrow> ('z zook_client, int \<times> 64 word) proc" where
  "zook_wexists Z path watcher = on_zk (zk_wexists Z path watcher)"

definition zook_exists :: "'z zoo_api \<Rightarrow> string \<Rightarrow> ('z zook_client, int \<times> 64 word) proc" where
  "zook_exists Z path = on_zk (zk_exists Z path)"

definition zook_acreate :: "'z zoo_api \<Rightarrow> string \<Rightarrow> string \<Rightarrow> int \<Rightarrow> ('z zook_client, int) proc" where
  "zook_acreate Z path node_data flags = on_zk (zk_acreate Z path node_data flags)"

text \<open>The version is not passed on.\<close>

definition zook_adelete :: "'z zoo_api \<Rightarrow> string \<Rightarrow> int \<Rightarrow> nat \<Rightarrow> ('z zook_client, int) proc" where
  "zook_adelete Z path version completion = on_zk (zk_adelete Z path (-1) completion)"

definition zook_awexists :: "'z zoo_api \<Rightarrow> string \<Rightarrow> nat \<Rightarrow> nat \<Rightarrow> ('z zook_client, int) proc" where
  "zook_awexists Z path watcher completion = on_zk (zk_awexists Z path watcher completion)"

definition zook_awget :: "'z zoo_api \<Rightarrow> string \<Rightarrow> nat \<Rightarrow> nat \<Rightarrow> ('z zook_client, int) proc" where
  "zook_awget Z path watcher completion = on_zk (zk_awget Z path watcher completion)"

definition zook_aset :: "'z zoo_api \<Rightarrow> string \<Rightarrow> string \<Rightarrow> int \<Rightarrow> nat \<Rightarrow> ('z zook_client, int) proc" where
  "zook_aset Z path node_data version completion = on_zk (zk_aset Z path node_data version completion)"

definition zook_awget_children :: "'z zoo_api \<Rightarrow> string \<Rightarrow> nat \<Rightarrow> nat \<Rightarrow> ('z zook_client, int) proc" where
  "zook_awget_children Z path watcher completion = on_zk (zk_awget_children Z path watcher completion)"

lemma adelete_any_version: "zook_adelete Z path version completion = zook_adelete Z path (-1) completion"
  by (simp add: zook_adelete_def)

section \<open>Comparing host lists\<close>

lemma host_eq_iff: "host_eq a b \<longleftrightarrow> a = b"
  by (cases a; cases b) (auto simp: host_eq_def)

lemma host_absent_iff: "host_absent h hs \<longleftrightarrow> h \<notin> set hs"
  by (induction hs) (auto simp: host_eq_iff)

lemma push_absent_filter: "push_absent others hs out = out @ filter (\<lambda>h. h \<notin> set others) hs"
  by (induction hs arbitrary: out) (simp_all add: host_absent_iff)

lemma compare_filter:
  "compareHostInfo news olds addlist minuslist =
    (addlist @ filter (\<lambda>h. h \<notin> set olds) news, minuslist @ filter (\<lambda>h. h \<notin> set news) olds)"
  by (simp add: compareHostInfo_def push_absent_filter)

section \<open>Names of servers\<close>

text \<open>A string that can stand between the separators.\<close>

definition clean_part :: "string \<Rightarrow> bool" where
  "clean_part s \<longleftrightarrow> s \<noteq> [] \<and> set s \<inter> {CHR ''/'', CHR '':'', CHR 0x00} = {}"

definition clean_host :: "host_info \<Rightarrow> bool" where
  "clean_host h \<longleftrightarrow> clean_part (m_name h) \<and> clean_part (m_ip h)"

lemma takeWhile_clean [simp]: "CHR 0x00 \<notin> set s \<Longrightarrow> takeWhile (\<lambda>c. c \<noteq> CHR 0x00) s = s"
  by (auto simp: takeWhile_eq_all_conv)

lemma dec_clean [simp]: "CHR ''/'' \<notin> set (dec n)" "CHR '':'' \<notin> set (dec n)" "CHR 0x00 \<notin> set (dec n)"
  by (rule dec_no_char; simp add: is_digit_def)+

lemma split_two:
  assumes "d \<notin> set v" "d \<notin> set w" "v \<noteq> []" "w \<noteq> []" "CHR 0x00 \<notin> set v" "CHR 0x00 \<notin> set w" "d \<noteq> CHR 0x00"
  shows "SplitString (v @ d # w) [d] [] = [v, w]" "SplitString (d # v @ d # w) [d] [] = [v, w]"
proof -
  have "tokens [d] (v @ d # w) = v # tokens [d] (d # w)"
    by (rule tokens_word) (use assms in auto)
  also have "tokens [d] (d # w) = tokens [d] (w @ [])" by (simp add: tokens_skip)
  also have "\<dots> = w # tokens [d] []"
    by (rule tokens_word) (use assms in auto)
  finally have "tokens [d] (v @ d # w) = [v, w]" by simp
  then show "SplitString (v @ d # w) [d] [] = [v, w]" "SplitString (d # v @ d # w) [d] [] = [v, w]"
    using assms by (simp_all add: SplitString_def tokens_skip)
qed

lemma parse_generate:
  assumes "clean_host h"
  shows "parseHostInfo (''/'' @ m_name h @ ''/'' @ generateAddrInfo h) = Ret h"
proof -
  have g: "CHR ''/'' \<notin> set (generateAddrInfo h)" "CHR 0x00 \<notin> set (generateAddrInfo h)" "generateAddrInfo h \<noteq> []"
    using assms by (auto simp: generateAddrInfo_def clean_host_def clean_part_def)
  have s1: "SplitString (''/'' @ m_name h @ ''/'' @ generateAddrInfo h) ''/'' [] = [m_name h, generateAddrInfo h]"
    using split_two(2) [of "CHR ''/''" "m_name h" "generateAddrInfo h"] g assms
    by (auto simp: clean_host_def clean_part_def)
  have s2: "SplitString (generateAddrInfo h) '':'' [] = [m_ip h, dec (unat (m_port h))]"
    using split_two(1) [of "CHR '':''" "m_ip h" "dec (unat (m_port h))"] assms
    by (auto simp: generateAddrInfo_def clean_host_def clean_part_def)
  show ?thesis unfolding parseHostInfo_def s1 by (simp add: s2)
qed

section \<open>Loops with a byte counter\<close>

lemma u8_suc: "unat (i + 1) = (if unat i = 255 then 0 else Suc (unat i))" for i :: "8 word"
proof (cases "unat i = 255")
  case True
  then have "i = 255" by (simp add: unsigned_word_eqI [of i 255])
  then show ?thesis by simp
next
  case False
  moreover have "unat i < 256" using unsigned_less [of i, where 'a = nat] by simp
  ultimately show ?thesis by (simp add: unat_word_ariths)
qed

lemma children_loop_from:
  assumes "length data \<le> 255" "unat i \<le> length data"
  shows "children_loop data i acc = Some (acc @ drop (unat i) data)"
  using assms
proof (induction "length data - unat i" arbitrary: i acc)
  case 0
  then show ?case by (simp add: children_loop.simps)
next
  case (Suc n)
  then have lt: "unat i < length data" by simp
  with Suc.prems have i1: "unat (i + 1) = Suc (unat i)" by (simp add: u8_suc)
  have "children_loop data (i + 1) (acc @ [data ! unat i]) = Some ((acc @ [data ! unat i]) @ drop (unat (i + 1)) data)"
    by (rule Suc.hyps) (use Suc i1 lt in simp_all)
  then show ?case using lt by (simp add: children_loop.simps [of data i] i1 Cons_nth_drop_Suc)
qed

lemma children_loop_returns:
  assumes "children_loop data i acc = Some r"
  shows "length data \<le> 255"
proof (rule children_loop.raw_induct [where P = "\<lambda>d i acc r. length d \<le> 255", OF _ assms])
  fix self :: "string list \<Rightarrow> 8 word \<Rightarrow> string list \<Rightarrow> string list option"
    and d :: "string list" and i :: "8 word" and acc r
  assume "\<And>d i acc r. self d i acc = Some r \<Longrightarrow> length d \<le> 255"
    "(if unat i < length d then self d (i + 1) (acc @ [d ! unat i]) else Some acc) = Some r"
  moreover have "unat i < 256" using unsigned_less [of i, where 'a = nat] by simp
  ultimately show "length d \<le> 255" by (auto split: if_splits)
qed

lemma servers_loop_from:
  assumes "length names \<le> 255" "unat i \<le> length names"
    "\<And>n. n \<in> set names \<Longrightarrow> parseHostInfo (path @ ''/'' @ n) = Ret (f n)"
  shows "servers_loop path names i acc = Some (Ret (acc @ map f (drop (unat i) names)))"
  using assms(1,2)
proof (induction "length names - unat i" arbitrary: i acc)
  case 0
  then show ?case by (simp add: servers_loop.simps)
next
  case (Suc n)
  then have lt: "unat i < length names" by simp
  with Suc.prems have i1: "unat (i + 1) = Suc (unat i)" by (simp add: u8_suc)
  have "servers_loop path names (i + 1) (acc @ [f (names ! unat i)]) =
      Some (Ret ((acc @ [f (names ! unat i)]) @ map f (drop (unat (i + 1)) names)))"
    by (rule Suc.hyps) (use Suc i1 lt in simp_all)
  moreover have "parseHostInfo (path @ ''/'' @ names ! unat i) = Ret (f (names ! unat i))"
    by (rule assms(3)) (use lt in simp)
  moreover have "map f (drop (unat i) names) = f (names ! unat i) # map f (drop (Suc (unat i)) names)"
    using lt by (metis Cons_nth_drop_Suc list.simps(9))
  ultimately show ?case using lt by (simp add: servers_loop.simps [of path names i] i1)
qed

section \<open>What a subscriber knows\<close>

text \<open>The set of servers a callback has been told of: additions and deletions in the order of the calls.\<close>

fun apply_change :: "string \<Rightarrow> string \<times> host_info list \<times> eopt \<Rightarrow> host_info set \<Rightarrow> host_info set" where
  "apply_change path (p, infos, E_ADD) S = (if p = path then S \<union> set infos else S)"
| "apply_change path (p, infos, E_DEL) S = (if p = path then S - set infos else S)"
| "apply_change path (p, infos, E_UPDATE) S = S"

definition known :: "string \<Rightarrow> 'z zook_client \<Rightarrow> host_info set" where
  "known path c = fold (apply_change path) (callbacks c) {}"

definition subscribers_ok :: "'z zook_client \<Rightarrow> bool" where
  "subscribers_ok c \<longleftrightarrow> omap_ok (mapCallBack c) \<and>
     (\<forall>path obj. map_of (mapCallBack c) path = Some obj \<longrightarrow> cb_func obj \<longrightarrow> known path c = set (vecHost obj))"

lemma known_call_back:
  "known p (call_back path func infos opt c) = (if func then apply_change p (path, infos, opt) (known p c) else known p c)"
  by (simp add: known_def call_back_def)

lemma call_back_fields [simp]:
  "mapCallBack (call_back path func infos opt c) = mapCallBack c"
  "zk_state (call_back path func infos opt c) = zk_state c"
  by (simp_all add: call_back_def)

lemma known_map [simp]: "known p (c\<lparr>mapCallBack := m\<rparr>) = known p c" "known p (c\<lparr>zk_state := z\<rparr>) = known p c"
  by (simp_all add: known_def)

lemma tell_changes_known:
  assumes "map_of (mapCallBack c) path = Some obj" "subscribers_ok c"
  shows "known p (tell_changes path obj infos c) =
    (if p = path \<and> cb_func obj then set infos else known p c)"
proof -
  have "known path c = set (vecHost obj)" if "cb_func obj" using assms that by (simp add: subscribers_ok_def)
  then show ?thesis
    by (cases "vecHost obj = []"; cases "infos = []")
      (auto simp: tell_changes_def Let_def compare_filter known_call_back filter_empty_conv)
qed

lemma tell_changes_ok:
  assumes "map_of (mapCallBack c) path = Some obj" "subscribers_ok c"
  shows "subscribers_ok (tell_changes path obj infos c)"
proof -
  have m: "mapCallBack (tell_changes path obj infos c) = omap_put path (obj\<lparr>vecHost := infos\<rparr>) (mapCallBack c)"
    by (simp add: tell_changes_def Let_def compare_filter)
  have ok: "omap_ok (mapCallBack c)" using assms(2) by (simp add: subscribers_ok_def)
  show ?thesis
    using assms(2) unfolding subscribers_ok_def m tell_changes_known [OF assms]
    by (auto simp: omap_put_ok [OF ok] omap_put_find [OF ok])
qed


lemma servers_loop_total:
  assumes "length names \<le> 255"
  shows "\<exists>r. servers_loop path names i acc = Some r"
proof (induction "length names - unat i" arbitrary: i acc)
  case 0
  then show ?case by (simp add: servers_loop.simps)
next
  case (Suc n)
  then have lt: "unat i < length names" by simp
  with assms have "unat (i + 1) = Suc (unat i)" by (simp add: u8_suc)
  with Suc.hyps(2) have "n = length names - unat (i + 1)" by simp
  from Suc.hyps(1) [OF this] show ?case using lt
    by (simp add: servers_loop.simps [of path names i] split: result.split)
qed

lemma getServerList_children:
  assumes "zk_get_children Z path (zk_state c) = (Ret (ret, names), z)"
  shows "getServerList Z path c =
    (if ret \<noteq> 0 then Some (Ret [], c\<lparr>zk_state := z\<rparr>)
     else if length names \<le> 255 then map_option (\<lambda>r. (r, c\<lparr>zk_state := z\<rparr>)) (servers_loop path names 0 [])
     else None)"
proof -
  have "children_loop names 0 [] = (if length names \<le> 255 then Some names else None)"
    using children_loop_from [of names 0 "[]"] children_loop_returns [of names 0 "[]"]
    by (cases "children_loop names 0 []") auto
  then show ?thesis using assms
    by (simp add: getServerList_def zoo_wget_children_def on_zk_def servers_loop.simps)
qed

section \<open>Properties\<close>

text \<open>\<open>compareHostInfo\<close> computes the two set differences, in the order of the lists.\<close>

theorem compareHostInfo_differences:
  "compareHostInfo news olds addlist minuslist =
    (addlist @ filter (\<lambda>h. h \<notin> set olds) news, minuslist @ filter (\<lambda>h. h \<notin> set news) olds)"
  by (rule compare_filter)

text \<open>C22: \<open>updateServer\<close> keeps the subscribers informed, as long as zookeeper answers with \<open>ZOK\<close> and at most 255 children,
  whose names are those \<open>registerSelf\<close> makes for hosts of this path (\<open>clean_host\<close>): if before a call every callback
  knows exactly the hosts recorded for its path, then after it the callback of this path knows exactly those
  servers, every other callback what it knew, and the records agree again. (An error is taken for an empty list,
  \<open>updateServer_error_drops_all\<close>; with more children the call never returns.)\<close>

theorem updateServer_follows:
  assumes "subscribers_ok c" "map_of (mapCallBack c) path = Some obj"
    "zk_get_children Z path (zk_state c) = (Ret (0, map generateAddrInfo hosts), z)" "length hosts \<le> 255"
    "list_all (\<lambda>h. clean_host h \<and> path = ''/'' @ m_name h) hosts"
  shows "\<exists>c'. updateServer Z path c = Some (Ret (), c') \<and> subscribers_ok c' \<and>
    known p c' = (if p = path \<and> cb_func obj then set hosts else known p c)"
proof -
  let ?f = "\<lambda>n. case parseHostInfo (path @ ''/'' @ n) of Ret h \<Rightarrow> h"
  have parse: "parseHostInfo (path @ ''/'' @ generateAddrInfo h) = Ret h" if "h \<in> set hosts" for h
    using parse_generate [of h] assms(5) that by (auto simp: list_all_iff)
  have "servers_loop path (map generateAddrInfo hosts) 0 [] =
      Some (Ret ([] @ map ?f (drop (unat (0 :: 8 word)) (map generateAddrInfo hosts))))"
    by (rule servers_loop_from) (use assms(4) parse in auto)
  also have "map ?f (drop (unat (0 :: 8 word)) (map generateAddrInfo hosts)) = hosts"
    using parse by (simp add: map_idI)
  finally have "getServerList Z path c = Some (Ret hosts, c\<lparr>zk_state := z\<rparr>)"
    using getServerList_children [OF assms(3)] assms(4) by simp
  then have "updateServer Z path c = Some (Ret (), tell_changes path obj hosts (c\<lparr>zk_state := z\<rparr>))"
    by (simp add: updateServer_def assms(2))
  moreover have "subscribers_ok (c\<lparr>zk_state := z\<rparr>)" "map_of (mapCallBack (c\<lparr>zk_state := z\<rparr>)) path = Some obj"
    using assms(1,2) by (simp_all add: subscribers_ok_def)
  ultimately show ?thesis
    by (auto simp: tell_changes_known intro: tell_changes_ok)
qed

text \<open>An example: two servers are registered, one of them is new.\<close>

definition demo_host :: "string \<Rightarrow> host_info" where
  "demo_host ip = \<lparr>m_name = ''chat'', m_ip = ip, m_port = 80\<rparr>"

definition demo_zoo :: "int \<Rightarrow> string list \<Rightarrow> unit zoo_env" where
  "demo_zoo ret names = \<lparr>zk_init = (\<lambda>_ _. mret True), zk_close = mret (), zk_client_id = (\<lambda>_. 7),
    zk_exists = (\<lambda>_. mret (ZOK, 7)), zk_acreate = (\<lambda>_ _ _. mret ZOK), zk_delete = (\<lambda>_ _. mret ZOK),
    zk_get_children = (\<lambda>_. mret (ret, names))\<rparr>"

definition demo_zook :: "unit zook_client" where
  "demo_zook = \<lparr>zk_state = (), zhandle_open = True, localInfo = demo_host ''1.1'', zooServerList = ''zk'',
    session_timeout = 3000, mapCallBack = [(''/chat'', \<lparr>cb_func = True, vecHost = [demo_host ''1.1'']\<rparr>)],
    callbacks = [(''/chat'', [demo_host ''1.1''], E_ADD)]\<rparr>"

lemma demo_zook_ok: "subscribers_ok demo_zook"
  by (simp add: subscribers_ok_def demo_zook_def omap_ok_def known_def)

theorem updateServer_follows_witness:
  "\<exists>c'. updateServer (demo_zoo ZOK (map generateAddrInfo [demo_host ''1.1'', demo_host ''2.2''])) ''/chat'' demo_zook = Some (Ret (), c') \<and>
    subscribers_ok c' \<and> known ''/chat'' c' = {demo_host ''1.1'', demo_host ''2.2''}"
proof -
  have "zk_get_children (demo_zoo ZOK (map generateAddrInfo [demo_host ''1.1'', demo_host ''2.2''])) ''/chat'' (zk_state demo_zook) =
      (Ret (0, map generateAddrInfo [demo_host ''1.1'', demo_host ''2.2'']), ())"
    by (simp add: demo_zoo_def mret_run)
  from updateServer_follows [OF demo_zook_ok _ this, of "\<lparr>cb_func = True, vecHost = [demo_host ''1.1'']\<rparr>" "''/chat''"]
  show ?thesis by (simp add: demo_zook_def demo_host_def clean_host_def clean_part_def)
qed

text \<open>An error of zookeeper is taken for an empty list: every host known is reported as deleted.\<close>

theorem updateServer_error_drops_all:
  assumes "subscribers_ok c" "map_of (mapCallBack c) path = Some obj" "cb_func obj"
    "zk_get_children Z path (zk_state c) = (Ret (ret, names), z)" "ret \<noteq> ZOK"
  shows "\<exists>c'. updateServer Z path c = Some (Ret (), c') \<and> known path c' = {}"
proof -
  have "updateServer Z path c = Some (Ret (), tell_changes path obj [] (c\<lparr>zk_state := z\<rparr>))"
    using getServerList_children [OF assms(4)] assms(5) by (simp add: updateServer_def assms(2))
  moreover have "subscribers_ok (c\<lparr>zk_state := z\<rparr>)" "map_of (mapCallBack (c\<lparr>zk_state := z\<rparr>)) path = Some obj"
    using assms(1,2) by (simp_all add: subscribers_ok_def)
  ultimately show ?thesis using assms(3) by (simp add: tell_changes_known)
qed

theorem updateServer_error_drops_all_witness:
  "\<exists>c'. updateServer (demo_zoo (-4) []) ''/chat'' demo_zook = Some (Ret (), c') \<and> known ''/chat'' c' = {}"
  by (rule updateServer_error_drops_all [OF demo_zook_ok, of _ "\<lparr>cb_func = True, vecHost = [demo_host ''1.1'']\<rparr>" _ "-4" "[]"])
    (simp_all add: demo_zook_def demo_zoo_def mret_run)

text \<open>C38: \<open>getServerList\<close> returns exactly when there are at most 255 children: its counters are bytes, and with
  more it never ends.\<close>

theorem getServerList_terminates:
  assumes "zk_get_children Z path (zk_state c) = (Ret (ZOK, names), z)"
  shows "(\<exists>r. getServerList Z path c = Some r) \<longleftrightarrow> length names \<le> 255"
  using getServerList_children [OF assms] servers_loop_total [of names path 0 "[]"] by auto

theorem getServerList_terminates_witness:
  "getServerList (demo_zoo ZOK (replicate 256 ''1.1:80'')) ''/chat'' demo_zook = None"
proof -
  have "zk_get_children (demo_zoo ZOK (replicate 256 ''1.1:80'')) ''/chat'' (zk_state demo_zook) =
      (Ret (ZOK, replicate 256 ''1.1:80''), ())"
    by (simp add: demo_zoo_def mret_run)
  from getServerList_terminates [OF this] show ?thesis
    by (cases "getServerList (demo_zoo ZOK (replicate 256 ''1.1:80'')) ''/chat'' demo_zook") auto
qed

end
