(* ===== verification/Run_Log.thy ===== *)
theory Run_Log
  imports Std_Lib
begin

text \<open>
  The log writer of \<open>src/common/writeRunInfo.cpp\<close> and the formats of the time in \<open>src/common/common.cpp\<close>. The
  file system is a map from names to contents; which files can be opened and examined, which of them can be
  renamed, what of the bytes written reaches the disk, the time and \<open>localtime_r\<close> are part of the state. The text a format and its arguments give is an argument (\<open>msg\<close>). The non-recursive
  mutex is a flag: locking it twice blocks.
\<close>

section \<open>Times\<close>

record tm =
  tm_year :: nat
  tm_mon :: nat
  tm_mday :: nat
  tm_hour :: nat
  tm_min :: nat
  tm_sec :: nat

text \<open>\<open>%02d\<close> and \<open>%04d\<close>; \<open>snprintf\<close> keeps one byte less than the size of the array.\<close>

definition pad :: "nat \<Rightarrow> nat \<Rightarrow> string" where
  "pad k n = replicate (k - length (dec n)) (CHR ''0'') @ dec n"

definition snprintf :: "nat \<Rightarrow> string \<Rightarrow> string" where
  "snprintf size' s = take (size' - 1) s"

definition ymd :: "tm \<Rightarrow> string" where
  "ymd t = pad 4 (tm_year t + 1900) @ ''-'' @ pad 2 (tm_mon t + 1) @ ''-'' @ pad 2 (tm_mday t)"

definition Secd2Time :: "tm \<Rightarrow> string" where
  "Secd2Time t = snprintf 50 (ymd t @ '' '' @ pad 2 (tm_hour t) @ '':'' @ pad 2 (tm_min t) @ '':'' @ pad 2 (tm_sec t))"

definition Secd2Date :: "tm \<Rightarrow> string" where
  "Secd2Date t = snprintf 20 (pad 4 (tm_year t + 1900) @ pad 2 (tm_mon t + 1) @ pad 2 (tm_mday t))"

section \<open>State\<close>

record log_type =
  nLogtype :: int
  nFileNum :: nat
  sFileNameSuffix :: string
  nLogOff :: int

record run_info =
  m_sFileName :: string
  m_sDayFileName :: string
  m_sStatFile :: string
  LOGTYPEARRAY :: "log_type list"
  m_logMutex :: bool
  log_files :: "string \<Rightarrow> string option"
  can_open :: "string \<Rightarrow> bool"
  can_stat :: "string \<Rightarrow> bool"
  can_rename :: "string \<Rightarrow> string \<Rightarrow> bool"
  reaches_disk :: "string \<Rightarrow> string"
  log_now :: tm

abbreviation MAXLOGSIZE :: nat where "MAXLOGSIZE \<equiv> 5000000"
abbreviation MAXLOGTYPE :: int where "MAXLOGTYPE \<equiv> 100"

abbreviation LOGTYPE :: int where "LOGTYPE \<equiv> 0"
abbreviation FATALTYPE :: int where "FATALTYPE \<equiv> 1"
abbreviation ERRORTYPE :: int where "ERRORTYPE \<equiv> 2"
abbreviation INFOTYPE :: int where "INFOTYPE \<equiv> 4"
abbreviation TRACETYPE :: int where "TRACETYPE \<equiv> 6"
abbreviation DATATYPE :: int where "DATATYPE \<equiv> 7"

text \<open>The constructor of the array, which is static: the entries it does not set are zero.\<close>

definition log_types :: "log_type list" where
  "log_types =
     map (\<lambda>(ty, suffix, off). \<lparr>nLogtype = ty, nFileNum = 0, sFileNameSuffix = suffix, nLogOff = off\<rparr>)
       [(0, ''.frame'', 2), (1, ''.error'', 1), (2, ''.error'', 1), (3, ''.warn'', 1), (4, ''.trace'', 0),
        (5, ''.trace'', 0), (6, ''.trace'', 0), (7, ''.data'', 1)]
     @ replicate 92 \<lparr>nLogtype = 0, nFileNum = 0, sFileNameSuffix = [], nLogOff = 0\<rparr>"

text \<open>\<open>operator[]\<close> checks the upper bound only.\<close>

definition type_index :: "int \<Rightarrow> nat result" where
  "type_index i = (let i = (if i \<ge> MAXLOGTYPE then 0 else i) in if i < 0 then Stuck Undefined else Ret (nat i))"

definition InsertLogType :: "log_type \<Rightarrow> run_info \<Rightarrow> run_info" where
  "InsertLogType t s =
     (if nLogtype t \<le> 7 \<or> nLogtype t \<ge> MAXLOGTYPE then s
      else s\<lparr>LOGTYPEARRAY := (LOGTYPEARRAY s)[nat (nLogtype t) := t]\<rparr>)"

definition log_Init :: "string \<Rightarrow> run_info \<Rightarrow> run_info" where
  "log_Init fileName s = s\<lparr>m_sFileName := (if CHR ''/'' \<in> set fileName then fileName else ''logs/'' @ fileName)\<rparr>"

definition SetLogFlag :: "int \<Rightarrow> int \<Rightarrow> run_info \<Rightarrow> run_info" where
  "SetLogFlag iModLogType iFlag s =
     (if iModLogType < 0 \<or> iModLogType \<ge> MAXLOGTYPE then s
      else if nLogOff (LOGTYPEARRAY s ! nat iModLogType) = 2 then s
      else s\<lparr>LOGTYPEARRAY := (LOGTYPEARRAY s)[nat iModLogType := (LOGTYPEARRAY s ! nat iModLogType)\<lparr>nLogOff := iFlag\<rparr>]\<rparr>)"

section \<open>Files\<close>

definition mutex_Lock :: "(run_info, unit) proc" where
  "mutex_Lock s = (if m_logMutex s then (Stuck Blocked, s) else (Ret (), s\<lparr>m_logMutex := True\<rparr>))"

definition mutex_UnLock :: "(run_info, unit) proc" where
  "mutex_UnLock s = (Ret (), s\<lparr>m_logMutex := False\<rparr>)"

text \<open>\<open>rename\<close> replaces the target, or fails and changes nothing (its result is ignored); \<open>fopen(.., "a+")\<close> with what is
  then written, whose failures are ignored as well.\<close>

definition rename_file :: "string \<Rightarrow> string \<Rightarrow> run_info \<Rightarrow> run_info" where
  "rename_file old new s = (case log_files s old of
     None \<Rightarrow> s
   | Some content \<Rightarrow>
       if can_rename s old new then s\<lparr>log_files := (log_files s)(old := None, new := Some content)\<rparr> else s)"

definition append_file :: "string \<Rightarrow> string \<Rightarrow> (run_info, bool) proc" where
  "append_file name bs s =
     (if can_open s name
      then (Ret True, s\<lparr>log_files := (log_files s)
        (name := Some ((case log_files s name of None \<Rightarrow> [] | Some c \<Rightarrow> c) @ reaches_disk s bs))\<rparr>)
      else (Ret False, s))"

text \<open>A file longer than \<open>MAXLOGSIZE\<close>, if \<open>stat\<close> says so, is moved to the next of ten names.\<close>

definition archive_name :: "string \<Rightarrow> nat \<Rightarrow> string" where
  "archive_name sFileName n = snprintf 1024 (sFileName @ ''_'' @ pad 2 n)"

definition rotate :: "nat \<Rightarrow> string \<Rightarrow> run_info \<Rightarrow> run_info" where
  "rotate ty sFileName s = (case (if can_stat s sFileName then log_files s sFileName else None) of
     None \<Rightarrow> s
   | Some content \<Rightarrow>
       if length content > MAXLOGSIZE then
         (let n = (nFileNum (LOGTYPEARRAY s ! ty) + 1) mod 10;
              s = s\<lparr>LOGTYPEARRAY := (LOGTYPEARRAY s)[ty := (LOGTYPEARRAY s ! ty)\<lparr>nFileNum := n\<rparr>]\<rparr>
          in rename_file sFileName (archive_name sFileName n) s)
       else s)"

text \<open>\<open>LogWrite\<close> and \<open>LogWriteData\<close>, which adds the bytes of the data (\<open>extra\<close>).\<close>

definition log_write :: "int \<Rightarrow> string \<Rightarrow> string \<Rightarrow> (run_info, unit) proc" where
  "log_write nLogType msg extra s =
     (if nLogType < 0 \<or> nLogType \<ge> MAXLOGTYPE then mret ()
      else if nLogOff (LOGTYPEARRAY s ! nat nLogType) = 0 then mret ()
      else mseq mutex_Lock (\<lambda>s.
        let ty = nat nLogType; sFileName = m_sFileName s @ sFileNameSuffix (LOGTYPEARRAY s ! ty)
        in mseq (append_file sFileName (Secd2Time (log_now s) @ '': '' @ msg @ [LF] @ extra)) mutex_UnLock
             (rotate ty sFileName s))) s"

definition LogWrite :: "int \<Rightarrow> string \<Rightarrow> (run_info, unit) proc" where
  "LogWrite nLogType msg = log_write nLogType msg []"

definition LogWriteData :: "string \<Rightarrow> int \<Rightarrow> string \<Rightarrow> (run_info, unit) proc" where
  "LogWriteData pData nLogType msg = log_write nLogType msg (pData @ [LF])"

section \<open>The writers\<close>

definition WriteAllLog :: "int \<Rightarrow> string \<Rightarrow> (run_info, unit) proc" where
  "WriteAllLog nLogType msg = (if nLogType < 0 \<or> nLogType \<ge> MAXLOGTYPE then mret () else LogWrite nLogType msg)"

definition WriteLog :: "string \<Rightarrow> (run_info, unit) proc" where "WriteLog msg = LogWrite LOGTYPE msg"
definition WriteInfo :: "string \<Rightarrow> (run_info, unit) proc" where "WriteInfo msg = LogWrite INFOTYPE msg"
definition WriteInfoRun :: "string \<Rightarrow> (run_info, unit) proc" where "WriteInfoRun msg = LogWrite INFOTYPE msg"
definition WriteError :: "string \<Rightarrow> (run_info, unit) proc" where "WriteError msg = LogWrite ERRORTYPE msg"
definition WriteData :: "string \<Rightarrow> string \<Rightarrow> (run_info, unit) proc" where "WriteData pData msg = LogWriteData pData DATATYPE msg"

definition WriteRunLog :: "string \<Rightarrow> (run_info, unit) proc" where
  "WriteRunLog msg s = (if nLogOff (LOGTYPEARRAY s ! nat INFOTYPE) = 0 then (Ret (), s) else LogWrite INFOTYPE msg s)"

definition WriteTrace :: "string \<Rightarrow> (run_info, unit) proc" where
  "WriteTrace msg s = (if nLogOff (LOGTYPEARRAY s ! nat TRACETYPE) = 0 then (Ret (), s) else LogWrite TRACETYPE msg s)"

text \<open>\<open>WriteNowDetailTime\<close>: the text is that of the seconds and microseconds.\<close>

definition WriteNowDetailTime :: "nat \<Rightarrow> nat \<Rightarrow> (run_info, unit) proc" where
  "WriteNowDetailTime tv_sec tv_usec s =
     (if nLogOff (LOGTYPEARRAY s ! nat TRACETYPE) = 0 then (Ret (), s)
      else WriteTrace (''Now is '' @ dec tv_sec @ '' second and '' @ dec tv_usec @ '' milsecond'') s)"

text \<open>
  The statistics: a file per day or hour. When it cannot be opened the mutex is released and the failure
  logged (\<open>err\<close> is the text of \<open>strerror\<close>).
\<close>

definition write_stat :: "(run_info \<Rightarrow> string) \<Rightarrow> (tm \<Rightarrow> string) \<Rightarrow> string \<Rightarrow> string \<Rightarrow> (run_info, unit) proc" where
  "write_stat name prefix err msg =
     mseq mutex_Lock (\<lambda>s. let s = s\<lparr>m_sStatFile := snprintf 256 (name s)\<rparr> in
       mbind (append_file (m_sStatFile s) (prefix (log_now s) @ msg @ [LF])) (\<lambda>ok.
         mseq mutex_UnLock
           (if ok then mret () else (\<lambda>s. WriteLog (''m_sStatFile is '' @ m_sStatFile s @ '', error is '' @ err) s))) s)"

definition hms :: "tm \<Rightarrow> string" where
  "hms t = ''[---'' @ pad 2 (tm_hour t) @ pad 2 (tm_min t) @ pad 2 (tm_sec t) @ ''---]''"

definition WriteStat :: "string \<Rightarrow> string \<Rightarrow> (run_info, unit) proc" where
  "WriteStat = write_stat (\<lambda>s. ''stat/'' @ m_sFileName s @ ''_'' @ ymd (log_now s)) hms"

definition WriteHourStat :: "string \<Rightarrow> string \<Rightarrow> string \<Rightarrow> (run_info, unit) proc" where
  "WriteHourStat name = write_stat (\<lambda>s. ''stat/'' @ m_sFileName s @ ''_'' @ name @ ''_'' @ ymd (log_now s) @ ''-''
     @ pad 2 (tm_hour (log_now s))) (\<lambda>_. [])"

definition WritePrivateStat :: "string \<Rightarrow> string \<Rightarrow> string \<Rightarrow> (run_info, unit) proc" where
  "WritePrivateStat name = write_stat (\<lambda>s. ''stat/'' @ m_sFileName s @ ''_'' @ name @ ''_'' @ ymd (log_now s)) (\<lambda>_. [])"

definition DayLogWrite :: "string \<Rightarrow> string \<Rightarrow> (run_info, unit) proc" where
  "DayLogWrite name msg = mseq mutex_Lock (\<lambda>s.
     let sFileName = m_sDayFileName s @ ''stat_day_'' @ name @ ''.log.'' @ Secd2Date (log_now s)
     in mseq (append_file sFileName (Secd2Time (log_now s) @ '': '' @ msg @ [LF])) mutex_UnLock s)"

text \<open>The hexadecimal dump: sixteen bytes a line, rounding \<open>nLen / 16\<close> towards zero.\<close>

definition hex_digit :: "nat \<Rightarrow> char" where
  "hex_digit d = ''0123456789ABCDEF'' ! d"

definition hex_byte :: "char \<Rightarrow> string" where
  "hex_byte c = [hex_digit (of_char c div 16), hex_digit (of_char c mod 16), CHR '' '']"

definition dump_lines :: "string \<Rightarrow> int \<Rightarrow> int" where
  "dump_lines pBuf nLen = (let q = sgn nLen * (\<bar>nLen\<bar> div 16) in if 16 dvd nLen then q else q + 1)"

primrec dump_loop :: "nat \<Rightarrow> string \<Rightarrow> (run_info, unit) proc" where
  "dump_loop 0 rest = mret ()"
| "dump_loop (Suc n) rest = mseq (WriteTrace (concat (map hex_byte (take 16 rest)))) (dump_loop n (drop 16 rest))"

definition WriteBufToTrace :: "string \<Rightarrow> int \<Rightarrow> (run_info, unit) proc" where
  "WriteBufToTrace pBuf nLen =
     (if int (length pBuf) < nLen then mstuck Undefined
      else dump_loop (nat (dump_lines pBuf nLen)) (take (nat nLen) pBuf))"


section \<open>What a write does\<close>

definition log_name :: "int \<Rightarrow> run_info \<Rightarrow> string" where
  "log_name ty s = m_sFileName s @ sFileNameSuffix (LOGTYPEARRAY s ! nat ty)"

definition log_record :: "string \<Rightarrow> run_info \<Rightarrow> string" where
  "log_record msg s = Secd2Time (log_now s) @ '': '' @ msg @ [LF]"

definition content :: "string \<Rightarrow> run_info \<Rightarrow> string" where
  "content name s = (case log_files s name of None \<Rightarrow> [] | Some c \<Rightarrow> c)"

text \<open>The state in which a type can be logged: it is switched on, the mutex is free, its file can be opened and written
  without errors, and the name leaves room for the number of an archive.\<close>

definition log_ready :: "int \<Rightarrow> run_info \<Rightarrow> bool" where
  "log_ready ty s \<longleftrightarrow> 0 \<le> ty \<and> ty < MAXLOGTYPE \<and> length (LOGTYPEARRAY s) = 100 \<and>
     nLogOff (LOGTYPEARRAY s ! nat ty) \<noteq> 0 \<and> \<not> m_logMutex s \<and> can_open s (log_name ty s) \<and>
     length (log_name ty s) < 1020 \<and> (\<forall>bs. reaches_disk s bs = bs)"

lemma archive_name_eq: "archive_name name n = name @ ''_0'' @ dec n" if "length name < 1020" "n < 10"
proof -
  have d: "dec n = [digit_char n]" using that(2) by (simp add: dec.simps [of n])
  show ?thesis using that(1) by (simp add: archive_name_def snprintf_def pad_def d numeral_2_eq_2)
qed

lemma archive_name_ne: "length name < 1020 \<Longrightarrow> n < 10 \<Longrightarrow> archive_name name n \<noteq> name"
  by (simp add: archive_name_eq)

definition next_archive :: "int \<Rightarrow> run_info \<Rightarrow> string" where
  "next_archive ty s = archive_name (log_name ty s) ((nFileNum (LOGTYPEARRAY s ! nat ty) + 1) mod 10)"

lemma LogWrite_run:
  assumes "log_ready ty s"
  defines "big \<equiv> can_stat s (log_name ty s) \<and> MAXLOGSIZE < length (content (log_name ty s) s)"
  defines "moved \<equiv> big \<and> can_rename s (log_name ty s) (next_archive ty s)"
  shows "\<exists>s'. LogWrite ty msg s = (Ret (), s') \<and> \<not> m_logMutex s' \<and>
    log_files s' = (log_files s)
      (log_name ty s := Some ((if moved then [] else content (log_name ty s) s) @ log_record msg s),
       next_archive ty s := (if moved then Some (content (log_name ty s) s) else log_files s (next_archive ty s))) \<and>
    LOGTYPEARRAY s' = (if big then (LOGTYPEARRAY s)[nat ty := (LOGTYPEARRAY s ! nat ty)
      \<lparr>nFileNum := (nFileNum (LOGTYPEARRAY s ! nat ty) + 1) mod 10\<rparr>] else LOGTYPEARRAY s) \<and>
    m_sFileName s' = m_sFileName s \<and> can_open s' = can_open s \<and> can_stat s' = can_stat s \<and> can_rename s' = can_rename s \<and>
    reaches_disk s' = reaches_disk s \<and> log_now s' = log_now s"
proof -
  let ?name = "log_name ty s"
  have ne: "next_archive ty s \<noteq> ?name"
    using assms(1) by (simp add: next_archive_def log_ready_def archive_name_ne)
  have ty: "\<not> ty < 0" "\<not> MAXLOGTYPE \<le> ty" "nLogOff (LOGTYPEARRAY s ! nat ty) \<noteq> 0" "\<not> m_logMutex s" "can_open s ?name"
    "\<And>bs. reaches_disk s bs = bs"
    using assms(1) by (auto simp: log_ready_def)
  show ?thesis
  proof (cases "log_files s ?name")
    case None
    with ty ne show ?thesis
      by (simp add: LogWrite_def log_write_def mutex_Lock_def mutex_UnLock_def mseq_run Let_def append_file_def
          rotate_def moved_def big_def content_def log_record_def log_name_def fun_upd_idem)
  next
    case (Some c)
    with ty ne show ?thesis
      by (simp add: LogWrite_def log_write_def mutex_Lock_def mutex_UnLock_def mseq_run Let_def append_file_def
          rotate_def rename_file_def moved_def big_def content_def log_record_def log_name_def next_archive_def
          fun_upd_idem fun_upd_twist)
  qed
qed


section \<open>Properties\<close>

text \<open>C40: A log call of a type that is switched on, with a free mutex, a file that can be opened and written and a name of
  less than 1020 bytes, appends exactly one line to the file of its type and frees the mutex. If the file had grown
  past the limit, and \<open>stat\<close> and \<open>rename\<close> succeed, its contents are first moved, whole, to the next archive name,
  replacing what was there; then the file exceeds the limit by no more than one line. If they fail the line is
  appended to the long file, which goes on growing. No other file is touched.\<close>

theorem LogWrite_outcome:
  assumes "log_ready ty s"
  shows "\<exists>s'. LogWrite ty msg s = (Ret (), s') \<and> \<not> m_logMutex s' \<and>
    (can_stat s (log_name ty s) \<and> can_rename s (log_name ty s) (next_archive ty s) \<longrightarrow>
      length (content (log_name ty s) s') \<le> MAXLOGSIZE + length (log_record msg s)) \<and>
    (if MAXLOGSIZE < length (content (log_name ty s) s) \<and> can_stat s (log_name ty s) \<and>
       can_rename s (log_name ty s) (next_archive ty s)
     then content (log_name ty s) s' = log_record msg s \<and> content (next_archive ty s) s' = content (log_name ty s) s
     else content (log_name ty s) s' = content (log_name ty s) s @ log_record msg s \<and>
       log_files s' (next_archive ty s) = log_files s (next_archive ty s)) \<and>
    (\<forall>f. f \<noteq> log_name ty s \<longrightarrow> f \<noteq> next_archive ty s \<longrightarrow> log_files s' f = log_files s f)"
proof -
  have ne: "next_archive ty s \<noteq> log_name ty s"
    using assms(1) by (simp add: next_archive_def log_ready_def archive_name_ne)
  let ?moved = "(can_stat s (log_name ty s) \<and> MAXLOGSIZE < length (content (log_name ty s) s)) \<and>
    can_rename s (log_name ty s) (next_archive ty s)"
  from LogWrite_run [OF assms, of msg] obtain s' where s': "LogWrite ty msg s = (Ret (), s')" "\<not> m_logMutex s'"
    "log_files s' = (log_files s)
      (log_name ty s := Some ((if ?moved then [] else content (log_name ty s) s) @ log_record msg s),
       next_archive ty s := (if ?moved then Some (content (log_name ty s) s) else log_files s (next_archive ty s)))" by blast
  then show ?thesis using ne
    by (intro exI [of _ s']) (auto simp: content_def)
qed

definition demo_log :: "(string \<Rightarrow> string option) \<Rightarrow> run_info" where
  "demo_log files = \<lparr>m_sFileName = ''logs/a'', m_sDayFileName = ''day/'', m_sStatFile = [], LOGTYPEARRAY = log_types,
     m_logMutex = False, log_files = files, can_open = (\<lambda>_. True),
     can_stat = (\<lambda>_. True), can_rename = (\<lambda>_ _. True), reaches_disk = (\<lambda>bs. bs),
     log_now = \<lparr>tm_year = 116, tm_mon = 6, tm_mday = 21, tm_hour = 9, tm_min = 5, tm_sec = 0\<rparr>\<rparr>"

lemma demo_types:
  "log_types ! 0 = \<lparr>nLogtype = 0, nFileNum = 0, sFileNameSuffix = ''.frame'', nLogOff = 2\<rparr>"
  "log_types ! Suc 0 = \<lparr>nLogtype = 1, nFileNum = 0, sFileNameSuffix = ''.error'', nLogOff = 1\<rparr>"
  "log_types ! 2 = \<lparr>nLogtype = 2, nFileNum = 0, sFileNameSuffix = ''.error'', nLogOff = 1\<rparr>"
  "length log_types = 100"
  by (simp_all add: log_types_def)

lemma demo_log_ready: "log_ready ERRORTYPE (demo_log files)" "log_name ERRORTYPE (demo_log files) = ''logs/a.error''"
  "log_name FATALTYPE (demo_log files) = ''logs/a.error''"
  by (simp_all add: log_ready_def log_name_def demo_log_def demo_types)

theorem LogWrite_outcome_witness:
  "\<exists>s'. LogWrite ERRORTYPE ''disk full'' (demo_log (\<lambda>_. Some ''x'')) = (Ret (), s') \<and>
    content ''logs/a.error'' s' = ''x2016-07-21 09:05:00: disk full'' @ [LF]"
proof -
  have r: "log_record ''disk full'' (demo_log (\<lambda>_. Some ''x'')) = ''2016-07-21 09:05:00: disk full'' @ [LF]"
    by code_simp
  from LogWrite_outcome [OF demo_log_ready(1), of "''disk full''" "\<lambda>_. Some ''x''"] show ?thesis
    unfolding demo_log_ready(2) r by (auto simp: content_def demo_log_def)
qed

text \<open>When \<open>rename\<close> fails, as its result is ignored, the file grows without a limit.\<close>

theorem LogWrite_rename_fails:
  assumes "log_ready ty s" "\<not> can_rename s (log_name ty s) (next_archive ty s)"
  shows "\<exists>s'. LogWrite ty msg s = (Ret (), s') \<and>
    content (log_name ty s) s' = content (log_name ty s) s @ log_record msg s"
proof -
  have "next_archive ty s \<noteq> log_name ty s"
    using assms(1) by (simp add: next_archive_def log_ready_def archive_name_ne)
  with LogWrite_run [OF assms(1), of msg] assms(2) show ?thesis by (auto simp: content_def)
qed

theorem LogWrite_rename_fails_witness:
  "\<exists>s'. LogWrite ERRORTYPE ''e'' ((demo_log (\<lambda>_. Some ''x''))\<lparr>can_rename := \<lambda>_ _. False\<rparr>) = (Ret (), s') \<and>
    content (log_name ERRORTYPE (demo_log (\<lambda>_. Some ''x''))) s' =
      ''x'' @ log_record ''e'' (demo_log (\<lambda>_. Some ''x''))"
proof -
  let ?s = "(demo_log (\<lambda>_. Some ''x''))\<lparr>can_rename := \<lambda>_ _. False\<rparr>"
  have r: "log_ready ERRORTYPE ?s" "\<not> can_rename ?s (log_name ERRORTYPE ?s) (next_archive ERRORTYPE ?s)"
    using demo_log_ready(1) [of "\<lambda>_. Some ''x''"] by (simp_all add: log_ready_def log_name_def)
  have "content (log_name ERRORTYPE ?s) ?s = ''x''" "log_name ERRORTYPE ?s = log_name ERRORTYPE (demo_log (\<lambda>_. Some ''x''))"
    "log_record ''e'' ?s = log_record ''e'' (demo_log (\<lambda>_. Some ''x''))"
    by (simp_all add: content_def log_name_def log_record_def demo_log_def)
  with LogWrite_rename_fails [OF r, of "''e''"] show ?thesis by simp
qed

text \<open>FATAL and ERROR share one file but count its archives separately: when both are rotated, the second one
  is moved over the first one, whose lines are lost.\<close>

theorem shared_log_overwritten:
  assumes "log_ready ERRORTYPE s" "log_ready FATALTYPE s" "LOGTYPEARRAY s = log_types"
    "MAXLOGSIZE < length (content (log_name ERRORTYPE s) s)" "MAXLOGSIZE < length full"
    "can_stat s = (\<lambda>_. True)" "can_rename s = (\<lambda>_ _. True)"
  shows "\<exists>s1 s2. LogWrite ERRORTYPE m1 s = (Ret (), s1) \<and>
    content (next_archive ERRORTYPE s) s1 = content (log_name ERRORTYPE s) s \<and>
    LogWrite FATALTYPE m2 (s1\<lparr>log_files := (log_files s1)(log_name FATALTYPE s1 := Some full)\<rparr>) = (Ret (), s2) \<and>
    content (next_archive ERRORTYPE s) s2 = full"
proof -
  have types: "nat ERRORTYPE = 2" "nat FATALTYPE = Suc 0" by simp_all
  from LogWrite_run [OF assms(1), of m1] assms(4) obtain s1 where s1: "LogWrite ERRORTYPE m1 s = (Ret (), s1)"
    "\<not> m_logMutex s1" "log_files s1 (next_archive ERRORTYPE s) = Some (content (log_name ERRORTYPE s) s)"
    "LOGTYPEARRAY s1 = (LOGTYPEARRAY s)[nat ERRORTYPE := (LOGTYPEARRAY s ! nat ERRORTYPE)
      \<lparr>nFileNum := (nFileNum (LOGTYPEARRAY s ! nat ERRORTYPE) + 1) mod 10\<rparr>]"
    "m_sFileName s1 = m_sFileName s" "can_open s1 = can_open s" "can_stat s1 = (\<lambda>_. True)" "can_rename s1 = (\<lambda>_ _. True)"
    "reaches_disk s1 = reaches_disk s" using assms(6,7) by auto
  define s3 where "s3 = s1\<lparr>log_files := (log_files s1)(log_name FATALTYPE s1 := Some full)\<rparr>"
  have same: "log_name FATALTYPE s3 = log_name FATALTYPE s1" "next_archive FATALTYPE s3 = next_archive ERRORTYPE s"
    using assms(3) s1(4,5) by (simp_all add: s3_def log_name_def next_archive_def types demo_types)
  have ready: "log_ready FATALTYPE s3"
    using assms(2,3) s1(2,4,5,6,9) unfolding log_ready_def
    by (simp add: s3_def types demo_types log_name_def)
  have full: "content (log_name FATALTYPE s3) s3 = full" unfolding same(1) by (simp add: content_def s3_def)
  from LogWrite_run [OF ready, of m2, unfolded full] assms(5) obtain s2 where
    "LogWrite FATALTYPE m2 s3 = (Ret (), s2)" "log_files s2 (next_archive ERRORTYPE s) = Some full"
    using s1(7,8) unfolding same(2) by (auto simp: s3_def)
  with s1(1,3) show ?thesis unfolding s3_def by (auto simp: content_def)
qed

theorem shared_log_overwritten_witness:
  "\<exists>s1 s2. LogWrite ERRORTYPE ''e'' (demo_log (\<lambda>_. Some (replicate 5000001 CHR ''a''))) = (Ret (), s1) \<and>
    content ''logs/a.error_01'' s1 = replicate 5000001 CHR ''a'' \<and>
    LogWrite FATALTYPE ''f'' (s1\<lparr>log_files := (log_files s1)(log_name FATALTYPE s1 := Some (replicate 5000002 CHR ''b''))\<rparr>) = (Ret (), s2) \<and>
    content ''logs/a.error_01'' s2 = replicate 5000002 CHR ''b''"
proof -
  let ?s = "demo_log (\<lambda>_. Some (replicate 5000001 CHR ''a''))"
  have f: "log_ready FATALTYPE ?s" by (simp add: log_ready_def log_name_def demo_log_def demo_types)
  have one: "dec (Suc 0) = ''1''" by code_simp
  have n: "next_archive ERRORTYPE ?s = ''logs/a.error_01''"
    unfolding next_archive_def demo_log_ready(2)
    by (simp add: demo_log_def demo_types archive_name_eq one)
  have c: "content (log_name ERRORTYPE ?s) ?s = replicate 5000001 CHR ''a''"
    unfolding demo_log_ready(2) by (simp add: content_def demo_log_def)
  have t: "LOGTYPEARRAY ?s = log_types" by (simp add: demo_log_def)
  have "MAXLOGSIZE < length (content (log_name ERRORTYPE ?s) ?s)" "MAXLOGSIZE < length (replicate 5000002 CHR ''b'')"
    unfolding c by simp_all
  moreover have "can_stat ?s = (\<lambda>_. True)" "can_rename ?s = (\<lambda>_ _. True)" by (simp_all add: demo_log_def)
  ultimately show ?thesis using shared_log_overwritten [OF demo_log_ready(1) f t, of "replicate 5000002 CHR ''b''" "''e''" "''f''"]
    unfolding n c by blast
qed

end
