(* ===== verification/Perfect_Number.thy ===== *)
theory Perfect_Number
  imports Prelude
begin

text \<open>
  The program \<open>src/testclient/main.cpp\<close>: \<open>p(num)\<close> collects the divisors of a number by trial division and
  compares their sum with it. \<open>int\<close> has 32 bits; arithmetic that leaves the range is undefined.
\<close>

abbreviation int_max :: int where "int_max \<equiv> 2147483647"

definition in_int :: "int \<Rightarrow> int result" where
  "in_int n = (if - int_max - 1 \<le> n \<and> n \<le> int_max then Ret n else Stuck Undefined)"

text \<open>The loop; a \<open>set<int>\<close> is its sorted list. \<open>i * i\<close> is evaluated in every test.\<close>

function p_loop :: "int \<Rightarrow> int \<Rightarrow> int list \<Rightarrow> int list result" where
  "p_loop num i s =
     (if int_max < i * i then Stuck Undefined
      else if i * i \<le> num then
        p_loop num (i + 1) (if num mod i = 0 then insort_insert (num div i) (insort_insert i s) else s)
      else Ret s)"
  by pat_completeness auto
termination
proof (relation "measure (\<lambda>(num, i, s). nat (num + 1 - i))", goal_cases)
  case (2 num i s)
  have "i \<le> i * i"
  proof (cases "i \<le> 0")
    case True
    then show ?thesis by (meson order_trans zero_le_square)
  next
    case False
    then show ?thesis using mult_left_mono [of 1 i i] by simp
  qed
  with 2 show ?case by simp
qed simp

declare p_loop.simps [simp del]

primrec sum_loop :: "int list \<Rightarrow> int \<Rightarrow> int result" where
  "sum_loop [] acc = Ret acc"
| "sum_loop (d # ds) acc = (case in_int (acc + d) of
     Ret acc \<Rightarrow> sum_loop ds acc | Exn e \<Rightarrow> Exn e | Stuck k \<Rightarrow> Stuck k)"

text \<open>The result: what is printed, and the return value.\<close>

definition p :: "int \<Rightarrow> (int list \<times> int) result" where
  "p num = (case p_loop num 2 (insort_insert 1 []) of
     Ret s \<Rightarrow> (case sum_loop s 0 of
       Ret acc \<Rightarrow> Ret (s, if acc = num then 1 else 0) | Exn e \<Rightarrow> Exn e | Stuck k \<Rightarrow> Stuck k)
   | Exn e \<Rightarrow> Exn e | Stuck k \<Rightarrow> Stuck k)"

section \<open>Divisors\<close>

definition proper_divisors :: "int \<Rightarrow> int set" where
  "proper_divisors n = {d. 0 < d \<and> d < n \<and> d dvd n}"

definition found :: "int \<Rightarrow> int \<Rightarrow> int set" where
  "found n i = {d. \<exists>j. 2 \<le> j \<and> j < i \<and> j * j \<le> n \<and> j dvd n \<and> (d = j \<or> d = n div j)}"

lemma found_2 [simp]: "found n 2 = {}"
  by (auto simp: found_def)

lemma found_step:
  assumes "2 \<le> i" "i * i \<le> n"
  shows "found n (i + 1) = (if n mod i = 0 then insert (n div i) (insert i (found n i)) else found n i)"
proof -
  have "j < i + 1 \<longleftrightarrow> j < i \<or> j = i" for j :: int by auto
  then have "found n (i + 1) = found n i \<union> {d. i dvd n \<and> (d = i \<or> d = n div i)}"
    using assms unfolding found_def by blast
  moreover have "n mod i = 0 \<longleftrightarrow> i dvd n" by (rule mod_eq_0_iff_dvd)
  ultimately show ?thesis by auto
qed

lemma found_all:
  assumes "2 \<le> n" "n < i * i" "2 \<le> i"
  shows "insert 1 (found n i) = proper_divisors n"
proof (rule equalityI; rule subsetI)
  fix d
  assume "d \<in> insert 1 (found n i)"
  then consider "d = 1" | j where "2 \<le> j" "j * j \<le> n" "j dvd n" "d = j \<or> d = n div j" by (auto simp: found_def)
  then show "d \<in> proper_divisors n"
  proof cases
    case 1
    with assms(1) show ?thesis by (simp add: proper_divisors_def)
  next
    case (2 j)
    then obtain e where e: "n = j * e" unfolding dvd_def by blast
    have "0 < j * e" using assms(1) e by linarith
    then have "0 < e" by (rule zero_less_mult_pos) (use 2(1) in simp)
    moreover have "j \<le> e" using 2(1,2) e by (simp add: mult_le_cancel_left)
    moreover have "2 * e \<le> j * e" using 2(1) \<open>0 < e\<close> by (intro mult_right_mono) simp_all
    ultimately have lt: "j < n" "e < n" "0 < e" unfolding e by linarith+
    moreover have "n div j = e" unfolding e using 2(1) by simp
    moreover have "j dvd n" "e dvd n" unfolding e by simp_all
    moreover have "0 < j" using 2(1) by simp
    ultimately have "j \<in> proper_divisors n" "n div j \<in> proper_divisors n"
      by (simp_all only: proper_divisors_def mem_Collect_eq)
    with 2(4) show ?thesis by metis
  qed
next
  fix d
  assume "d \<in> proper_divisors n"
  then obtain e where d: "0 < d" "d < n" "n = d * e" by (auto simp: proper_divisors_def)
  have "0 < d * e" using assms(1) d(3) by linarith
  then have e: "0 < e" by (rule zero_less_mult_pos) (rule d(1))
  show "d \<in> insert 1 (found n i)"
  proof (cases "d = 1")
    case False
    then have d2: "2 \<le> d" using d(1) by simp
    have e2: "2 \<le> e" using d e by (cases "e = 1") auto
    show ?thesis
    proof (cases "d \<le> e")
      case True
      then have "d * d \<le> n" using d by (simp add: mult_left_mono)
      moreover from this assms(2,3) d2 have "d < i" by (meson le_less_trans mult_mono not_le order_less_imp_le zero_le_numeral order_trans)
      ultimately show ?thesis using d2 d(3) by (auto simp: found_def)
    next
      case False
      then have "e * e \<le> n" using d e by (simp add: mult_right_mono)
      moreover from this assms(2,3) e2 have "e < i" by (meson le_less_trans mult_mono not_le order_less_imp_le zero_le_numeral order_trans)
      moreover have "d = n div e" "e dvd n" using d(3) e by simp_all
      ultimately show ?thesis using e2 by (auto simp: found_def)
    qed
  qed simp
qed

lemma p_loop_divisors:
  assumes "2 \<le> i" "2 \<le> num" "num < 46340 * 46340" "i \<le> 46340"
    "sorted s" "distinct s" "set s = insert 1 (found num i)"
  shows "p_loop num i s = Ret (sorted_list_of_set (proper_divisors num))"
  using assms
proof (induction num i s rule: p_loop.induct)
  case (1 num i s)
  have ii: "i * i \<le> 46340 * 46340" using "1.prems"(1,4) by (intro mult_mono) simp_all
  then have ok: "\<not> int_max < i * i" by simp
  show ?case
  proof (cases "i * i \<le> num")
    case True
    let ?s = "if num mod i = 0 then insort_insert (num div i) (insort_insert i s) else s"
    have "i \<noteq> 46340" using True "1.prems"(3) by auto
    moreover have "sorted ?s" "distinct ?s" "set ?s = insert 1 (found num (i + 1))"
      using "1.prems"(1,5,6,7) True
      by (auto simp: sorted_insort_insert distinct_insort_insert set_insort_insert found_step)
    ultimately have "p_loop num (i + 1) ?s = Ret (sorted_list_of_set (proper_divisors num))"
      using "1.prems" by (intro "1.IH" [OF ok True]) simp_all
    then show ?thesis using ok True by (simp add: p_loop.simps [of num i s])
  next
    case False
    then have "set s = proper_divisors num" using "1.prems" found_all [of num i] by simp
    then have "s = sorted_list_of_set (proper_divisors num)"
      using "1.prems"(5,6) by (metis sorted_list_of_set.idem_if_sorted_distinct)
    with ok False show ?thesis unfolding p_loop.simps [of num i s] by simp
  qed
qed

lemma sum_loop_sum:
  assumes "\<forall>d \<in> set ds. 0 \<le> d" "0 \<le> a" "a + sum_list ds \<le> int_max"
  shows "sum_loop ds a = Ret (a + sum_list ds)"
  using assms
proof (induction ds arbitrary: a)
  case (Cons d ds)
  then have "0 \<le> sum_list ds" by (intro sum_list_nonneg) simp
  with Cons show ?case by (simp add: in_int_def)
qed simp

section \<open>Properties\<close>

text \<open>For every number from 2 up to the square of 46340 whose divisors have a sum in the range of \<open>int\<close>,
  \<open>p\<close> prints the proper divisors in order and returns 1 exactly for the perfect numbers.\<close>

theorem p_perfect:
  assumes "2 \<le> num" "num < 46340 * 46340" "\<Sum>(proper_divisors num) \<le> int_max"
  shows "p num = Ret (sorted_list_of_set (proper_divisors num), if \<Sum>(proper_divisors num) = num then 1 else 0)"
proof -
  let ?ds = "sorted_list_of_set (proper_divisors num)"
  have fin: "finite (proper_divisors num)"
    by (rule finite_subset [of _ "{0..num}"]) (auto simp: proper_divisors_def)
  have loop: "p_loop num 2 (insort_insert 1 []) = Ret ?ds"
    using assms(1,2) by (intro p_loop_divisors) (simp_all add: insort_insert_key_def)
  have sum: "sum_list ?ds = \<Sum>(proper_divisors num)"
    using fin by (metis distinct_sorted_list_of_set set_sorted_list_of_set sum_list_distinct_conv_sum_set sum.cong list.map_id0 id_apply)
  have "sum_loop ?ds 0 = Ret (0 + sum_list ?ds)"
    using fin assms(3) sum by (intro sum_loop_sum) (auto simp: proper_divisors_def)
  then show ?thesis by (simp add: p_def loop sum)
qed

theorem p_perfect_witness:
  "p 28 = Ret ([1, 2, 4, 7, 14], 1)"
proof -
  have d: "proper_divisors 28 = set (filter (\<lambda>d. d dvd 28) [1..27])"
    by (auto simp: proper_divisors_def)
  also have "\<dots> = {1, 2, 4, 7, 14}" by code_simp
  finally have pd: "proper_divisors 28 = {1, 2, 4, 7, 14}" .
  have l: "sorted_list_of_set {1, 2, 4, 7, 14 :: int} = [1, 2, 4, 7, 14]" by code_simp
  from p_perfect [of 28] show ?thesis by (simp add: pd l)
qed

text \<open>1 is taken for a perfect number.\<close>

lemma p_one: "p 1 = Ret ([1], 1)"
  by (simp add: p_def p_loop.simps [of 1] insort_insert_key_def in_int_def)

end
