(* ===== verification/Json_Values.thy ===== *)
theory Json_Values
  imports Std_Lib
begin

text \<open>
  The data types of \<open>src/common/common.h\<close>: \<open>TClientMsg\<close>, \<open>CMyserver\<close>, and the classes with a \<open>toJson\<close> member
  (those of \<open>TBroadCast\<close> and \<open>TRouteMsg\<close> are in \<open>common.cpp\<close>). The program sets the members of an object one after the other;
  \<open>Json::Value\<close> keeps them in a \<open>std::map\<close>. How a value is written as text is left to the writer.
\<close>

datatype json = JNull | JInt int | JStr string | JArr "json list" | JObj "(string, json) omap"

text \<open>\<open>Json::Value root; root[k] = v; ...\<close>\<close>

definition json_object :: "(string \<times> json) list \<Rightarrow> json" where
  "json_object fields = JObj (fold (\<lambda>(k, v). omap_put k v) fields [])"

text \<open>The member of an object, \<^const>\<open>JNull\<close> if there is none.\<close>

definition json_member :: "json \<Rightarrow> string \<Rightarrow> json" where
  "json_member j k = (case j of JObj m \<Rightarrow> (case map_of m k of None \<Rightarrow> JNull | Some v \<Rightarrow> v) | _ \<Rightarrow> JNull)"

section \<open>The messages of common.h\<close>

record tuser_info =
  tu_sUserId :: string
  tu_sAlias :: string
  tu_sRoom :: string

definition tu_toJson :: "tuser_info \<Rightarrow> json" where
  "tu_toJson u = json_object [(''userid'', JStr (tu_sUserId u)), (''alias'', JStr (tu_sAlias u)), (''room'', JStr (tu_sRoom u))]"

record tbroad_cast =
  tb_sUUID :: string
  tb_sGroupId :: string
  tb_sType :: string
  tb_sMsgData :: string
  tb_sNick :: string

text \<open>\<open>fast_write\<close>: \<open>Json::FastWriter::write\<close>.\<close>

definition tb_ToJson :: "(json \<Rightarrow> string) \<Rightarrow> tbroad_cast \<Rightarrow> string" where
  "tb_ToJson fast_write t = fast_write (json_object
     [(''uuid'', JStr (tb_sUUID t)), (''roomid'', JStr (tb_sGroupId t)), (''alias'', JStr (tb_sNick t)),
      (''msgtype'', JStr (tb_sType t)), (''data'', JStr (tb_sMsgData t))])"

record troute_msg =
  tr_sUUID :: string
  tr_sGroupId :: string
  tr_sType :: string
  tr_sMsgData :: string
  tr_sMsgType :: string

definition tr_ToJson :: "(json \<Rightarrow> string) \<Rightarrow> troute_msg \<Rightarrow> string" where
  "tr_ToJson fast_write t = fast_write (json_object
     [(''uid'', JStr (tr_sUUID t)), (''rid'', JStr (tr_sGroupId t)), (''rtype'', JStr (tr_sType t)),
      (''msg_data'', JStr (tr_sMsgData t)), (''msg_type'', JStr (tr_sMsgType t))])"

text \<open>The loop over the users of a room appends nothing: \<open>userlist\<close> stays null.\<close>

record troom_info =
  ti_sRoomId :: string
  ti_sUserId :: string
  ti_sTime :: string
  ti_sUserList :: "tuser_info list"

definition ti_toJson :: "troom_info \<Rightarrow> json" where
  "ti_toJson r = json_object
     [(''roomid'', JStr (ti_sRoomId r)), (''userid'', JStr (ti_sUserId r)), (''time'', JStr (ti_sTime r)),
      (''userlist'', fold (\<lambda>_ userList. userList) (ti_sUserList r) JNull)]"

section \<open>Client messages and the server object\<close>

datatype message_type = SUB_MSG | UNSUB_MSG | CLIENT_MSG | TIMER_MSG | SERVER_MSG

text \<open>Connection handles are numbers, \<open>None\<close> an empty one; \<open>msg\<close> is the payload of the message it points to.\<close>

record tclient_msg =
  tc_type :: message_type
  tc_hdl :: "nat option"
  tc_msg :: "string option"
  tc_buffer :: string

definition tclient_new :: "message_type \<Rightarrow> nat \<Rightarrow> tclient_msg" where
  "tclient_new t h = \<lparr>tc_type = t, tc_hdl = Some h, tc_msg = None, tc_buffer = []\<rparr>"

definition tclient_new_msg :: "message_type \<Rightarrow> nat \<Rightarrow> string \<Rightarrow> tclient_msg" where
  "tclient_new_msg t h m = \<lparr>tc_type = t, tc_hdl = Some h, tc_msg = Some m, tc_buffer = []\<rparr>"

definition tclient_new_buf :: "message_type \<Rightarrow> string \<Rightarrow> tclient_msg" where
  "tclient_new_buf t buf = \<lparr>tc_type = t, tc_hdl = None, tc_msg = None, tc_buffer = buf\<rparr>"

text \<open>The static pointer of \<open>CMyserver\<close>. \<open>SetServer\<close> has the result \<open>int\<close> and no \<open>return\<close>.\<close>

definition server_GetInstance :: "('o option, 'o option) proc" where
  "server_GetInstance p = (Ret p, p)"

definition server_SetServer :: "'o \<Rightarrow> ('o option, int) proc" where
  "server_SetServer pMyserver _ = (Stuck Undefined, Some pMyserver)"

section \<open>Lemmas\<close>

lemma json_object_fold:
  assumes "omap_ok m"
  shows "map_of (fold (\<lambda>(k, v). omap_put k v) kvs m) k = map_of (rev kvs @ m) k"
  using assms by (induction kvs arbitrary: m) (auto simp: omap_put_find omap_put_ok map_add_def split: option.splits)

text \<open>The last assignment to a member is what it holds.\<close>

lemma json_member_object:
  "json_member (json_object kvs) k = (case map_of (rev kvs) k of None \<Rightarrow> JNull | Some v \<Rightarrow> v)"
  using json_object_fold [OF omap_ok_Nil, of kvs k] by (simp add: json_member_def json_object_def)

lemma room_users_dropped: "json_member (ti_toJson r) ''userlist'' = JNull"
proof -
  have "fold (\<lambda>_ l. l) us JNull = JNull" for us :: "tuser_info list" by (induction us) simp_all
  then show ?thesis by (simp add: ti_toJson_def json_member_object)
qed

end
