(* ===== verification/Web_Echo.thy ===== *)
theory Web_Echo
  imports Json_Values
begin

text \<open>
  The echo programs: \<open>src/server/main.cpp\<close>, which answers every message with one constant, and the load-test
  client \<open>src/client/cclient.cpp\<close> with the connection threads of \<open>src/client/main.cpp\<close>. websocketpp is outside:
  each of its calls takes the next answer from a queue (no exception, or the one it throws), and the
  events its \<open>run\<close> delivers are an argument. Handles are numbers; \<open>std::cout\<close> and the log are lists of lines.
\<close>

section \<open>The library and the standard output\<close>

datatype ws_call =
    Ws_init | Ws_listen nat | Ws_start_accept | Ws_get_connection string | Ws_connect string | Ws_stop
  | Ws_send nat string nat

record ws =
  ws_answers :: "exn option list"
  ws_calls :: "(ws_call \<times> bool) list"
  cout :: "string list"
  log_info :: "string list"

abbreviation OPCODE_TEXT :: nat where "OPCODE_TEXT \<equiv> 1"

text \<open>A call is recorded with whether it succeeded.\<close>

definition ws_do :: "ws_call \<Rightarrow> ('a ws_scheme, unit) proc" where
  "ws_do c s = (case ws_answers s of
     [] \<Rightarrow> (Stuck Blocked, s)
   | None # as \<Rightarrow> (Ret (), s\<lparr>ws_answers := as, ws_calls := ws_calls s @ [(c, True)]\<rparr>)
   | Some e # as \<Rightarrow> (Exn e, s\<lparr>ws_answers := as, ws_calls := ws_calls s @ [(c, False)]\<rparr>))"

definition print :: "string \<Rightarrow> ('a ws_scheme, unit) proc" where
  "print line s = (Ret (), s\<lparr>cout := cout s @ [line]\<rparr>)"

definition info :: "string \<Rightarrow> ('a ws_scheme, unit) proc" where
  "info line s = (Ret (), s\<lparr>log_info := log_info s @ [line]\<rparr>)"

text \<open>
  What \<open>catch (const error_code &)\<close> and the other two ways to catch do. \<open>m\<close> is the text printed for the code.
\<close>

definition catch_code :: "string \<Rightarrow> ('s ws_scheme, unit) proc \<Rightarrow> ('s ws_scheme, unit) proc" where
  "catch_code prefix body = mcatch body (\<lambda>e. case e of Error_code m \<Rightarrow> print (prefix @ m) | _ \<Rightarrow> mthrow e)"

definition catch_ws :: "('s ws_scheme, 'r) proc \<Rightarrow> ('s ws_scheme, 'r) proc \<Rightarrow> ('s ws_scheme, 'r) proc" where
  "catch_ws body after = mcatch body (\<lambda>e. case e of Ws_exception m \<Rightarrow> mseq (print m) after | _ \<Rightarrow> mthrow e)"

definition catch_all :: "('s ws_scheme, unit) proc \<Rightarrow> ('s ws_scheme, unit) proc" where
  "catch_all body = mcatch body (\<lambda>e. case e of Ws_exception m \<Rightarrow> print m | _ \<Rightarrow> print ''other exception'')"

section \<open>The server\<close>

datatype ws_event = Open nat | Close nat | Message nat string nat

definition server_rsp :: json where
  "server_rsp = json_object [(''msgid'', JStr ''200''), (''result'', JArr [JInt 0, JStr ''Ok''])]"

definition server_on_message :: "(json \<Rightarrow> string) \<Rightarrow> nat \<Rightarrow> string \<Rightarrow> nat \<Rightarrow> ('s ws_scheme, unit) proc" where
  "server_on_message fast_write hdl payload opcode =
     mseq (print (''message :'' @ payload))
       (catch_code ''echo failed because: '' (ws_do (Ws_send hdl (fast_write server_rsp) opcode)))"

text \<open>The open and close handlers do nothing.\<close>

definition server_handle :: "(json \<Rightarrow> string) \<Rightarrow> ws_event \<Rightarrow> ('s ws_scheme, unit) proc" where
  "server_handle fast_write ev = (case ev of
     Message hdl payload opcode \<Rightarrow> server_on_message fast_write hdl payload opcode | _ \<Rightarrow> mret ())"

lemma server_handle_simps [simp]:
  "server_handle fast_write (Message hdl payload opcode) = server_on_message fast_write hdl payload opcode"
  "server_handle fast_write (Open hdl) = mret ()" "server_handle fast_write (Close hdl) = mret ()"
  by (simp_all add: server_handle_def)

text \<open>\<open>Ws_init\<close> stands for the five calls of \<open>init\<close> on the endpoint, whose first failure leaves the block.\<close>

definition Cserver_init :: "('s ws_scheme, unit) proc" where
  "Cserver_init = catch_all (ws_do Ws_init)"

definition Cserver_listen :: "('s ws_scheme, unit) proc" where
  "Cserver_listen = catch_all (ws_do (Ws_listen 9002))"

text \<open>\<open>run\<close> hands the events to the handlers, until one throws.\<close>

definition Cserver_accept :: "(json \<Rightarrow> string) \<Rightarrow> ws_event list \<Rightarrow> ('s ws_scheme, unit) proc" where
  "Cserver_accept fast_write evs =
     catch_all (mseq (ws_do Ws_start_accept) (mfor (server_handle fast_write) evs))"

definition server_main :: "(json \<Rightarrow> string) \<Rightarrow> ws_event list \<Rightarrow> ('s ws_scheme, int) proc" where
  "server_main fast_write evs =
     mseq Cserver_init (mseq Cserver_listen (mseq (Cserver_accept fast_write evs) (mret 0)))"

section \<open>The client\<close>

text \<open>\<open>c_hdl\<close> is the handle the open handler stores, empty before.\<close>

record cclient = ws +
  c_uri :: string
  c_hdl :: "nat option"

definition default_uri :: string where "default_uri = ''ws://localhost:9002''"

definition client_new :: "ws \<Rightarrow> cclient" where
  "client_new w = ws.extend w (cclient.fields default_uri None)"

definition client_new_uri :: "string \<Rightarrow> ws \<Rightarrow> cclient" where
  "client_new_uri uri w = ws.extend w (cclient.fields uri None)"

definition client_setUri :: "string \<Rightarrow> cclient \<Rightarrow> cclient" where
  "client_setUri uri c = c\<lparr>c_uri := uri\<rparr>"

definition create_room :: json where
  "create_room = json_object
     [(''msgid'', JStr ''200''), (''roomid'', JStr ''123''), (''userid'', JStr ''456''), (''alias'', JStr ''xxx'')]"

text \<open>\<open>csend\<close> declares a result and has no return statement: it falls off its end. An empty handle is 0.\<close>

definition client_csend :: "string \<Rightarrow> (cclient, int) proc" where
  "client_csend dat c = mseq (catch_code ''echo failed because : ''
     (ws_do (Ws_send (case c_hdl c of None \<Rightarrow> 0 | Some h \<Rightarrow> h) dat OPCODE_TEXT))) (mstuck Undefined) c"

definition client_on_open :: "(json \<Rightarrow> string) \<Rightarrow> nat \<Rightarrow> (cclient, unit) proc" where
  "client_on_open fast_write hdl =
     mseq (print ''client set the on_open'')
       (\<lambda>c. mseq (print (fast_write create_room)) (mseq (client_csend (fast_write create_room)) (mret ()))
         (c\<lparr>c_hdl := Some hdl\<rparr>))"

definition client_on_close :: "(cclient, unit) proc" where
  "client_on_close = print ''client has been closed''"

definition coo :: string where
  "coo = [CHR ''{'', CHR 0x22] @ ''msgid'' @ [CHR 0x22, CHR '':'', CHR 0x22] @ ''200'' @ [CHR 0x22, CHR '','', CHR 0x22]
     @ ''result'' @ [CHR 0x22, CHR '':'', CHR ''['', CHR ''0'', CHR '','', CHR 0x22] @ ''Ok'' @ [CHR 0x22, CHR '']'', CHR ''}'']"

text \<open>\<open>compare\<close> is 0 for equal strings. \<open>show_hdl\<close>: the address as \<open>operator<<\<close> prints it.\<close>

definition client_on_message :: "(nat \<Rightarrow> string) \<Rightarrow> nat \<Rightarrow> string \<Rightarrow> (cclient, unit) proc" where
  "client_on_message show_hdl hdl payload =
     print (''on_message called with hdl: '' @ show_hdl hdl @ (if payload \<noteq> coo then '' ok!'' else '' error!''))"

definition client_init :: "(cclient, unit) proc" where
  "client_init = mseq (catch_ws (ws_do Ws_init) (mret ())) (info ''cclient::init!'')"

text \<open>
  \<open>connect\<close> and \<open>disconnct\<close> return on the way of no exception; after one has been caught they fall off
  their end, behind a line in the log. An error code of \<open>get_connection\<close> is the answer \<^const>\<open>Error_code\<close>.
\<close>

definition client_connect :: "(cclient, bool) proc" where
  "client_connect c =
     catch_ws
       (mcatch (mseq (ws_do (Ws_get_connection (c_uri c))) (mseq (ws_do (Ws_connect (c_uri c))) (mret True)))
         (\<lambda>e c'. case e of
            Error_code m \<Rightarrow> if length (ws_calls c') = length (ws_calls c) + 1
              then mseq (print (''could not create connection because: '' @ m)) (mret False) c' else mthrow e c'
          | _ \<Rightarrow> mthrow e c'))
       (mseq (info ''connect!'') (mstuck Undefined)) c"

definition client_disconnct :: "(cclient, bool) proc" where
  "client_disconnct = catch_ws (mseq (ws_do Ws_stop) (mret True)) (mseq (info ''disconnect!'') (mstuck Undefined))"

definition client_destroy :: "(cclient, unit) proc" where
  "client_destroy = mbind client_disconnct (\<lambda>b. print (if b then ''disconnect done'' else ''disconnect err''))"

definition client_handle :: "(json \<Rightarrow> string) \<Rightarrow> (nat \<Rightarrow> string) \<Rightarrow> ws_event \<Rightarrow> (cclient, unit) proc" where
  "client_handle fast_write show_hdl ev = (case ev of
     Open hdl \<Rightarrow> client_on_open fast_write hdl
   | Close hdl \<Rightarrow> client_on_close
   | Message hdl payload opcode \<Rightarrow> client_on_message show_hdl hdl payload)"

definition client_run :: "(json \<Rightarrow> string) \<Rightarrow> (nat \<Rightarrow> string) \<Rightarrow> ws_event list \<Rightarrow> (cclient, unit) proc" where
  "client_run fast_write show_hdl evs =
     catch_ws (mseq (info ''run!'') (mfor (client_handle fast_write show_hdl) evs)) (mret ())"

text \<open>A thread of the client program runs even when it could not connect.\<close>

definition test_connecting :: "(json \<Rightarrow> string) \<Rightarrow> (nat \<Rightarrow> string) \<Rightarrow> ws_event list \<Rightarrow> (cclient, unit) proc" where
  "test_connecting fast_write show_hdl evs =
     mseq client_init (mbind client_connect (\<lambda>ok.
       mseq (if ok then mret () else print ''connect error'') (client_run fast_write show_hdl evs)))"

section \<open>Serving\<close>

definition messages :: "ws_event list \<Rightarrow> (nat \<times> string \<times> nat) list" where
  "messages evs = concat (map (\<lambda>ev. case ev of Message hdl payload opcode \<Rightarrow> [(hdl, payload, opcode)] | _ \<Rightarrow> []) evs)"

lemma messages_simps [simp]:
  "messages [] = []" "messages (Open h # evs) = messages evs" "messages (Close h # evs) = messages evs"
  "messages (Message h p op # evs) = (h, p, op) # messages evs"
  by (simp_all add: messages_def)

lemmas ws_runs = run_simps ws_do_def print_def info_def catch_code_def catch_ws_def catch_all_def

text \<open>A send that works or throws an error code is survived.\<close>

definition send_answer :: "exn option \<Rightarrow> bool" where
  "send_answer a \<longleftrightarrow> (case a of None \<Rightarrow> True | Some (Error_code _) \<Rightarrow> True | _ \<Rightarrow> False)"

lemma server_on_message_run:
  assumes "ws_answers w = a # as" "send_answer a"
  shows "\<exists>w'. server_on_message fast_write h p op w = (Ret (), w') \<and> ws_answers w' = as \<and>
    ws_calls w' = ws_calls w @ [(Ws_send h (fast_write server_rsp) op, a = None)]"
  using assms by (auto simp: server_on_message_def send_answer_def ws_runs split: option.splits exn.splits)

lemma server_run:
  assumes "ws_answers w = as @ rest" "length as = length (messages evs)" "list_all send_answer as"
  shows "\<exists>w'. mfor (server_handle fast_write) evs w = (Ret (), w') \<and> ws_answers w' = rest \<and>
    ws_calls w' = ws_calls w @ map2 (\<lambda>(h, p, op) a. (Ws_send h (fast_write server_rsp) op, a = None)) (messages evs) as"
  using assms
proof (induction evs arbitrary: w as)
  case (Cons ev evs)
  show ?case
  proof (cases ev)
    case (Message h p op)
    with Cons.prems(2) obtain a as' where as: "as = a # as'" by (cases as) auto
    with Cons.prems server_on_message_run [of w a "as' @ rest" fast_write h p op] obtain w1 where
      w1: "server_on_message fast_write h p op w = (Ret (), w1)" "ws_answers w1 = as' @ rest"
        "ws_calls w1 = ws_calls w @ [(Ws_send h (fast_write server_rsp) op, a = None)]" by auto
    from Cons.IH [OF w1(2)] Cons.prems(2,3) as Message obtain w2 where
      "mfor (server_handle fast_write) evs w1 = (Ret (), w2)" "ws_answers w2 = rest"
      "ws_calls w2 = ws_calls w1 @ map2 (\<lambda>(h, p, op) a. (Ws_send h (fast_write server_rsp) op, a = None)) (messages evs) as'"
      by auto
    with w1 Message as show ?thesis by (simp add: mseq_Ret)
  qed (use Cons in \<open>auto simp: mseq_run mret_run\<close>)
qed (simp add: mret_run)

text \<open>Any other exception of a send ends the server: the events behind it are not served.\<close>

lemma server_stops:
  assumes "ws_answers w = Some e # as" "\<not> send_answer (Some e)"
  shows "\<exists>w'. catch_all (mfor (server_handle fast_write) (Message h p op # evs)) w = (Ret (), w') \<and>
    ws_calls w' = ws_calls w @ [(Ws_send h (fast_write server_rsp) op, False)]"
  using assms by (auto simp: server_on_message_def send_answer_def ws_runs split: exn.splits)

section \<open>Properties\<close>

text \<open>C35: The server, once it listens, answers every message it is given with the same constant, to the connection
  the message came from and with its opcode, in order of arrival; a send that fails with an error code
  is skipped and does not disturb the others. Then \<open>main\<close> returns 0.\<close>

theorem echo_server_answers:
  assumes "ws_answers w = [None, None, None] @ as @ rest" "length as = length (messages evs)" "list_all send_answer as"
  shows "\<exists>w'. server_main fast_write evs w = (Ret 0, w') \<and> ws_answers w' = rest \<and>
    ws_calls w' = ws_calls w @ [(Ws_init, True), (Ws_listen 9002, True), (Ws_start_accept, True)] @
      map2 (\<lambda>(h, p, op) a. (Ws_send h (fast_write server_rsp) op, a = None)) (messages evs) as"
proof -
  let ?w = "w\<lparr>ws_answers := as @ rest,
      ws_calls := ws_calls w @ [(Ws_init, True), (Ws_listen 9002, True), (Ws_start_accept, True)]\<rparr>"
  have "server_main fast_write evs w =
      mseq (catch_all (mfor (server_handle fast_write) evs)) (mret 0) ?w"
    using assms(1) by (simp add: server_main_def Cserver_init_def Cserver_listen_def Cserver_accept_def ws_runs)
  moreover from server_run [of ?w as rest evs fast_write] assms(2,3) obtain w' where
    "mfor (server_handle fast_write) evs ?w = (Ret (), w')" "ws_answers w' = rest"
    "ws_calls w' = ws_calls ?w @ map2 (\<lambda>(h, p, op) a. (Ws_send h (fast_write server_rsp) op, a = None)) (messages evs) as"
    by auto
  ultimately show ?thesis by (auto simp: ws_runs)
qed

text \<open>For the examples: a writer for the values of these programs, without escapes.\<close>

fun demo_write :: "json \<Rightarrow> string" where
  "demo_write JNull = ''null''"
| "demo_write (JInt n) = dec (nat n)"
| "demo_write (JStr s) = CHR 0x22 # s @ [CHR 0x22]"
| "demo_write (JArr [a, b]) = ''['' @ demo_write a @ '','' @ demo_write b @ '']''"
| "demo_write (JObj [(k, v), (l, w)]) = CHR ''{'' # demo_write (JStr k) @ '':'' @ demo_write v @ '','' @
     demo_write (JStr l) @ '':'' @ demo_write w @ ''}''"
| "demo_write _ = ''?''"

lemma demo_write_rsp: "demo_write server_rsp = coo"
  by code_simp

definition demo_ws :: "exn option list \<Rightarrow> ws" where
  "demo_ws as = \<lparr>ws_answers = as, ws_calls = [], cout = [], log_info = []\<rparr>"

theorem echo_server_answers_witness:
  "\<exists>w'. server_main demo_write [Open 1, Message 1 ''hi'' 1, Message 2 [] 2, Close 1]
      (demo_ws [None, None, None, Some (Error_code ''gone''), None]) = (Ret 0, w') \<and>
    drop 3 (ws_calls w') = [(Ws_send 1 coo 1, False), (Ws_send 2 coo 2, True)]"
proof -
  have "ws_answers (demo_ws [None, None, None, Some (Error_code ''gone''), None]) =
      [None, None, None] @ [Some (Error_code ''gone''), None] @ []" by (simp add: demo_ws_def)
  from echo_server_answers [OF this, of "[Open 1, Message 1 ''hi'' 1, Message 2 [] 2, Close 1]" demo_write]
  show ?thesis by (auto simp: send_answer_def demo_write_rsp demo_ws_def)
qed

text \<open>The open handler sends its message on the connection that was opened, and then runs into the end of \<open>csend\<close>.\<close>

theorem client_on_open_undefined:
  assumes "ws_answers c = None # as"
  shows "\<exists>c'. client_on_open fast_write hdl c = (Stuck Undefined, c') \<and>
    ws_calls c' = ws_calls c @ [(Ws_send hdl (fast_write create_room) OPCODE_TEXT, True)] \<and> c_hdl c' = Some hdl"
  using assms by (simp add: client_on_open_def client_csend_def ws_runs)

theorem client_on_open_undefined_witness:
  "\<exists>c'. client_on_open demo_write 5 (client_new (demo_ws [None])) = (Stuck Undefined, c') \<and> c_hdl c' = Some 5"
proof -
  have "ws_answers (client_new (demo_ws [None])) = [None]" by (simp add: client_new_def demo_ws_def ws.defs cclient.defs)
  from client_on_open_undefined [OF this, of demo_write 5] show ?thesis by blast
qed

text \<open>\<open>compare\<close> is 0 for equal strings: the client reports the answer it expects as an error, every other one as ok.\<close>

theorem expected_answer_is_error:
  "client_on_message show_hdl hdl payload c = (Ret (), c\<lparr>cout := cout c @ [''on_message called with hdl: '' @ show_hdl hdl @
     (if payload = coo then '' error!'' else '' ok!'')]\<rparr>)"
  by (simp add: client_on_message_def print_def)

end
