(* ===== verification/Fork_Tests.thy ===== *)
theory Fork_Tests
  imports Web_Echo
begin

text \<open>
  The two programs that fork ten children: \<open>src/process/main.cpp\<close> and \<open>src/client/main.cpp\<close>. What \<open>fork\<close>
  answers (in this process) and what \<open>waitpid\<close> answers are queues; a run is that of the parent or of one
  child, depending on those answers. Threads that are started are recorded with the URI of their client.
\<close>

record forks =
  fork_answers :: "int list"
  wait_answers :: "int list"
  my_pid :: nat
  out_lines :: "string list"
  slept :: "nat list"
  started :: "string list"
  joined :: nat

definition out_line :: "string \<Rightarrow> (forks, unit) proc" where
  "out_line s w = (Ret (), w\<lparr>out_lines := out_lines w @ [s]\<rparr>)"

definition sys_sleep :: "nat \<Rightarrow> (forks, unit) proc" where
  "sys_sleep n w = (Ret (), w\<lparr>slept := slept w @ [n]\<rparr>)"

definition sys_fork :: "(forks, int) proc" where
  "sys_fork w = (case fork_answers w of [] \<Rightarrow> (Stuck Blocked, w) | p # ps \<Rightarrow> (Ret p, w\<lparr>fork_answers := ps\<rparr>))"

text \<open>\<open>waitchild\<close>: until \<open>waitpid\<close> gives 0 or an error.\<close>

primrec wait_loop :: "int list \<Rightarrow> (forks, unit) proc" where
  "wait_loop [] = mstuck Blocked"
| "wait_loop (pid # pids) = (\<lambda>w. let w = w\<lparr>wait_answers := pids\<rparr> in
     if pid > 0 then mseq (out_line (dec (nat pid) @ ''has exit'')) (wait_loop pids) w
     else out_line ''main function exit'' w)"

definition waitchild :: "(forks, unit) proc" where
  "waitchild w = wait_loop (wait_answers w) w"

text \<open>
  The loop that forks: \<open>n\<close> more turns, from turn \<open>i\<close>. The result tells whether this is still the parent; a
  child runs \<open>child i\<close> and exits.
\<close>

primrec fork_loop :: "(nat \<Rightarrow> (forks, unit) proc) \<Rightarrow> nat \<Rightarrow> nat \<Rightarrow> (forks, bool) proc" where
  "fork_loop child 0 i = mret True"
| "fork_loop child (Suc n) i = mbind sys_fork (\<lambda>tpid.
     if tpid < 0 then mseq (out_line ''fork error'') (fork_loop child n (Suc i))
     else if tpid = 0 then mseq (child i) (mret False)
     else fork_loop child n (Suc i))"

definition print_child :: "nat \<Rightarrow> (forks, unit) proc" where
  "print_child i = (\<lambda>w. mseq (out_line (''child process= '' @ dec (my_pid w)))
     (mseq (sys_sleep i) (mfor (\<lambda>k. out_line (''i:k = '' @ dec i @ '':'' @ dec k)) [0..<10])) w)"

definition process_main :: "(forks, int) proc" where
  "process_main = mbind (fork_loop print_child 10 0) (\<lambda>parent.
     if parent then mseq waitchild (mret 0) else mret 0)"

text \<open>
  \<open>src/client/main.cpp\<close>: every child starts ten clients, one a second, and joins them. \<open>argv\<close> may name a URI,
  which is not used: the clients are made by the default constructor.
\<close>

definition connect_child :: "nat \<Rightarrow> (forks, unit) proc" where
  "connect_child i = (\<lambda>w. mseq (out_line (''child process= '' @ dec (my_pid w)))
     (mseq (sys_sleep i)
     (mseq (mfor (\<lambda>k. mseq (\<lambda>w. (Ret (), w\<lparr>started := started w @ [default_uri]\<rparr>)) (sys_sleep 1)) [0..<10])
       (\<lambda>w. (Ret (), w\<lparr>joined := joined w + 10\<rparr>)))) w)"

definition client_main :: "string list \<Rightarrow> bool \<Rightarrow> (forks, int) proc" where
  "client_main argv log_ok =
     mseq (if log_ok then out_line ''init_log'' else mret ())
       (let uri = (if length argv = 2 then argv ! 1 else default_uri) in
        mbind (fork_loop connect_child 10 0) (\<lambda>parent. if parent then mseq waitchild (mret 0) else mret 0))"

section \<open>Lemmas\<close>

lemmas fork_runs = run_simps out_line_def sys_sleep_def sys_fork_def

lemma wait_loop_run:
  assumes "list_all (\<lambda>p. 0 < p) pids" "p \<le> 0"
  shows "wait_loop (pids @ p # rest) w = (Ret (), w\<lparr>wait_answers := rest,
    out_lines := out_lines w @ map (\<lambda>pid. dec (nat pid) @ ''has exit'') pids @ [''main function exit'']\<rparr>)"
  using assms(1)
proof (induction pids arbitrary: w)
  case (Cons q pids)
  have "q > 0" "list_all (\<lambda>p. 0 < p) pids" using Cons.prems by simp_all
  then show ?case using Cons.IH by (simp add: fork_runs)
qed (use assms(2) in \<open>simp add: fork_runs\<close>)

lemma fork_loop_parent:
  assumes "fork_answers w = ps @ rest" "length ps = n" "0 \<notin> set ps"
  shows "fork_loop child n i w = (Ret True, w\<lparr>fork_answers := rest,
    out_lines := out_lines w @ map (\<lambda>_. ''fork error'') (filter (\<lambda>p. p < 0) ps)\<rparr>)"
  using assms
proof (induction n arbitrary: i w ps)
  case (Suc n)
  then obtain p ps' where ps: "ps = p # ps'" by (cases ps) auto
  let ?w = "w\<lparr>fork_answers := ps' @ rest\<rparr>"
  have "p \<noteq> 0" "length ps' = n" "0 \<notin> set ps'" using Suc.prems ps by auto
  then show ?case
    using Suc.IH [of "if p < 0 then ?w\<lparr>out_lines := out_lines w @ [''fork error'']\<rparr> else ?w" ps' "Suc i"] Suc.prems(1) ps
    by (auto simp: fork_runs)
qed (simp add: mret_run)

text \<open>The parent reports every child it reaps and returns; whatever \<open>argv\<close> says, the clients run alike.\<close>

lemma process_main_parent:
  assumes "fork_answers w = ps @ rest" "length ps = 10" "0 \<notin> set ps"
    "wait_answers w = pids @ p # q" "list_all (\<lambda>p. 0 < p) pids" "p \<le> 0"
  shows "\<exists>w'. process_main w = (Ret 0, w') \<and> out_lines w' = out_lines w @
    map (\<lambda>_. ''fork error'') (filter (\<lambda>p. p < 0) ps) @ map (\<lambda>pid. dec (nat pid) @ ''has exit'') pids @ [''main function exit'']"
  unfolding process_main_def using fork_loop_parent [OF assms(1-3)] wait_loop_run [OF assms(5,6)] assms(4)
  by (simp add: mbind_Ret waitchild_def fork_runs)

lemma client_main_ignores_uri: "client_main argv ok = client_main argv' ok"
  by (simp add: client_main_def)

end
