(* ===== verification/Pb_Coded.thy ===== *)
theory Pb_Coded
  imports Std_Lib
begin

text \<open>
  The wire format as the generated code uses it: the inline functions of
  \<open>src/depends/include/protobuf/io/coded_stream.h\<close>, \<open>wire_format_lite.h\<close> and \<open>wire_format_lite_inl.h\<close>.
  A stream over an array is the list of the bytes not read yet; writing to an array gives the bytes written.
  The functions that are not inline belong to the compiled library, a parameter (\<open>pb_env\<close>); what is
  documented of them are the laws of the locale \<open>pb_wire\<close>.
\<close>

unbundle bit_operations_syntax

section \<open>The compiled library\<close>

text \<open>
  \<open>None\<close> stands for \<open>return false\<close>. \<open>SkipField tag\<close> moves the rest of a field to the unknown fields (in
  serialized form) and gives them with the bytes behind it. \<open>total_bytes_refused\<close> tells whether the stream gives up
  on an input longer than its limit \<open>kDefaultTotalBytesLimit\<close>, and \<open>recursion_limit\<close> is the compiled default of that member.
\<close>

record pb_env =
  ReadVarint32Fallback :: "string \<Rightarrow> (32 word \<times> string) option"
  ReadTagFallback :: "string \<Rightarrow> 32 word \<times> string"
  WriteVarint32FallbackToArray :: "32 word \<Rightarrow> string"
  VarintSize32Fallback :: "32 word \<Rightarrow> nat"
  WriteStringWithSizeToArray :: "string \<Rightarrow> string"
  ReadBytes :: "string \<Rightarrow> (string \<times> string) option"
  SkipField :: "32 word \<Rightarrow> string \<Rightarrow> string \<Rightarrow> (string \<times> string) option"
  total_bytes_refused :: "string \<Rightarrow> bool"
  recursion_limit :: nat

text \<open>Sizes are of type \<open>int\<close>: a sum that is no \<open>int\<close> has no value.\<close>

definition int_size :: "nat \<Rightarrow> nat option" where
  "int_size n = (if n < 2 ^ 31 then Some n else None)"

definition kDefaultTotalBytesLimit :: nat where
  "kDefaultTotalBytesLimit = 64 * 2 ^ 20"

text \<open>The new \<open>recursion_depth_\<close>, and whether it is allowed.\<close>

definition IncrementRecursionDepth :: "pb_env \<Rightarrow> nat \<Rightarrow> nat \<times> bool" where
  "IncrementRecursionDepth E depth = (depth + 1, depth + 1 \<le> recursion_limit E)"

section \<open>Tags\<close>

definition MakeTag :: "nat \<Rightarrow> 32 word \<Rightarrow> 32 word" where
  "MakeTag field_number type = push_bit 3 (word_of_nat field_number) OR type"

definition GetTagWireType :: "32 word \<Rightarrow> 32 word" where
  "GetTagWireType tag = tag AND 7"

definition GetTagFieldNumber :: "32 word \<Rightarrow> nat" where
  "GetTagFieldNumber tag = unat (drop_bit 3 tag)"

abbreviation (input) WIRETYPE_VARINT :: "32 word" where "WIRETYPE_VARINT \<equiv> 0"
abbreviation (input) WIRETYPE_LENGTH_DELIMITED :: "32 word" where "WIRETYPE_LENGTH_DELIMITED \<equiv> 2"
abbreviation (input) WIRETYPE_END_GROUP :: "32 word" where "WIRETYPE_END_GROUP \<equiv> 4"

section \<open>Reading\<close>

definition ReadVarint32 :: "pb_env \<Rightarrow> string \<Rightarrow> (32 word \<times> string) option" where
  "ReadVarint32 E buffer = (case buffer of
     c # cs \<Rightarrow> if byte c < 0x80 then Some (word_of_nat (byte c), cs) else ReadVarint32Fallback E buffer
   | [] \<Rightarrow> ReadVarint32Fallback E buffer)"

definition ReadTag :: "pb_env \<Rightarrow> string \<Rightarrow> 32 word \<times> string" where
  "ReadTag E buffer = (case buffer of
     c # cs \<Rightarrow> if byte c < 0x80 then (word_of_nat (byte c), cs) else ReadTagFallback E buffer
   | [] \<Rightarrow> ReadTagFallback E buffer)"

text \<open>\<open>ExpectTag\<close>: the bytes behind the tag, if it is next.\<close>

definition ExpectTag :: "32 word \<Rightarrow> string \<Rightarrow> string option" where
  "ExpectTag expected buffer =
     (if expected < 128 then
        (case buffer of c # cs \<Rightarrow> if byte c = unat expected then Some cs else None | [] \<Rightarrow> None)
      else if expected < 16384 then
        (case buffer of c # c' # cs \<Rightarrow>
             if c = char_of (unat (expected OR 0x80)) \<and> c' = char_of (unat (drop_bit 7 expected)) then Some cs else None
         | _ \<Rightarrow> None)
      else None)"

definition ExpectAtEnd :: "string \<Rightarrow> bool" where
  "ExpectAtEnd buffer \<longleftrightarrow> buffer = []"

section \<open>Writing\<close>

definition WriteVarint32ToArray :: "pb_env \<Rightarrow> 32 word \<Rightarrow> string" where
  "WriteVarint32ToArray E v = (if v < 0x80 then [char_of (unat v)] else WriteVarint32FallbackToArray E v)"

definition WriteTagToArray :: "pb_env \<Rightarrow> 32 word \<Rightarrow> string" where
  "WriteTagToArray E v =
     (if v < 128 then [char_of (unat v)]
      else if v < 16384 then [char_of (unat (v OR 0x80)), char_of (unat (drop_bit 7 v))]
      else WriteVarint32FallbackToArray E v)"

definition WriteUInt32ToArray :: "pb_env \<Rightarrow> nat \<Rightarrow> 32 word \<Rightarrow> string" where
  "WriteUInt32ToArray E n v = WriteTagToArray E (MakeTag n WIRETYPE_VARINT) @ WriteVarint32ToArray E v"

definition WriteBytesToArray :: "pb_env \<Rightarrow> nat \<Rightarrow> string \<Rightarrow> string" where
  "WriteBytesToArray E n s =
     WriteTagToArray E (MakeTag n WIRETYPE_LENGTH_DELIMITED) @ WriteStringWithSizeToArray E s"

definition VarintSize32 :: "pb_env \<Rightarrow> 32 word \<Rightarrow> nat" where
  "VarintSize32 E v = (if v < 128 then 1 else VarintSize32Fallback E v)"

definition UInt32Size :: "pb_env \<Rightarrow> 32 word \<Rightarrow> nat" where
  "UInt32Size E v = VarintSize32 E v"

definition LengthDelimitedSize :: "pb_env \<Rightarrow> nat \<Rightarrow> nat" where
  "LengthDelimitedSize E n = VarintSize32 E (word_of_nat n) + n"

definition BytesSize :: "pb_env \<Rightarrow> string \<Rightarrow> nat" where
  "BytesSize E s = LengthDelimitedSize E (length s)"

section \<open>What the library promises\<close>

lemma int_size_Some: "int_size n = Some k \<longleftrightarrow> n < 2 ^ 31 \<and> k = n"
  by (auto simp: int_size_def)

text \<open>
  The recursion limit is 100; varints of more than one byte come back as they were written and begin with a byte of at least 128, their
  computed size is their length; a string is written behind the varint of its size; there is no tag at the end; strings of up to \<open>INT_MAX\<close> bytes are read back;
  and reading takes bytes away: a tag at least one, the rest none back.
\<close>

locale pb_wire =
  fixes E :: pb_env
  assumes varint_read: "0x80 \<le> v \<Longrightarrow> ReadVarint32Fallback E (WriteVarint32FallbackToArray E v @ rest) = Some (v, rest)"
    and varint_head: "0x80 \<le> v \<Longrightarrow> \<exists>c cs. WriteVarint32FallbackToArray E v = c # cs \<and> 0x80 \<le> byte c"
    and varint_size: "0x80 \<le> v \<Longrightarrow> VarintSize32Fallback E v = length (WriteVarint32FallbackToArray E v)"
    and string_write: "WriteStringWithSizeToArray E s = WriteVarint32ToArray E (word_of_nat (length s)) @ s"
    and tag_end: "ReadTagFallback E [] = (0, [])"
    and bytes_read: "length s < 2 ^ 31 \<Longrightarrow>
      ReadBytes E (WriteVarint32ToArray E (word_of_nat (length s)) @ s @ rest) = Some (s, rest)"
    and tag_shrinks: "ReadTagFallback E s = (t, rest) \<Longrightarrow> t \<noteq> 0 \<Longrightarrow> length rest < length s"
    and varint_shrinks: "ReadVarint32Fallback E s = Some (v, rest) \<Longrightarrow> length rest \<le> length s"
    and bytes_shrink: "ReadBytes E s = Some (b, rest) \<Longrightarrow> length rest \<le> length s"
    and skip_shrinks: "SkipField E t s u = Some (u', rest) \<Longrightarrow> length rest \<le> length s"
    and default_limit: "recursion_limit E = 100"

lemma MakeTag_small:
  assumes "n < 16" "ty = 0 \<or> ty = 2"
  shows "GetTagFieldNumber (MakeTag n ty) = n" "GetTagWireType (MakeTag n ty) = ty" "MakeTag n ty < 128"
    "n \<noteq> 0 \<Longrightarrow> MakeTag n ty \<noteq> 0"
proof -
  have "n \<in> {0, 1, 2, 3, 4, 5, 6, 7, 8, 9, 10, 11, 12, 13, 14, 15}"
    using assms(1) by (simp add: numeral_eq_Suc less_Suc_eq)
  then show "GetTagFieldNumber (MakeTag n ty) = n" "GetTagWireType (MakeTag n ty) = ty" "MakeTag n ty < 128"
    "n \<noteq> 0 \<Longrightarrow> MakeTag n ty \<noteq> 0"
    using assms(2) by (auto simp: GetTagFieldNumber_def GetTagWireType_def MakeTag_def)
qed

lemma unat_128: "(v :: 32 word) < 128 \<longleftrightarrow> unat v < 128"
  by (simp add: word_less_nat_alt)

lemma one_byte [simp]: "unat (v :: 32 word) < 128 \<Longrightarrow> byte (char_of (unat v)) = unat v"
  by simp

lemma WriteTag_small: "t < 128 \<Longrightarrow> WriteTagToArray E t = [char_of (unat t)]"
  by (simp add: WriteTagToArray_def)

lemma ReadTag_small: "t < 128 \<Longrightarrow> ReadTag E (char_of (unat t) # rest) = (t, rest)"
  by (simp add: ReadTag_def unat_128)

text \<open>The shortcut \<open>ExpectTag\<close> finds a one-byte tag exactly when \<open>ReadTag\<close> would read it.\<close>

lemma ExpectTag_ReadTag: "t < 128 \<Longrightarrow> ExpectTag t s = Some rest \<Longrightarrow> ReadTag E s = (t, rest)"
  by (cases s) (auto simp: ExpectTag_def ReadTag_def unat_128 split: if_splits)

context pb_wire
begin

lemma read_varint: "ReadVarint32 E (WriteVarint32ToArray E v @ rest) = Some (v, rest)"
proof (cases "v < 0x80")
  case True
  then show ?thesis by (simp add: ReadVarint32_def WriteVarint32ToArray_def unat_128)
next
  case False
  then have v: "0x80 \<le> v" by simp
  from varint_head [OF this] obtain c cs where "WriteVarint32FallbackToArray E v = c # cs" "0x80 \<le> byte c"
    by blast
  with False varint_read [OF v, of rest] show ?thesis by (simp add: ReadVarint32_def WriteVarint32ToArray_def)
qed

lemma size_varint: "VarintSize32 E v = length (WriteVarint32ToArray E v)"
  by (simp add: VarintSize32_def WriteVarint32ToArray_def varint_size)

lemma size_bytes: "BytesSize E s = length (WriteStringWithSizeToArray E s)"
  by (simp add: string_write BytesSize_def LengthDelimitedSize_def size_varint)

lemma read_tag_end: "ReadTag E [] = (0, [])"
  by (simp add: ReadTag_def tag_end)

lemma read_tag_shrinks: "ReadTag E s = (t, rest) \<Longrightarrow> t \<noteq> 0 \<Longrightarrow> length rest < length s"
  by (auto simp: ReadTag_def split: list.splits if_splits dest: tag_shrinks)

lemma read_varint_shrinks: "ReadVarint32 E s = Some (v, rest) \<Longrightarrow> length rest \<le> length s"
  by (auto simp: ReadVarint32_def split: list.splits if_splits dest: varint_shrinks)

end

end
