(* ===== verification/Pb_Message.thy ===== *)
theory Pb_Message
  imports Pb_Coded
begin

text \<open>
  The generated classes of \<open>src/common/common.pb.cc\<close> whose fields are all \<open>uint32\<close> or \<open>bytes\<close>. The generator
  writes one and the same member functions for each; here they are written once, over the table of the
  fields of a class (its numbers, from 1 on, with their types).
\<close>

section \<open>Messages\<close>

datatype pb_type = T_uint32 | T_bytes

datatype pb_val = V_uint32 "32 word" | V_bytes string

type_synonym pb_desc = "(nat \<times> pb_type) list"

text \<open>The members: values, \<open>_has_bits_\<close>, and the serialized \<open>unknown_fields\<close>.\<close>

record pb_msg =
  pb_value :: "nat \<Rightarrow> pb_val"
  pb_has :: "nat \<Rightarrow> bool"
  pb_unknown :: string

primrec pb_default :: "pb_type \<Rightarrow> pb_val" where
  "pb_default T_uint32 = V_uint32 0"
| "pb_default T_bytes = V_bytes []"

text \<open>\<open>SharedCtor\<close>.\<close>

definition pb_new :: "pb_desc \<Rightarrow> pb_msg" where
  "pb_new d = \<lparr>pb_value = (\<lambda>n. case map_of d n of Some ty \<Rightarrow> pb_default ty | None \<Rightarrow> V_uint32 0),
     pb_has = (\<lambda>n. False), pb_unknown = []\<rparr>"

text \<open>The accessors of a field; \<open>_has_bits_\<close> is taken bit by bit.\<close>

definition pb_set :: "nat \<Rightarrow> pb_val \<Rightarrow> pb_msg \<Rightarrow> pb_msg" where
  "pb_set n v m = m\<lparr>pb_value := (pb_value m)(n := v), pb_has := (pb_has m)(n := True)\<rparr>"

definition pb_clear_field :: "nat \<Rightarrow> pb_type \<Rightarrow> pb_msg \<Rightarrow> pb_msg" where
  "pb_clear_field n ty m =
     m\<lparr>pb_value := (pb_value m)(n := pb_default ty), pb_has := (pb_has m)(n := False)\<rparr>"

text \<open>\<open>Clear\<close>: when some field is present, numbers are reset, and byte strings if they are present.\<close>

definition pb_reset :: "pb_desc \<Rightarrow> pb_msg \<Rightarrow> nat \<Rightarrow> pb_val" where
  "pb_reset d m =
     fold (\<lambda>(n, ty) f. if ty = T_uint32 \<or> pb_has m n then f(n := pb_default ty) else f) d (pb_value m)"

definition pb_Clear :: "pb_desc \<Rightarrow> pb_msg \<Rightarrow> pb_msg" where
  "pb_Clear d m = \<lparr>pb_value = (if list_ex (\<lambda>(n, ty). pb_has m n) d then pb_reset d m else pb_value m),
     pb_has = (\<lambda>n. False), pb_unknown = []\<rparr>"

definition pb_MergeFrom :: "pb_desc \<Rightarrow> pb_msg \<Rightarrow> pb_msg \<Rightarrow> pb_msg" where
  "pb_MergeFrom d from m =
     (let m = fold (\<lambda>(n, ty) m. if pb_has from n then pb_set n (pb_value from n) m else m) d m
      in m\<lparr>pb_unknown := pb_unknown m @ pb_unknown from\<rparr>)"

text \<open>For two different objects; \<open>CopyFrom\<close> of an object to itself returns at once.\<close>

definition pb_CopyFrom :: "pb_desc \<Rightarrow> pb_msg \<Rightarrow> pb_msg \<Rightarrow> pb_msg" where
  "pb_CopyFrom d from m = pb_MergeFrom d from (pb_Clear d m)"

definition pb_Swap :: "pb_msg \<Rightarrow> pb_msg \<Rightarrow> pb_msg \<times> pb_msg" where
  "pb_Swap m other = (other, m)"

section \<open>Serializing\<close>

primrec wire_type :: "pb_type \<Rightarrow> 32 word" where
  "wire_type T_uint32 = WIRETYPE_VARINT"
| "wire_type T_bytes = WIRETYPE_LENGTH_DELIMITED"

primrec pb_write :: "pb_env \<Rightarrow> nat \<Rightarrow> pb_val \<Rightarrow> string" where
  "pb_write E n (V_uint32 v) = WriteUInt32ToArray E n v"
| "pb_write E n (V_bytes s) = WriteBytesToArray E n s"

text \<open>\<open>SerializeWithCachedSizesToArray\<close>.\<close>

definition pb_fields :: "pb_env \<Rightarrow> pb_desc \<Rightarrow> pb_msg \<Rightarrow> string" where
  "pb_fields E d m = concat (map (\<lambda>(n, ty). if pb_has m n then pb_write E n (pb_value m n) else []) d)"

definition pb_Serialize :: "pb_env \<Rightarrow> pb_desc \<Rightarrow> pb_msg \<Rightarrow> string" where
  "pb_Serialize E d m = pb_fields E d m @ pb_unknown m"

primrec pb_size :: "pb_env \<Rightarrow> pb_val \<Rightarrow> nat" where
  "pb_size E (V_uint32 v) = UInt32Size E v"
| "pb_size E (V_bytes s) = BytesSize E s"

text \<open>
  \<open>ByteSize\<close>; the tag of a field counts as one byte. The sum is built up in an \<open>int\<close> from numbers that are not
  negative, so it has a value when the whole sum is an \<open>int\<close> (\<open>None\<close> otherwise: the addition overflows).
\<close>

definition pb_total_size :: "pb_env \<Rightarrow> pb_desc \<Rightarrow> pb_msg \<Rightarrow> nat" where
  "pb_total_size E d m =
     (if list_ex (\<lambda>(n, ty). pb_has m n) d
      then sum_list (map (\<lambda>(n, ty). if pb_has m n then 1 + pb_size E (pb_value m n) else 0) d) else 0)
     + length (pb_unknown m)"

definition pb_ByteSize :: "pb_env \<Rightarrow> pb_desc \<Rightarrow> pb_msg \<Rightarrow> nat option" where
  "pb_ByteSize E d m = int_size (pb_total_size E d m)"

section \<open>Parsing\<close>

primrec pb_read :: "pb_env \<Rightarrow> pb_type \<Rightarrow> string \<Rightarrow> (pb_val \<times> string) option" where
  "pb_read E T_uint32 input = map_option (\<lambda>(v, rest). (V_uint32 v, rest)) (ReadVarint32 E input)"
| "pb_read E T_bytes input = map_option (\<lambda>(s, rest). (V_bytes s, rest)) (ReadBytes E input)"

text \<open>The field a tag belongs to: its number is a case of the switch, with this wire type.\<close>

definition known_tag :: "pb_desc \<Rightarrow> 32 word \<Rightarrow> bool" where
  "known_tag d tag \<longleftrightarrow> (case map_of d (GetTagFieldNumber tag) of
     Some ty \<Rightarrow> GetTagWireType tag = wire_type ty | None \<Rightarrow> False)"

text \<open>
  \<open>MergePartialFromCodedStream\<close>. \<open>jump = Some n\<close> is the label \<open>parse_\<close> of field \<open>n\<close>, behind its tag; \<open>None\<close> is
  the head of the loop. The result \<open>Some None\<close> is \<open>return false\<close>; \<open>Some (Some (m, e))\<close> is \<open>return true\<close>, where
  \<open>e\<close> is what \<open>ConsumedEntireMessage\<close> tells then: the input ended where a tag could stand.
\<close>

partial_function (option) pb_merge ::
  "pb_env \<Rightarrow> pb_desc \<Rightarrow> nat option \<Rightarrow> string \<Rightarrow> pb_msg \<Rightarrow> (pb_msg \<times> bool) option option" where
  "pb_merge E d jump input m = (case jump of
     Some n \<Rightarrow> (case map_of d n of
         None \<Rightarrow> Some None
       | Some ty \<Rightarrow> (case pb_read E ty input of
           None \<Rightarrow> Some None
         | Some (v, rest) \<Rightarrow> (case map_of d (Suc n) of
             None \<Rightarrow> if ExpectAtEnd rest then Some (Some (pb_set n v m, True))
                     else pb_merge E d None rest (pb_set n v m)
           | Some ty' \<Rightarrow> (case ExpectTag (MakeTag (Suc n) (wire_type ty')) rest of
               Some rest' \<Rightarrow> pb_merge E d (Some (Suc n)) rest' (pb_set n v m)
             | None \<Rightarrow> pb_merge E d None rest (pb_set n v m)))))
   | None \<Rightarrow>
       let (tag, rest) = ReadTag E input in
       if tag = 0 then Some (Some (m, input = []))
       else if known_tag d tag then pb_merge E d (Some (GetTagFieldNumber tag)) rest m
       else if GetTagWireType tag = WIRETYPE_END_GROUP then Some (Some (m, False))
       else (case SkipField E tag rest (pb_unknown m) of
           None \<Rightarrow> Some None
         | Some (u, rest) \<Rightarrow> pb_merge E d None rest (m\<lparr>pb_unknown := u\<rparr>)))"

text \<open>
  \<open>ParseFromArray\<close> is a member of the library's \<open>MessageLite\<close>. As \<open>message_lite.h\<close> documents it, it calls \<open>Clear\<close>,
  \<open>MergePartialFromCodedStream\<close> and \<open>IsInitialized\<close> (true for these classes), and the input has to be consumed.
  Whether an input longer than \<open>kDefaultTotalBytesLimit\<close> is refused is up to the library.
\<close>

definition pb_ParseFromArray :: "pb_env \<Rightarrow> pb_desc \<Rightarrow> string \<Rightarrow> pb_msg \<Rightarrow> pb_msg option" where
  "pb_ParseFromArray E d input m =
     (if kDefaultTotalBytesLimit < length input \<and> total_bytes_refused E input then None else case pb_merge E d None input (pb_Clear d m) of
     Some (Some (m, True)) \<Rightarrow> Some m | _ \<Rightarrow> None)"

section \<open>Tables\<close>

text \<open>The fields of the classes; \<open>RoomInfo\<close>, \<open>GetRoomInfoRsp\<close> and \<open>GetRoomListRsp\<close> contain messages and are left out.\<close>

definition SSHead :: pb_desc where
  "SSHead = [(1, T_uint32), (2, T_bytes), (3, T_uint32), (4, T_uint32), (5, T_uint32), (6, T_uint32), (7, T_uint32)]"
definition RouteMsg :: pb_desc where
  "RouteMsg = [(1, T_bytes), (2, T_bytes), (3, T_uint32), (4, T_bytes)]"
definition AddRoomUser :: pb_desc where
  "AddRoomUser = [(1, T_bytes), (2, T_bytes), (3, T_bytes)]"
definition AddRoomUserRsp :: pb_desc where
  "AddRoomUserRsp = [(1, T_uint32)]"
definition BroadCast :: pb_desc where
  "BroadCast = [(1, T_bytes), (2, T_bytes), (3, T_uint32), (4, T_bytes), (5, T_bytes)]"
definition BroadCastRsp :: pb_desc where
  "BroadCastRsp = [(1, T_uint32)]"
definition CreateRoom :: pb_desc where
  "CreateRoom = [(1, T_bytes), (2, T_bytes)]"
definition CreateRoomRsp :: pb_desc where
  "CreateRoomRsp = [(1, T_uint32)]"
definition UserInfo :: pb_desc where
  "UserInfo = [(1, T_bytes), (2, T_bytes), (3, T_uint32), (4, T_uint32), (5, T_bytes), (6, T_uint32), (7, T_bytes)]"
definition GetRoomInfo :: pb_desc where
  "GetRoomInfo = [(1, T_bytes), (2, T_bytes)]"
definition GetRoomList :: pb_desc where
  "GetRoomList = [(1, T_bytes)]"
definition KeepAlive :: pb_desc where
  "KeepAlive = [(1, T_bytes), (2, T_bytes)]"
definition UniCast :: pb_desc where
  "UniCast = [(1, T_bytes), (2, T_bytes), (3, T_bytes), (4, T_bytes), (5, T_bytes)]"

definition pb_classes :: "pb_desc list" where
  "pb_classes = [SSHead, RouteMsg, AddRoomUser, AddRoomUserRsp, BroadCast, BroadCastRsp, CreateRoom, CreateRoomRsp,
     UserInfo, GetRoomInfo, GetRoomList, KeepAlive, UniCast]"

text \<open>Numbers that occur once, below 16, so that a tag is one byte.\<close>

definition pb_table :: "pb_desc \<Rightarrow> bool" where
  "pb_table d \<longleftrightarrow> distinct (map fst d) \<and> list_all (\<lambda>(n, ty). 0 < n \<and> n < 16) d"

lemma pb_classes_tables: "list_all pb_table pb_classes"
  by (simp add: pb_classes_def pb_table_def SSHead_def RouteMsg_def AddRoomUser_def AddRoomUserRsp_def BroadCast_def
      BroadCastRsp_def CreateRoom_def CreateRoomRsp_def UserInfo_def GetRoomInfo_def GetRoomList_def KeepAlive_def
      UniCast_def)

end
