(* ===== verification/Pb_Wire.thy ===== *)
theory Pb_Wire
  imports Pb_Message
begin

text \<open>
  The messages of \<open>common.proto\<close> on the wire: the type invariant of a message object, and, over the locale
  \<open>pb_wire\<close> of what the library promises, that parsing ends, that the jumps to the next expected field do not
  change its result, that it reads back what is serialized, and that \<open>ByteSize\<close> is the number of bytes.
\<close>

section \<open>Well-typed messages\<close>

primrec val_type :: "pb_val \<Rightarrow> pb_type" where
  "val_type (V_uint32 v) = T_uint32"
| "val_type (V_bytes s) = T_bytes"

text \<open>Every field has a value of its type, an absent field the default value; no other field has one.\<close>

fun slot_ok :: "pb_type option \<Rightarrow> pb_val \<Rightarrow> bool \<Rightarrow> bool" where
  "slot_ok (Some ty) v has \<longleftrightarrow> val_type v = ty \<and> (has \<or> v = pb_default ty)"
| "slot_ok None v has \<longleftrightarrow> \<not> has \<and> v = V_uint32 0"

definition pb_ok :: "pb_desc \<Rightarrow> pb_msg \<Rightarrow> bool" where
  "pb_ok d m \<longleftrightarrow> (\<forall>n. slot_ok (map_of d n) (pb_value m n) (pb_has m n))"

lemma val_type_default [simp]: "val_type (pb_default ty) = ty"
  by (cases ty) simp_all

lemma pb_ok_slot: "pb_ok d m \<Longrightarrow> slot_ok (map_of d n) (pb_value m n) (pb_has m n)"
  by (simp add: pb_ok_def)

lemma pb_ok_new: "pb_ok d (pb_new d)"
  by (simp add: pb_ok_def pb_new_def split: option.split)

lemma pb_ok_set: "pb_ok d m \<Longrightarrow> map_of d n = Some (val_type v) \<Longrightarrow> pb_ok d (pb_set n v m)"
  by (simp add: pb_ok_def pb_set_def)

lemma pb_ok_clear_field: "pb_ok d m \<Longrightarrow> map_of d n = Some ty \<Longrightarrow> pb_ok d (pb_clear_field n ty m)"
  by (simp add: pb_ok_def pb_clear_field_def)

lemma pb_ok_unknown [simp]: "pb_ok d (m\<lparr>pb_unknown := u\<rparr>) = pb_ok d m"
  by (simp add: pb_ok_def)

lemma pb_ok_type: "pb_ok d m \<Longrightarrow> map_of d n = Some ty \<Longrightarrow> map_of d n = Some (val_type (pb_value m n))"
  using pb_ok_slot [of d m n] by simp

lemma pb_ok_absent: "pb_ok d m \<Longrightarrow> n \<notin> fst ` set d \<Longrightarrow> \<not> pb_has m n \<and> pb_value m n = V_uint32 0"
  using pb_ok_slot [of d m n] map_of_eq_None_iff [of d n] by simp

lemma pb_table_distinct: "pb_table d \<Longrightarrow> distinct (map fst d)"
  by (simp add: pb_table_def)

lemma pb_table_numbers:
  assumes "pb_table d" "map_of d n = Some ty"
  shows "0 < n" "n < 16"
  using assms by (auto simp: pb_table_def list_all_iff dest!: map_of_SomeD)

lemma reset_fields:
  assumes "distinct (map fst ds)"
  shows "fold (\<lambda>(n, ty) f. if P n ty then f(n := pb_default ty) else f) ds f n =
    (case map_of ds n of Some ty \<Rightarrow> if P n ty then pb_default ty else f n | None \<Rightarrow> f n)"
  using assms by (induction ds arbitrary: f) (auto split: option.splits simp: map_of_eq_None_iff [symmetric])

lemma pb_reset_new:
  assumes "pb_table d" "pb_ok d m"
  shows "pb_reset d m = pb_value (pb_new d)"
proof
  show "pb_reset d m n = pb_value (pb_new d) n" for n
    using pb_ok_slot [OF assms(2), of n]
    by (auto simp: pb_reset_def pb_new_def reset_fields [OF pb_table_distinct [OF assms(1)]] split: option.splits)
qed

text \<open>\<open>Clear\<close> leaves out what it need not reset; the result is a new message all the same.\<close>

lemma pb_absent_new:
  assumes "pb_ok d m" "\<not> list_ex (\<lambda>(n, ty). pb_has m n) d"
  shows "pb_value m = pb_value (pb_new d)"
proof
  have "\<not> pb_has m n" if "map_of d n = Some ty" for n ty
    using assms(2) that by (force simp: list_ex_iff dest: map_of_SomeD)
  then show "pb_value m n = pb_value (pb_new d) n" for n
    using pb_ok_slot [OF assms(1), of n] by (auto simp: pb_new_def split: option.split)
qed

lemma pb_Clear_new: "pb_table d \<Longrightarrow> pb_ok d m \<Longrightarrow> pb_Clear d m = pb_new d"
  by (simp add: pb_Clear_def pb_reset_new pb_absent_new) (simp add: pb_new_def)

abbreviation merge_fields :: "pb_msg \<Rightarrow> pb_desc \<Rightarrow> pb_msg \<Rightarrow> pb_msg" where
  "merge_fields from \<equiv> fold (\<lambda>(n, ty) m. if pb_has from n then pb_set n (pb_value from n) m else m)"

lemma merge_fields_sel:
  "pb_value (merge_fields from ds m) n = (if pb_has from n \<and> n \<in> fst ` set ds then pb_value from n else pb_value m n)"
  "pb_has (merge_fields from ds m) n = (pb_has from n \<and> n \<in> fst ` set ds \<or> pb_has m n)"
  "pb_unknown (merge_fields from ds m) = pb_unknown m"
  by (induction ds arbitrary: m) (auto simp: pb_set_def split: if_splits)

lemma pb_ok_merge_fields:
  "pb_ok d from \<Longrightarrow> pb_ok d m \<Longrightarrow> \<forall>(n, ty)\<in>set ds. map_of d n = Some ty \<Longrightarrow> pb_ok d (merge_fields from ds m)"
proof (induction ds arbitrary: m)
  case (Cons f ds)
  obtain n ty where f: "f = (n, ty)" by (cases f)
  with Cons.prems have "pb_ok d (if pb_has from n then pb_set n (pb_value from n) m else m)"
    by (auto intro: pb_ok_set pb_ok_type)
  with Cons f show ?case by simp
qed simp

lemma pb_ok_MergeFrom: "pb_table d \<Longrightarrow> pb_ok d from \<Longrightarrow> pb_ok d m \<Longrightarrow> pb_ok d (pb_MergeFrom d from m)"
  by (auto simp: pb_MergeFrom_def Let_def intro!: pb_ok_merge_fields dest: pb_table_distinct)

text \<open>\<open>CopyFrom\<close> makes the object equal to the other.\<close>

lemma pb_CopyFrom_eq:
  assumes "pb_table d" "pb_ok d from" "pb_ok d m"
  shows "pb_CopyFrom d from m = from"
proof -
  have vals: "\<not> pb_has from n \<Longrightarrow> pb_value (pb_new d) n = pb_value from n" for n
    using pb_ok_slot [OF assms(2), of n] map_of_eq_None_iff [of d n]
    by (cases "map_of d n") (auto simp: pb_new_def)
  have has: "(pb_has from n \<and> n \<in> fst ` set d) = pb_has from n" for n
    using pb_ok_absent [OF assms(2), of n] by blast
  have new: "\<not> pb_has (pb_new d) n" "pb_unknown (pb_new d) = []" for n by (simp_all add: pb_new_def)
  show ?thesis unfolding pb_CopyFrom_def pb_Clear_new [OF assms(1,3)] pb_MergeFrom_def Let_def
    by (rule pb_msg.equality) (simp_all add: merge_fields_sel fun_eq_iff vals has new)
qed

text \<open>Byte strings of up to \<open>INT_MAX\<close> bytes.\<close>

definition pb_short :: "pb_msg \<Rightarrow> bool" where
  "pb_short m \<longleftrightarrow> (\<forall>n s. pb_value m n = V_bytes s \<longrightarrow> length s < 2 ^ 31)"

section \<open>Parsing\<close>

text \<open>The loop without the jumps: what \<open>MergePartialFromCodedStream\<close> is a faster way of computing.\<close>

partial_function (option) pb_plain ::
  "pb_env \<Rightarrow> pb_desc \<Rightarrow> string \<Rightarrow> pb_msg \<Rightarrow> (pb_msg \<times> bool) option option" where
  "pb_plain E d input m =
     (let (tag, rest) = ReadTag E input in
      if tag = 0 then Some (Some (m, input = []))
      else if known_tag d tag then
        (case pb_read E (the (map_of d (GetTagFieldNumber tag))) rest of
           None \<Rightarrow> Some None
         | Some (v, rest) \<Rightarrow> pb_plain E d rest (pb_set (GetTagFieldNumber tag) v m))
      else if GetTagWireType tag = WIRETYPE_END_GROUP then Some (Some (m, False))
      else (case SkipField E tag rest (pb_unknown m) of
          None \<Rightarrow> Some None
        | Some (u, rest) \<Rightarrow> pb_plain E d rest (m\<lparr>pb_unknown := u\<rparr>)))"

lemmas merge_step = pb_merge.simps [of _ _ None]

lemma field_tag:
  assumes "pb_table d" "map_of d n = Some ty"
  defines "t \<equiv> MakeTag n (wire_type ty)"
  shows "t < 128" "t \<noteq> 0" "known_tag d t" "GetTagFieldNumber t = n"
proof -
  have "wire_type ty = 0 \<or> wire_type ty = 2" by (cases ty) simp_all
  note small = MakeTag_small [OF pb_table_numbers(2) [OF assms(1,2)] this]
  then show "t < 128" "t \<noteq> 0" "known_tag d t" "GetTagFieldNumber t = n"
    using pb_table_numbers(1) [OF assms(1,2)] assms(2) by (simp_all add: t_def known_tag_def)
qed

text \<open>What stands behind the tag of a field.\<close>

primrec pb_payload :: "pb_env \<Rightarrow> pb_val \<Rightarrow> string" where
  "pb_payload E (V_uint32 v) = WriteVarint32ToArray E v"
| "pb_payload E (V_bytes s) = WriteStringWithSizeToArray E s"

lemma pb_write_payload:
  "pb_write E n v = WriteTagToArray E (MakeTag n (wire_type (val_type v))) @ pb_payload E v"
  by (cases v) (simp_all add: WriteUInt32ToArray_def WriteBytesToArray_def)

context pb_wire
begin

lemma read_payload:
  assumes "\<And>s. v = V_bytes s \<Longrightarrow> length s < 2 ^ 31"
  shows "pb_read E (val_type v) (pb_payload E v @ rest) = Some (v, rest)"
  using assms by (cases v) (simp_all add: read_varint bytes_read string_write)

lemma size_payload: "length (pb_payload E v) = pb_size E v"
  by (cases v) (simp_all add: UInt32Size_def size_varint size_bytes)

lemma read_shrinks: "pb_read E ty input = Some (v, rest) \<Longrightarrow> length rest \<le> length input"
  by (cases ty) (auto dest: read_varint_shrinks bytes_shrink)

end

lemma read_shape: "pb_read E ty input = Some (v, rest) \<Longrightarrow> val_type v = ty"
  by (cases ty) auto

locale pb_class = pb_wire +
  fixes d :: pb_desc
  assumes table: "pb_table d"
begin

lemma merge_end: "pb_merge E d None [] m = Some (Some (m, True))"
  by (simp add: merge_step read_tag_end)

text \<open>The label of a field: read it, and go to the head of the loop. The jump saves nothing but time.\<close>

lemma merge_jump:
  assumes n: "map_of d n = Some ty"
  shows "pb_merge E d (Some n) input m = (case pb_read E ty input of
    None \<Rightarrow> Some None | Some (v, rest) \<Rightarrow> pb_merge E d None rest (pb_set n v m))"
proof (cases "pb_read E ty input")
  case None
  then show ?thesis by (subst pb_merge.simps) (simp add: n)
next
  case (Some p)
  obtain v rest where p: "p = (v, rest)" by (cases p)
  have jump: "pb_merge E d (Some (Suc n)) rest' (pb_set n v m) = pb_merge E d None rest (pb_set n v m)"
    if ty': "map_of d (Suc n) = Some ty'" and e: "ExpectTag (MakeTag (Suc n) (wire_type ty')) rest = Some rest'"
    for ty' rest'
    using field_tag [OF table ty'] ExpectTag_ReadTag [OF _ e] by (simp add: merge_step)
  show ?thesis
    by (subst pb_merge.simps) (auto simp: n Some p jump merge_end ExpectAtEnd_def split: option.split)
qed

lemma merge_head: "pb_merge E d None input m =
    (let (tag, rest) = ReadTag E input in
      if tag = 0 then Some (Some (m, input = []))
      else if known_tag d tag then
        (case pb_read E (the (map_of d (GetTagFieldNumber tag))) rest of
           None \<Rightarrow> Some None
         | Some (v, rest) \<Rightarrow> pb_merge E d None rest (pb_set (GetTagFieldNumber tag) v m))
      else if GetTagWireType tag = WIRETYPE_END_GROUP then Some (Some (m, False))
      else (case SkipField E tag rest (pb_unknown m) of
          None \<Rightarrow> Some None
        | Some (u, rest) \<Rightarrow> pb_merge E d None rest (m\<lparr>pb_unknown := u\<rparr>)))"
  by (subst pb_merge.simps)
    (auto simp: known_tag_def merge_jump split: prod.split option.splits)

lemma merge_plain: "pb_merge E d None input m = pb_plain E d input m \<and> pb_merge E d None input m \<noteq> None"
proof (induction "length input" arbitrary: input m rule: less_induct)
  case less
  obtain tag rest where t: "ReadTag E input = (tag, rest)" by (cases "ReadTag E input")
  have ih: "pb_merge E d None rest' m' = pb_plain E d rest' m' \<and> pb_merge E d None rest' m' \<noteq> None"
    if "tag \<noteq> 0" "length rest' \<le> length rest" for rest' m'
    by (rule less.hyps) (use read_tag_shrinks [OF t that(1)] that(2) in simp)
  then show ?case
    by (subst merge_head, subst pb_plain.simps, subst merge_head)
      (auto simp: t dest: read_shrinks skip_shrinks split: option.split)
qed

lemma read_write:
  assumes n: "map_of d n = Some (val_type v)" and len: "\<And>s. v = V_bytes s \<Longrightarrow> length s < 2 ^ 31"
  shows "pb_merge E d None (pb_write E n v @ rest) m = pb_merge E d None rest (pb_set n v m)"
  using field_tag [OF table n] n read_payload [OF len, where rest = rest]
  by (simp add: merge_head pb_write_payload WriteTag_small ReadTag_small)

lemma merge_written:
  assumes "pb_ok d from" "\<forall>n s. pb_value from n = V_bytes s \<longrightarrow> length s < 2 ^ 31"
    "\<forall>(n, ty)\<in>set ds. map_of d n = Some ty"
  shows "pb_merge E d None (pb_fields E ds from @ rest) m = pb_merge E d None rest (merge_fields from ds m)"
  using assms(3)
proof (induction ds arbitrary: m)
  case (Cons f ds)
  obtain n ty where f: "f = (n, ty)" by (cases f)
  with Cons.prems have "map_of d n = Some ty" by simp
  note pb_ok_type [OF assms(1) this]
  from read_write [OF this] assms(2) Cons f show ?case by (simp add: pb_fields_def)
qed (simp add: pb_fields_def)

lemma merge_Serialize:
  assumes "pb_ok d from" "\<forall>n s. pb_value from n = V_bytes s \<longrightarrow> length s < 2 ^ 31" "pb_unknown from = []"
  shows "pb_merge E d None (pb_Serialize E d from @ rest) m = pb_merge E d None rest (pb_MergeFrom d from m)"
proof -
  have "\<forall>(n, ty)\<in>set d. map_of d n = Some ty"
    using pb_table_distinct [OF table] by auto
  from merge_written [OF assms(1,2) this] show ?thesis
    by (simp add: pb_Serialize_def pb_MergeFrom_def Let_def assms(3))
qed

lemma size_write:
  assumes "map_of d n = Some (val_type v)"
  shows "length (pb_write E n v) = 1 + pb_size E v"
  using field_tag(1) [OF table assms] by (simp add: pb_write_payload WriteTag_small size_payload)

lemma size_fields:
  assumes "pb_ok d m" "\<forall>(n, ty)\<in>set ds. map_of d n = Some ty"
  shows "length (pb_fields E ds m) = sum_list (map (\<lambda>(n, ty). if pb_has m n then 1 + pb_size E (pb_value m n) else 0) ds)"
  using assms(2)
proof (induction ds)
  case (Cons f ds)
  obtain n ty where f: "f = (n, ty)" by (cases f)
  with Cons.prems have "map_of d n = Some ty" by simp
  note pb_ok_type [OF assms(1) this]
  from size_write [OF this] Cons f show ?case by (simp add: pb_fields_def)
qed (simp add: pb_fields_def)

lemma size_Serialize:
  assumes "pb_ok d m"
  shows "pb_total_size E d m = length (pb_Serialize E d m)"
proof -
  have "\<forall>(n, ty)\<in>set d. map_of d n = Some ty"
    using pb_table_distinct [OF table] by auto
  note fields = size_fields [OF assms this]
  have "pb_fields E d m = []" if "\<not> list_ex (\<lambda>(n, ty). pb_has m n) d"
    using that by (auto simp: pb_fields_def list_ex_iff split: prod.split)
  with fields show ?thesis
    by (cases "list_ex (\<lambda>(n, ty). pb_has m n) d") (simp_all add: pb_total_size_def pb_Serialize_def)
qed

end

section \<open>The types are kept\<close>

lemma pb_ok_merge:
  assumes "pb_merge E d jump input m = Some r" "r = Some (m', e)" "pb_ok d m"
  shows "pb_ok d m'"
  using assms
proof (induction arbitrary: m' e rule: pb_merge.raw_induct [rotated, consumes 1, case_names step])
  case (step pb_merge E d jump input m r)
  note ih = step(1) [OF _ refl]
  show ?case
    using step(2-4)
    by (auto simp: Let_def split: option.splits prod.splits if_splits intro: ih pb_ok_set dest: read_shape)
qed

end
