(* ===== verification/Pb_Nested.thy ===== *)
theory Pb_Nested
  imports Pb_Wire
begin

text \<open>
  The generated classes of \<open>src/common/common.pb.cc\<close> with one field that holds messages: \<open>RoomInfo\<close>
  (repeated \<open>UserInfo\<close>), \<open>GetRoomInfoRsp\<close> (an optional \<open>RoomInfo\<close>) and \<open>GetRoomListRsp\<close> (repeated \<open>RoomInfo\<close>).
  Their member functions are written once, over the operations of the class of the inner messages
  (\<open>sub_class\<close>) and the table of the fields; the result is again such a class. A parser is given
  \<open>recursion_depth_\<close> of the stream it reads; a serializer has no result if the size of an inner message is no \<open>int\<close>.
\<close>

section \<open>Classes and messages\<close>

record 'a sub_class =
  sub_new :: 'a
  sub_merge :: "nat \<Rightarrow> string \<Rightarrow> 'a \<Rightarrow> ('a \<times> bool) option option"
  sub_MergeFrom :: "'a \<Rightarrow> 'a \<Rightarrow> 'a"
  sub_Serialize :: "'a \<Rightarrow> string option"
  sub_ByteSize :: "'a \<Rightarrow> nat option"

definition flat_class :: "pb_env \<Rightarrow> pb_desc \<Rightarrow> pb_msg sub_class" where
  "flat_class E d = \<lparr>sub_new = pb_new d, sub_merge = (\<lambda>depth. pb_merge E d None), sub_MergeFrom = pb_MergeFrom d,
     sub_Serialize = (\<lambda>m. Some (pb_Serialize E d m)), sub_ByteSize = pb_ByteSize E d\<rparr>"

text \<open>The fields before and behind the one that holds messages, its number, and whether it is repeated.\<close>

record nest_desc =
  nd_before :: pb_desc
  nd_sub :: nat
  nd_rep :: bool
  nd_after :: pb_desc

abbreviation nd_flat :: "nest_desc \<Rightarrow> pb_desc" where
  "nd_flat d \<equiv> nd_before d @ nd_after d"

text \<open>An optional message is a list of at most one: it is there if its bit is set.\<close>

record 'a nest_msg =
  n_flat :: pb_msg
  n_subs :: "'a list"

definition nest_new :: "nest_desc \<Rightarrow> 'a nest_msg" where
  "nest_new d = \<lparr>n_flat = pb_new (nd_flat d), n_subs = []\<rparr>"

definition nest_Clear :: "nest_desc \<Rightarrow> 'a nest_msg \<Rightarrow> 'a nest_msg" where
  "nest_Clear d m = \<lparr>n_flat = \<lparr>pb_value =
       (if list_ex (\<lambda>(n, ty). pb_has (n_flat m) n) (nd_flat d) \<or> \<not> nd_rep d \<and> n_subs m \<noteq> []
        then pb_reset (nd_flat d) (n_flat m) else pb_value (n_flat m)),
       pb_has = (\<lambda>n. False), pb_unknown = []\<rparr>, n_subs = []\<rparr>"

text \<open>The message an optional field is merged into: \<open>mutable_info\<close>. For a repeated one \<open>add_list\<close> makes a new one.\<close>

definition sub_target :: "'a sub_class \<Rightarrow> nest_desc \<Rightarrow> 'a list \<Rightarrow> 'a" where
  "sub_target S d subs = (case subs of x # _ \<Rightarrow> if nd_rep d then sub_new S else x | [] \<Rightarrow> sub_new S)"

definition sub_store :: "nest_desc \<Rightarrow> 'a \<Rightarrow> 'a list \<Rightarrow> 'a list" where
  "sub_store d x subs = (if nd_rep d then subs @ [x] else [x])"

definition nest_MergeFrom :: "'a sub_class \<Rightarrow> nest_desc \<Rightarrow> 'a nest_msg \<Rightarrow> 'a nest_msg \<Rightarrow> 'a nest_msg" where
  "nest_MergeFrom S d from m =
     \<lparr>n_flat = pb_MergeFrom (nd_flat d) (n_flat from) (n_flat m),
      n_subs = fold (\<lambda>x subs. sub_store d (sub_MergeFrom S x (sub_target S d subs)) subs) (n_subs from) (n_subs m)\<rparr>"

definition nest_CopyFrom :: "'a sub_class \<Rightarrow> nest_desc \<Rightarrow> 'a nest_msg \<Rightarrow> 'a nest_msg \<Rightarrow> 'a nest_msg" where
  "nest_CopyFrom S d from m = nest_MergeFrom S d from (nest_Clear d m)"

definition nest_Swap :: "'a nest_msg \<Rightarrow> 'a nest_msg \<Rightarrow> 'a nest_msg \<times> 'a nest_msg" where
  "nest_Swap m other = (other, m)"

section \<open>Serializing\<close>

text \<open>The cached size, written before an inner message, is the one \<open>ByteSize\<close> has left there.\<close>

definition WriteMessageNoVirtualToArray :: "pb_env \<Rightarrow> 'a sub_class \<Rightarrow> nat \<Rightarrow> 'a \<Rightarrow> string option" where
  "WriteMessageNoVirtualToArray E S n x = (case (sub_ByteSize S x, sub_Serialize S x) of
     (Some len, Some s) \<Rightarrow> Some (WriteTagToArray E (MakeTag n WIRETYPE_LENGTH_DELIMITED) @
       WriteVarint32ToArray E (word_of_nat len) @ s)
   | _ \<Rightarrow> None)"

definition MessageSizeNoVirtual :: "pb_env \<Rightarrow> 'a sub_class \<Rightarrow> 'a \<Rightarrow> nat option" where
  "MessageSizeNoVirtual E S x = map_option (LengthDelimitedSize E) (sub_ByteSize S x)"

definition nest_Serialize :: "pb_env \<Rightarrow> 'a sub_class \<Rightarrow> nest_desc \<Rightarrow> 'a nest_msg \<Rightarrow> string option" where
  "nest_Serialize E S d m = map_option (\<lambda>subs. pb_fields E (nd_before d) (n_flat m) @ concat subs @
       pb_fields E (nd_after d) (n_flat m) @ pb_unknown (n_flat m))
     (those (map (WriteMessageNoVirtualToArray E S (nd_sub d)) (n_subs m)))"

definition nest_ByteSize :: "pb_env \<Rightarrow> 'a sub_class \<Rightarrow> nest_desc \<Rightarrow> 'a nest_msg \<Rightarrow> nat option" where
  "nest_ByteSize E S d m = Option.bind (those (map (MessageSizeNoVirtual E S) (n_subs m)))
     (\<lambda>sizes. int_size (pb_total_size E (nd_flat d) (n_flat m) + sum_list (map Suc sizes)))"

section \<open>Parsing\<close>

text \<open>
  \<open>ReadMessageNoVirtual\<close>: the length, and the inner message within a limit of so many bytes (never beyond the
  limits around it), which it has to use up, one level deeper; behind it the depth is what it was. The outer
  \<open>None\<close>: the inner parser does not return.
\<close>

definition ReadMessageNoVirtual ::
  "pb_env \<Rightarrow> 'a sub_class \<Rightarrow> nat \<Rightarrow> string \<Rightarrow> 'a \<Rightarrow> ('a \<times> string) option option" where
  "ReadMessageNoVirtual E S depth input x = (case ReadVarint32 E input of
     None \<Rightarrow> Some None
   | Some (len, rest) \<Rightarrow>
       let (depth, allowed) = IncrementRecursionDepth E depth in
       if \<not> allowed then Some None
       else (case sub_merge S depth (take (unat len) rest) x of
           None \<Rightarrow> None
         | Some (Some (y, True)) \<Rightarrow> Some (Some (y, drop (unat len) rest))
         | Some _ \<Rightarrow> Some None))"

text \<open>The wire type of a field of the class.\<close>

definition nest_wire :: "nest_desc \<Rightarrow> nat \<Rightarrow> 32 word option" where
  "nest_wire d n = (if n = nd_sub d then Some WIRETYPE_LENGTH_DELIMITED else map_option wire_type (map_of (nd_flat d) n))"

definition nest_read ::
  "pb_env \<Rightarrow> 'a sub_class \<Rightarrow> nest_desc \<Rightarrow> nat \<Rightarrow> nat \<Rightarrow> string \<Rightarrow> 'a nest_msg \<Rightarrow> ('a nest_msg \<times> string) option option" where
  "nest_read E S d depth n input m =
     (if n = nd_sub d then
        map_option (map_option (\<lambda>(y, rest). (m\<lparr>n_subs := sub_store d y (n_subs m)\<rparr>, rest)))
          (ReadMessageNoVirtual E S depth input (sub_target S d (n_subs m)))
      else Some (case map_of (nd_flat d) n of
        None \<Rightarrow> None
      | Some ty \<Rightarrow> map_option (\<lambda>(v, rest). (m\<lparr>n_flat := pb_set n v (n_flat m)\<rparr>, rest)) (pb_read E ty input)))"

text \<open>The tags tried behind a field: its own if it is repeated, then that of the next field.\<close>

definition expect_field :: "nest_desc \<Rightarrow> nat \<Rightarrow> string \<Rightarrow> (nat \<times> string) option" where
  "expect_field d n rest = (case nest_wire d n of
     None \<Rightarrow> None | Some w \<Rightarrow> map_option (\<lambda>rest'. (n, rest')) (ExpectTag (MakeTag n w) rest))"

definition expect_next :: "nest_desc \<Rightarrow> nat \<Rightarrow> string \<Rightarrow> (nat \<times> string) option" where
  "expect_next d n rest = (case (if n = nd_sub d \<and> nd_rep d then expect_field d n rest else None) of
     Some r \<Rightarrow> Some r | None \<Rightarrow> expect_field d (Suc n) rest)"

definition nest_tag :: "nest_desc \<Rightarrow> 32 word \<Rightarrow> bool" where
  "nest_tag d tag \<longleftrightarrow> nest_wire d (GetTagFieldNumber tag) = Some (GetTagWireType tag)"

text \<open>\<open>MergePartialFromCodedStream\<close>, with labels and results as in \<^const>\<open>pb_merge\<close>.\<close>

partial_function (option) nest_merge ::
  "pb_env \<Rightarrow> 'a sub_class \<Rightarrow> nest_desc \<Rightarrow> nat \<Rightarrow> nat option \<Rightarrow> string \<Rightarrow> 'a nest_msg \<Rightarrow> ('a nest_msg \<times> bool) option option" where
  "nest_merge E S d depth jump input m = (case jump of
     Some n \<Rightarrow> (case nest_read E S d depth n input m of
         None \<Rightarrow> None
       | Some None \<Rightarrow> Some None
       | Some (Some (m, rest)) \<Rightarrow> (case expect_next d n rest of
           Some (n', rest') \<Rightarrow> nest_merge E S d depth (Some n') rest' m
         | None \<Rightarrow> if nest_wire d (Suc n) = None \<and> ExpectAtEnd rest then Some (Some (m, True))
                   else nest_merge E S d depth None rest m))
   | None \<Rightarrow>
       let (tag, rest) = ReadTag E input in
       if tag = 0 then Some (Some (m, input = []))
       else if nest_tag d tag then nest_merge E S d depth (Some (GetTagFieldNumber tag)) rest m
       else if GetTagWireType tag = WIRETYPE_END_GROUP then Some (Some (m, False))
       else (case SkipField E tag rest (pb_unknown (n_flat m)) of
           None \<Rightarrow> Some None
         | Some (u, rest) \<Rightarrow> nest_merge E S d depth None rest (m\<lparr>n_flat := (n_flat m)\<lparr>pb_unknown := u\<rparr>\<rparr>)))"

definition nest_ParseFromArray :: "pb_env \<Rightarrow> 'a sub_class \<Rightarrow> nest_desc \<Rightarrow> string \<Rightarrow> 'a nest_msg \<Rightarrow> 'a nest_msg option" where
  "nest_ParseFromArray E S d input m =
     (if kDefaultTotalBytesLimit < length input \<and> total_bytes_refused E input then None
      else case nest_merge E S d 0 None input (nest_Clear d m) of
     Some (Some (m, True)) \<Rightarrow> Some m | _ \<Rightarrow> None)"

section \<open>The three classes\<close>

definition nest_class :: "pb_env \<Rightarrow> 'a sub_class \<Rightarrow> nest_desc \<Rightarrow> 'a nest_msg sub_class" where
  "nest_class E S d = \<lparr>sub_new = nest_new d, sub_merge = (\<lambda>depth. nest_merge E S d depth None), sub_MergeFrom = nest_MergeFrom S d,
     sub_Serialize = nest_Serialize E S d, sub_ByteSize = nest_ByteSize E S d\<rparr>"

definition RoomInfo :: nest_desc where
  "RoomInfo = \<lparr>nd_before = [(1, T_bytes), (2, T_bytes), (3, T_uint32)], nd_sub = 4, nd_rep = True,
     nd_after = [(5, T_uint32), (6, T_bytes), (7, T_uint32)]\<rparr>"

definition GetRoomInfoRsp :: nest_desc where
  "GetRoomInfoRsp = \<lparr>nd_before = [(1, T_uint32)], nd_sub = 2, nd_rep = False, nd_after = []\<rparr>"

definition GetRoomListRsp :: nest_desc where
  "GetRoomListRsp = \<lparr>nd_before = [(1, T_uint32)], nd_sub = 2, nd_rep = True, nd_after = []\<rparr>"

abbreviation user_class :: "pb_env \<Rightarrow> pb_msg sub_class" where
  "user_class E \<equiv> flat_class E UserInfo"

abbreviation room_class :: "pb_env \<Rightarrow> pb_msg nest_msg sub_class" where
  "room_class E \<equiv> nest_class E (user_class E) RoomInfo"

end
