(* ===== verification/Pb_Varint.thy ===== *)
theory Pb_Varint
  imports Pb_Wire
begin

text \<open>
  A library that keeps the promises of \<open>pb_wire\<close>: base 128 varints, least significant group first, and the
  lengths and wire types of the encoding guide. It shows that the promises can be kept, and the theorems on
  the messages are stated here.
\<close>

section \<open>Varints\<close>

fun varint_write :: "nat \<Rightarrow> string" where
  "varint_write n = (if n < 128 then [char_of n] else char_of (128 + n mod 128) # varint_write (n div 128))"

declare varint_write.simps [simp del]

primrec varint_read :: "string \<Rightarrow> (nat \<times> string) option" where
  "varint_read [] = None"
| "varint_read (c # cs) =
     (if byte c < 128 then Some (byte c, cs)
      else map_option (\<lambda>(n, rest). (byte c - 128 + 128 * n, rest)) (varint_read cs))"

lemma varint_read_write [simp]: "varint_read (varint_write n @ rest) = Some (n, rest)"
proof (induction n rule: varint_write.induct)
  case (1 n)
  show ?case
  proof (cases "n < 128")
    case False
    have "n mod 128 < 128" by simp
    then have b: "byte (char_of (128 + n mod 128)) = 128 + n mod 128" by simp
    have "n mod 128 + 128 * (n div 128) = n" by simp
    with 1 False show ?thesis by (simp add: varint_write.simps [of n] b)
  qed (simp add: varint_write.simps [of n])
qed

lemma varint_read_shrinks: "varint_read s = Some (n, rest) \<Longrightarrow> length rest < length s"
  by (induction s arbitrary: n) (force split: if_splits)+

lemma varint_write_head: "128 \<le> n \<Longrightarrow> varint_write n = char_of (128 + n mod 128) # varint_write (n div 128)"
  by (simp add: varint_write.simps [of n])

section \<open>The library\<close>

definition take_bytes :: "nat \<Rightarrow> string \<Rightarrow> (string \<times> string) option" where
  "take_bytes n s = (if n \<le> length s then Some (take n s, drop n s) else None)"

definition varint_bytes :: "string \<Rightarrow> (string \<times> string) option" where
  "varint_bytes s = Option.bind (varint_read s) (\<lambda>(n, rest). take_bytes n rest)"

text \<open>The bytes behind a field of this wire type (groups are refused).\<close>

definition skip_value :: "nat \<Rightarrow> string \<Rightarrow> string option" where
  "skip_value ty s =
     (if ty = 0 then map_option snd (varint_read s)
      else if ty = 1 then map_option snd (take_bytes 8 s)
      else if ty = 2 then map_option snd (varint_bytes s)
      else if ty = 5 then map_option snd (take_bytes 4 s)
      else None)"

definition varint_lib :: pb_env where
  "varint_lib = \<lparr>
     ReadVarint32Fallback = (\<lambda>s. map_option (\<lambda>(n, rest). (word_of_nat n, rest)) (varint_read s)),
     ReadTagFallback = (\<lambda>s. case varint_read s of None \<Rightarrow> (0, []) | Some (n, rest) \<Rightarrow> (word_of_nat n, rest)),
     WriteVarint32FallbackToArray = (\<lambda>v. varint_write (unat v)),
     VarintSize32Fallback = (\<lambda>v. length (varint_write (unat v))),
     WriteStringWithSizeToArray = (\<lambda>s. varint_write (unat (word_of_nat (length s) :: 32 word)) @ s),
     ReadBytes = varint_bytes,
     SkipField = (\<lambda>t s u. map_option (\<lambda>rest.
       (u @ varint_write (unat t) @ take (length s - length rest) s, rest)) (skip_value (unat (GetTagWireType t)) s)),
     total_bytes_refused = (\<lambda>s. True), recursion_limit = 100\<rparr>"

lemma take_bytes_shrinks: "take_bytes n s = Some (b, rest) \<Longrightarrow> length rest \<le> length s"
  by (auto simp: take_bytes_def split: if_splits)

lemma varint_bytes_shrinks: "varint_bytes s = Some (b, rest) \<Longrightarrow> length rest \<le> length s"
  by (fastforce simp: varint_bytes_def bind_eq_Some_conv dest: varint_read_shrinks take_bytes_shrinks)

lemma skip_value_shrinks: "skip_value ty s = Some rest \<Longrightarrow> length rest \<le> length s"
  by (fastforce simp: skip_value_def split: if_splits
      dest: varint_read_shrinks take_bytes_shrinks varint_bytes_shrinks)

lemma write_varint: "WriteVarint32ToArray varint_lib v = varint_write (unat v)"
  by (simp add: WriteVarint32ToArray_def varint_lib_def unat_128 varint_write.simps [of "unat v"])

interpretation varint: pb_wire varint_lib
proof
  fix v :: "32 word" and rest :: string
  assume "0x80 \<le> v"
  then have v: "128 \<le> unat v" by (simp add: word_le_nat_alt)
  show "ReadVarint32Fallback varint_lib (WriteVarint32FallbackToArray varint_lib v @ rest) = Some (v, rest)"
    by (simp add: varint_lib_def)
  have "unat v mod 128 < 128" by simp
  then show "\<exists>c cs. WriteVarint32FallbackToArray varint_lib v = c # cs \<and> 0x80 \<le> byte c"
    by (simp add: varint_lib_def varint_write_head [OF v])
  show "VarintSize32Fallback varint_lib v = length (WriteVarint32FallbackToArray varint_lib v)"
    by (simp add: varint_lib_def)
next
  show "WriteStringWithSizeToArray varint_lib s = WriteVarint32ToArray varint_lib (word_of_nat (length s)) @ s" for s
    unfolding write_varint by (simp add: varint_lib_def)
  show "ReadTagFallback varint_lib [] = (0, [])" by (simp add: varint_lib_def)
next
  fix s rest :: string
  assume "length s < 2 ^ 31"
  then have "unat (word_of_nat (length s) :: 32 word) = length s" by (simp add: unat_of_nat)
  then show "ReadBytes varint_lib (WriteVarint32ToArray varint_lib (word_of_nat (length s)) @ s @ rest) = Some (s, rest)"
    by (simp add: write_varint) (simp add: varint_lib_def varint_bytes_def take_bytes_def)
next
  show "length rest < length s" if "ReadTagFallback varint_lib s = (t, rest)" "t \<noteq> 0" for s t rest
    using that by (auto simp: varint_lib_def split: option.splits dest: varint_read_shrinks)
  show "length rest \<le> length s" if "ReadVarint32Fallback varint_lib s = Some (v, rest)" for s v rest
    using that by (fastforce simp: varint_lib_def dest: varint_read_shrinks)
  show "length rest \<le> length s" if "ReadBytes varint_lib s = Some (b, rest)" for s b rest
    using that by (simp add: varint_lib_def varint_bytes_shrinks)
  show "length rest \<le> length s" if "SkipField varint_lib t s u = Some (u', rest)" for t s u u' rest
    using that by (auto simp: varint_lib_def dest: skip_value_shrinks)
  show "recursion_limit varint_lib = 100" by (simp add: varint_lib_def)
qed

lemma classes_table: "d \<in> set pb_classes \<Longrightarrow> pb_table d"
  using pb_classes_tables by (simp add: list_all_iff)

interpretation sshead: pb_class varint_lib SSHead
  by unfold_locales (simp add: classes_table pb_classes_def)

section \<open>The messages of the program\<close>

lemma pb_class_of: "pb_wire E \<Longrightarrow> d \<in> set pb_classes \<Longrightarrow> pb_class E d"
  by (simp add: pb_class_def pb_class_axioms_def classes_table)

lemma pb_short_new [simp]: "pb_short (pb_new d)"
proof -
  have "length s < 2 ^ 31" if "pb_default ty = V_bytes s" for ty s
    using that by (cases ty) simp_all
  then show ?thesis by (auto simp: pb_short_def pb_new_def split: option.splits)
qed

lemma pb_short_set [simp]:
  "pb_short m \<Longrightarrow> pb_short (pb_set n (V_uint32 v) m)"
  "pb_short m \<Longrightarrow> length s < 2 ^ 31 \<Longrightarrow> pb_short (pb_set n (V_bytes s) m)"
  by (auto simp: pb_short_def pb_set_def)

lemma pb_unknown_new [simp]: "pb_unknown (pb_new d) = []" "pb_unknown (pb_set n v m) = pb_unknown m"
  by (simp_all add: pb_new_def pb_set_def)

lemma parse_Serialize_append:
  assumes "pb_wire E" "d \<in> set pb_classes" "pb_ok d m" "pb_ok d a" "pb_short a" "pb_unknown a = []"
    "length (pb_Serialize E d a) + length rest \<le> kDefaultTotalBytesLimit"
  shows "pb_ParseFromArray E d (pb_Serialize E d a @ rest) m =
    (case pb_merge E d None rest a of Some (Some (m, True)) \<Rightarrow> Some m | _ \<Rightarrow> None)"
proof -
  note cls = pb_class_of [OF assms(1,2)]
  have "pb_MergeFrom d a (pb_Clear d m) = a"
    using pb_CopyFrom_eq [OF classes_table [OF assms(2)] assms(4,3)] by (simp add: pb_CopyFrom_def)
  then show ?thesis
    using pb_class.merge_Serialize [OF cls assms(4) _ assms(6), of rest "pb_Clear d m"] assms(5,7)
    by (simp add: pb_ParseFromArray_def pb_short_def)
qed

lemma parse_Serialize:
  assumes "pb_wire E" "d \<in> set pb_classes" "pb_ok d m" "pb_ok d a" "pb_short a" "pb_unknown a = []"
    "length (pb_Serialize E d a) \<le> kDefaultTotalBytesLimit"
  shows "pb_ParseFromArray E d (pb_Serialize E d a) m = Some a"
  using parse_Serialize_append [OF assms(1-6), of "[]"] assms(7) pb_class.merge_end [OF pb_class_of [OF assms(1,2)]] by simp

section \<open>Properties\<close>

text \<open>C3: The classes of \<open>common.proto\<close> on the wire, for messages without unknown fields that together take no more
  than the 64 MB a stream reads (\<open>kDefaultTotalBytesLimit\<close>): parsing what was serialized gives the message back,
  whatever the object held before; parsing two messages written one behind the other gives the first with
  the present fields of the second merged into it; and \<open>ByteSize\<close>, which sizes the buffer, does not overflow
  its \<open>int\<close> and is the number of bytes that are written.\<close>

theorem pb_round_trip:
  assumes "pb_wire E" "d \<in> set pb_classes" "pb_ok d m"
    "pb_ok d a" "pb_short a" "pb_unknown a = []" "pb_ok d b" "pb_short b" "pb_unknown b = []"
    "length (pb_Serialize E d a) + length (pb_Serialize E d b) \<le> kDefaultTotalBytesLimit"
  shows "pb_ParseFromArray E d (pb_Serialize E d a) m = Some a \<and>
    pb_ParseFromArray E d (pb_Serialize E d a @ pb_Serialize E d b) m = Some (pb_MergeFrom d b a) \<and>
    pb_ByteSize E d a = Some (length (pb_Serialize E d a))"
proof -
  note cls = pb_class_of [OF assms(1,2)]
  have "pb_merge E d None (pb_Serialize E d b) a = Some (Some (pb_MergeFrom d b a, True))"
    using pb_class.merge_Serialize [OF cls assms(7) _ assms(9), of "[]" a] assms(8)
    by (simp add: pb_short_def pb_class.merge_end [OF cls])
  then show ?thesis
    using parse_Serialize [OF assms(1-6)] parse_Serialize_append [OF assms(1-6,10)] assms(10)
      pb_class.size_Serialize [OF cls assms(4)]
    by (simp add: pb_ByteSize_def int_size_def kDefaultTotalBytesLimit_def)
qed

text \<open>A head with a command and an identifier, and one with a command only.\<close>

definition demo_head :: pb_msg where
  "demo_head = pb_set 1 (V_uint32 300) (pb_set 2 (V_bytes ''u'') (pb_new SSHead))"

definition demo_command :: pb_msg where
  "demo_command = pb_set 1 (V_uint32 7) (pb_new SSHead)"

lemma SSHead_class: "SSHead \<in> set pb_classes"
  by (simp add: pb_classes_def)

lemma demo_heads:
  "pb_ok SSHead demo_head \<and> pb_short demo_head \<and> pb_unknown demo_head = []"
  "pb_ok SSHead demo_command \<and> pb_short demo_command \<and> pb_unknown demo_command = []"
  by (simp_all add: demo_head_def demo_command_def pb_ok_set pb_ok_new SSHead_def [THEN arg_cong, of map_of])

lemma demo_bytes:
  "pb_Serialize varint_lib SSHead demo_head = [CHR 0x08, CHR 0xAC, CHR 0x02, CHR 0x12, CHR 0x01, CHR ''u'']"
  "pb_Serialize varint_lib SSHead demo_command = [CHR 0x08, CHR 0x07]"
  by (simp_all add: pb_Serialize_def pb_fields_def demo_head_def demo_command_def SSHead_def pb_set_def pb_new_def
      WriteUInt32ToArray_def WriteBytesToArray_def WriteTagToArray_def MakeTag_def varint.string_write write_varint varint_write.simps)
    code_simp+

theorem pb_round_trip_witness:
  "pb_ParseFromArray varint_lib SSHead [CHR 0x08, CHR 0xAC, CHR 0x02, CHR 0x12, CHR 0x01, CHR ''u''] demo_command = Some demo_head \<and>
   pb_ParseFromArray varint_lib SSHead [CHR 0x08, CHR 0xAC, CHR 0x02, CHR 0x12, CHR 0x01, CHR ''u'', CHR 0x08, CHR 0x07] demo_command =
     Some (pb_MergeFrom SSHead demo_command demo_head) \<and>
   pb_ByteSize varint_lib SSHead demo_head = Some 6"
  using pb_round_trip [OF varint.pb_wire_axioms SSHead_class, of demo_command demo_head demo_command] demo_heads
  by (simp add: demo_bytes kDefaultTotalBytesLimit_def)

text \<open>C4: The loop of \<open>MergePartialFromCodedStream\<close> ends for every input, and its jumps to the label of the next
  field in the table, taken when that field's tag is next, never change its result: it computes what the
  loop does that only looks tags up, for malformed and truncated inputs too.\<close>

theorem pb_merge_is_plain:
  assumes "pb_wire E" "d \<in> set pb_classes"
  shows "(\<exists>r. pb_merge E d None input m = Some r) \<and> pb_merge E d None input m = pb_plain E d input m"
  using pb_class.merge_plain [OF pb_class_of [OF assms], of input m] by (metis not_None_eq)

theorem pb_merge_is_plain_witness:
  "\<exists>r. pb_merge varint_lib SSHead None [CHR 0x08] (pb_new SSHead) = Some r \<and>
    pb_plain varint_lib SSHead [CHR 0x08] (pb_new SSHead) = Some r"
  using pb_merge_is_plain [OF varint.pb_wire_axioms SSHead_class, of "[CHR 0x08]" "pb_new SSHead"] by metis

text \<open>C6: The type invariant of the message objects (every field has a value of its type, absent fields the
  default): new objects have it, the accessors, \<open>Clear\<close>, \<open>MergeFrom\<close>, \<open>CopyFrom\<close>, \<open>Swap\<close> and parsing keep it, for
  every input and whatever the library does; \<open>Clear\<close> gives the state of a new object although it resets only
  some members, and \<open>CopyFrom\<close> a copy.\<close>

theorem pb_operations_keep_types:
  assumes "d \<in> set pb_classes" "pb_ok d m" "pb_ok d other"
  shows "pb_ok d (pb_new d) \<and>
    (\<forall>n v. map_of d n = Some (val_type v) \<longrightarrow> pb_ok d (pb_set n v m)) \<and>
    (\<forall>n ty. map_of d n = Some ty \<longrightarrow> pb_ok d (pb_clear_field n ty m)) \<and>
    pb_Clear d m = pb_new d \<and> pb_ok d (pb_MergeFrom d other m) \<and> pb_CopyFrom d other m = other \<and>
    (case pb_Swap m other of (m', other') \<Rightarrow> pb_ok d m' \<and> pb_ok d other') \<and>
    (\<forall>input m' e. pb_merge E d None input m = Some (Some (m', e)) \<longrightarrow> pb_ok d m') \<and>
    (\<forall>input m'. pb_ParseFromArray E d input m = Some m' \<longrightarrow> pb_ok d m')"
proof -
  note table = classes_table [OF assms(1)]
  have clear: "pb_Clear d m = pb_new d" by (rule pb_Clear_new [OF table assms(2)])
  have parse: "pb_ok d m'" if "pb_ParseFromArray E d input m = Some m'" for input m'
    using that by (auto simp: pb_ParseFromArray_def clear pb_ok_new split: option.splits bool.splits if_splits intro: pb_ok_merge)
  show ?thesis
    using assms parse clear pb_CopyFrom_eq [OF table assms(3,2)] pb_ok_MergeFrom [OF table assms(3,2)]
    by (auto simp: pb_ok_new pb_ok_set pb_ok_clear_field pb_Swap_def intro: pb_ok_merge)
qed

theorem pb_operations_keep_types_witness:
  "pb_Clear SSHead demo_head = pb_new SSHead \<and> pb_CopyFrom SSHead demo_command demo_head = demo_command \<and>
    pb_ok SSHead (pb_set 1 (V_uint32 5) demo_head)"
  using pb_operations_keep_types [OF SSHead_class, of demo_head demo_command varint_lib] demo_heads
  by (simp add: SSHead_def [THEN arg_cong, of map_of])

section \<open>The head of a request\<close>

text \<open>What \<open>CWorkThread::Process\<close> does with the head: parse it into a new \<open>SSHead\<close> and take the command.\<close>

definition SSHead_command :: "pb_env \<Rightarrow> string \<Rightarrow> 32 word option" where
  "SSHead_command E bs = map_option (\<lambda>m. case pb_value m 1 of V_uint32 v \<Rightarrow> v | V_bytes s \<Rightarrow> 0)
     (pb_ParseFromArray E SSHead bs (pb_new SSHead))"

text \<open>The heads a sender can make with the accessors.\<close>

definition sendable :: "pb_msg \<Rightarrow> bool" where
  "sendable m \<longleftrightarrow> pb_ok SSHead m \<and> pb_short m \<and> pb_unknown m = []"

lemma SSHead_command_Serialize:
  assumes "pb_wire E" "sendable (pb_set 1 (V_uint32 cmd) m)"
    "length (pb_Serialize E SSHead (pb_set 1 (V_uint32 cmd) m)) \<le> kDefaultTotalBytesLimit"
  shows "SSHead_command E (pb_Serialize E SSHead (pb_set 1 (V_uint32 cmd) m)) = Some cmd"
  using parse_Serialize [OF assms(1) SSHead_class pb_ok_new, of "pb_set 1 (V_uint32 cmd) m"] assms(2,3)
  by (simp add: SSHead_command_def sendable_def) (simp add: pb_set_def)

end
