(* ===== verification/Pb_Rooms.thy ===== *)
theory Pb_Rooms
  imports Pb_Nested Pb_Varint
begin

text \<open>
  The classes that contain messages. The locale \<open>sub_messages\<close> says what a class with inner messages relies on;
  the flat classes have it (\<open>pb_class\<close>), and a class whose inner messages have it has it too (\<open>nest\<close>), so the
  lists of rooms with their users are read back as they were written.
\<close>

section \<open>What the inner messages promise\<close>

locale sub_messages = pb_wire E for E :: pb_env +
  fixes S :: "'a sub_class" and ok :: "'a \<Rightarrow> bool" and sends :: "'a \<Rightarrow> bool" and levels :: nat
  assumes sub_total: "sub_merge S depth s x \<noteq> None"
    and sub_new_ok: "ok (sub_new S)"
    and sub_merge_ok: "sub_merge S depth s x = Some (Some (y, e)) \<Longrightarrow> ok x \<Longrightarrow> ok y"
    and sub_MergeFrom_ok: "ok x \<Longrightarrow> ok y \<Longrightarrow> ok (sub_MergeFrom S x y)"
    and sub_MergeFrom_new: "ok x \<Longrightarrow> sub_MergeFrom S x (sub_new S) = x"
    and sub_parse: "sends x \<Longrightarrow> depth + levels \<le> recursion_limit E \<Longrightarrow>
      \<exists>s. sub_Serialize S x = Some s \<and> sub_merge S depth s y = Some (Some (sub_MergeFrom S x y, True))"
    and sub_size: "ok x \<Longrightarrow> sub_Serialize S x = Some s \<Longrightarrow> sub_ByteSize S x = int_size (length s)"
    and sends_ok: "sends x \<Longrightarrow> ok x"

definition pb_sends :: "pb_desc \<Rightarrow> pb_msg \<Rightarrow> bool" where
  "pb_sends d m \<longleftrightarrow> pb_ok d m \<and> pb_short m \<and> pb_unknown m = []"

lemma pb_Clear_Clear: "pb_table d \<Longrightarrow> pb_Clear d (pb_new d) = pb_new d"
  by (simp add: pb_Clear_new pb_ok_new)

sublocale pb_class \<subseteq> flat: sub_messages E "flat_class E d" "pb_ok d" "pb_sends d" 0
proof
  show "sub_merge (flat_class E d) depth s x \<noteq> None" for depth s x
    using merge_plain [of s x, THEN conjunct2] by (simp add: flat_class_def)
  show "pb_ok d (sub_new (flat_class E d))" by (simp add: flat_class_def pb_ok_new)
  show "pb_ok d y" if "sub_merge (flat_class E d) depth s x = Some (Some (y, e))" "pb_ok d x" for depth s x y e
    using that by (auto simp: flat_class_def intro: pb_ok_merge)
  show "pb_ok d (sub_MergeFrom (flat_class E d) x y)" if "pb_ok d x" "pb_ok d y" for x y
    using that by (simp add: flat_class_def pb_ok_MergeFrom [OF table])
  show "sub_MergeFrom (flat_class E d) x (sub_new (flat_class E d)) = x" if "pb_ok d x" for x
    using pb_CopyFrom_eq [OF table that pb_ok_new] by (simp add: flat_class_def pb_CopyFrom_def pb_Clear_Clear [OF table])
  show "\<exists>s. sub_Serialize (flat_class E d) x = Some s \<and>
      sub_merge (flat_class E d) depth s y = Some (Some (sub_MergeFrom (flat_class E d) x y, True))"
    if "pb_sends d x" for x depth y
    using merge_Serialize [of x "[]" y] that by (simp add: flat_class_def pb_sends_def pb_short_def merge_end)
  show "sub_ByteSize (flat_class E d) x = int_size (length s)"
    if "pb_ok d x" "sub_Serialize (flat_class E d) x = Some s" for x s
    using that by (simp add: flat_class_def pb_ByteSize_def size_Serialize [OF that(1)])
  show "pb_ok d x" if "pb_sends d x" for x
    using that by (simp add: pb_sends_def)
qed

context pb_class
begin

lemma flat_messages: "sub_messages E (flat_class E d) (pb_ok d) (pb_sends d) 0"
  by unfold_locales

end

section \<open>Well-typed messages\<close>

definition nest_ok :: "('a \<Rightarrow> bool) \<Rightarrow> nest_desc \<Rightarrow> 'a nest_msg \<Rightarrow> bool" where
  "nest_ok ok d m \<longleftrightarrow> pb_ok (nd_flat d) (n_flat m) \<and> list_all ok (n_subs m) \<and> (nd_rep d \<or> length (n_subs m) \<le> 1)"

definition nest_sends :: "'a sub_class \<Rightarrow> ('a \<Rightarrow> bool) \<Rightarrow> nest_desc \<Rightarrow> 'a nest_msg \<Rightarrow> bool" where
  "nest_sends S sends d m \<longleftrightarrow> pb_sends (nd_flat d) (n_flat m) \<and>
     list_all (\<lambda>x. sends x \<and> sub_ByteSize S x \<noteq> None) (n_subs m) \<and> (nd_rep d \<or> length (n_subs m) \<le> 1)"

locale nest = sub_messages +
  fixes d :: nest_desc
  assumes table: "pb_table (nd_flat d)"
    and levels: "Suc levels \<le> 100"
    and sub_number: "0 < nd_sub d" "nd_sub d < 16" "nd_sub d \<notin> fst ` set (nd_flat d)"
begin

lemma nest_field_tag:
  assumes "nest_wire d n = Some w"
  shows "MakeTag n w < 128" "MakeTag n w \<noteq> 0" "nest_tag d (MakeTag n w)" "GetTagFieldNumber (MakeTag n w) = n"
proof -
  have "0 < n \<and> n < 16 \<and> (w = 0 \<or> w = 2)"
  proof (cases "n = nd_sub d")
    case True
    with assms sub_number show ?thesis by (simp add: nest_wire_def)
  next
    case False
    with assms obtain ty where ty: "map_of (nd_flat d) n = Some ty" "w = wire_type ty"
      by (auto simp: nest_wire_def simp del: map_of_append)
    then show ?thesis using pb_table_numbers [OF table ty(1)] by (cases ty) auto
  qed
  then show "MakeTag n w < 128" "MakeTag n w \<noteq> 0" "nest_tag d (MakeTag n w)" "GetTagFieldNumber (MakeTag n w) = n"
    using MakeTag_small [of n w] assms by (auto simp: nest_tag_def)
qed

lemma nest_end: "nest_merge E S d depth None [] m = Some (Some (m, True))"
  by (subst nest_merge.simps) (simp add: read_tag_end)

lemma expect_field_tag:
  assumes "expect_field d n rest = Some (n', rest')"
  shows "\<exists>tag. ReadTag E rest = (tag, rest') \<and> tag \<noteq> 0 \<and> nest_tag d tag \<and> GetTagFieldNumber tag = n'"
proof (cases "nest_wire d n")
  case None
  with assms show ?thesis by (simp add: expect_field_def)
next
  case (Some w)
  with assms have w: "nest_wire d n = Some w" "ExpectTag (MakeTag n w) rest = Some rest'" "n' = n"
    by (auto simp: expect_field_def)
  have "ReadTag E rest = (MakeTag n w, rest')"
    by (rule ExpectTag_ReadTag [OF nest_field_tag(1) [OF w(1)] w(2)])
  with nest_field_tag(2-4) [OF w(1)] show ?thesis by (simp add: w(3))
qed

lemma expect_next_tag:
  assumes "expect_next d n rest = Some (n', rest')"
  shows "\<exists>tag. ReadTag E rest = (tag, rest') \<and> tag \<noteq> 0 \<and> nest_tag d tag \<and> GetTagFieldNumber tag = n'"
  using assms by (auto simp: expect_next_def split: option.splits if_splits dest: expect_field_tag)

lemma nest_jump:
  "nest_merge E S d depth (Some n) input m = (case nest_read E S d depth n input m of
     None \<Rightarrow> None | Some None \<Rightarrow> Some None | Some (Some (m, rest)) \<Rightarrow> nest_merge E S d depth None rest m)"
proof -
  have jump: "nest_merge E S d depth (Some n') rest' m = nest_merge E S d depth None rest m"
    if "expect_next d n rest = Some (n', rest')" for n' rest' rest m
  proof -
    from expect_next_tag [OF that] obtain tag where
      "ReadTag E rest = (tag, rest')" "tag \<noteq> 0" "nest_tag d tag" "GetTagFieldNumber tag = n'" by blast
    then show ?thesis by (simp add: nest_merge.simps [of E S d depth None rest])
  qed
  show ?thesis
    by (subst nest_merge.simps) (auto simp: jump nest_end ExpectAtEnd_def split: option.split)
qed

text \<open>The loop as it would be without the jumps.\<close>

lemma nest_head: "nest_merge E S d depth None input m =
    (let (tag, rest) = ReadTag E input in
      if tag = 0 then Some (Some (m, input = []))
      else if nest_tag d tag then
        (case nest_read E S d depth (GetTagFieldNumber tag) rest m of
           None \<Rightarrow> None | Some None \<Rightarrow> Some None | Some (Some (m, rest)) \<Rightarrow> nest_merge E S d depth None rest m)
      else if GetTagWireType tag = WIRETYPE_END_GROUP then Some (Some (m, False))
      else (case SkipField E tag rest (pb_unknown (n_flat m)) of
          None \<Rightarrow> Some None
        | Some (u, rest) \<Rightarrow> nest_merge E S d depth None rest (m\<lparr>n_flat := (n_flat m)\<lparr>pb_unknown := u\<rparr>\<rparr>)))"
  by (subst nest_merge.simps) (auto simp: nest_jump split: prod.split option.splits)

lemma sub_read_shrinks: "ReadMessageNoVirtual E S depth input x = Some (Some (y, rest)) \<Longrightarrow> length rest \<le> length input"
  by (fastforce simp: ReadMessageNoVirtual_def IncrementRecursionDepth_def split: option.splits prod.splits bool.splits if_splits
    dest: read_varint_shrinks)

lemma nest_read_shrinks: "nest_read E S d depth n input m = Some (Some (m', rest)) \<Longrightarrow> length rest \<le> length input"
  by (auto simp: nest_read_def split: if_splits option.splits dest: sub_read_shrinks read_shrinks)

lemma nest_read_total: "nest_read E S d depth n input m \<noteq> None"
  by (simp add: sub_total nest_read_def ReadMessageNoVirtual_def split: option.split prod.split bool.split)

lemma nest_total: "nest_merge E S d depth None input m \<noteq> None"
proof (induction "length input" arbitrary: input m rule: less_induct)
  case less
  obtain tag rest where t: "ReadTag E input = (tag, rest)" by (cases "ReadTag E input")
  have ih: "nest_merge E S d depth None rest' m' \<noteq> None" if "tag \<noteq> 0" "length rest' \<le> length rest" for rest' m'
    by (rule less.hyps) (use read_tag_shrinks [OF t that(1)] that(2) in simp)
  consider "tag = 0" | "tag \<noteq> 0" "nest_tag d tag" | "tag \<noteq> 0" "\<not> nest_tag d tag" by blast
  then show ?case
  proof cases
    case 2
    then show ?thesis
      using nest_read_total [of depth "GetTagFieldNumber tag" rest m] nest_read_shrinks ih
      by (subst nest_head) (simp add: t split: option.split prod.split)
  next
    case 3
    then show ?thesis
      using skip_shrinks ih by (subst nest_head) (simp add: t split: option.split prod.split)
  qed (subst nest_head, simp add: t)
qed

lemma not_flat: "map_of (nd_flat d) (nd_sub d) = None"
  using sub_number(3) by (simp only: map_of_eq_None_iff not_False_eq_True)

lemma nest_flat_step:
  assumes n: "map_of (nd_flat d) n = Some (val_type v)" and len: "\<And>s. v = V_bytes s \<Longrightarrow> length s < 2 ^ 31"
  shows "nest_merge E S d depth None (pb_write E n v @ rest) m =
    nest_merge E S d depth None rest (m\<lparr>n_flat := pb_set n v (n_flat m)\<rparr>)"
proof -
  have "n \<noteq> nd_sub d" using n not_flat by auto
  then have "nest_wire d n = Some (wire_type (val_type v))"
    and read: "nest_read E S d depth n (pb_payload E v @ rest) m = Some (Some (m\<lparr>n_flat := pb_set n v (n_flat m)\<rparr>, rest))"
    using n read_payload [OF len] by (simp_all add: nest_wire_def nest_read_def del: map_of_append)
  note tag = nest_field_tag [OF this(1)]
  show ?thesis
    by (subst nest_head) (simp add: pb_write_payload WriteTag_small ReadTag_small tag read)
qed

lemma nest_flat_fields:
  assumes "pb_sends (nd_flat d) from" "\<forall>(n, ty)\<in>set ds. map_of (nd_flat d) n = Some ty"
  shows "nest_merge E S d depth None (pb_fields E ds from @ rest) m =
    nest_merge E S d depth None rest (m\<lparr>n_flat := merge_fields from ds (n_flat m)\<rparr>)"
  using assms(2)
proof (induction ds arbitrary: m)
  case (Cons f ds)
  obtain n ty where f: "f = (n, ty)" by (cases f)
  have ok: "pb_ok (nd_flat d) from" and short: "pb_short from" using assms(1) by (simp_all add: pb_sends_def)
  from Cons.prems f have "map_of (nd_flat d) n = Some ty" by simp
  from nest_flat_step [OF pb_ok_type [OF ok this]] short Cons f show ?case
    by (simp add: pb_fields_def pb_short_def)
qed (simp add: pb_fields_def)

lemma size_known:
  assumes "sends x" "sub_ByteSize S x \<noteq> None"
  shows "\<exists>s. sub_Serialize S x = Some s \<and> length s < 2 ^ 31 \<and> sub_ByteSize S x = Some (length s)"
proof -
  obtain s where s: "sub_Serialize S x = Some s"
    using sub_parse [OF assms(1), of 0] levels by (auto simp: default_limit)
  from sub_size [OF sends_ok [OF assms(1)] s] assms(2) s show ?thesis by (auto simp: int_size_def split: if_splits)
qed

lemma nest_sub_step:
  assumes "sends x" "sub_ByteSize S x \<noteq> None" "depth + Suc levels \<le> 100"
    "WriteMessageNoVirtualToArray E S (nd_sub d) x = Some w"
  shows "nest_merge E S d depth None (w @ rest) m =
    nest_merge E S d depth None rest
      (m\<lparr>n_subs := sub_store d (sub_MergeFrom S x (sub_target S d (n_subs m))) (n_subs m)\<rparr>)"
proof -
  from size_known [OF assms(1,2)] obtain s where s: "sub_Serialize S x = Some s" "length s < 2 ^ 31"
    "sub_ByteSize S x = Some (length s)" by blast
  have parse: "sub_merge S (Suc depth) s y = Some (Some (sub_MergeFrom S x y, True))" for y
    using sub_parse [OF assms(1), of "Suc depth" y] assms(3) s(1) by (simp add: default_limit)
  have len: "unat (word_of_nat (length s) :: 32 word) = length s"
    using s(2) by (simp add: unat_of_nat)
  have w: "w = WriteTagToArray E (MakeTag (nd_sub d) WIRETYPE_LENGTH_DELIMITED) @ WriteVarint32ToArray E (word_of_nat (length s)) @ s"
    using assms(4) by (simp add: WriteMessageNoVirtualToArray_def s)
  have wire: "nest_wire d (nd_sub d) = Some 2" by (simp add: nest_wire_def)
  note tag = nest_field_tag [OF wire]
  show ?thesis
    using assms(3) by (subst nest_head) (simp add: w WriteTag_small ReadTag_small tag nest_read_def
        ReadMessageNoVirtual_def IncrementRecursionDepth_def default_limit read_varint len parse)
qed

abbreviation "merge_subs xs subs \<equiv>
  fold (\<lambda>x subs. sub_store d (sub_MergeFrom S x (sub_target S d subs)) subs) xs subs"

lemma nest_subs:
  assumes "list_all (\<lambda>x. sends x \<and> sub_ByteSize S x \<noteq> None) xs" "depth + Suc levels \<le> 100"
  shows "\<exists>ws. those (map (WriteMessageNoVirtualToArray E S (nd_sub d)) xs) = Some ws \<and>
    (\<forall>rest m. nest_merge E S d depth None (concat ws @ rest) m =
      nest_merge E S d depth None rest (m\<lparr>n_subs := merge_subs xs (n_subs m)\<rparr>))"
  using assms(1)
proof (induction xs)
  case (Cons x xs)
  then have x: "sends x" "sub_ByteSize S x \<noteq> None" by simp_all
  from size_known [OF x] obtain w where w: "WriteMessageNoVirtualToArray E S (nd_sub d) x = Some w"
    by (auto simp: WriteMessageNoVirtualToArray_def)
  note step = nest_sub_step [OF x assms(2) w]
  from Cons obtain ws where "those (map (WriteMessageNoVirtualToArray E S (nd_sub d)) xs) = Some ws"
    "\<forall>rest m. nest_merge E S d depth None (concat ws @ rest) m =
      nest_merge E S d depth None rest (m\<lparr>n_subs := merge_subs xs (n_subs m)\<rparr>)" by auto
  then show ?case by (simp add: w step)
qed simp

lemma nest_merge_Serialize:
  assumes "nest_sends S sends d from" "depth + Suc levels \<le> 100"
  shows "\<exists>s. nest_Serialize E S d from = Some s \<and> (\<forall>rest m. nest_merge E S d depth None (s @ rest) m =
    nest_merge E S d depth None rest (nest_MergeFrom S d from m))"
proof -
  have flat: "pb_sends (nd_flat d) (n_flat from)"
    and subs: "list_all (\<lambda>x. sends x \<and> sub_ByteSize S x \<noteq> None) (n_subs from)"
    using assms(1) by (simp_all add: nest_sends_def)
  have keys: "\<forall>(n, ty)\<in>set (nd_flat d). map_of (nd_flat d) n = Some ty"
    using pb_table_distinct [OF table] by (auto simp del: map_append map_of_append set_append)
  then have "\<forall>(n, ty)\<in>set (nd_before d). map_of (nd_flat d) n = Some ty"
    "\<forall>(n, ty)\<in>set (nd_after d). map_of (nd_flat d) n = Some ty" by auto
  note steps = this [THEN nest_flat_fields [OF flat]]
  from nest_subs [OF subs assms(2)] obtain ws where
    ws: "those (map (WriteMessageNoVirtualToArray E S (nd_sub d)) (n_subs from)) = Some ws"
      "\<And>rest m. nest_merge E S d depth None (concat ws @ rest) m =
        nest_merge E S d depth None rest (m\<lparr>n_subs := merge_subs (n_subs from) (n_subs m)\<rparr>)" by blast
  have "pb_unknown (n_flat from) = []" using flat by (simp add: pb_sends_def)
  then show ?thesis
    by (auto simp: nest_Serialize_def ws steps nest_MergeFrom_def pb_MergeFrom_def Let_def
        intro!: arg_cong [of _ _ "nest_merge E S d depth None _"])
qed

end

sublocale nest \<subseteq> fl: pb_class E "nd_flat d"
  by unfold_locales (rule table)

context nest
begin

lemma size_sub:
  assumes "ok x" "WriteMessageNoVirtualToArray E S (nd_sub d) x = Some w"
  shows "\<exists>n. MessageSizeNoVirtual E S x = Some n \<and> length w = Suc n"
proof -
  from assms(2) obtain n s where s: "sub_ByteSize S x = Some n" "sub_Serialize S x = Some s"
    "w = WriteTagToArray E (MakeTag (nd_sub d) WIRETYPE_LENGTH_DELIMITED) @ WriteVarint32ToArray E (word_of_nat n) @ s"
    by (auto simp: WriteMessageNoVirtualToArray_def split: option.splits)
  have n: "n = length s" using sub_size [OF assms(1) s(2)] s(1) by (simp add: int_size_def split: if_splits)
  have "nest_wire d (nd_sub d) = Some 2" by (simp add: nest_wire_def)
  note tag = nest_field_tag(1) [OF this]
  show ?thesis
    by (simp add: s n WriteTag_small tag MessageSizeNoVirtual_def LengthDelimitedSize_def size_varint)
qed

lemma nest_size:
  assumes "nest_ok ok d m" "nest_Serialize E S d m = Some s"
  shows "nest_ByteSize E S d m = int_size (length s)"
proof -
  have subs: "\<exists>ns. those (map (MessageSizeNoVirtual E S) xs) = Some ns \<and> sum_list (map Suc ns) = length (concat ws)"
    if "list_all ok xs" "those (map (WriteMessageNoVirtualToArray E S (nd_sub d)) xs) = Some ws" for xs ws
    using that
  proof (induction xs arbitrary: ws)
    case (Cons x xs)
    then obtain w ws' where w: "WriteMessageNoVirtualToArray E S (nd_sub d) x = Some w" "ws = w # ws'"
      "those (map (WriteMessageNoVirtualToArray E S (nd_sub d)) xs) = Some ws'"
      by (auto split: option.splits)
    from Cons.prems(1) have "ok x" "list_all ok xs" by simp_all
    with size_sub [OF this(1) w(1)] Cons.IH [OF this(2) w(3)] show ?case by (auto simp: w(2))
  qed simp
  from assms(2) obtain ws where ws: "those (map (WriteMessageNoVirtualToArray E S (nd_sub d)) (n_subs m)) = Some ws"
    "s = pb_fields E (nd_before d) (n_flat m) @ concat ws @ pb_fields E (nd_after d) (n_flat m) @ pb_unknown (n_flat m)"
    by (auto simp: nest_Serialize_def)
  have "pb_ok (nd_flat d) (n_flat m)" "list_all ok (n_subs m)" using assms by (simp_all add: nest_ok_def)
  from fl.size_Serialize [OF this(1)] subs [OF this(2) ws(1)] show ?thesis
    by (auto simp: nest_ByteSize_def ws(2) pb_Serialize_def pb_fields_def add_ac simp del: length_concat)
qed

section \<open>The types are kept\<close>

lemma sub_store_ok:
  assumes "list_all ok subs" "ok y" "nd_rep d \<or> length subs \<le> 1"
  shows "list_all ok (sub_store d y subs)" "nd_rep d \<or> length (sub_store d y subs) \<le> 1"
  using assms by (auto simp: sub_store_def)

lemma sub_target_ok: "list_all ok subs \<Longrightarrow> ok (sub_target S d subs)"
  by (cases subs) (simp_all add: sub_target_def sub_new_ok)

lemma merge_subs_ok:
  assumes "list_all ok xs" "list_all ok subs" "nd_rep d \<or> length subs \<le> 1"
  shows "list_all ok (merge_subs xs subs) \<and> (nd_rep d \<or> length (merge_subs xs subs) \<le> 1)"
  using assms
proof (induction xs arbitrary: subs)
  case (Cons x xs)
  have "ok (sub_MergeFrom S x (sub_target S d subs))"
    using Cons.prems by (simp add: sub_MergeFrom_ok sub_target_ok)
  note store = sub_store_ok [OF Cons.prems(2) this Cons.prems(3)]
  show ?case using Cons.IH [OF _ store] Cons.prems(1) by simp
qed simp

lemma nest_ok_MergeFrom: "nest_ok ok d from \<Longrightarrow> nest_ok ok d m \<Longrightarrow> nest_ok ok d (nest_MergeFrom S d from m)"
  using merge_subs_ok [of "n_subs from" "n_subs m"]
  by (simp add: nest_ok_def nest_MergeFrom_def pb_ok_MergeFrom [OF table])

lemma nest_Clear_new:
  assumes "nest_ok ok d m"
  shows "nest_Clear d m = nest_new d"
proof -
  have "pb_ok (nd_flat d) (n_flat m)" using assms by (simp add: nest_ok_def)
  from pb_reset_new [OF table this] pb_absent_new [OF this] show ?thesis
    by (auto simp: nest_Clear_def nest_new_def pb_new_def list_ex_iff)
qed

lemma nest_ok_new: "nest_ok ok d (nest_new d)"
  by (simp add: nest_ok_def nest_new_def pb_ok_new)

text \<open>Copying into a new object.\<close>

lemma nest_MergeFrom_new:
  assumes "nest_ok ok d from"
  shows "nest_MergeFrom S d from (nest_new d) = from"
proof -
  have copy: "sub_MergeFrom S x (sub_new S) = x" if "x \<in> set (n_subs from)" for x
    using assms that by (simp add: nest_ok_def list_all_iff sub_MergeFrom_new)
  have rep: "merge_subs xs subs = subs @ xs" if "nd_rep d" "\<forall>x\<in>set xs. sub_MergeFrom S x (sub_new S) = x" for xs subs
    using that by (induction xs arbitrary: subs) (simp_all add: sub_store_def sub_target_def split: list.split)
  have "merge_subs (n_subs from) [] = n_subs from"
  proof (cases "nd_rep d")
    case True
    then show ?thesis using rep [OF True, of "n_subs from"] copy by simp
  next
    case False
    then have "length (n_subs from) \<le> 1" using assms by (simp add: nest_ok_def)
    then show ?thesis using copy False
      by (cases "n_subs from") (auto simp: sub_store_def sub_target_def)
  qed
  moreover have "pb_MergeFrom (nd_flat d) (n_flat from) (pb_new (nd_flat d)) = n_flat from"
    using pb_CopyFrom_eq [OF table _ pb_ok_new, of "n_flat from"] assms
    by (simp add: nest_ok_def pb_CopyFrom_def pb_Clear_Clear [OF table])
  ultimately show ?thesis by (simp add: nest_MergeFrom_def nest_new_def)
qed

lemma nest_ok_read:
  assumes "nest_read E S d depth n input m = Some (Some (m', rest))" "nest_ok ok d m"
  shows "nest_ok ok d m'"
proof (cases "n = nd_sub d")
  case True
  with assms(1) obtain y where y: "ReadMessageNoVirtual E S depth input (sub_target S d (n_subs m)) = Some (Some (y, rest))"
    "m' = m\<lparr>n_subs := sub_store d y (n_subs m)\<rparr>"
    by (auto simp: nest_read_def)
  from y(1) have "ok y"
    using sub_merge_ok sub_target_ok assms(2)
    by (fastforce simp: ReadMessageNoVirtual_def IncrementRecursionDepth_def nest_ok_def
        split: option.splits prod.splits bool.splits if_splits)
  then show ?thesis using sub_store_ok [of "n_subs m" y] assms(2) by (simp add: y(2) nest_ok_def)
next
  case False
  with assms(1) obtain ty v where "map_of (nd_flat d) n = Some ty" "pb_read E ty input = Some (v, rest)"
    "m' = m\<lparr>n_flat := pb_set n v (n_flat m)\<rparr>"
    by (auto simp: nest_read_def simp del: map_of_append split: option.splits)
  with assms(2) show ?thesis using read_shape by (auto simp: nest_ok_def intro!: pb_ok_set simp del: map_of_append)
qed

lemma nest_ok_merge:
  assumes "nest_merge E S d depth None input m = Some (Some (m', e))" "nest_ok ok d m"
  shows "nest_ok ok d m'"
  using assms
proof (induction "length input" arbitrary: input m rule: less_induct)
  case less
  obtain tag rest where t: "ReadTag E input = (tag, rest)" by (cases "ReadTag E input")
  have ih: "nest_ok ok d m'" if "tag \<noteq> 0" "length rest2 \<le> length rest"
    "nest_merge E S d depth None rest2 m2 = Some (Some (m', e))" "nest_ok ok d m2" for rest2 m2
    by (rule less.hyps [OF _ that(3,4)]) (use read_tag_shrinks [OF t that(1)] that(2) in simp)
  consider "tag = 0" | "tag \<noteq> 0" "nest_tag d tag" | "tag \<noteq> 0" "\<not> nest_tag d tag" by blast
  then show ?case
  proof cases
    case 2
    then obtain m2 rest2 where r: "nest_read E S d depth (GetTagFieldNumber tag) rest m = Some (Some (m2, rest2))"
      "nest_merge E S d depth None rest2 m2 = Some (Some (m', e))"
      using less.prems(1) by (subst (asm) nest_head) (auto simp: t split: option.splits)
    show ?thesis
      by (rule ih [OF 2(1) nest_read_shrinks [OF r(1)] r(2) nest_ok_read [OF r(1) less.prems(2)]])
  next
    case 3
    show ?thesis
    proof (cases "GetTagWireType tag = WIRETYPE_END_GROUP")
      case True
      then show ?thesis using less.prems 3 by (subst (asm) nest_head) (simp add: t)
    next
      case False
      then obtain u rest2 where r: "SkipField E tag rest (pb_unknown (n_flat m)) = Some (u, rest2)"
        "nest_merge E S d depth None rest2 (m\<lparr>n_flat := (n_flat m)\<lparr>pb_unknown := u\<rparr>\<rparr>) = Some (Some (m', e))"
        using less.prems(1) 3 by (subst (asm) nest_head) (auto simp: t split: option.splits)
      have "nest_ok ok d (m\<lparr>n_flat := (n_flat m)\<lparr>pb_unknown := u\<rparr>\<rparr>)"
        using less.prems(2) by (simp add: nest_ok_def)
      then show ?thesis by (rule ih [OF 3(1) skip_shrinks [OF r(1)] r(2)])
    qed
  qed (use less.prems in \<open>subst (asm) nest_head, auto simp: t\<close>)
qed

end

section \<open>Responses with rooms\<close>

sublocale nest \<subseteq> nested: sub_messages E "nest_class E S d" "nest_ok ok d" "nest_sends S sends d" "Suc levels"
proof
  show "sub_merge (nest_class E S d) depth s x \<noteq> None" for depth s x
    using nest_total by (simp add: nest_class_def)
  show "nest_ok ok d (sub_new (nest_class E S d))" by (simp add: nest_class_def nest_ok_new)
  show "nest_ok ok d y" if "sub_merge (nest_class E S d) depth s x = Some (Some (y, e))" "nest_ok ok d x" for depth s x y e
    using that by (simp add: nest_class_def nest_ok_merge)
  show "nest_ok ok d (sub_MergeFrom (nest_class E S d) x y)" if "nest_ok ok d x" "nest_ok ok d y" for x y
    using that by (simp add: nest_class_def nest_ok_MergeFrom)
  show "sub_MergeFrom (nest_class E S d) x (sub_new (nest_class E S d)) = x" if "nest_ok ok d x" for x
    by (simp add: nest_class_def nest_MergeFrom_new [OF that])
  show "\<exists>s. sub_Serialize (nest_class E S d) x = Some s \<and>
      sub_merge (nest_class E S d) depth s y = Some (Some (sub_MergeFrom (nest_class E S d) x y, True))"
    if "nest_sends S sends d x" "depth + Suc levels \<le> recursion_limit E" for x depth y
  proof -
    from nest_merge_Serialize [OF that(1), of depth] that(2) obtain s where s: "nest_Serialize E S d x = Some s"
      "\<And>rest. nest_merge E S d depth None (s @ rest) y = nest_merge E S d depth None rest (nest_MergeFrom S d x y)"
      by (auto simp: default_limit)
    from s(2) [of "[]"] s(1) show ?thesis by (simp add: nest_class_def nest_end)
  qed
  show "sub_ByteSize (nest_class E S d) x = int_size (length s)"
    if "nest_ok ok d x" "sub_Serialize (nest_class E S d) x = Some s" for x s
    using that by (simp add: nest_class_def nest_size)
  show "nest_ok ok d x" if "nest_sends S sends d x" for x
    using that by (auto simp: nest_ok_def nest_sends_def pb_sends_def list_all_iff sends_ok)
qed

context nest
begin

lemma nest_messages: "sub_messages E (nest_class E S d) (nest_ok ok d) (nest_sends S sends d) (Suc levels)"
  by unfold_locales

end

abbreviation "room_ok \<equiv> nest_ok (pb_ok UserInfo) RoomInfo"

abbreviation "room_sends E \<equiv> nest_sends (user_class E) (pb_sends UserInfo) RoomInfo"

lemma room_nest: "pb_wire E \<Longrightarrow> nest E (user_class E) (pb_ok UserInfo) (pb_sends UserInfo) 0 RoomInfo"
  by (intro nest.intro nest_axioms.intro pb_class.flat_messages pb_class_of)
    (simp_all add: pb_classes_def RoomInfo_def pb_table_def)

lemma rsp_nest: "pb_wire E \<Longrightarrow> d \<in> {GetRoomInfoRsp, GetRoomListRsp} \<Longrightarrow> nest E (room_class E) room_ok (room_sends E) (Suc 0) d"
  by (intro nest.intro nest_axioms.intro nest.nest_messages room_nest)
    (auto simp: GetRoomInfoRsp_def GetRoomListRsp_def pb_table_def)

text \<open>The locales hold for the classes of the program, over the library of \<open>Pb_Varint\<close>.\<close>

interpretation room: nest varint_lib "user_class varint_lib" "pb_ok UserInfo" "pb_sends UserInfo" 0 RoomInfo
  by (rule room_nest [OF varint.pb_wire_axioms])

interpretation room_list: nest varint_lib "room_class varint_lib" room_ok "room_sends varint_lib" "Suc 0" GetRoomListRsp
  by (rule rsp_nest [OF varint.pb_wire_axioms]) simp

text \<open>C5: The responses with rooms and their users (\<open>GetRoomInfoRsp\<close>, \<open>GetRoomListRsp\<close>), without unknown fields and
  with sizes of inner messages that are no overflow: serializing has a result; if it is no longer than the 64 MB a
  stream reads, parsing it gives the response back with all its rooms and users in order, whatever the object
  held before (the nesting stays below the recursion limit); \<open>ByteSize\<close>, from which also the length prefixes of the
  inner messages are taken, is the number of bytes if that is an \<open>int\<close>; and for every input and depth the parser
  ends, and what \<open>ParseFromArray\<close> accepts is well-typed.\<close>

theorem rooms_round_trip:
  assumes "pb_wire E" "d \<in> {GetRoomInfoRsp, GetRoomListRsp}" "nest_ok room_ok d m"
    "nest_sends (room_class E) (room_sends E) d a"
  shows "(\<exists>s. nest_Serialize E (room_class E) d a = Some s \<and>
      (length s \<le> kDefaultTotalBytesLimit \<longrightarrow> nest_ParseFromArray E (room_class E) d s m = Some a) \<and>
      nest_ByteSize E (room_class E) d a = (if length s < 2 ^ 31 then Some (length s) else None)) \<and>
    (\<exists>r. nest_merge E (room_class E) d depth None input m = Some r) \<and>
    (\<forall>m'. nest_ParseFromArray E (room_class E) d input m = Some m' \<longrightarrow> nest_ok room_ok d m')"
proof -
  note n = rsp_nest [OF assms(1,2)]
  note clear = nest.nest_Clear_new [OF n assms(3)]
  note a = sub_messages.sends_ok [OF nest.nest_messages [OF n] assms(4)]
  from nest.nest_merge_Serialize [OF n assms(4), of 0] obtain s where s: "nest_Serialize E (room_class E) d a = Some s"
    "\<And>rest m. nest_merge E (room_class E) d 0 None (s @ rest) m =
      nest_merge E (room_class E) d 0 None rest (nest_MergeFrom (room_class E) d a m)" by auto
  have "nest_merge E (room_class E) d 0 None s (nest_new d) = Some (Some (a, True))"
    using s(2) [of "[]" "nest_new d"] by (simp add: nest.nest_end [OF n] nest.nest_MergeFrom_new [OF n a])
  moreover have "nest_ok room_ok d m'" if "nest_ParseFromArray E (room_class E) d input m = Some m'" for m'
    using that nest.nest_ok_merge [OF n _ nest.nest_ok_new [OF n]]
    by (auto simp: nest_ParseFromArray_def clear split: option.splits bool.splits if_splits)
  ultimately show ?thesis
    using nest.nest_size [OF n a s(1)] nest.nest_total [OF n, of depth input m] s(1)
    by (simp add: nest_ParseFromArray_def clear int_size_def)
qed

text \<open>A list with two rooms, the first of which has a user.\<close>

definition demo_user :: pb_msg where
  "demo_user = pb_set 1 (V_bytes ''u'') (pb_new UserInfo)"

definition demo_room :: "pb_msg nest_msg" where
  "demo_room = \<lparr>n_flat = pb_set 2 (V_bytes ''g'') (pb_new (nd_flat RoomInfo)), n_subs = [demo_user]\<rparr>"

definition demo_rooms :: "pb_msg nest_msg nest_msg" where
  "demo_rooms = \<lparr>n_flat = pb_set 1 (V_uint32 200) (pb_new (nd_flat GetRoomListRsp)), n_subs = [demo_room, nest_new RoomInfo]\<rparr>"

lemma demo_bytes_rooms:
  "sub_Serialize (user_class varint_lib) demo_user = Some [char_of (10 :: nat), char_of (1 :: nat), CHR ''u'']"
  "sub_ByteSize (user_class varint_lib) demo_user = Some 3"
  "sub_ByteSize (room_class varint_lib) demo_room = Some 8"
  "sub_ByteSize (room_class varint_lib) (nest_new RoomInfo) = Some 0"
  "nest_Serialize varint_lib (room_class varint_lib) GetRoomListRsp demo_rooms = Some (map char_of [8 :: nat, 200, 1, 18, 8, 18, 1] @ CHR ''g'' # map char_of [34 :: nat, 3, 10, 1] @ CHR ''u'' # map char_of [18 :: nat, 0])"
  by (simp_all add: nest_ByteSize_def pb_total_size_def MessageSizeNoVirtual_def int_size_def demo_rooms_def GetRoomListRsp_def
      WriteUInt32ToArray_def flat_class_def nest_class_def demo_user_def demo_room_def nest_new_def pb_Serialize_def pb_ByteSize_def
      nest_Serialize_def pb_fields_def UserInfo_def RoomInfo_def pb_set_def pb_new_def WriteMessageNoVirtualToArray_def
      BytesSize_def LengthDelimitedSize_def VarintSize32_def WriteBytesToArray_def WriteTagToArray_def MakeTag_def
      varint.string_write write_varint varint_write.simps)

lemma demo_rooms_sends: "nest_sends (room_class varint_lib) (room_sends varint_lib) GetRoomListRsp demo_rooms"
proof -
  have user: "pb_sends UserInfo demo_user"
    by (simp add: pb_sends_def demo_user_def pb_ok_set pb_ok_new UserInfo_def [THEN arg_cong, of map_of])
  have "room_sends varint_lib demo_room" "room_sends varint_lib (nest_new RoomInfo)"
    using user by (simp_all add: nest_sends_def demo_room_def nest_new_def demo_bytes_rooms RoomInfo_def pb_sends_def
        pb_ok_set pb_ok_new)
  then show ?thesis
    by (simp add: nest_sends_def demo_rooms_def demo_bytes_rooms GetRoomListRsp_def pb_sends_def pb_ok_set pb_ok_new)
qed

theorem rooms_round_trip_witness:
  "nest_ParseFromArray varint_lib (room_class varint_lib) GetRoomListRsp
      (map char_of [8 :: nat, 200, 1, 18, 8, 18, 1] @ CHR ''g'' # map char_of [34 :: nat, 3, 10, 1] @ CHR ''u'' # map char_of [18 :: nat, 0]) (nest_new GetRoomListRsp) = Some demo_rooms"
  using rooms_round_trip [OF varint.pb_wire_axioms _ room_list.nest_ok_new demo_rooms_sends]
  by (simp add: demo_bytes_rooms kDefaultTotalBytesLimit_def)

end
