(* ===== verification/Ws_Base64.thy ===== *)
theory Ws_Base64
  imports Std_Lib
begin

text \<open>
  \<open>src/depends/include/websocketpp/base64/base64.hpp\<close>: the encoding of the handshake keys. The arrays of three and four bytes
  of the loops are lists of what has been put into them; bytes are numbers below 256, sums of shifted bytes are
  narrowed to \<open>unsigned char\<close>. The size argument of the encoder is an \<open>unsigned int\<close>.
\<close>

unbundle bit_operations_syntax

definition base64_chars :: string where
  "base64_chars = ''ABCDEFGHIJKLMNOPQRSTUVWXYZ'' @ ''abcdefghijklmnopqrstuvwxyz'' @ ''0123456789+/''"

definition is_base64 :: "char \<Rightarrow> bool" where
  "is_base64 c \<longleftrightarrow> byte c = 43 \<or> byte c \<ge> 47 \<and> byte c \<le> 57 \<or> byte c \<ge> 65 \<and> byte c \<le> 90 \<or> byte c \<ge> 97 \<and> byte c \<le> 122"

section \<open>Encoding\<close>

definition uchar :: "nat \<Rightarrow> nat" where
  "uchar n = n mod 256"

text \<open>The four indices of three bytes.\<close>

definition split3 :: "nat \<Rightarrow> nat \<Rightarrow> nat \<Rightarrow> nat list" where
  "split3 a b c =
     [uchar (drop_bit 2 (a AND 0xfc)),
      uchar (push_bit 4 (a AND 0x03) + drop_bit 4 (b AND 0xf0)),
      uchar (push_bit 2 (b AND 0x0f) + drop_bit 6 (c AND 0xc0)),
      uchar (c AND 0x3f)]"

text \<open>The loop over the bytes, \<open>char_array_3\<close> holding those of the group so far, and what follows it.\<close>

fun encode_loop :: "nat list \<Rightarrow> string \<Rightarrow> string" where
  "encode_loop [a, b, c] cs = map (\<lambda>i. base64_chars ! i) (split3 a b c) @ encode_loop [] cs"
| "encode_loop arr (c # cs) = encode_loop (arr @ [byte c]) cs"
| "encode_loop arr [] =
     (if arr = [] then []
      else (case arr @ replicate (3 - length arr) 0 of
          a # b # c # _ \<Rightarrow> map (\<lambda>i. base64_chars ! i) (take (length arr + 1) (split3 a b c))
        | _ \<Rightarrow> []) @ replicate (3 - length arr) (CHR ''=''))"

definition base64_encode :: "string \<Rightarrow> nat \<Rightarrow> string" where
  "base64_encode bytes_to_encode in_len = encode_loop [] (take (in_len mod 2 ^ 32) bytes_to_encode)"

definition base64_encode_string :: "string \<Rightarrow> string" where
  "base64_encode_string dat = base64_encode dat (length dat)"

section \<open>Decoding\<close>

text \<open>\<open>find\<close> gives \<open>npos\<close>, 255 as an \<open>unsigned char\<close>, for a byte that is not there.\<close>

definition base64_index :: "nat \<Rightarrow> nat" where
  "base64_index n = (case find_first (char_of n) base64_chars of Some i \<Rightarrow> uchar i | None \<Rightarrow> 255)"

definition join4 :: "nat \<Rightarrow> nat \<Rightarrow> nat \<Rightarrow> nat \<Rightarrow> nat list" where
  "join4 a b c d =
     [uchar (push_bit 2 a + drop_bit 4 (b AND 0x30)),
      uchar (push_bit 4 (b AND 0xf) + drop_bit 2 (c AND 0x3c)),
      uchar (push_bit 6 (c AND 0x3) + d)]"

definition decode4 :: "nat list \<Rightarrow> string" where
  "decode4 arr = (case map base64_index arr of
     [a, b, c, d] \<Rightarrow> map char_of (join4 a b c d) | _ \<Rightarrow> [])"

text \<open>What follows the loop, for a group of \<open>i\<close> characters that is not full.\<close>

definition decode_tail :: "nat list \<Rightarrow> string" where
  "decode_tail arr = (if arr = [] then []
     else take (length arr - 1) (decode4 (arr @ replicate (4 - length arr) 0)))"

fun decode_loop :: "nat list \<Rightarrow> string \<Rightarrow> string" where
  "decode_loop [a, b, c, d] cs = decode4 [a, b, c, d] @ decode_loop [] cs"
| "decode_loop arr [] = decode_tail arr"
| "decode_loop arr (c # cs) =
     (if c \<noteq> CHR ''='' \<and> is_base64 c then decode_loop (arr @ [byte c]) cs else decode_tail arr)"

text \<open>The index \<open>in_\<close> is an \<open>int\<close>, incremented for every character taken.\<close>

primrec decode_in :: "nat \<Rightarrow> string \<Rightarrow> nat result" where
  "decode_in i [] = Ret i"
| "decode_in i (c # cs) =
     (if c \<noteq> CHR ''='' \<and> is_base64 c then if i + 1 < 2 ^ 31 then decode_in (i + 1) cs else Stuck Undefined else Ret i)"

definition base64_decode :: "string \<Rightarrow> string result" where
  "base64_decode encoded_string = (case decode_in 0 encoded_string of
     Ret _ \<Rightarrow> Ret (decode_loop [] encoded_string) | Exn e \<Rightarrow> Exn e | Stuck k \<Rightarrow> Stuck k)"


section \<open>The bits\<close>

lemma char_bits:
  fixes n :: nat
  assumes "n < 256"
  shows "drop_bit 2 (n AND 0xfc) = n div 4" "n AND 0x03 = n mod 4" "drop_bit 4 (n AND 0xf0) = n div 16"
    "n AND 0x0f = n mod 16" "drop_bit 6 (n AND 0xc0) = n div 64" "n AND 0x3f = n mod 64"
    "drop_bit 4 (n AND 0x30) = n div 16 mod 4" "drop_bit 2 (n AND 0x3c) = n div 4 mod 16"
proof -
  have m: "x AND 0x3f = x mod 64" "x AND 0x0f = x mod 16" "x AND 0x03 = x mod 4" for x :: nat
    using take_bit_eq_mask [of 6 x] take_bit_eq_mask [of 4 x] take_bit_eq_mask [of 2 x]
    by (simp_all add: mask_eq_exp_minus_1 take_bit_eq_mod)
  show "n AND 0x03 = n mod 4" "n AND 0x0f = n mod 16" "n AND 0x3f = n mod 64" by (rule m)+
  have d: "drop_bit 2 (0xfc :: nat) = 0x3f" "drop_bit 4 (0xf0 :: nat) = 0x0f" "drop_bit 6 (0xc0 :: nat) = 0x03"
    "drop_bit 4 (0x30 :: nat) = 0x03" "drop_bit 2 (0x3c :: nat) = 0x0f"
    by (simp_all add: drop_bit_eq_div)
  have q: "drop_bit 2 n = n div 4" "drop_bit 4 n = n div 16" "drop_bit 6 n = n div 64"
    by (simp_all add: drop_bit_eq_div)
  show "drop_bit 2 (n AND 0xfc) = n div 4" "drop_bit 4 (n AND 0xf0) = n div 16" "drop_bit 6 (n AND 0xc0) = n div 64"
    "drop_bit 4 (n AND 0x30) = n div 16 mod 4" "drop_bit 2 (n AND 0x3c) = n div 4 mod 16"
    unfolding drop_bit_and d q m using assms by (simp_all add: less_mult_imp_div_less)
qed

lemma split3_div:
  assumes "a < 256" "b < 256" "c < 256"
  shows "split3 a b c = [a div 4, a mod 4 * 16 + b div 16, b mod 16 * 4 + c div 64, c mod 64]"
proof -
  have "a div 4 < 64" "a mod 4 * 16 + b div 16 < 256" "b mod 16 * 4 + c div 64 < 256" "c mod 64 < 64"
  proof -
    show "a div 4 < 64" "c mod 64 < 64" using assms by simp_all
    have "a mod 4 \<le> 3" "b div 16 < 16" "b mod 16 \<le> 15" "c div 64 < 4" using assms by (simp_all add: less_mult_imp_div_less)
    then show "a mod 4 * 16 + b div 16 < 256" "b mod 16 * 4 + c div 64 < 256" by linarith+
  qed
  then show ?thesis
    unfolding split3_def char_bits [OF assms(1)] char_bits [OF assms(2)] char_bits [OF assms(3)]
    by (simp add: uchar_def push_bit_eq_mult)
qed

lemma join4_split3:
  assumes "a < 256" "b < 256" "c < 256"
  shows "join4 (a div 4) (a mod 4 * 16 + b div 16) (b mod 16 * 4 + c div 64) (c mod 64) = [a, b, c]"
proof -
  let ?p = "a mod 4 * 16 + b div 16" and ?q = "b mod 16 * 4 + c div 64"
  have r: "a mod 4 < 4" "b div 16 < 16" "b mod 16 < 16" "c div 64 < 4" using assms by (simp_all add: less_mult_imp_div_less)
  then have l: "?p < 256" "?q < 256" by linarith+
  have "?p div 16 = a mod 4" "?p mod 16 = b div 16" "?q div 4 = b mod 16" "?q mod 4 = c div 64" using r by simp_all
  moreover have "a div 4 * 4 + a mod 4 = a" "b div 16 * 16 + b mod 16 = b" "c div 64 * 64 + c mod 64 = c"
    by (rule div_mult_mod_eq)+
  moreover have "?q mod 64 mod 4 = ?q mod 4" by (rule mod_mod_cancel) simp
  ultimately show ?thesis
    unfolding join4_def char_bits [OF l(1)] char_bits [OF l(2)]
    using assms r by (simp add: uchar_def push_bit_eq_mult)
qed

lemma base64_chars_facts: "distinct base64_chars" "length base64_chars = 64" "list_all is_base64 base64_chars"
    "CHR ''='' \<notin> set base64_chars" "CHR 0x00 \<notin> set base64_chars"
  by (simp_all add: base64_chars_def is_base64_def)

lemma find_first_nth: "distinct xs \<Longrightarrow> i < length xs \<Longrightarrow> find_first (xs ! i) xs = Some i"
proof (induction xs arbitrary: i)
  case (Cons x xs)
  then show ?case by (cases i) auto
qed simp

lemma base64_char:
  assumes "i < 64"
  shows "base64_index (byte (base64_chars ! i)) = i" "is_base64 (base64_chars ! i)" "base64_chars ! i \<noteq> CHR ''=''"
proof -
  note f = base64_chars_facts
  show "base64_index (byte (base64_chars ! i)) = i"
    using find_first_nth [OF f(1), of i] f(2) assms by (simp add: base64_index_def uchar_def)
  have "base64_chars ! i \<in> set base64_chars" using f(2) assms by simp
  then show "is_base64 (base64_chars ! i)" "base64_chars ! i \<noteq> CHR ''=''" using f(3,4) by (auto simp: list_all_iff)
qed

lemma split3_range:
  fixes a b c :: nat
  assumes "a < 256" "b < 256" "c < 256"
  shows "a div 4 < 64" "a mod 4 * 16 + b div 16 < 64" "b mod 16 * 4 + c div 64 < 64" "c mod 64 < 64"
proof -
  have "a mod 4 \<le> 3" "b div 16 < 16" "b mod 16 \<le> 15" "c div 64 < 4" using assms by (simp_all add: less_mult_imp_div_less)
  then show "a mod 4 * 16 + b div 16 < 64" "b mod 16 * 4 + c div 64 < 64" by linarith+
qed (use assms in simp_all)

lemma base64_index_zero: "base64_index 0 = 255"
proof -
  have "char_of (0 :: nat) = CHR 0x00" by code_simp
  then have f: "find_first (char_of (0 :: nat)) base64_chars = None" using base64_chars_facts(5) by simp
  show ?thesis unfolding base64_index_def f by simp
qed

section \<open>Decoding inverts encoding\<close>

lemma decode_group:
  assumes "a < 256" "b < 256" "c < 256"
  shows "decode_loop [] (map (\<lambda>i. base64_chars ! i) (split3 a b c) @ cs) = map char_of [a, b, c] @ decode_loop [] cs"
  using split3_range [OF assms]
  by (simp add: split3_div [OF assms] base64_char decode4_def join4_split3 [OF assms])

lemma decode_pad: "decode_loop arr (CHR ''='' # cs) = decode_tail arr" if "length arr < 4"
  using that by (cases arr; cases "tl arr"; cases "tl (tl arr)"; cases "tl (tl (tl arr))") auto


lemma decode_one:
  assumes "a < 256"
  shows "decode_loop [] (map (\<lambda>i. base64_chars ! i) (take 2 (split3 a 0 0)) @ CHR ''='' # cs) = [char_of a]"
proof -
  let ?i = "a div 4" and ?j = "a mod 4 * 16"
  have r: "?i < 64" "?j < 64" using split3_range [OF assms, of 0 0] by simp_all
  have s: "take 2 (split3 a 0 0) = [?i, ?j]" using split3_div [OF assms, of 0 0] by simp
  have "join4 ?i ?j 0 0 = [a, 0, 0]" using join4_split3 [OF assms, of 0 0] by simp
  then have j: "take 1 (join4 ?i ?j 255 255) = [a]" by (simp add: join4_def)
  have "decode4 [byte (base64_chars ! ?i), byte (base64_chars ! ?j), 0, 0] = map char_of (join4 ?i ?j 255 255)"
    by (simp add: decode4_def base64_char r base64_index_zero)
  then have "decode_tail [byte (base64_chars ! ?i), byte (base64_chars ! ?j)] = take 1 (map char_of (join4 ?i ?j 255 255))"
    by (simp add: decode_tail_def numeral_2_eq_2)
  then show ?thesis using j by (simp add: s base64_char r take_map)
qed

lemma decode_two:
  assumes "a < 256" "b < 256"
  shows "decode_loop [] (map (\<lambda>i. base64_chars ! i) (take 3 (split3 a b 0)) @ CHR ''='' # cs) = [char_of a, char_of b]"
proof -
  let ?i = "a div 4" and ?j = "a mod 4 * 16 + b div 16" and ?k = "b mod 16 * 4"
  have r: "?i < 64" "?j < 64" "?k < 64" using split3_range [OF assms, of 0] by simp_all
  have s: "take 3 (split3 a b 0) = [?i, ?j, ?k]" using split3_div [OF assms, of 0] by (simp add: numeral_3_eq_3)
  have "join4 ?i ?j ?k 0 = [a, b, 0]" using join4_split3 [OF assms, of 0] by simp
  then have j: "take 2 (join4 ?i ?j ?k 255) = [a, b]" by (simp add: join4_def)
  have "decode4 [byte (base64_chars ! ?i), byte (base64_chars ! ?j), byte (base64_chars ! ?k), 0] =
      map char_of (join4 ?i ?j ?k 255)"
    by (simp add: decode4_def base64_char r base64_index_zero)
  then have "decode_tail [byte (base64_chars ! ?i), byte (base64_chars ! ?j), byte (base64_chars ! ?k)] =
      take 2 (map char_of (join4 ?i ?j ?k 255))"
    by (simp add: decode_tail_def numeral_2_eq_2)
  then show ?thesis using j by (simp add: s base64_char r take_map)
qed

lemma encode_group [simp]: "encode_loop [] (a # b # c # cs) = map (\<lambda>i. base64_chars ! i) (split3 (byte a) (byte b) (byte c)) @ encode_loop [] cs"
  by simp

lemma decode_encode_loop: "decode_loop [] (encode_loop [] s) = s"
proof (induction "length s" arbitrary: s rule: less_induct)
  case less
  consider "s = []" | a where "s = [a]" | a b where "s = [a, b]" | a b c cs where "s = a # b # c # cs"
    by (cases s; cases "tl s"; cases "tl (tl s)") auto
  then show ?case
  proof cases
    case 1
    then show ?thesis by (simp add: decode_tail_def)
  next
    case (2 a)
    then show ?thesis using decode_one [of "byte a" "[CHR ''='']"] by (simp add: numeral_2_eq_2 numeral_3_eq_3)
  next
    case (3 a b)
    then show ?thesis using decode_two [of "byte a" "byte b" "[]"] by (simp add: numeral_2_eq_2 numeral_3_eq_3)
  next
    case (4 a b c cs)
    then show ?thesis using decode_group [of "byte a" "byte b" "byte c" "encode_loop [] cs"] less.hyps [of cs] by simp
  qed
qed

section \<open>How far the decoder can count\<close>

abbreviation taken :: "char \<Rightarrow> bool" where
  "taken c \<equiv> c \<noteq> CHR ''='' \<and> is_base64 c"

lemma decode_in_takeWhile:
  "i < 2 ^ 31 \<Longrightarrow> decode_in i s =
    (if i + length (takeWhile taken s) < 2 ^ 31 then Ret (i + length (takeWhile taken s)) else Stuck Undefined)"
  by (induction s arbitrary: i) auto

lemma split3_taken: "a < 256 \<Longrightarrow> b < 256 \<Longrightarrow> c < 256 \<Longrightarrow> list_all taken (map (\<lambda>i. base64_chars ! i) (split3 a b c))"
  using split3_range [of a b c] by (simp add: split3_div base64_char)

lemma takeWhile_group:
  assumes "a < 256" "b < 256" "c < 256"
  shows "length (takeWhile taken (map (\<lambda>i. base64_chars ! i) (take n (split3 a b c)) @ cs)) =
    min 4 n + length (takeWhile taken cs)"
proof -
  have "list_all taken (take n (map (\<lambda>i. base64_chars ! i) (split3 a b c)))"
    using split3_taken [OF assms] by (metis append_take_drop_id list_all_append)
  then have "\<forall>x \<in> set (map (\<lambda>i. base64_chars ! i) (take n (split3 a b c))). taken x"
    by (simp only: take_map list_all_iff)
  then have "takeWhile taken (map (\<lambda>i. base64_chars ! i) (take n (split3 a b c)) @ cs) =
      map (\<lambda>i. base64_chars ! i) (take n (split3 a b c)) @ takeWhile taken cs"
    by (intro takeWhile_append2) blast
  then show ?thesis by (simp only: length_append length_map length_take) (simp add: split3_def)
qed

lemma byte_less: "byte c < 256" "(0 :: nat) < 256"
  by simp_all

lemma takeWhile_encode: "length (takeWhile taken (encode_loop [] s)) = (4 * length s + 2) div 3"
proof (induction "length s" arbitrary: s rule: less_induct)
  case less
  consider "s = []" | a where "s = [a]" | a b where "s = [a, b]" | a b c cs where "s = a # b # c # cs"
    by (cases s; cases "tl s"; cases "tl (tl s)") auto
  then show ?case
  proof cases
    case (2 a)
    then have "encode_loop [] s = map (\<lambda>i. base64_chars ! i) (take 2 (split3 (byte a) 0 0)) @ ''==''"
      by (simp add: numeral_2_eq_2 numeral_3_eq_3)
    then show ?thesis unfolding 2 by (simp only: takeWhile_group byte_less) simp
  next
    case (3 a b)
    then have "encode_loop [] s = map (\<lambda>i. base64_chars ! i) (take 3 (split3 (byte a) (byte b) 0)) @ ''=''"
      by (simp add: numeral_2_eq_2 numeral_3_eq_3)
    then show ?thesis unfolding 3 by (simp only: takeWhile_group byte_less) simp
  next
    case (4 a b c cs)
    have "take 4 (split3 (byte a) (byte b) (byte c)) = split3 (byte a) (byte b) (byte c)" by (simp add: split3_def)
    then have "encode_loop [] s = map (\<lambda>i. base64_chars ! i) (take 4 (split3 (byte a) (byte b) (byte c))) @ encode_loop [] cs"
      using 4 by simp
    then have "length (takeWhile taken (encode_loop [] s)) = 4 + length (takeWhile taken (encode_loop [] cs))"
      by (simp only: takeWhile_group byte_less min.idem)
    moreover have "length (takeWhile taken (encode_loop [] cs)) = (4 * length cs + 2) div 3" using less.hyps [of cs] 4 by simp
    moreover have "4 * length s + 2 = (4 * length cs + 2) + 4 * 3" using 4 by simp
    ultimately show ?thesis by (simp add: div_mult_self1)
  qed simp
qed

text \<open>C17: Decoding what \<open>base64_encode\<close> makes of a string of less than 1.5 GiB gives the string back. Beyond, the index of
  the decoder, an \<open>int\<close>, overflows; and the encoder, whose size argument is an \<open>unsigned int\<close>, encodes of a string of
  4 GiB or more only as many bytes as its length is modulo 4 GiB.\<close>

theorem base64_roundtrip:
  "base64_decode (base64_encode_string s) =
    (let n = length s mod 2 ^ 32 in if n < 3 * 2 ^ 29 then Ret (take n s) else Stuck Undefined)"
proof -
  let ?n = "length s mod 2 ^ 32"
  have len: "length (take ?n s) = ?n" by (simp only: length_take min.absorb2 mod_less_eq_dividend)
  have "(4 * n + 2) div 3 < 2 ^ 31 \<longleftrightarrow> n < 3 * 2 ^ 29" for n :: nat by (subst div_less_iff_less_mult) auto
  then have "length (takeWhile taken (encode_loop [] (take ?n s))) < 2 ^ 31 \<longleftrightarrow> ?n < 3 * 2 ^ 29"
    by (simp only: takeWhile_encode len)
  then have "decode_in 0 (encode_loop [] (take ?n s)) =
      (if ?n < 3 * 2 ^ 29 then Ret (length (takeWhile taken (encode_loop [] (take ?n s)))) else Stuck Undefined)"
    by (simp only: decode_in_takeWhile [of 0] zero_less_power zero_less_numeral add_0)
  then show ?thesis
    by (simp only: base64_decode_def base64_encode_string_def base64_encode_def decode_encode_loop Let_def split: if_split) simp
qed

end
