(* ===== verification/Ws_Frame.thy ===== *)
theory Ws_Frame
  imports Byte_Order
begin

text \<open>
  WebSocket frames, \<open>src/depends/include/websocketpp/frame.hpp\<close>: opcodes and limits, the two fixed bytes of a header and
  the size and masking key behind them, and the masking of payloads a byte, a machine word and a stream at a
  time. Bytes of a header are \<^typ>\<open>8 word\<close>, sizes \<open>uint64_t\<close>, \<open>size_t\<close> is 64 bits wide; the unions
  of an integer with its bytes are \<^const>\<open>le_bytes\<close> and \<^const>\<open>le_value\<close> on the little-endian machine.
\<close>

unbundle bit_operations_syntax

section \<open>Opcodes and limits\<close>

text \<open>The values of the enumeration, as the unsigned integer the compiler gives them.\<close>

type_synonym opcode = "32 word"

abbreviation (input) CONTINUATION :: opcode where "CONTINUATION \<equiv> 0x0"
abbreviation (input) TEXT :: opcode where "TEXT \<equiv> 0x1"
abbreviation (input) BINARY :: opcode where "BINARY \<equiv> 0x2"
abbreviation (input) RSV3 :: opcode where "RSV3 \<equiv> 0x3"
abbreviation (input) RSV7 :: opcode where "RSV7 \<equiv> 0x7"
abbreviation (input) CLOSE :: opcode where "CLOSE \<equiv> 0x8"
abbreviation (input) PING :: opcode where "PING \<equiv> 0x9"
abbreviation (input) PONG :: opcode where "PONG \<equiv> 0xA"
abbreviation (input) CONTROL_RSVB :: opcode where "CONTROL_RSVB \<equiv> 0xB"
abbreviation (input) CONTROL_RSVF :: opcode where "CONTROL_RSVF \<equiv> 0xF"

definition opcode_reserved :: "opcode \<Rightarrow> bool" where
  "opcode_reserved v \<longleftrightarrow> v \<ge> RSV3 \<and> v \<le> RSV7 \<or> v \<ge> CONTROL_RSVB \<and> v \<le> CONTROL_RSVF"

definition opcode_invalid :: "opcode \<Rightarrow> bool" where
  "opcode_invalid v \<longleftrightarrow> v > 0xF \<or> v < 0"

definition is_control :: "opcode \<Rightarrow> bool" where
  "is_control v \<longleftrightarrow> v \<ge> 0x8"

abbreviation (input) BASIC_HEADER_LENGTH :: nat where "BASIC_HEADER_LENGTH \<equiv> 2"
abbreviation (input) MAX_EXTENDED_HEADER_LENGTH :: nat where "MAX_EXTENDED_HEADER_LENGTH \<equiv> 12"

definition payload_size_basic :: "64 word" where "payload_size_basic = 125"
definition payload_size_extended :: "64 word" where "payload_size_extended = 0xFFFF"
definition payload_size_jumbo :: "64 word" where "payload_size_jumbo = 0x7FFFFFFFFFFFFFFF"

definition payload_size_code_16bit :: "8 word" where "payload_size_code_16bit = 0x7E"
definition payload_size_code_64bit :: "8 word" where "payload_size_code_64bit = 0x7F"

lemmas limit_defs = payload_size_basic_def payload_size_extended_def payload_size_jumbo_def
  payload_size_code_16bit_def payload_size_code_64bit_def

section \<open>Header\<close>

record basic_header =
  bh_b0 :: "8 word"
  bh_b1 :: "8 word"

definition header_empty :: basic_header where
  "header_empty = \<lparr>bh_b0 = 0x00, bh_b1 = 0x00\<rparr>"

definition header_bytes :: "8 word \<Rightarrow> 8 word \<Rightarrow> basic_header" where
  "header_bytes p0 p1 = \<lparr>bh_b0 = p0, bh_b1 = p1\<rparr>"

definition basic_value :: "64 word \<Rightarrow> 8 word" where
  "basic_value sz =
     (if sz \<le> payload_size_basic then ucast sz
      else if sz \<le> payload_size_extended then payload_size_code_16bit
      else payload_size_code_64bit)"

definition header_make :: "opcode \<Rightarrow> 64 word \<Rightarrow> bool \<Rightarrow> bool \<Rightarrow> bool \<Rightarrow> bool \<Rightarrow> bool \<Rightarrow> basic_header" where
  "header_make op sz fin masked rsv1 rsv2 rsv3 =
     (let b0 = 0x00;
          b0 = if fin then b0 OR 0x80 else b0;
          b0 = if rsv1 then b0 OR 0x40 else b0;
          b0 = if rsv2 then b0 OR 0x20 else b0;
          b0 = if rsv3 then b0 OR 0x10 else b0;
          b0 = b0 OR ucast (op AND 0x0F);
          b1 = 0x00;
          b1 = if masked then b1 OR 0x80 else b1;
          b1 = b1 OR basic_value sz
      in \<lparr>bh_b0 = b0, bh_b1 = b1\<rparr>)"

definition get_fin :: "basic_header \<Rightarrow> bool" where
  "get_fin h \<longleftrightarrow> bh_b0 h AND 0x80 = 0x80"

definition set_fin :: "bool \<Rightarrow> basic_header \<Rightarrow> basic_header" where
  "set_fin v h = h\<lparr>bh_b0 := if v then bh_b0 h OR 0x80 else bh_b0 h AND NOT 0x80\<rparr>"

definition get_rsv1 :: "basic_header \<Rightarrow> bool" where
  "get_rsv1 h \<longleftrightarrow> bh_b0 h AND 0x40 = 0x40"

definition set_rsv1 :: "bool \<Rightarrow> basic_header \<Rightarrow> basic_header" where
  "set_rsv1 v h = h\<lparr>bh_b0 := if v then bh_b0 h OR 0x40 else bh_b0 h AND NOT 0x40\<rparr>"

definition get_rsv2 :: "basic_header \<Rightarrow> bool" where
  "get_rsv2 h \<longleftrightarrow> bh_b0 h AND 0x20 = 0x20"

definition set_rsv2 :: "bool \<Rightarrow> basic_header \<Rightarrow> basic_header" where
  "set_rsv2 v h = h\<lparr>bh_b0 := if v then bh_b0 h OR 0x20 else bh_b0 h AND NOT 0x20\<rparr>"

definition get_rsv3 :: "basic_header \<Rightarrow> bool" where
  "get_rsv3 h \<longleftrightarrow> bh_b0 h AND 0x10 = 0x10"

definition set_rsv3 :: "bool \<Rightarrow> basic_header \<Rightarrow> basic_header" where
  "set_rsv3 v h = h\<lparr>bh_b0 := if v then bh_b0 h OR 0x10 else bh_b0 h AND NOT 0x10\<rparr>"

definition get_opcode :: "basic_header \<Rightarrow> opcode" where
  "get_opcode h = ucast (bh_b0 h AND 0x0F)"

definition get_masked :: "basic_header \<Rightarrow> bool" where
  "get_masked h \<longleftrightarrow> bh_b1 h AND 0x80 = 0x80"

definition set_masked :: "bool \<Rightarrow> basic_header \<Rightarrow> basic_header" where
  "set_masked v h = h\<lparr>bh_b1 := if v then bh_b1 h OR 0x80 else bh_b1 h AND NOT 0x80\<rparr>"

definition get_basic_size :: "basic_header \<Rightarrow> 8 word" where
  "get_basic_size h = bh_b1 h AND 0x7F"

definition get_masking_key_offset :: "basic_header \<Rightarrow> nat" where
  "get_masking_key_offset h =
     (if get_basic_size h = payload_size_code_16bit then 2
      else if get_basic_size h = payload_size_code_64bit then 8
      else 0)"

definition get_header_len :: "basic_header \<Rightarrow> nat" where
  "get_header_len h =
     (let sz = BASIC_HEADER_LENGTH + get_masking_key_offset h in if get_masked h then sz + 4 else sz)"

text \<open>The error code \<open>set_size\<close> returns is the one of success on every path; a size it cannot store leaves the
  header as it is.\<close>

definition set_size :: "64 word \<Rightarrow> basic_header \<Rightarrow> basic_header" where
  "set_size sz h =
     (if sz \<le> payload_size_jumbo then h\<lparr>bh_b1 := (basic_value sz AND 0x7F) OR (bh_b1 h AND 0x80)\<rparr> else h)"

section \<open>Extended header\<close>

text \<open>\<open>std::copy\<close> into an array from an index on.\<close>

definition copy_at :: "nat \<Rightarrow> string \<Rightarrow> string \<Rightarrow> string" where
  "copy_at off new old = take off old @ new @ drop (off + length new) old"

definition swap_at :: "nat \<Rightarrow> nat \<Rightarrow> 'a list \<Rightarrow> 'a list" where
  "swap_at i j xs = xs[i := xs ! j, j := xs ! i]"

definition net_htonll :: "64 word \<Rightarrow> 64 word" where
  "net_htonll src =
     (let c = le_bytes 8 (unat src);
          c = swap_at 0 7 c;
          c = swap_at 1 6 c;
          c = swap_at 2 5 c;
          c = swap_at 3 4 c
      in word_of_nat (le_value c))"

definition net_ntohll :: "64 word \<Rightarrow> 64 word" where
  "net_ntohll src = net_htonll src"

definition zero_header :: string where
  "zero_header = replicate MAX_EXTENDED_HEADER_LENGTH (CHR 0x00)"

definition copy_payload :: "64 word \<Rightarrow> string \<Rightarrow> nat \<times> string" where
  "copy_payload sz bytes =
     (let off = if sz \<le> payload_size_basic then 8 else if sz \<le> payload_size_extended then 6 else 0;
          c = le_bytes 8 (unat (net_htonll sz))
      in (8 - off, copy_at 0 (drop off c) bytes))"

definition extended_header_size :: "64 word \<Rightarrow> string" where
  "extended_header_size sz = snd (copy_payload sz zero_header)"

definition extended_header_key :: "64 word \<Rightarrow> 32 word \<Rightarrow> string" where
  "extended_header_key sz key =
     (case copy_payload sz zero_header of (off, bytes) \<Rightarrow> copy_at off (le_bytes 4 (unat key)) bytes)"

definition prepare_header :: "basic_header \<Rightarrow> string \<Rightarrow> string" where
  "prepare_header h e =
     [char_of (unat (bh_b0 h)), char_of (unat (bh_b1 h))] @ take (get_header_len h - BASIC_HEADER_LENGTH) e"

definition get_masking_key :: "basic_header \<Rightarrow> string \<Rightarrow> 32 word" where
  "get_masking_key h e =
     (if \<not> get_masked h then 0 else word_of_nat (le_value (take 4 (drop (get_masking_key_offset h) e))))"

definition get_extended_size :: "string \<Rightarrow> 16 word" where
  "get_extended_size e = ntohs (word_of_nat (le_value (take 2 e)))"

definition get_jumbo_size :: "string \<Rightarrow> 64 word" where
  "get_jumbo_size e = net_ntohll (word_of_nat (le_value (take 8 e)))"

definition get_payload_size :: "basic_header \<Rightarrow> string \<Rightarrow> 64 word" where
  "get_payload_size h e =
     (let val = get_basic_size h
      in if val \<le> ucast payload_size_basic then ucast val
         else if val = payload_size_code_16bit then ucast (get_extended_size e)
         else get_jumbo_size e)"

section \<open>Masking\<close>

definition xor_byte :: "char \<Rightarrow> char \<Rightarrow> char" where
  "xor_byte c d = char_of (byte c XOR byte d :: nat)"

definition key_c :: "32 word \<Rightarrow> string" where
  "key_c key = le_bytes 4 (unat key)"

primrec byte_mask_loop :: "string \<Rightarrow> nat \<Rightarrow> string \<Rightarrow> string" where
  "byte_mask_loop key_bytes key_index [] = []"
| "byte_mask_loop key_bytes key_index (c # cs) =
     xor_byte c (key_bytes ! key_index) # byte_mask_loop key_bytes ((key_index + 1) mod 4) cs"

definition byte_mask :: "32 word \<Rightarrow> nat \<Rightarrow> string \<Rightarrow> string" where
  "byte_mask key key_offset cs = byte_mask_loop (key_c key) (key_offset mod 4) cs"

definition prepare_masking_key :: "32 word \<Rightarrow> 64 word" where
  "prepare_masking_key key = push_bit 32 (ucast key) OR ucast key"

text \<open>For an offset of zero \<open>prepared_key << 64\<close> shifts by the width of the type; its value is the parameter
  \<open>over\<close> (the shift count taken modulo 64, as the processor does, gives the key itself).\<close>

definition circshift_prepared_key :: "(64 word \<Rightarrow> 64 word) \<Rightarrow> 64 word \<Rightarrow> nat \<Rightarrow> 64 word" where
  "circshift_prepared_key over prepared_key off =
     (let n = (8 - off) * 8;
          temp = if n < 64 then push_bit n prepared_key else over prepared_key
      in drop_bit (off * 8) prepared_key OR temp)"

text \<open>The buffer as words: \<open>input_word[i] ^ prepared_key\<close> for the first words of it.\<close>

definition word_at :: "string \<Rightarrow> nat \<Rightarrow> 64 word" where
  "word_at input i = word_of_nat (le_value (take 8 (drop (8 * i) input)))"

definition mask_words :: "string \<Rightarrow> nat \<Rightarrow> 64 word \<Rightarrow> string" where
  "mask_words input n prepared_key =
     concat (map (\<lambda>i. le_bytes 8 (unat (word_at input i XOR prepared_key))) [0..<n])"

definition word_mask_exact :: "string \<Rightarrow> nat \<Rightarrow> 32 word \<Rightarrow> string" where
  "word_mask_exact input len key =
     (let prepared_key = prepare_masking_key key;
          n = len div 8
      in mask_words input n prepared_key @
         map (\<lambda>i. xor_byte (input ! i) (key_c key ! (i mod 4))) [n * 8..<len])"

definition word_mask_circ :: "(64 word \<Rightarrow> 64 word) \<Rightarrow> string \<Rightarrow> nat \<Rightarrow> 64 word \<Rightarrow> string \<times> 64 word" where
  "word_mask_circ over input len prepared_key =
     (let n = len div 8;
          l = len - n * 8;
          start = len - l;
          byte_key = le_bytes 8 (unat prepared_key)
      in (mask_words input n prepared_key @ map (\<lambda>i. xor_byte (input ! (start + i)) (byte_key ! i)) [0..<l],
          circshift_prepared_key over prepared_key l))"


section \<open>What a header holds\<close>

lemma and_exp_eq_bit: "w AND push_bit n 1 = push_bit n 1 \<longleftrightarrow> bit w n" if "n < LENGTH('a)" for w :: "'a::len word"
proof
  assume "w AND push_bit n 1 = push_bit n 1"
  then have "bit (w AND push_bit n 1) n" using that by (simp add: bit_simps)
  then show "bit w n" by (simp add: bit_simps)
next
  assume "bit w n"
  then show "w AND push_bit n 1 = push_bit n 1"
    by (intro bit_eqI) (auto simp: bit_simps)
qed

lemma header_bits:
  "get_fin h \<longleftrightarrow> bit (bh_b0 h) 7" "get_rsv1 h \<longleftrightarrow> bit (bh_b0 h) 6" "get_rsv2 h \<longleftrightarrow> bit (bh_b0 h) 5"
  "get_rsv3 h \<longleftrightarrow> bit (bh_b0 h) 4" "get_masked h \<longleftrightarrow> bit (bh_b1 h) 7"
  using and_exp_eq_bit [of 7 "bh_b0 h"] and_exp_eq_bit [of 6 "bh_b0 h"] and_exp_eq_bit [of 5 "bh_b0 h"]
    and_exp_eq_bit [of 4 "bh_b0 h"] and_exp_eq_bit [of 7 "bh_b1 h"]
  by (simp_all add: get_fin_def get_rsv1_def get_rsv2_def get_rsv3_def get_masked_def)

lemma low_mask: "(0x0F :: 'a::len word) = mask 4" "(0x7F :: 'a word) = mask 7"
  by (simp_all add: mask_eq_exp_minus_1)

lemma get_opcode_take: "get_opcode h = ucast (take_bit 4 (bh_b0 h))"
  by (simp only: get_opcode_def low_mask take_bit_eq_mask)

lemma get_basic_size_take: "get_basic_size h = take_bit 7 (bh_b1 h)"
  by (simp only: get_basic_size_def low_mask take_bit_eq_mask)

lemma unat_basic_value:
  "unat (basic_value sz) = (if unat sz \<le> 125 then unat sz else if unat sz \<le> 0xFFFF then 126 else 127)"
  by (simp add: basic_value_def limit_defs word_le_nat_alt unsigned_ucast_eq take_bit_eq_mod)

lemma basic_value_take: "take_bit 7 (basic_value sz) = basic_value sz"
proof -
  have "unat (take_bit 7 (basic_value sz)) = unat (basic_value sz)"
    by (subst unsigned_take_bit_eq) (simp add: take_bit_eq_mod unat_basic_value)
  then show ?thesis by (rule word_unat_eq_iff [THEN iffD2])
qed

lemma basic_value_bit: "\<not> bit (basic_value sz) 7"
  by (metis basic_value_take bit_take_bit_iff less_irrefl)

lemma header_make_masked [simp]: "get_masked (header_make op sz fin masked r1 r2 r3) = masked"
  by (simp add: header_bits header_make_def Let_def bit_simps basic_value_bit)

lemma header_make_size [simp]: "get_basic_size (header_make op sz fin masked r1 r2 r3) = basic_value sz"
proof -
  have "take_bit 7 (0x80 :: 8 word) = 0" by simp
  then show ?thesis
    by (simp add: get_basic_size_take header_make_def Let_def take_bit_or basic_value_take)
qed

lemma header_make_flags [simp]:
  "get_fin (header_make op sz fin masked r1 r2 r3) = fin"
  "get_rsv1 (header_make op sz fin masked r1 r2 r3) = r1"
  "get_rsv2 (header_make op sz fin masked r1 r2 r3) = r2"
  "get_rsv3 (header_make op sz fin masked r1 r2 r3) = r3"
  by (simp_all add: header_bits header_make_def Let_def bit_simps low_mask del: of_nat_numeral)

lemma header_make_opcode: "get_opcode (header_make op sz fin masked r1 r2 r3) = take_bit 4 op"
  by (intro bit_eqI) (auto simp: get_opcode_take header_make_def Let_def bit_simps low_mask less_Suc_eq numeral_eq_Suc)


text \<open>The setters change the field they name and no other.\<close>

lemma set_flags_get:
  "get_fin (set_fin v h) = v" "get_rsv1 (set_rsv1 v h) = v" "get_rsv2 (set_rsv2 v h) = v"
  "get_rsv3 (set_rsv3 v h) = v" "get_masked (set_masked v h) = v"
  by (simp_all add: header_bits set_fin_def set_rsv1_def set_rsv2_def set_rsv3_def set_masked_def bit_simps)

lemma set_flags_opcode:
  "get_opcode (set_fin v h) = get_opcode h" "get_opcode (set_rsv1 v h) = get_opcode h"
  "get_opcode (set_rsv2 v h) = get_opcode h" "get_opcode (set_rsv3 v h) = get_opcode h"
  "get_opcode (set_masked v h) = get_opcode h"
  by (intro bit_eqI; auto simp: get_opcode_take set_fin_def set_rsv1_def set_rsv2_def set_rsv3_def set_masked_def
      bit_simps less_Suc_eq numeral_eq_Suc)+

lemma set_masked_size: "get_basic_size (set_masked v h) = get_basic_size h"
  by (intro bit_eqI)
    (auto simp: get_basic_size_take set_masked_def bit_simps less_Suc_eq numeral_eq_Suc)

lemma set_size_get:
  assumes "sz \<le> payload_size_jumbo"
  shows "get_basic_size (set_size sz h) = basic_value sz" "get_masked (set_size sz h) = get_masked h"
proof -
  have "take_bit 7 (0x80 :: 8 word) = 0" by simp
  then show "get_basic_size (set_size sz h) = basic_value sz"
    using assms by (simp add: get_basic_size_take set_size_def take_bit_or low_mask basic_value_take
        flip: take_bit_eq_mask)
  show "get_masked (set_size sz h) = get_masked h"
    using assms by (simp add: header_bits set_size_def bit_simps low_mask)
qed

lemma list8: "length xs = 8 \<Longrightarrow> \<exists>a b c d e f g h. xs = [a, b, c, d, e, f, g, h]"
  by (auto simp: numeral_eq_Suc length_Suc_conv)

lemma net_htonll_bytes: "le_bytes 8 (unat (net_htonll v)) = rev (le_bytes 8 (unat v))"
proof -
  obtain a b c d e f g h where bs: "le_bytes 8 (unat v) = [a, b, c, d, e, f, g, h]"
    using list8 [of "le_bytes 8 (unat v)"] by auto
  have "net_htonll v = word_of_nat (le_value (rev (le_bytes 8 (unat v))))"
    by (simp add: net_htonll_def Let_def bs swap_at_def)
  moreover have "le_value (rev (le_bytes 8 (unat v))) < 256 ^ 8"
    using le_value_bound [of "rev (le_bytes 8 (unat v))"] by simp
  ultimately have "unat (net_htonll v) = le_value (rev (le_bytes 8 (unat v)))"
    by (simp add: unat_of_nat)
  then show ?thesis using le_bytes_value [of "rev (le_bytes 8 (unat v))"] by simp
qed

text \<open>The library's 64-bit conversion is the one of \<open>CVBuffer\<close>.\<close>

lemma net_htonll_eq: "net_htonll v = htonll v"
proof -
  have "unat (net_htonll v) = swap_bytes 8 (unat v)"
    using arg_cong [OF net_htonll_bytes [of v], of le_value] unsigned_less [of "net_htonll v", where 'a = nat]
    by (simp add: swap_bytes_def)
  then show ?thesis by (simp add: word_unat_eq_iff unat_htonll)
qed

lemma length_extended_header [simp]:
  "length (extended_header_size sz) = 12" "length (extended_header_key sz key) = 12"
  by (simp_all add: extended_header_size_def extended_header_key_def copy_payload_def copy_at_def zero_header_def Let_def)

text \<open>The size field: nothing, two or eight bytes in network order.\<close>

definition size_field :: "64 word \<Rightarrow> string" where
  "size_field sz = (if unat sz \<le> 125 then [] else if unat sz \<le> 0xFFFF then rev (le_bytes 2 (unat sz))
     else rev (le_bytes 8 (unat sz)))"

lemma copy_payload_field:
  "copy_payload sz bytes = (length (size_field sz), copy_at 0 (size_field sz) bytes)"
proof -
  have "le_bytes 8 (unat sz) = le_bytes 2 (unat sz) @ le_bytes 6 (unat sz div 256 ^ 2)"
    using le_bytes_append [of 2 6 "unat sz"] by simp
  then have "drop 6 (rev (le_bytes 8 (unat sz))) = rev (le_bytes 2 (unat sz))" by simp
  then show ?thesis
    by (simp add: copy_payload_def size_field_def net_htonll_bytes limit_defs word_le_nat_alt)
qed

lemma size_field_offset [simp]:
  "get_masking_key_offset (header_make op sz fin masked r1 r2 r3) = length (size_field sz)"
  by (auto simp: get_masking_key_offset_def size_field_def limit_defs word_unat_eq_iff unat_basic_value)

lemma length_size_field: "length (size_field sz) \<le> 8"
  by (simp add: size_field_def)

lemma extended_header_size_field:
  "extended_header_size sz = size_field sz @ replicate (12 - length (size_field sz)) (CHR 0x00)"
  using length_size_field [of sz] by (simp add: extended_header_size_def copy_payload_field copy_at_def zero_header_def)

lemma extended_header_key_field:
  "extended_header_key sz key =
   size_field sz @ key_c key @ replicate (8 - length (size_field sz)) (CHR 0x00)"
  using length_size_field [of sz]
  by (simp add: extended_header_key_def copy_payload_field copy_at_def zero_header_def key_c_def)

text \<open>The bytes of a header on the wire.\<close>

lemma prepare_header_make:
  "prepare_header (header_make op sz fin True r1 r2 r3) (extended_header_key sz key) =
   [char_of (unat (bh_b0 (header_make op sz fin True r1 r2 r3))),
    char_of (unat (bh_b1 (header_make op sz fin True r1 r2 r3)))] @ size_field sz @ key_c key"
  "prepare_header (header_make op sz fin False r1 r2 r3) (extended_header_size sz) =
   [char_of (unat (bh_b0 (header_make op sz fin False r1 r2 r3))),
    char_of (unat (bh_b1 (header_make op sz fin False r1 r2 r3)))] @ size_field sz"
  by (simp_all add: prepare_header_def get_header_len_def Let_def extended_header_key_field
      extended_header_size_field key_c_def)

lemma header_make_key:
  assumes "drop (length (size_field sz)) e = key_c key @ t"
  shows "get_masking_key (header_make op sz fin True r1 r2 r3) e = key"
  using assms unsigned_less [of key, where 'a = nat]
  by (simp add: get_masking_key_def key_c_def)

lemma header_make_payload_size:
  assumes "take (length (size_field sz)) e = size_field sz"
  shows "get_payload_size (header_make op sz fin masked r1 r2 r3) e = sz"
proof -
  consider "unat sz \<le> 125" | "125 < unat sz" "unat sz \<le> 0xFFFF" | "0xFFFF < unat sz" by linarith
  then show ?thesis
  proof cases
    case 1
    then show ?thesis
      by (simp add: get_payload_size_def limit_defs word_le_nat_alt unat_basic_value word_unat_eq_iff
          unsigned_ucast_eq take_bit_eq_mod)
  next
    case 2
    then have "take 2 e = le_bytes 2 (swap_bytes 2 (unat sz))" using assms by (simp add: size_field_def le_bytes_swap)
    moreover have "swap_bytes 2 (unat sz) mod 65536 = swap_bytes 2 (unat sz)"
      using swap_bytes_bound [of 2 "unat sz"] by simp
    ultimately have "get_extended_size e = word_of_nat (unat sz)" using 2
      by (simp only: get_extended_size_def ntohs_def le_value_bytes) (simp add: swap_bytes_swap unat_of_nat)
    then show ?thesis using 2
      by (simp add: get_payload_size_def limit_defs word_le_nat_alt unat_basic_value word_unat_eq_iff
          unsigned_ucast_eq take_bit_eq_mod unat_of_nat)
  next
    case 3
    then have "take 8 e = le_bytes 8 (unat (net_htonll sz))" using assms by (simp add: size_field_def net_htonll_bytes)
    then have "get_jumbo_size e = net_htonll (net_htonll sz)"
      using unsigned_less [of "net_htonll sz", where 'a = nat] by (simp add: get_jumbo_size_def net_ntohll_def)
    moreover have "net_htonll (net_htonll sz) = sz"
      by (metis net_htonll_bytes net_htonll_eq ntohll_eq_htonll ntohll_htonll)
    ultimately show ?thesis using 3
      by (simp add: get_payload_size_def limit_defs word_le_nat_alt unat_basic_value word_unat_eq_iff)
  qed
qed


section \<open>Masking is one stream\<close>

text \<open>The reference: the bytes of the key repeated, from an index on.\<close>

primrec mask_with :: "string \<Rightarrow> nat \<Rightarrow> string \<Rightarrow> string" where
  "mask_with ks i [] = []"
| "mask_with ks i (c # cs) = xor_byte c (ks ! (i mod length ks)) # mask_with ks (Suc i) cs"

lemma length_mask_with [simp]: "length (mask_with ks i cs) = length cs"
  by (induction cs arbitrary: i) simp_all

lemma mask_with_append: "mask_with ks i (xs @ ys) = mask_with ks i xs @ mask_with ks (i + length xs) ys"
  by (induction xs arbitrary: i) simp_all

lemma nth_mask_with: "j < length cs \<Longrightarrow> mask_with ks i cs ! j = xor_byte (cs ! j) (ks ! ((i + j) mod length ks))"
proof (induction cs arbitrary: i j)
  case (Cons c cs)
  then show ?case by (cases j) simp_all
qed simp

lemma mask_with_cong: "(\<And>j. j < length cs \<Longrightarrow> ks ! ((i + j) mod length ks) = ls ! ((k + j) mod length ls)) \<Longrightarrow>
  mask_with ks i cs = mask_with ls k cs"
  by (rule nth_equalityI) (simp_all add: nth_mask_with)

lemma xor_byte_self [simp]: "xor_byte (xor_byte c d) d = c"
proof -
  have "byte c XOR byte d < 256"
    using take_bit_nat_eq_self_iff [of 8 "byte c XOR byte d"] by (simp add: take_bit_xor take_bit_nat_eq_self)
  then show ?thesis by (simp add: xor_byte_def xor.assoc)
qed

text \<open>Masking twice with the same key gives the data back.\<close>

lemma mask_with_self [simp]: "mask_with ks i (mask_with ks i cs) = cs"
  by (induction cs arbitrary: i) simp_all

lemma mask_with_rotate: "ks \<noteq> [] \<Longrightarrow> mask_with (rotate n ks) i cs = mask_with ks (i + n) cs"
  by (rule mask_with_cong) (simp add: nth_rotate mod_add_right_eq ac_simps)

lemma mask_with_mod: "mask_with ks (i mod length ks) cs = mask_with ks i cs"
  by (rule mask_with_cong) (simp add: mod_add_left_eq)

lemma byte_mask_loop_stream: "length ks = 4 \<Longrightarrow> i < 4 \<Longrightarrow> byte_mask_loop ks i cs = mask_with ks i cs"
proof (induction cs arbitrary: i)
  case (Cons c cs)
  have "mask_with ks (Suc i mod 4) cs = mask_with ks (Suc i) cs"
    using mask_with_mod [of ks "Suc i" cs] Cons.prems by simp
  with Cons show ?case by simp
qed simp

lemma length_key_c [simp]: "length (key_c key) = 4"
  by (simp add: key_c_def)

lemma byte_mask_stream: "byte_mask key off cs = mask_with (key_c key) off cs"
  using mask_with_mod [of "key_c key" off cs] by (simp add: byte_mask_def byte_mask_loop_stream)

text \<open>The exclusive or of two words is that of their bytes.\<close>

lemma le_bytes_xor: "le_bytes n (x XOR y) = map2 xor_byte (le_bytes n x) (le_bytes n y)"
proof (induction n arbitrary: x y)
  case (Suc n)
  have "char_of (x XOR y) = xor_byte (char_of x) (char_of y)"
  proof -
    have "char_of (x XOR y) = char_of (take_bit 8 (x XOR y))"
      using char_of_mod_256 [of "x XOR y"] by (simp add: take_bit_eq_mod)
    also have "\<dots> = xor_byte (char_of x) (char_of y)"
      unfolding take_bit_xor by (simp add: xor_byte_def take_bit_eq_mod)
    finally show ?thesis .
  qed
  moreover have "(x XOR y) div 256 = x div 256 XOR y div 256"
    using drop_bit_xor [of 8 x y] by (simp add: drop_bit_eq_div)
  ultimately show ?case by (simp add: Suc.IH)
qed simp

lemma unat_word_bytes: "length bs = 8 \<Longrightarrow> unat (word_of_nat (le_value bs) :: 64 word) = le_value bs"
  using le_value_bound [of bs] by (simp add: unat_of_nat)

lemma xor_word_bytes:
  assumes "length bs = 8"
  shows "le_bytes 8 (unat (word_of_nat (le_value bs) XOR k :: 64 word)) = mask_with (le_bytes 8 (unat k)) (8 * n) bs"
proof -
  have "unat (word_of_nat (le_value bs) XOR k :: 64 word) = le_value bs XOR unat k"
    by (simp add: unsigned_xor_eq unat_word_bytes [OF assms])
  moreover have "le_bytes 8 (le_value bs) = bs" using le_bytes_value [of bs] assms by simp
  ultimately show ?thesis using assms
    by (intro nth_equalityI) (simp_all add: le_bytes_xor nth_mask_with)
qed

lemma mask_words_stream:
  "8 * n \<le> length input \<Longrightarrow> mask_words input n k = mask_with (le_bytes 8 (unat k)) 0 (take (8 * n) input)"
proof (induction n)
  case (Suc n)
  have "take (8 * Suc n) input = take (8 * n) input @ take 8 (drop (8 * n) input)"
    using take_add [of "8 * n" 8 input] by (simp add: add.commute)
  moreover have "le_bytes 8 (unat (word_at input n XOR k)) = mask_with (le_bytes 8 (unat k)) (8 * n) (take 8 (drop (8 * n) input))"
    unfolding word_at_def using Suc.prems by (intro xor_word_bytes) simp
  ultimately show ?case using Suc by (simp add: mask_words_def mask_with_append min_def)
qed (simp add: mask_words_def)


lemma or_shift: "a < 2 ^ n \<Longrightarrow> a OR push_bit n b = a + 2 ^ n * b" for a b :: nat
proof -
  assume "a < 2 ^ n"
  then have "take_bit n a = a" by (simp add: take_bit_nat_eq_self)
  then have "\<not> bit a m" if "n \<le> m" for m
    using that by (metis bit_take_bit_iff not_less)
  then have "a AND push_bit n b = 0" by (intro bit_eqI) (auto simp: bit_simps)
  then show ?thesis by (simp add: push_bit_eq_mult mult.commute flip: disjunctive_add_eq_or)
qed

lemma unat_lt_256: "unat (k :: 64 word) < 256 ^ 8"
  using unsigned_less [of k, where 'a = nat] by simp

lemma le_bytes_join:
  assumes "a < 256 ^ m"
  shows "le_bytes (m + n) (a + 256 ^ m * b) = le_bytes m a @ le_bytes n b"
proof -
  have "(a + 256 ^ m * b) mod 256 ^ m = a" "(a + 256 ^ m * b) div 256 ^ m = b" using assms by simp_all
  then show ?thesis using le_bytes_mod [of m "a + 256 ^ m * b"] by (simp add: le_bytes_append)
qed

lemma prepared_key_bytes: "le_bytes 8 (unat (prepare_masking_key key)) = key_c key @ key_c key"
proof -
  let ?k = "unat key"
  have k: "?k < 2 ^ 32" using unsigned_less [of key, where 'a = nat] by simp
  have u: "unat (ucast key :: 64 word) = ?k" using k by (simp add: unsigned_ucast_eq take_bit_nat_eq_self)
  have "unat (push_bit 32 (ucast key :: 64 word)) = take_bit 64 (push_bit 32 ?k)"
    by (simp add: unsigned_push_bit_eq u)
  also have "\<dots> = push_bit 32 ?k"
    using k by (simp add: take_bit_nat_eq_self push_bit_eq_mult)
  finally have "unat (prepare_masking_key key) = ?k OR push_bit 32 ?k"
    by (simp add: prepare_masking_key_def unsigned_or_eq u or.commute)
  then have "unat (prepare_masking_key key) = ?k + 256 ^ 4 * ?k" using or_shift [OF k, of ?k] by simp
  then show ?thesis using le_bytes_join [of ?k 4 4 ?k] k by (simp add: key_c_def)
qed

lemma circshift_bytes:
  assumes "0 < off" "off < 8"
  shows "le_bytes 8 (unat (circshift_prepared_key over k off)) = rotate off (le_bytes 8 (unat k))"
proof -
  let ?x = "unat k"
  have p: "(2 :: nat) ^ (off * 8) = 256 ^ off" "(2 :: nat) ^ ((8 - off) * 8) = 256 ^ (8 - off)"
    using power_mult [of "2 :: nat" 8 off] power_mult [of "2 :: nat" 8 "8 - off"] by (simp_all add: mult.commute)
  have q: "(256 :: nat) ^ 8 = 256 ^ (8 - off) * 256 ^ off" using assms by (simp flip: power_add)
  have lt: "?x div 256 ^ off < 256 ^ (8 - off)"
    using unat_lt_256 [of k] q by (simp add: less_mult_imp_div_less)
  have d: "unat (drop_bit (off * 8) k) = ?x div 256 ^ off"
    using unat_lt_256 [of k] by (simp add: unsigned_drop_bit_eq take_bit_nat_eq_self) (simp add: drop_bit_eq_div p)
  have "unat (push_bit ((8 - off) * 8) k) = (?x * 256 ^ (8 - off)) mod 256 ^ 8"
    by (simp add: unsigned_push_bit_eq) (simp add: push_bit_eq_mult take_bit_eq_mod p)
  also have "\<dots> = 256 ^ (8 - off) * (?x mod 256 ^ off)"
    unfolding q by (simp add: mult.commute)
  also have "\<dots> = push_bit ((8 - off) * 8) (?x mod 256 ^ off)"
    unfolding push_bit_eq_mult p by (rule mult.commute)
  finally have u: "unat (push_bit ((8 - off) * 8) k) = push_bit ((8 - off) * 8) (?x mod 256 ^ off)" .
  have "unat (circshift_prepared_key over k off) = ?x div 256 ^ off + 256 ^ (8 - off) * (?x mod 256 ^ off)"
    using assms lt or_shift [of "?x div 256 ^ off" "(8 - off) * 8" "?x mod 256 ^ off"]
    by (simp add: circshift_prepared_key_def Let_def unsigned_or_eq d u p)
  then have "le_bytes 8 (unat (circshift_prepared_key over k off)) =
      le_bytes (8 - off) (?x div 256 ^ off) @ le_bytes off (?x mod 256 ^ off)"
    using le_bytes_join [OF lt, of off] assms by simp
  also have "\<dots> = drop off (le_bytes 8 ?x) @ take off (le_bytes 8 ?x)"
    using le_bytes_append [of off "8 - off" ?x] assms by (simp add: le_bytes_mod)
  finally show ?thesis using assms by (simp add: rotate_drop_take)
qed

text \<open>A shift by the whole width that gives nothing the key does not have, as on the processors the program runs on.\<close>

definition over_ok :: "(64 word \<Rightarrow> 64 word) \<Rightarrow> bool" where
  "over_ok over \<longleftrightarrow> (\<forall>k. k OR over k = k)"

lemma over_ok_cases: "over_ok (\<lambda>k. k)" "over_ok (\<lambda>k. 0)"
  by (simp_all add: over_ok_def)

lemma circshift_stream:
  assumes "over_ok over" "off < 8"
  shows "le_bytes 8 (unat (circshift_prepared_key over k off)) = rotate off (le_bytes 8 (unat k))"
proof (cases "off = 0")
  case True
  with assms(1) show ?thesis by (simp add: circshift_prepared_key_def over_ok_def)
next
  case False
  with assms(2) circshift_bytes show ?thesis by simp
qed


text \<open>The two word routines are that stream. The tail of \<open>word_mask_exact\<close> takes the key from its own bytes.\<close>

lemma tail_stream:
  assumes "length input = len" "length ks = 8" "n = len div 8"
  shows "map (\<lambda>i. xor_byte (input ! i) (ks ! (i mod 8))) [n * 8..<len] = mask_with ks (8 * n) (drop (8 * n) input)"
  using assms by (intro nth_equalityI) (simp_all add: nth_mask_with mult.commute)

lemma word_mask_exact_stream:
  assumes "length input = len"
  shows "word_mask_exact input len key = mask_with (key_c key) 0 input"
proof -
  let ?ks = "key_c key @ key_c key"
  let ?n = "len div 8"
  have i: "key_c key ! (i mod 4) = ?ks ! (i mod 8)" for i
  proof -
    define m where "m = i mod 8"
    have m: "m < 8" "i mod 4 = m mod 4" by (simp_all add: m_def mod_mod_cancel)
    have "m mod 4 = (if m < 4 then m else m - 4)" using m(1) by (simp add: le_mod_geq)
    then show ?thesis by (simp add: m nth_append flip: m_def)
  qed
  have k: "mask_with ?ks 0 input = mask_with (key_c key) 0 input"
    by (rule mask_with_cong) (simp add: i [symmetric])
  have "word_mask_exact input len key =
      mask_with ?ks 0 (take (8 * ?n) input) @ mask_with ?ks (8 * ?n) (drop (8 * ?n) input)"
    using assms tail_stream [OF assms, of ?ks ?n]
    by (simp add: word_mask_exact_def Let_def mask_words_stream prepared_key_bytes i)
  also have "\<dots> = mask_with ?ks 0 (take (8 * ?n) input @ drop (8 * ?n) input)"
    using assms by (simp only: mask_with_append) simp
  finally show ?thesis by (simp only: append_take_drop_id k)
qed

lemma word_mask_circ_stream:
  assumes "length input = len"
  shows "fst (word_mask_circ over input len k) = mask_with (le_bytes 8 (unat k)) 0 input"
    and "over_ok over \<Longrightarrow>
      le_bytes 8 (unat (snd (word_mask_circ over input len k))) = rotate len (le_bytes 8 (unat k))"
proof -
  let ?ks = "le_bytes 8 (unat k)"
  let ?n = "len div 8"
  have e: "len - ?n * 8 = len mod 8" "len - len mod 8 = 8 * ?n"
    by (simp_all add: minus_div_mult_eq_mod minus_mod_eq_mult_div)
  have l: "length (drop (8 * ?n) input) = len mod 8" using assms by (simp add: minus_mult_div_eq_mod)
  have "map (\<lambda>i. xor_byte (input ! (8 * ?n + i)) (?ks ! i)) [0..<len mod 8] =
      mask_with ?ks (8 * ?n) (drop (8 * ?n) input)"
    using l assms by (intro nth_equalityI) (simp_all add: nth_mask_with)
  then have "fst (word_mask_circ over input len k) =
      mask_with ?ks 0 (take (8 * ?n) input) @ mask_with ?ks (8 * ?n) (drop (8 * ?n) input)"
    unfolding word_mask_circ_def Let_def e fst_conv using assms by (simp add: mask_words_stream)
  also have "\<dots> = mask_with ?ks 0 (take (8 * ?n) input @ drop (8 * ?n) input)"
    using assms by (simp only: mask_with_append) simp
  finally show "fst (word_mask_circ over input len k) = mask_with ?ks 0 input"
    by (simp only: append_take_drop_id)
  assume "over_ok over"
  then have "le_bytes 8 (unat (circshift_prepared_key over k (len mod 8))) = rotate (len mod 8) ?ks"
    by (rule circshift_stream) simp
  then show "le_bytes 8 (unat (snd (word_mask_circ over input len k))) = rotate len ?ks"
    using rotate_conv_mod [of len ?ks] by (simp add: word_mask_circ_def Let_def minus_div_mult_eq_mod)
qed

lemma word_of_le_bytes: "le_bytes 8 (unat k) = le_bytes 8 (unat l) \<Longrightarrow> k = l" for k l :: "64 word"
proof -
  assume "le_bytes 8 (unat k) = le_bytes 8 (unat l)"
  from arg_cong [OF this, of le_value] show "k = l"
    using unat_lt_256 [of k] unat_lt_256 [of l] by (simp add: word_unat_eq_iff)
qed

text \<open>Masking a payload in two pieces is masking it in one: the shifted key continues the stream.\<close>

lemma word_mask_circ_append:
  assumes "over_ok over" "word_mask_circ over xs (length xs) k = (xs', k')"
  shows "word_mask_circ over (xs @ ys) (length (xs @ ys)) k =
    (xs' @ fst (word_mask_circ over ys (length ys) k'), snd (word_mask_circ over ys (length ys) k'))"
proof (rule prod_eqI)
  let ?b = "\<lambda>k :: 64 word. le_bytes 8 (unat k)"
  have xs: "xs' = mask_with (?b k) 0 xs" "?b k' = rotate (length xs) (?b k)"
    using word_mask_circ_stream [of xs "length xs" over k] assms by simp_all
  have ne: "?b k \<noteq> []" using length_le_bytes [of 8 "unat k"] by fastforce
  show "fst (word_mask_circ over (xs @ ys) (length (xs @ ys)) k) =
      fst (xs' @ fst (word_mask_circ over ys (length ys) k'), snd (word_mask_circ over ys (length ys) k'))"
    by (simp only: word_mask_circ_stream(1) [OF refl] fst_conv mask_with_append xs mask_with_rotate [OF ne])
  have "?b (snd (word_mask_circ over (xs @ ys) (length (xs @ ys)) k)) =
      ?b (snd (word_mask_circ over ys (length ys) k'))"
    unfolding word_mask_circ_stream(2) [OF refl assms(1)] xs by (simp add: rotate_rotate add.commute)
  then show "snd (word_mask_circ over (xs @ ys) (length (xs @ ys)) k) =
      snd (xs' @ fst (word_mask_circ over ys (length ys) k'), snd (word_mask_circ over ys (length ys) k'))"
    unfolding snd_conv by (rule word_of_le_bytes)
qed


lemma prepared_stream: "mask_with (le_bytes 8 (unat (prepare_masking_key key))) i cs = byte_mask key i cs"
proof -
  have "(key_c key @ key_c key) ! (j mod 8) = key_c key ! (j mod 4)" for j
  proof -
    define m where "m = j mod 8"
    have m: "m < 8" "j mod 4 = m mod 4" by (simp_all add: m_def mod_mod_cancel)
    have "m mod 4 = (if m < 4 then m else m - 4)" using m(1) by (simp add: le_mod_geq)
    then show ?thesis by (simp add: m nth_append flip: m_def)
  qed
  then show ?thesis
    unfolding byte_mask_stream prepared_key_bytes by (intro mask_with_cong) simp
qed

text \<open>C15: The word routines mask like the byte routine. \<open>word_mask_exact\<close>, which masks outgoing payloads, gives the bytes of
  \<open>byte_mask\<close>; \<open>word_mask_circ\<close>, which unmasks what arrives in pieces, continues with the key it returned exactly where the
  piece before it ended; and masking again gives the data back.\<close>

theorem masking_routines:
  assumes "over_ok over"
  shows "word_mask_exact xs (length xs) key = byte_mask key 0 xs \<and>
    fst (word_mask_circ over xs (length xs) (prepare_masking_key key)) = byte_mask key 0 xs \<and>
    fst (word_mask_circ over ys (length ys) (snd (word_mask_circ over xs (length xs) (prepare_masking_key key)))) =
      byte_mask key (length xs) ys \<and>
    byte_mask key n (byte_mask key n xs) = xs"
proof -
  let ?k = "prepare_masking_key key"
  have ne: "le_bytes 8 (unat ?k) \<noteq> []" using length_le_bytes [of 8 "unat ?k"] by fastforce
  have "mask_with (le_bytes 8 (unat (snd (word_mask_circ over xs (length xs) ?k)))) 0 ys = byte_mask key (0 + length xs) ys"
    unfolding word_mask_circ_stream(2) [OF refl assms] mask_with_rotate [OF ne] prepared_stream ..
  then show ?thesis
    by (simp only: word_mask_circ_stream(1) [OF refl] prepared_stream word_mask_exact_stream [OF refl])
      (simp add: byte_mask_stream)
qed

theorem masking_routines_witness:
  "fst (word_mask_circ (\<lambda>k. k) ''load'' (length ''load'')
     (snd (word_mask_circ (\<lambda>k. k) ''pay'' (length ''pay'') (prepare_masking_key 0x12345678)))) =
   byte_mask 0x12345678 (length ''pay'') ''load''"
  by (rule masking_routines [OF over_ok_cases(1), THEN conjunct2, THEN conjunct2, THEN conjunct1])

text \<open>What \<open>prepare_header\<close> writes is what the reading side takes out of it: the two bytes and whatever array the rest
  is read into give back the flags, the opcode, the payload size at any of its three widths and the masking key, and
  \<open>get_header_len\<close>, computed from the two bytes alone, is the length written.\<close>

theorem header_roundtrip:
  assumes "op < 16" "w = prepare_header (header_make op sz fin True r1 r2 r3) (extended_header_key sz key)"
    "h = header_bytes (word_of_nat (byte (w ! 0))) (word_of_nat (byte (w ! 1)))" "e = drop 2 w @ t"
  shows "get_fin h = fin \<and> get_opcode h = op \<and> get_masked h \<and> get_rsv1 h = r1 \<and> get_rsv2 h = r2 \<and> get_rsv3 h = r3 \<and>
    get_payload_size h e = sz \<and> get_masking_key h e = key \<and> get_header_len h = length w"
proof -
  let ?h = "header_make op sz fin True r1 r2 r3"
  have b: "unat b mod 256 = unat b" for b :: "8 word" using unsigned_less [of b, where 'a = nat] by simp
  have w: "w = [char_of (unat (bh_b0 ?h)), char_of (unat (bh_b1 ?h))] @ size_field sz @ key_c key"
    unfolding assms(2) by (rule prepare_header_make)
  then have h: "h = ?h" using assms(3) by (simp add: header_bytes_def b)
  have e: "e = size_field sz @ key_c key @ t" using assms(4) w by simp
  have "unat (take_bit 4 op) = unat op"
    using assms(1) by (simp add: unsigned_take_bit_eq take_bit_nat_eq_self word_less_nat_alt)
  then have "take_bit 4 op = op" by (rule word_unat_eq_iff [THEN iffD2])
  then show ?thesis unfolding h e
    by (simp add: header_make_opcode header_make_payload_size header_make_key get_header_len_def Let_def w)
qed

theorem header_roundtrip_witness:
  "let w = prepare_header (header_make 1 70000 True True False False False) (extended_header_key 70000 0xDEADBEEF)
   in get_payload_size (header_bytes (word_of_nat (byte (w ! 0))) (word_of_nat (byte (w ! 1)))) (drop 2 w @ ''more'') = 70000"
  using header_roundtrip [OF _ refl refl refl, of 1 70000 True False False False "0xDEADBEEF" "''more''"]
  by (simp only: Let_def) simp

end
