(* ===== verification/Ws_Utf8.thy ===== *)
theory Ws_Utf8
  imports Std_Lib
begin

text \<open>
  The validator of text messages, \<open>src/depends/include/websocketpp/utf8_validator.hpp\<close>: an automaton in a
  table. The reference is the encoding of code points in bytes of RFC 3629; the automaton accepts exactly
  the encodings.
\<close>

unbundle bit_operations_syntax

section \<open>The automaton\<close>

definition utf8d :: "nat list" where
  "utf8d = [
    0, 0, 0, 0, 0, 0, 0, 0, 0, 0, 0, 0, 0, 0, 0, 0, 0, 0, 0, 0, 0, 0, 0, 0, 0, 0, 0, 0, 0, 0, 0, 0,
    0, 0, 0, 0, 0, 0, 0, 0, 0, 0, 0, 0, 0, 0, 0, 0, 0, 0, 0, 0, 0, 0, 0, 0, 0, 0, 0, 0, 0, 0, 0, 0,
    0, 0, 0, 0, 0, 0, 0, 0, 0, 0, 0, 0, 0, 0, 0, 0, 0, 0, 0, 0, 0, 0, 0, 0, 0, 0, 0, 0, 0, 0, 0, 0,
    0, 0, 0, 0, 0, 0, 0, 0, 0, 0, 0, 0, 0, 0, 0, 0, 0, 0, 0, 0, 0, 0, 0, 0, 0, 0, 0, 0, 0, 0, 0, 0,
    1, 1, 1, 1, 1, 1, 1, 1, 1, 1, 1, 1, 1, 1, 1, 1, 9, 9, 9, 9, 9, 9, 9, 9, 9, 9, 9, 9, 9, 9, 9, 9,
    7, 7, 7, 7, 7, 7, 7, 7, 7, 7, 7, 7, 7, 7, 7, 7, 7, 7, 7, 7, 7, 7, 7, 7, 7, 7, 7, 7, 7, 7, 7, 7,
    8, 8, 2, 2, 2, 2, 2, 2, 2, 2, 2, 2, 2, 2, 2, 2, 2, 2, 2, 2, 2, 2, 2, 2, 2, 2, 2, 2, 2, 2, 2, 2,
    10, 3, 3, 3, 3, 3, 3, 3, 3, 3, 3, 3, 3, 4, 3, 3,
    11, 6, 6, 6, 5, 8, 8, 8, 8, 8, 8, 8, 8, 8, 8, 8,
    0, 1, 2, 3, 5, 8, 7, 1, 1, 1, 4, 6, 1, 1, 1, 1,
    1, 1, 1, 1, 1, 1, 1, 1, 1, 1, 1, 1, 1, 1, 1, 1, 1, 0, 1, 1, 1, 1, 1, 0, 1, 0, 1, 1, 1, 1, 1, 1,
    1, 2, 1, 1, 1, 1, 1, 2, 1, 2, 1, 1, 1, 1, 1, 1, 1, 1, 1, 1, 1, 1, 1, 2, 1, 1, 1, 1, 1, 1, 1, 1,
    1, 2, 1, 1, 1, 1, 1, 1, 1, 2, 1, 1, 1, 1, 1, 1, 1, 1, 1, 1, 1, 1, 1, 3, 1, 3, 1, 1, 1, 1, 1, 1,
    1, 3, 1, 1, 1, 1, 1, 3, 1, 3, 1, 1, 1, 1, 1, 1, 1, 3, 1, 1, 1, 1, 1, 1, 1, 1, 1, 1, 1, 1, 1, 1]"

abbreviation (input) UTF8_ACCEPT :: nat where "UTF8_ACCEPT \<equiv> 0"
abbreviation (input) UTF8_REJECT :: nat where "UTF8_REJECT \<equiv> 1"

record utf8_validator =
  vd_state :: nat
  vd_codepoint :: "32 word"

definition validator_new :: utf8_validator where
  "validator_new = \<lparr>vd_state = UTF8_ACCEPT, vd_codepoint = 0\<rparr>"

definition utf8_decode :: "char \<Rightarrow> utf8_validator \<Rightarrow> utf8_validator" where
  "utf8_decode c v =
     (let type = utf8d ! byte c
      in \<lparr>vd_state = utf8d ! (256 + vd_state v * 16 + type),
          vd_codepoint = (if vd_state v \<noteq> UTF8_ACCEPT
            then (word_of_nat (byte c) AND 0x3F) OR push_bit 6 (vd_codepoint v)
            else drop_bit type 0xFF AND word_of_nat (byte c))\<rparr>)"

definition validator_consume :: "char \<Rightarrow> utf8_validator \<Rightarrow> bool \<times> utf8_validator" where
  "validator_consume c v = (let v = utf8_decode c v in (vd_state v \<noteq> UTF8_REJECT, v))"

text \<open>\<open>decode(b, e)\<close> stops at the first byte that is rejected.\<close>

primrec validator_decode :: "string \<Rightarrow> utf8_validator \<Rightarrow> bool \<times> utf8_validator" where
  "validator_decode [] v = (True, v)"
| "validator_decode (c # cs) v =
     (let v = utf8_decode c v in if vd_state v = UTF8_REJECT then (False, v) else validator_decode cs v)"

definition validator_complete :: "utf8_validator \<Rightarrow> bool" where
  "validator_complete v \<longleftrightarrow> vd_state v = UTF8_ACCEPT"

definition validator_reset :: "utf8_validator \<Rightarrow> utf8_validator" where
  "validator_reset v = \<lparr>vd_state = UTF8_ACCEPT, vd_codepoint = 0\<rparr>"

definition utf8_validate :: "string \<Rightarrow> bool" where
  "utf8_validate s = (case validator_decode s validator_new of (ok, v) \<Rightarrow> ok \<and> validator_complete v)"

section \<open>The encoding\<close>

text \<open>The code points that have an encoding: no surrogates, nothing above 10FFFF.\<close>

definition scalar_value :: "nat \<Rightarrow> bool" where
  "scalar_value cp \<longleftrightarrow> cp < 0xD800 \<or> 0xE000 \<le> cp \<and> cp < 0x110000"

definition utf8_encode :: "nat \<Rightarrow> string" where
  "utf8_encode cp = map char_of
     (if cp < 0x80 then [cp]
      else if cp < 0x800 then [0xC0 + cp div 64, 0x80 + cp mod 64]
      else if cp < 0x10000 then [0xE0 + cp div 4096, 0x80 + cp div 64 mod 64, 0x80 + cp mod 64]
      else [0xF0 + cp div 262144, 0x80 + cp div 4096 mod 64, 0x80 + cp div 64 mod 64, 0x80 + cp mod 64])"

text \<open>What the table says, by ranges of bytes. The states: 0 between two characters, 1 rejected, 2, 3, 7 one, two or three
  continuation bytes to come, 4, 5, 6, 8 behind E0, ED, F0, F4, which restrict the next one.\<close>

definition cont :: "nat \<Rightarrow> nat \<Rightarrow> nat \<Rightarrow> nat \<Rightarrow> nat" where
  "cont lo hi q b = (if lo \<le> b \<and> b \<le> hi then q else 1)"

definition dfa :: "nat \<Rightarrow> nat \<Rightarrow> nat" where
  "dfa q b =
     (if q = 0 then
        (if b < 0x80 then 0 else if b < 0xC2 then 1 else if b < 0xE0 then 2
         else if b = 0xE0 then 4 else if b = 0xED then 5 else if b < 0xF0 then 3
         else if b = 0xF0 then 6 else if b < 0xF4 then 7 else if b = 0xF4 then 8 else 1)
      else if q = 2 then cont 0x80 0xBF 0 b else if q = 3 then cont 0x80 0xBF 2 b
      else if q = 4 then cont 0xA0 0xBF 2 b else if q = 5 then cont 0x80 0x9F 2 b
      else if q = 6 then cont 0x90 0xBF 3 b else if q = 7 then cont 0x80 0xBF 3 b
      else if q = 8 then cont 0x80 0x8F 3 b else 1)"

definition byte_type :: "nat \<Rightarrow> nat" where
  "byte_type b = (if b < 0x80 then 0 else if b < 0x90 then 1 else if b < 0xA0 then 9 else if b < 0xC0 then 7
     else if b < 0xC2 then 8 else if b < 0xE0 then 2 else if b = 0xE0 then 10 else if b = 0xED then 4
     else if b < 0xF0 then 3 else if b = 0xF0 then 11 else if b < 0xF4 then 6 else if b = 0xF4 then 5 else 8)"

lemma utf8d_types: "map byte_type [0..<256] = take 256 utf8d"
  by code_simp

lemma utf8d_type: "b < 256 \<Longrightarrow> utf8d ! b = byte_type b"
  using arg_cong [OF utf8d_types, of "\<lambda>xs. xs ! b"] by simp

definition trans_type :: "nat \<Rightarrow> nat \<Rightarrow> nat" where
  "trans_type q t =
     (if q = 0 then (if t = 0 then 0 else if t = 2 then 2 else if t = 3 then 3 else if t = 10 then 4 else if t = 4 then 5
         else if t = 11 then 6 else if t = 6 then 7 else if t = 5 then 8 else 1)
      else if q = 2 then (if t = 1 \<or> t = 7 \<or> t = 9 then 0 else 1)
      else if q = 3 then (if t = 1 \<or> t = 7 \<or> t = 9 then 2 else 1)
      else if q = 4 then (if t = 7 then 2 else 1) else if q = 5 then (if t = 1 \<or> t = 9 then 2 else 1)
      else if q = 6 then (if t = 7 \<or> t = 9 then 3 else 1)
      else if q = 7 then (if t = 1 \<or> t = 7 \<or> t = 9 then 3 else 1)
      else if q = 8 then (if t = 1 then 3 else 1) else 1)"

lemma utf8d_rows: "drop 256 utf8d = map (\<lambda>i. trans_type (i div 16) (i mod 16)) [0..<144]"
  by code_simp

lemma utf8d_length: "length utf8d = 400"
  by code_simp

lemma utf8d_trans:
  assumes "q < 9" "t < 16"
  shows "utf8d ! (256 + q * 16 + t) = trans_type q t"
proof -
  have "utf8d ! (256 + q * 16 + t) = drop 256 utf8d ! (q * 16 + t)"
    using assms by (simp add: utf8d_length add.assoc)
  also have "\<dots> = trans_type ((q * 16 + t) div 16) ((q * 16 + t) mod 16)"
    unfolding utf8d_rows using assms by simp
  finally show ?thesis using assms by simp
qed

lemma byte_type_range: "byte_type b < 12"
  by (simp add: byte_type_def)

lemma trans_byte: "b < 256 \<Longrightarrow> trans_type q (byte_type b) = dfa q b"
  unfolding dfa_def cont_def byte_type_def trans_type_def by auto

lemma utf8_state: "vd_state v < 9 \<Longrightarrow> vd_state (utf8_decode c v) = dfa (vd_state v) (byte c)"
  using utf8d_trans [of "vd_state v" "byte_type (byte c)"] byte_type_range [of "byte c"]
  by (simp add: utf8_decode_def Let_def utf8d_type trans_byte)

lemma dfa_range: "dfa q b < 9"
  by (simp add: dfa_def cont_def)


section \<open>The automaton accepts exactly the encodings\<close>

primrec run :: "nat \<Rightarrow> string \<Rightarrow> nat option" where
  "run q [] = Some q"
| "run q (c # cs) = (if dfa q (byte c) = 1 then None else run (dfa q (byte c)) cs)"

lemma run_append: "run q (s @ t) = Option.bind (run q s) (\<lambda>q. run q t)"
  by (induction s arbitrary: q) simp_all

lemma validator_decode_run:
  "vd_state v < 9 \<Longrightarrow>
   run (vd_state v) s = (case validator_decode s v of (ok, v) \<Rightarrow> if ok then Some (vd_state v) else None)"
proof (induction s arbitrary: v)
  case (Cons c cs)
  have "vd_state (utf8_decode c v) < 9" by (simp only: utf8_state [OF Cons.prems] dfa_range)
  from Cons.IH [OF this] show ?case by (simp add: Let_def utf8_state [OF Cons.prems])
qed simp

lemma validator_decode_state: "vd_state v < 9 \<Longrightarrow> vd_state (snd (validator_decode s v)) < 9"
proof (induction s arbitrary: v)
  case (Cons c cs)
  have "vd_state (utf8_decode c v) < 9" by (simp only: utf8_state [OF Cons.prems] dfa_range)
  from Cons.IH [OF this] this show ?case by (simp add: Let_def)
qed simp

lemma utf8_validate_run: "utf8_validate s \<longleftrightarrow> run 0 s = Some 0"
  using validator_decode_run [of validator_new s]
  unfolding utf8_validate_def validator_new_def validator_complete_def
  by (cases "validator_decode s \<lparr>vd_state = 0, vd_codepoint = 0\<rparr>") simp

lemma byte_char_of [simp]: "n < 256 \<Longrightarrow> byte (char_of n) = n"
  by simp

lemma dfa_lead:
  "a < 0x80 \<Longrightarrow> dfa 0 a = 0"
  "2 \<le> a \<Longrightarrow> a < 32 \<Longrightarrow> dfa 0 (0xC0 + a) = 2"
  "a < 16 \<Longrightarrow> dfa 0 (0xE0 + a) = (if a = 0 then 4 else if a = 13 then 5 else 3)"
  "a < 5 \<Longrightarrow> dfa 0 (0xF0 + a) = (if a = 0 then 6 else if a = 4 then 8 else 7)"
  by (auto simp: dfa_def)

lemma dfa_follow:
  "b < 64 \<Longrightarrow> dfa 2 (0x80 + b) = 0"
  "b < 64 \<Longrightarrow> dfa 3 (0x80 + b) = 2"
  "b < 64 \<Longrightarrow> dfa 4 (0x80 + b) = (if 32 \<le> b then 2 else 1)"
  "b < 64 \<Longrightarrow> dfa 5 (0x80 + b) = (if b < 32 then 2 else 1)"
  "b < 64 \<Longrightarrow> dfa 6 (0x80 + b) = (if 16 \<le> b then 3 else 1)"
  "b < 64 \<Longrightarrow> dfa 7 (0x80 + b) = 3"
  "b < 64 \<Longrightarrow> dfa 8 (0x80 + b) = (if b < 16 then 3 else 1)"
  by (auto simp: dfa_def cont_def)

definition enc2 :: "nat \<Rightarrow> nat \<Rightarrow> string" where
  "enc2 a b = map char_of [0xC0 + a, 0x80 + b]"

definition enc3 :: "nat \<Rightarrow> nat \<Rightarrow> nat \<Rightarrow> string" where
  "enc3 a b c = map char_of [0xE0 + a, 0x80 + b, 0x80 + c]"

definition enc4 :: "nat \<Rightarrow> nat \<Rightarrow> nat \<Rightarrow> nat \<Rightarrow> string" where
  "enc4 a b c d = map char_of [0xF0 + a, 0x80 + b, 0x80 + c, 0x80 + d]"

lemma run_enc2: "2 \<le> a \<Longrightarrow> a < 32 \<Longrightarrow> b < 64 \<Longrightarrow> run 0 (enc2 a b) = Some 0"
  by (simp add: enc2_def dfa_lead dfa_follow)

lemma run_enc3:
  "a < 16 \<Longrightarrow> b < 64 \<Longrightarrow> c < 64 \<Longrightarrow> (a = 0 \<longrightarrow> 32 \<le> b) \<Longrightarrow> (a = 13 \<longrightarrow> b < 32) \<Longrightarrow> run 0 (enc3 a b c) = Some 0"
  by (simp add: enc3_def dfa_lead dfa_follow)

lemma run_enc4:
  "a < 5 \<Longrightarrow> b < 64 \<Longrightarrow> c < 64 \<Longrightarrow> d < 64 \<Longrightarrow> (a = 0 \<longrightarrow> 16 \<le> b) \<Longrightarrow> (a = 4 \<longrightarrow> b < 16) \<Longrightarrow>
   run 0 (enc4 a b c d) = Some 0"
  by (simp add: enc4_def dfa_lead dfa_follow)

lemma utf8_encode_forms:
  "cp < 0x80 \<Longrightarrow> utf8_encode cp = [char_of cp]"
  "0x80 \<le> cp \<Longrightarrow> cp < 0x800 \<Longrightarrow> utf8_encode cp = enc2 (cp div 64) (cp mod 64)"
  "0x800 \<le> cp \<Longrightarrow> cp < 0x10000 \<Longrightarrow> utf8_encode cp = enc3 (cp div 4096) (cp div 64 mod 64) (cp mod 64)"
  "0x10000 \<le> cp \<Longrightarrow>
   utf8_encode cp = enc4 (cp div 262144) (cp div 4096 mod 64) (cp div 64 mod 64) (cp mod 64)"
  by (simp_all add: utf8_encode_def enc2_def enc3_def enc4_def)

lemma digits64: "(n :: nat) = 4096 * (n div 4096) + 64 * (n div 64 mod 64) + n mod 64"
proof -
  have "n = 64 * (n div 64) + n mod 64" "n div 64 = 64 * (n div 64 div 64) + n div 64 mod 64"
    by simp_all
  moreover have "n div 64 div 64 = n div 4096" by (simp flip: div_mult2_eq)
  ultimately show ?thesis by linarith
qed

lemma digits4096: "(n :: nat) = 262144 * (n div 262144) + 4096 * (n div 4096 mod 64) + n mod 4096"
proof -
  have "n = 4096 * (n div 4096) + n mod 4096" "n div 4096 = 64 * (n div 4096 div 64) + n div 4096 mod 64"
    by simp_all
  moreover have "n div 4096 div 64 = n div 262144" by (simp flip: div_mult2_eq)
  ultimately show ?thesis by linarith
qed

lemma run_encode:
  assumes "scalar_value cp"
  shows "run 0 (utf8_encode cp) = Some 0"
proof -
  consider "cp < 0x80" | "0x80 \<le> cp" "cp < 0x800" | "0x800 \<le> cp" "cp < 0x10000" | "0x10000 \<le> cp" "cp < 0x110000"
    using assms unfolding scalar_value_def by linarith
  then show ?thesis
  proof cases
    case 1
    then show ?thesis by (simp add: utf8_encode_forms dfa_lead)
  next
    case 2
    then have "2 \<le> cp div 64" "cp div 64 < 32" by linarith+
    with 2 show ?thesis by (simp only: utf8_encode_forms) (rule run_enc2; simp)
  next
    case 3
    define a b r where "a = cp div 4096" and "b = cp div 64 mod 64" and "r = cp mod 64"
    have cp: "cp = 4096 * a + 64 * b + r" "b < 64" "r < 64"
      using digits64 [of cp] by (simp_all add: a_def b_def r_def)
    have "a < 16" "a = 0 \<longrightarrow> 32 \<le> b" "a = 13 \<longrightarrow> b < 32"
      using 3 cp assms unfolding scalar_value_def by linarith+
    note this [unfolded a_def b_def]
    then show ?thesis using 3 by (simp only: utf8_encode_forms) (rule run_enc3; simp)
  next
    case 4
    define a b r where "a = cp div 262144" and "b = cp div 4096 mod 64" and "r = cp mod 4096"
    have cp: "cp = 262144 * a + 4096 * b + r" "b < 64" "r < 4096"
      using digits4096 [of cp] by (simp_all add: a_def b_def r_def)
    have "a < 5" "a = 0 \<longrightarrow> 16 \<le> b" "a = 4 \<longrightarrow> b < 16"
      using 4 cp by linarith+
    note this [unfolded a_def b_def]
    then show ?thesis using 4 by (simp only: utf8_encode_forms) (rule run_enc4; simp)
  qed
qed

lemma run_encodings: "list_all scalar_value cps \<Longrightarrow> run 0 (concat (map utf8_encode cps)) = Some 0"
  by (induction cps) (simp_all add: run_append run_encode)


lemma dfa_first:
  assumes "dfa 0 b \<noteq> 1"
  obtains "b < 0x80" | a where "b = 0xC0 + a" "2 \<le> a" "a < 32" | a where "b = 0xE0 + a" "a < 16"
    | a where "b = 0xF0 + a" "a < 5"
proof -
  have "b < 0x80 \<or> 0xC2 \<le> b \<and> b < 0xE0 \<or> 0xE0 \<le> b \<and> b < 0xF0 \<or> 0xF0 \<le> b \<and> b < 0xF5"
    using assms by (auto simp: dfa_def split: if_splits)
  then consider "b < 0x80" | "0xC2 \<le> b" "b < 0xE0" | "0xE0 \<le> b" "b < 0xF0" | "0xF0 \<le> b" "b < 0xF5" by blast
  then show thesis
  proof cases
    case 1
    then show ?thesis by (rule that(1))
  next
    case 2
    then show ?thesis by (intro that(2) [of "b - 0xC0"]) simp_all
  next
    case 3
    then show ?thesis by (intro that(3) [of "b - 0xE0"]) simp_all
  next
    case 4
    then show ?thesis by (intro that(4) [of "b - 0xF0"]) simp_all
  qed
qed

lemma run_follow:
  assumes "run q s = Some 0" "q \<noteq> 0"
  obtains x t where "s = char_of (0x80 + x) # t" "x < 64" "dfa q (0x80 + x) \<noteq> 1" "run (dfa q (0x80 + x)) t = Some 0"
proof (cases s)
  case Nil
  with assms show ?thesis by simp
next
  case (Cons c t)
  with assms have d: "dfa q (byte c) \<noteq> 1" "run (dfa q (byte c)) t = Some 0" by (simp_all split: if_splits)
  have b: "0x80 \<le> byte c" "byte c < 0xC0"
    using d(1) assms(2) by (auto simp: dfa_def cont_def split: if_splits)
  then have e: "0x80 + (byte c - 0x80) = byte c" by simp
  show ?thesis
    by (rule that [of "byte c - 0x80" t]) (use Cons b d in \<open>simp_all only: e\<close>, simp_all)
qed

lemma encode_of_enc2:
  assumes "2 \<le> a" "a < 32" "b < 64"
  shows "scalar_value (64 * a + b)" "utf8_encode (64 * a + b) = enc2 a b"
  using assms by (simp_all add: scalar_value_def utf8_encode_forms)

lemma encode_of_enc3:
  assumes "a < 16" "b < 64" "c < 64" "a = 0 \<longrightarrow> 32 \<le> b" "a = 13 \<longrightarrow> b < 32"
  shows "scalar_value (4096 * a + 64 * b + c)" "utf8_encode (4096 * a + 64 * b + c) = enc3 a b c"
proof -
  let ?cp = "4096 * a + 64 * b + c"
  have r: "0x800 \<le> ?cp" "?cp < 0x10000" using assms by linarith+
  have "?cp div 4096 = a" "?cp div 64 = 64 * a + b" using assms by simp_all
  moreover have "?cp mod 64 = c" using assms mod_mult_self4 [of 64 "64 * a + b" c] by (simp add: algebra_simps)
  ultimately show "utf8_encode ?cp = enc3 a b c" using r assms by (simp only: utf8_encode_forms) simp
  consider "a < 13" | "a = 13" | "14 \<le> a" by linarith
  then show "scalar_value ?cp" unfolding scalar_value_def using assms by cases linarith+
qed

lemma encode_of_enc4:
  assumes "a < 5" "b < 64" "c < 64" "d < 64" "a = 0 \<longrightarrow> 16 \<le> b" "a = 4 \<longrightarrow> b < 16"
  shows "scalar_value (262144 * a + 4096 * b + 64 * c + d)"
    "utf8_encode (262144 * a + 4096 * b + 64 * c + d) = enc4 a b c d"
proof -
  let ?cp = "262144 * a + 4096 * b + 64 * c + d"
  have r: "0x10000 \<le> ?cp" using assms by linarith
  have "?cp div 262144 = a" "?cp div 4096 = 64 * a + b" "?cp div 64 = 64 * (64 * a + b) + c"
    using assms by simp_all
  moreover have "(4096 * a + 64 * b + c) mod 64 = c"
    using assms mod_mult_self4 [of 64 "64 * a + b" c] by (simp add: algebra_simps)
  moreover have "?cp mod 64 = d"
    using assms mod_mult_self4 [of 64 "64 * (64 * a + b) + c" d] by (simp add: algebra_simps)
  ultimately show "utf8_encode ?cp = enc4 a b c d" using r assms by (simp only: utf8_encode_forms) simp
  show "scalar_value ?cp" unfolding scalar_value_def using assms by linarith
qed


lemma dfa_second:
  "b < 64 \<Longrightarrow> dfa (if a = (0 :: nat) then 4 else if a = 13 then 5 else 3) (0x80 + b) =
   (if (a = 0 \<longrightarrow> 32 \<le> b) \<and> (a = 13 \<longrightarrow> b < 32) then 2 else 1)"
  "b < 64 \<Longrightarrow> dfa (if a = (0 :: nat) then 6 else if a = 4 then 8 else 7) (0x80 + b) =
   (if (a = 0 \<longrightarrow> 16 \<le> b) \<and> (a = 4 \<longrightarrow> b < 16) then 3 else 1)"
  by (simp_all add: dfa_follow)

lemma run_second3:
  assumes "run (if a = (0 :: nat) then 4 else if a = 13 then 5 else 3) u = Some 0"
  obtains b t where "u = char_of (0x80 + b :: nat) # t" "b < 64" "run 2 t = Some 0"
    "a = 0 \<longrightarrow> 32 \<le> b" "a = 13 \<longrightarrow> b < 32"
  using assms
proof (rule run_follow)
  fix x t
  assume x: "u = char_of (0x80 + x :: nat) # t" "x < 64" "dfa (if a = (0 :: nat) then 4 else if a = 13 then 5 else 3) (0x80 + x) \<noteq> 1"
    "run (dfa (if a = (0 :: nat) then 4 else if a = 13 then 5 else 3) (0x80 + x)) t = Some 0"
  from x(3,4) show thesis unfolding dfa_second [OF x(2)]
    by (simp split: if_split_asm) (use that [OF x(1,2)] in blast)
qed simp

lemma run_second4:
  assumes "run (if a = (0 :: nat) then 6 else if a = 4 then 8 else 7) u = Some 0"
  obtains b t where "u = char_of (0x80 + b :: nat) # t" "b < 64" "run 3 t = Some 0"
    "a = 0 \<longrightarrow> 16 \<le> b" "a = 4 \<longrightarrow> b < 16"
  using assms
proof (rule run_follow)
  fix x t
  assume x: "u = char_of (0x80 + x :: nat) # t" "x < 64" "dfa (if a = (0 :: nat) then 6 else if a = 4 then 8 else 7) (0x80 + x) \<noteq> 1"
    "run (dfa (if a = (0 :: nat) then 6 else if a = 4 then 8 else 7) (0x80 + x)) t = Some 0"
  from x(3,4) show thesis unfolding dfa_second [OF x(2)]
    by (simp split: if_split_asm) (use that [OF x(1,2)] in blast)
qed simp

lemma run_first:
  assumes "run 0 s = Some 0" "s \<noteq> []"
  obtains cp t where "scalar_value cp" "s = utf8_encode cp @ t" "run 0 t = Some 0"
proof -
  from assms obtain h u where s: "s = h # u" and d: "dfa 0 (byte h) \<noteq> 1" "run (dfa 0 (byte h)) u = Some 0"
    by (cases s) (simp_all split: if_splits)
  have h: "h = char_of (byte h)" by simp
  from d(1) show thesis
  proof (cases rule: dfa_first)
    case 1
    then show ?thesis using that [of "byte h" u] s d
      by (simp add: dfa_lead utf8_encode_forms scalar_value_def)
  next
    case (2 a)
    with d(2) have u: "run 2 u = Some 0" by (simp add: dfa_lead)
    from run_follow [OF u] obtain b t where b: "u = char_of (0x80 + b :: nat) # t" "b < 64" "run 0 t = Some 0"
      by (auto simp: dfa_follow)
    have "s = enc2 a b @ t" using s h b(1) 2(1) by (simp add: enc2_def)
    with encode_of_enc2 [OF 2(2,3) b(2)] b(3) that show ?thesis by metis
  next
    case (3 a)
    from d(2) have "run (dfa 0 (0xE0 + a)) u = Some 0" using 3(1) by simp
    then have u: "run (if a = 0 then 4 else if a = 13 then 5 else 3) u = Some 0" using 3(2) by (simp only: dfa_lead)
    from run_second3 [OF u] obtain b t where b: "u = char_of (0x80 + b :: nat) # t" "b < 64" "run 2 t = Some 0"
      "a = 0 \<longrightarrow> 32 \<le> b" "a = 13 \<longrightarrow> b < 32" .
    from run_follow [OF b(3)] obtain c w where c: "t = char_of (0x80 + c :: nat) # w" "c < 64" "run 0 w = Some 0"
      by (auto simp: dfa_follow)
    have "s = enc3 a b c @ w" using s h b(1) c(1) 3(1) by (simp add: enc3_def)
    with encode_of_enc3 [OF 3(2) b(2) c(2) b(4,5)] c(3) that show ?thesis by metis
  next
    case (4 a)
    from d(2) have "run (dfa 0 (0xF0 + a)) u = Some 0" using 4(1) by simp
    then have u: "run (if a = 0 then 6 else if a = 4 then 8 else 7) u = Some 0" using 4(2) by (simp only: dfa_lead)
    from run_second4 [OF u] obtain b t where b: "u = char_of (0x80 + b :: nat) # t" "b < 64" "run 3 t = Some 0"
      "a = 0 \<longrightarrow> 16 \<le> b" "a = 4 \<longrightarrow> b < 16" .
    from run_follow [OF b(3)] obtain c w where c: "t = char_of (0x80 + c :: nat) # w" "c < 64" "run 2 w = Some 0"
      by (auto simp: dfa_follow)
    from run_follow [OF c(3)] obtain e x where e: "w = char_of (0x80 + e :: nat) # x" "e < 64" "run 0 x = Some 0"
      by (auto simp: dfa_follow)
    have "s = enc4 a b c e @ x" using s h b(1) c(1) e(1) 4(1) by (simp add: enc4_def)
    with encode_of_enc4 [OF 4(2) b(2) c(2) e(2) b(4,5)] e(3) that show ?thesis by metis
  qed
qed

lemma utf8_encode_Nil: "utf8_encode cp \<noteq> []"
  by (simp add: utf8_encode_def)

lemma run_decompose: "run 0 s = Some 0 \<Longrightarrow> \<exists>cps. list_all scalar_value cps \<and> s = concat (map utf8_encode cps)"
proof (induction "length s" arbitrary: s rule: less_induct)
  case less
  show ?case
  proof (cases "s = []")
    case True
    then show ?thesis by (intro exI [of _ "[]"]) simp
  next
    case False
    from run_first [OF less.prems False] obtain cp t
      where t: "scalar_value cp" "s = utf8_encode cp @ t" "run 0 t = Some 0" .
    from t(2) have "length t < length s" using utf8_encode_Nil [of cp] by simp
    from less.hyps [OF this t(3)] obtain cps where "list_all scalar_value cps" "t = concat (map utf8_encode cps)"
      by blast
    with t show ?thesis by (intro exI [of _ "cp # cps"]) simp
  qed
qed

text \<open>C14: A text is accepted by the validator if and only if it is the UTF-8 encoding of a sequence of Unicode scalar
  values: no overlong forms, no surrogates, nothing above 10FFFF, nothing cut off.\<close>

theorem utf8_validate_correct:
  "utf8_validate s \<longleftrightarrow> (\<exists>cps. list_all scalar_value cps \<and> s = concat (map utf8_encode cps))"
  using run_decompose [of s] by (auto simp: utf8_validate_run run_encodings)

end
