(* ===== verification/Ws_Close.thy ===== *)
theory Ws_Close
  imports Ws_Utf8 Byte_Order
begin

text \<open>
  Close codes and errors of websocketpp: \<open>src/depends/include/websocketpp/close.hpp\<close>, \<open>error.hpp\<close> and
  \<open>processors/base.hpp\<close>. An error code is a value of its category; success is \<^const>\<open>None\<close>.
\<close>

section \<open>Error codes\<close>

datatype library_error =
    L_general | L_send_queue_full | L_payload_violation | L_endpoint_not_secure | L_endpoint_unavailable | L_invalid_uri
  | L_no_outgoing_buffers | L_no_incoming_buffers | L_invalid_state | L_bad_close_code | L_reserved_close_code
  | L_invalid_close_code | L_invalid_utf8 | L_invalid_subprotocol | L_bad_connection | L_test | L_con_creation_failed
  | L_unrequested_subprotocol | L_client_only | L_server_only | L_http_connection_ended | L_open_handshake_timeout
  | L_close_handshake_timeout

fun library_message :: "library_error \<Rightarrow> string" where
  "library_message L_general = ''Generic error''"
| "library_message L_send_queue_full = ''send queue full''"
| "library_message L_payload_violation = ''payload violation''"
| "library_message L_endpoint_not_secure = ''endpoint not secure''"
| "library_message L_endpoint_unavailable = ''endpoint not available''"
| "library_message L_invalid_uri = ''invalid uri''"
| "library_message L_no_outgoing_buffers = ''no outgoing message buffers''"
| "library_message L_no_incoming_buffers = ''no incoming message buffers''"
| "library_message L_invalid_state = ''invalid state''"
| "library_message L_bad_close_code = ''Unable to extract close code''"
| "library_message L_invalid_close_code = ''Extracted close code is in an invalid range''"
| "library_message L_reserved_close_code = ''Extracted close code is in a reserved range''"
| "library_message L_invalid_utf8 = ''Invalid UTF-8''"
| "library_message L_invalid_subprotocol = ''Invalid subprotocol''"
| "library_message L_bad_connection = ''Bad Connection''"
| "library_message L_test = ''Test Error''"
| "library_message L_con_creation_failed = ''Connection creation attempt failed''"
| "library_message L_unrequested_subprotocol = ''Selected subprotocol was not requested by the client''"
| "library_message L_client_only = ''Feature not available on server endpoints''"
| "library_message L_server_only = ''Feature not available on client endpoints''"
| "library_message L_http_connection_ended = ''HTTP connection ended''"
| "library_message L_open_handshake_timeout = ''The opening handshake timed out''"
| "library_message L_close_handshake_timeout = ''The closing handshake timed out''"

datatype processor_error =
    P_general | P_bad_request | P_protocol_violation | P_message_too_big | P_invalid_payload | P_invalid_arguments
  | P_invalid_opcode | P_control_too_big | P_invalid_rsv_bit | P_fragmented_control | P_invalid_continuation
  | P_masking_required | P_masking_forbidden | P_non_minimal_encoding | P_requires_64bit | P_invalid_utf8
  | P_not_implemented | P_invalid_http_method | P_invalid_http_version | P_invalid_http_status
  | P_missing_required_header | P_sha1_library | P_no_protocol_support | P_reserved_close_code | P_invalid_close_code
  | P_reason_requires_code | P_subprotocol_parse_error | P_extension_parse_error | P_extensions_disabled

fun processor_message :: "processor_error \<Rightarrow> string" where
  "processor_message P_general = ''Generic processor error''"
| "processor_message P_bad_request = ''invalid user input''"
| "processor_message P_protocol_violation = ''Generic protocol violation''"
| "processor_message P_message_too_big = ''A message was too large''"
| "processor_message P_invalid_payload = ''A payload contained invalid data''"
| "processor_message P_invalid_arguments = ''invalid function arguments''"
| "processor_message P_invalid_opcode = ''invalid opcode''"
| "processor_message P_control_too_big = ''Control messages are limited to fewer than 125 characters''"
| "processor_message P_invalid_rsv_bit = ''Invalid use of reserved bits''"
| "processor_message P_fragmented_control = ''Control messages cannot be fragmented''"
| "processor_message P_invalid_continuation = ''Invalid message continuation''"
| "processor_message P_masking_required = ''Clients may not send unmasked frames''"
| "processor_message P_masking_forbidden = ''Servers may not send masked frames''"
| "processor_message P_non_minimal_encoding = ''Payload length was not minimally encoded''"
| "processor_message P_requires_64bit = ''64 bit frames are not supported on 32 bit systems''"
| "processor_message P_invalid_utf8 = ''Invalid UTF8 encoding''"
| "processor_message P_not_implemented = ''Operation required not implemented functionality''"
| "processor_message P_invalid_http_method = ''Invalid HTTP method.''"
| "processor_message P_invalid_http_version = ''Invalid HTTP version.''"
| "processor_message P_invalid_http_status = ''Invalid HTTP status.''"
| "processor_message P_missing_required_header = ''A required HTTP header is missing''"
| "processor_message P_sha1_library = ''SHA-1 library error''"
| "processor_message P_no_protocol_support = ''The WebSocket protocol version in use does not support this feature''"
| "processor_message P_reserved_close_code = ''Reserved close code used''"
| "processor_message P_invalid_close_code = ''Invalid close code used''"
| "processor_message P_reason_requires_code = ''Using a close reason requires a valid close code''"
| "processor_message P_subprotocol_parse_error = ''Error parsing subprotocol header''"
| "processor_message P_extension_parse_error = ''Error parsing extension header''"
| "processor_message P_extensions_disabled = ''Extensions are disabled''"

text \<open>The third category: the errors of the transport, by their text.\<close>

datatype ws_error = Library library_error | Processor processor_error | Transport string

fun error_message :: "ws_error \<Rightarrow> string" where
  "error_message (Library e) = library_message e"
| "error_message (Processor e) = processor_message e"
| "error_message (Transport m) = m"

section \<open>Close codes\<close>

type_synonym close_code = "16 word"

abbreviation (input) close_blank :: close_code where "close_blank \<equiv> 0"
abbreviation (input) close_normal :: close_code where "close_normal \<equiv> 1000"
abbreviation (input) close_protocol_error :: close_code where "close_protocol_error \<equiv> 1002"
abbreviation (input) close_no_status :: close_code where "close_no_status \<equiv> 1005"
abbreviation (input) close_abnormal_close :: close_code where "close_abnormal_close \<equiv> 1006"
abbreviation (input) close_invalid_payload :: close_code where "close_invalid_payload \<equiv> 1007"
abbreviation (input) close_policy_violation :: close_code where "close_policy_violation \<equiv> 1008"
abbreviation (input) close_message_too_big :: close_code where "close_message_too_big \<equiv> 1009"
abbreviation (input) close_internal_endpoint_error :: close_code where "close_internal_endpoint_error \<equiv> 1011"
abbreviation (input) close_tls_handshake :: close_code where "close_tls_handshake \<equiv> 1015"

definition status_reserved :: "close_code \<Rightarrow> bool" where
  "status_reserved code \<longleftrightarrow> code \<ge> 1016 \<and> code \<le> 2999 \<or> code = 1004 \<or> code = 1012 \<or> code = 1013 \<or> code = 1014"

definition status_invalid :: "close_code \<Rightarrow> bool" where
  "status_invalid code \<longleftrightarrow>
     code \<le> 999 \<or> code \<ge> 5000 \<or> code = close_no_status \<or> code = close_abnormal_close \<or> code = close_tls_handshake"

definition status_terminal :: "close_code \<Rightarrow> bool" where
  "status_terminal code \<longleftrightarrow>
     code = close_protocol_error \<or> code = close_invalid_payload \<or> code = close_policy_violation \<or>
     code = close_message_too_big \<or> code = close_internal_endpoint_error"

definition extract_code :: "string \<Rightarrow> close_code \<times> ws_error option" where
  "extract_code payload = (case payload of
     [] \<Rightarrow> (close_no_status, None)
   | [c] \<Rightarrow> (close_protocol_error, Some (Library L_bad_close_code))
   | c0 # c1 # rest \<Rightarrow>
       (let code = ntohs (word_of_nat (le_value [c0, c1]));
            ec = if status_invalid code then Some (Library L_invalid_close_code) else None;
            ec = if status_reserved code then Some (Library L_reserved_close_code) else ec
        in (code, ec)))"

definition extract_reason :: "string \<Rightarrow> string \<times> ws_error option" where
  "extract_reason payload =
     (let reason = if length payload > 2 then drop 2 payload else [];
          ec = if \<not> utf8_validate reason then Some (Library L_invalid_utf8) else None
      in (reason, ec))"

definition to_ws :: "ws_error \<Rightarrow> close_code" where
  "to_ws ec = (case ec of
     Processor e \<Rightarrow>
       (if e \<in> {P_protocol_violation, P_control_too_big, P_invalid_opcode, P_invalid_rsv_bit, P_fragmented_control,
              P_invalid_continuation, P_masking_required, P_masking_forbidden, P_reserved_close_code, P_invalid_close_code}
        then close_protocol_error
        else if e \<in> {P_invalid_payload, P_invalid_utf8} then close_invalid_payload
        else if e = P_message_too_big then close_message_too_big
        else close_internal_endpoint_error)
   | _ \<Rightarrow> close_blank)"

text \<open>The payload of a close frame, as \<open>prepare_close\<close> builds it.\<close>

definition close_payload :: "close_code \<Rightarrow> string \<Rightarrow> string" where
  "close_payload code reason = (if code \<noteq> close_no_status then le_bytes 2 (unat (htons code)) @ reason else [])"

lemma le_bytes_2: "le_bytes 2 x = [char_of x, char_of (x div 256)]"
  by (simp add: numeral_2_eq_2)

lemma extract_code_payload:
  assumes "code \<noteq> close_no_status"
  shows "extract_code (close_payload code reason) =
    (code, if status_reserved code then Some (Library L_reserved_close_code)
           else if status_invalid code then Some (Library L_invalid_close_code) else None)"
proof -
  have "le_value (le_bytes 2 (unat (htons code))) = unat (htons code)"
    using unsigned_less [of "htons code", where 'a = nat] by simp
  then have "ntohs (word_of_nat (le_value [char_of (unat (htons code)), char_of (unat (htons code) div 256)])) = code"
    unfolding le_bytes_2 [symmetric] by simp
  then show ?thesis using assms
    by (simp add: close_payload_def extract_code_def le_bytes_2 Let_def del: le_value.simps)
qed

lemma extract_code_blank [simp]: "extract_code (close_payload close_no_status reason) = (close_no_status, None)"
  by (simp add: close_payload_def extract_code_def)

lemma utf8_validate_Nil [simp]: "utf8_validate []"
  by (simp add: utf8_validate_def validator_new_def validator_complete_def)

lemma extract_reason_payload:
  "extract_reason (close_payload code reason) =
   (if code = close_no_status then ([], None)
    else (reason, if utf8_validate reason then None else Some (Library L_invalid_utf8)))"
  by (auto simp: extract_reason_def close_payload_def Let_def le_bytes_2)

text \<open>Every error of the processor closes with a code that may stand on the wire.\<close>

lemma to_ws_wire: "\<not> status_invalid (to_ws (Processor e)) \<and> \<not> status_reserved (to_ws (Processor e))"
  by (simp add: to_ws_def status_invalid_def status_reserved_def)

lemma to_ws_terminal: "status_terminal (to_ws (Processor e))"
  by (simp add: to_ws_def status_terminal_def)

end
