(* ===== verification/Ws_Hybi13.thy ===== *)
theory Ws_Hybi13
  imports Ws_Frame Ws_Close
begin

text \<open>
  The protocol processor of RFC 6455, \<open>src/depends/include/websocketpp/processors/hybi13.hpp\<close>, with the messages of
  \<open>message_buffer/message.hpp\<close>. The configurations of the programs disable compression
  (\<open>extensions/permessage_deflate/disabled.hpp\<close>: \<open>is_enabled\<close> and \<open>is_implemented\<close> are false), so the branches on it
  are not taken. \<open>reserve n\<close> is what \<open>std::string::reserve\<close> does for \<open>n\<close> bytes: nothing, or the exception it throws;
  \<open>over\<close> is the value of the shift by the width of the type (\<^const>\<open>circshift_prepared_key\<close>).
\<close>

section \<open>Messages\<close>

record ws_message =
  msg_header :: string
  msg_extension_data :: string
  msg_payload :: string
  msg_opcode :: opcode
  msg_prepared :: bool
  msg_fin :: bool
  msg_terminal :: bool
  msg_compressed :: bool

text \<open>The constructor without an opcode leaves it indeterminate: \<open>op\<close> is what happens to be there.\<close>

definition message_new :: "opcode \<Rightarrow> ws_message" where
  "message_new op = \<lparr>msg_header = [], msg_extension_data = [], msg_payload = [], msg_opcode = op,
     msg_prepared = False, msg_fin = True, msg_terminal = False, msg_compressed = False\<rparr>"

definition get_message_sized :: "(nat \<Rightarrow> exn option) \<Rightarrow> opcode \<Rightarrow> nat \<Rightarrow> ws_message result" where
  "get_message_sized reserve op sz = (case reserve sz of Some e \<Rightarrow> Exn e | None \<Rightarrow> Ret (message_new op))"

definition set_header :: "string \<Rightarrow> ws_message \<Rightarrow> ws_message" where
  "set_header header m = m\<lparr>msg_header := header\<rparr>"

definition set_payload :: "string \<Rightarrow> ws_message \<Rightarrow> ws_message" where
  "set_payload payload m = m\<lparr>msg_payload := payload\<rparr>"

definition append_payload :: "string \<Rightarrow> ws_message \<Rightarrow> ws_message" where
  "append_payload payload m = m\<lparr>msg_payload := msg_payload m @ payload\<rparr>"

definition set_prepared :: "bool \<Rightarrow> ws_message \<Rightarrow> ws_message" where
  "set_prepared v m = m\<lparr>msg_prepared := v\<rparr>"

definition set_terminal :: "bool \<Rightarrow> ws_message \<Rightarrow> ws_message" where
  "set_terminal v m = m\<lparr>msg_terminal := v\<rparr>"

section \<open>The processor\<close>

datatype proc_state = HEADER_BASIC | HEADER_EXTENDED | EXTENSION | APPLICATION | READY | FATAL_ERROR

record msg_metadata =
  md_msg :: "ws_message option"
  md_prepared_key :: "64 word"
  md_validator :: utf8_validator

definition metadata_new :: "64 word \<Rightarrow> msg_metadata" where
  "metadata_new k = \<lparr>md_msg = None, md_prepared_key = k, md_validator = validator_new\<rparr>"

definition metadata_of :: "ws_message \<Rightarrow> 32 word \<Rightarrow> msg_metadata" where
  "metadata_of m key =
     \<lparr>md_msg = Some m, md_prepared_key = prepare_masking_key key, md_validator = validator_new\<rparr>"

text \<open>\<open>m_current_msg\<close> points to one of the two members; it has no value before the first message.\<close>

datatype current = Data_msg | Control_msg

record hybi13 =
  hy_server :: bool
  hy_state :: proc_state
  hy_bytes_needed :: nat
  hy_cursor :: nat
  hy_basic_header :: basic_header
  hy_extended_header :: string
  hy_data_msg :: msg_metadata
  hy_control_msg :: msg_metadata
  hy_current :: "current option"

definition reset_headers :: "hybi13 \<Rightarrow> hybi13" where
  "reset_headers s = s\<lparr>hy_state := HEADER_BASIC, hy_bytes_needed := BASIC_HEADER_LENGTH,
     hy_basic_header := header_empty, hy_extended_header := zero_header\<rparr>"

definition hybi13_new :: "bool \<Rightarrow> hybi13" where
  "hybi13_new server = reset_headers \<lparr>hy_server = server, hy_state = HEADER_BASIC, hy_bytes_needed = 0, hy_cursor = 0,
     hy_basic_header = header_empty, hy_extended_header = zero_header, hy_data_msg = metadata_new 0,
     hy_control_msg = metadata_new 0, hy_current = None\<rparr>"

definition current_metadata :: "hybi13 \<Rightarrow> msg_metadata result" where
  "current_metadata s = (case hy_current s of
     None \<Rightarrow> Stuck Undefined | Some Data_msg \<Rightarrow> Ret (hy_data_msg s) | Some Control_msg \<Rightarrow> Ret (hy_control_msg s))"

definition set_current :: "msg_metadata \<Rightarrow> hybi13 \<Rightarrow> hybi13" where
  "set_current md s = (case hy_current s of
     None \<Rightarrow> s | Some Data_msg \<Rightarrow> s\<lparr>hy_data_msg := md\<rparr> | Some Control_msg \<Rightarrow> s\<lparr>hy_control_msg := md\<rparr>)"

section \<open>Validation of headers\<close>

definition validate_incoming_basic_header :: "basic_header \<Rightarrow> bool \<Rightarrow> bool \<Rightarrow> processor_error option" where
  "validate_incoming_basic_header h is_server new_msg =
     (let op = get_opcode h
      in if is_control op \<and> get_basic_size h > ucast payload_size_basic then Some P_control_too_big
         else if get_rsv1 h then Some P_invalid_rsv_bit
         else if get_rsv2 h \<or> get_rsv3 h then Some P_invalid_rsv_bit
         else if opcode_reserved op then Some P_invalid_opcode
         else if opcode_invalid op then Some P_invalid_opcode
         else if is_control op \<and> \<not> get_fin h then Some P_fragmented_control
         else if new_msg \<and> op = CONTINUATION then Some P_invalid_continuation
         else if \<not> new_msg \<and> \<not> is_control op \<and> op \<noteq> CONTINUATION then Some P_invalid_continuation
         else if is_server \<and> \<not> get_masked h then Some P_masking_required
         else if \<not> is_server \<and> get_masked h then Some P_masking_forbidden
         else None)"

definition validate_incoming_extended_header :: "basic_header \<Rightarrow> string \<Rightarrow> processor_error option" where
  "validate_incoming_extended_header h e =
     (let basic_size = get_basic_size h;
          payload_size = get_payload_size h e
      in if basic_size = payload_size_code_16bit \<and> payload_size \<le> payload_size_basic then Some P_non_minimal_encoding
         else if basic_size = payload_size_code_64bit \<and> payload_size \<le> payload_size_extended then Some P_non_minimal_encoding
         else None)"

section \<open>Reading\<close>

definition byte8 :: "char \<Rightarrow> 8 word" where
  "byte8 c = word_of_nat (byte c)"

text \<open>The number of bytes taken from the buffer, and the state after it.\<close>

definition copy_basic_header_bytes :: "string \<Rightarrow> hybi13 \<Rightarrow> nat \<times> hybi13" where
  "copy_basic_header_bytes buf s =
     (if length buf = 0 \<or> hy_bytes_needed s = 0 then (0, s)
      else if length buf > 1 then
        (if hy_bytes_needed s = 2 then
           (2, s\<lparr>hy_basic_header := header_bytes (byte8 (buf ! 0)) (byte8 (buf ! 1)),
                hy_bytes_needed := hy_bytes_needed s - 2\<rparr>)
         else (1, s\<lparr>hy_basic_header := (hy_basic_header s)\<lparr>bh_b1 := byte8 (buf ! 0)\<rparr>,
                hy_bytes_needed := hy_bytes_needed s - 1\<rparr>))
      else if hy_bytes_needed s = 2 then
        (1, s\<lparr>hy_basic_header := (hy_basic_header s)\<lparr>bh_b0 := byte8 (buf ! 0)\<rparr>,
             hy_bytes_needed := hy_bytes_needed s - 1\<rparr>)
      else
        (1, s\<lparr>hy_basic_header := (hy_basic_header s)\<lparr>bh_b1 := byte8 (buf ! 0)\<rparr>,
             hy_bytes_needed := hy_bytes_needed s - 1\<rparr>))"

definition copy_extended_header_bytes :: "string \<Rightarrow> hybi13 \<Rightarrow> (nat \<times> hybi13) result" where
  "copy_extended_header_bytes buf s =
     (let bytes_to_read = min (hy_bytes_needed s) (length buf)
      in if hy_cursor s + bytes_to_read \<le> MAX_EXTENDED_HEADER_LENGTH then
           Ret (bytes_to_read,
             s\<lparr>hy_extended_header := copy_at (hy_cursor s) (take bytes_to_read buf) (hy_extended_header s),
               hy_cursor := hy_cursor s + bytes_to_read,
               hy_bytes_needed := hy_bytes_needed s - bytes_to_read\<rparr>)
         else Stuck Undefined)"

definition process_payload_bytes ::
    "(64 word \<Rightarrow> 64 word) \<Rightarrow> string \<Rightarrow> hybi13 \<Rightarrow> (nat \<times> hybi13 \<times> processor_error option) result" where
  "process_payload_bytes over buf s = (case current_metadata s of
     Ret md \<Rightarrow>
       (let (buf, md) = (if get_masked (hy_basic_header s)
              then (case word_mask_circ over buf (length buf) (md_prepared_key md) of
                     (buf, key) \<Rightarrow> (buf, md\<lparr>md_prepared_key := key\<rparr>))
              else (buf, md))
        in case md_msg md of
             None \<Rightarrow> Stuck Undefined
           | Some m \<Rightarrow>
               (let md = md\<lparr>md_msg := Some (append_payload buf m)\<rparr>
                in if msg_opcode m = TEXT then
                     (case validator_decode buf (md_validator md) of (ok, v) \<Rightarrow>
                        (let s = set_current (md\<lparr>md_validator := v\<rparr>) s
                         in if \<not> ok then Ret (0, s, Some P_invalid_utf8)
                            else Ret (length buf, s\<lparr>hy_bytes_needed := hy_bytes_needed s - length buf\<rparr>, None)))
                   else
                     (let s = set_current md s
                      in Ret (length buf, s\<lparr>hy_bytes_needed := hy_bytes_needed s - length buf\<rparr>, None))))
   | Exn e \<Rightarrow> Exn e | Stuck k \<Rightarrow> Stuck k)"

text \<open>The start of a payload: the message the bytes will go to.\<close>

definition start_payload :: "(nat \<Rightarrow> exn option) \<Rightarrow> hybi13 \<Rightarrow> hybi13 result" where
  "start_payload reserve s =
     (let h = hy_basic_header s;
          e = hy_extended_header s;
          s = s\<lparr>hy_state := APPLICATION, hy_bytes_needed := unat (get_payload_size h e)\<rparr>;
          op = get_opcode h
      in if is_control op then
           (case get_message_sized reserve op (hy_bytes_needed s) of
              Ret m \<Rightarrow> Ret (s\<lparr>hy_control_msg := metadata_of m (get_masking_key h e), hy_current := Some Control_msg\<rparr>)
            | Exn x \<Rightarrow> Exn x | Stuck k \<Rightarrow> Stuck k)
         else if md_msg (hy_data_msg s) = None then
           (case get_message_sized reserve op (hy_bytes_needed s) of
              Ret m \<Rightarrow> Ret (s\<lparr>hy_data_msg := metadata_of m (get_masking_key h e), hy_current := Some Data_msg\<rparr>)
            | Exn x \<Rightarrow> Exn x | Stuck k \<Rightarrow> Stuck k)
         else
           Ret (s\<lparr>hy_data_msg := (hy_data_msg s)\<lparr>md_prepared_key := prepare_masking_key (get_masking_key h e)\<rparr>,
                 hy_current := Some Data_msg\<rparr>))"

text \<open>One turn of the loop of \<open>consume\<close>, on the bytes left.\<close>

definition finish_payload :: "hybi13 \<Rightarrow> (hybi13 \<times> processor_error option) result" where
  "finish_payload s =
     (if get_fin (hy_basic_header s) then
        (case current_metadata s of
           Ret md \<Rightarrow>
             (if get_opcode (hy_basic_header s) = TEXT \<and> \<not> validator_complete (md_validator md)
              then Ret (s, Some P_invalid_utf8)
              else Ret (s\<lparr>hy_state := READY\<rparr>, None))
         | Exn e \<Rightarrow> Exn e | Stuck k \<Rightarrow> Stuck k)
      else Ret (reset_headers s, None))"

definition consume_step ::
    "(64 word \<Rightarrow> 64 word) \<Rightarrow> (nat \<Rightarrow> exn option) \<Rightarrow> hybi13 \<Rightarrow> string \<Rightarrow>
     (hybi13 \<times> string \<times> processor_error option) result" where
  "consume_step over reserve s buf = (case hy_state s of
     HEADER_BASIC \<Rightarrow>
       (case copy_basic_header_bytes buf s of (p, s) \<Rightarrow>
          if hy_bytes_needed s > 0 then Ret (s, drop p buf, None)
          else (case validate_incoming_basic_header (hy_basic_header s) (hy_server s) (md_msg (hy_data_msg s) = None) of
              Some e \<Rightarrow> Ret (s, drop p buf, Some e)
            | None \<Rightarrow> Ret (s\<lparr>hy_state := HEADER_EXTENDED, hy_cursor := 0,
                  hy_bytes_needed := get_header_len (hy_basic_header s) - BASIC_HEADER_LENGTH\<rparr>, drop p buf, None)))
   | HEADER_EXTENDED \<Rightarrow>
       (case copy_extended_header_bytes buf s of
          Ret (p, s) \<Rightarrow>
            (if hy_bytes_needed s > 0 then Ret (s, drop p buf, None)
             else (case validate_incoming_extended_header (hy_basic_header s) (hy_extended_header s) of
                 Some e \<Rightarrow> Ret (s, drop p buf, Some e)
               | None \<Rightarrow> (case start_payload reserve s of
                   Ret s \<Rightarrow> Ret (s, drop p buf, None) | Exn e \<Rightarrow> Exn e | Stuck k \<Rightarrow> Stuck k)))
        | Exn e \<Rightarrow> Exn e | Stuck k \<Rightarrow> Stuck k)
   | EXTENSION \<Rightarrow> Ret (s\<lparr>hy_state := APPLICATION\<rparr>, buf, None)
   | APPLICATION \<Rightarrow>
       (let bytes_to_process = min (hy_bytes_needed s) (length buf)
        in case (if bytes_to_process > 0 then process_payload_bytes over (take bytes_to_process buf) s else Ret (0, s, None)) of
             Ret (p, s, Some e) \<Rightarrow> Ret (s, drop p buf, Some e)
           | Ret (p, s, None) \<Rightarrow>
               (if hy_bytes_needed s > 0 then Ret (s, drop p buf, None)
                else (case finish_payload s of
                    Ret (s, ec) \<Rightarrow> Ret (s, drop p buf, ec) | Exn e \<Rightarrow> Exn e | Stuck k \<Rightarrow> Stuck k))
           | Exn e \<Rightarrow> Exn e | Stuck k \<Rightarrow> Stuck k)
   | _ \<Rightarrow> Ret (s, buf, Some P_general))"

definition consume_more :: "hybi13 \<Rightarrow> string \<Rightarrow> bool" where
  "consume_more s buf \<longleftrightarrow>
     hy_state s \<noteq> READY \<and> hy_state s \<noteq> FATAL_ERROR \<and> (buf \<noteq> [] \<or> hy_bytes_needed s = 0)"


text \<open>Every turn takes bytes from the buffer or brings the state closer to needing some.\<close>

definition rank :: "hybi13 \<Rightarrow> nat" where
  "rank s = (case hy_state s of
     HEADER_BASIC \<Rightarrow> if hy_bytes_needed s = 0 then 4 else 0
   | HEADER_EXTENDED \<Rightarrow> 3 | EXTENSION \<Rightarrow> 2 | APPLICATION \<Rightarrow> 1 | _ \<Rightarrow> 0)"

lemma copy_basic_progress:
  "copy_basic_header_bytes buf s = (p, s') \<Longrightarrow> (buf \<noteq> [] \<longrightarrow> hy_bytes_needed s > 0 \<longrightarrow> p > 0) \<and>
     (hy_bytes_needed s = 0 \<longrightarrow> p = 0 \<and> s' = s)"
  by (auto simp: copy_basic_header_bytes_def split: if_splits)

lemma copy_extended_progress:
  "copy_extended_header_bytes buf s = Ret (p, s') \<Longrightarrow> p = min (hy_bytes_needed s) (length buf)"
  by (auto simp: copy_extended_header_bytes_def Let_def split: if_splits)

lemma process_payload_progress:
  "process_payload_bytes over buf s = Ret (p, s', None) \<Longrightarrow> p = length buf"
  using word_mask_circ_stream(1) [of buf "length buf" over]
  by (auto simp: process_payload_bytes_def Let_def split: result.splits if_splits option.splits prod.splits)
    (metis fst_conv length_mask_with)+

lemma start_payload_state: "start_payload reserve s = Ret s' \<Longrightarrow> hy_state s' = APPLICATION"
  by (auto simp: start_payload_def Let_def split: result.splits if_splits)

lemma reset_headers_simps [simp]:
  "hy_state (reset_headers s) = HEADER_BASIC" "hy_bytes_needed (reset_headers s) = 2"
  "hy_server (reset_headers s) = hy_server s" "hy_data_msg (reset_headers s) = hy_data_msg s"
  "hy_control_msg (reset_headers s) = hy_control_msg s" "hy_current (reset_headers s) = hy_current s"
  "hy_extended_header (reset_headers s) = zero_header" "hy_basic_header (reset_headers s) = header_empty"
  by (simp_all add: reset_headers_def)

lemma finish_payload_rank: "finish_payload s = Ret (s', None) \<Longrightarrow> rank s' = 0"
  by (auto simp: finish_payload_def rank_def split: result.splits if_splits)

lemma consume_step_takes:
  assumes "hy_state s \<in> {HEADER_BASIC, HEADER_EXTENDED, APPLICATION}" "hy_bytes_needed s > 0" "buf \<noteq> []"
    "consume_step over reserve s buf = Ret (s', buf', None)"
  shows "length buf' < length buf"
proof -
  let ?n = "min (hy_bytes_needed s) (length buf)"
  have "\<exists>p > 0. buf' = drop p buf"
  proof (cases "hy_state s")
    case HEADER_BASIC
    obtain p t where c: "copy_basic_header_bytes buf s = (p, t)" by fastforce
    then have "buf' = drop p buf"
      using assms(4) HEADER_BASIC by (auto simp: consume_step_def split: if_splits option.splits)
    then show ?thesis using copy_basic_progress [OF c] assms by auto
  next
    case HEADER_EXTENDED
    with assms(4) obtain p t where c: "copy_extended_header_bytes buf s = Ret (p, t)" "buf' = drop p buf"
      by (auto simp: consume_step_def split: result.splits if_splits option.splits)
    then show ?thesis using copy_extended_progress [OF c(1)] assms(2,3) by (intro exI [of _ p]) simp
  next
    case APPLICATION
    with assms obtain t p where "process_payload_bytes over (take ?n buf) s = Ret (p, t, None)" "buf' = drop p buf"
      by (auto simp: consume_step_def Let_def split: result.splits if_splits prod.splits option.splits)
    then show ?thesis using process_payload_progress [of over "take ?n buf" s p t] assms(2,3) by (intro exI [of _ p]) simp
  qed (use assms in auto)
  then show ?thesis using assms(3) by auto
qed

lemma consume_step_progress:
  assumes "consume_more s buf" "consume_step over reserve s buf = Ret (s', buf', None)"
  shows "length buf' < length buf \<or> length buf' = length buf \<and> rank s' < rank s"
proof (cases "hy_state s \<in> {HEADER_BASIC, HEADER_EXTENDED, APPLICATION} \<and> hy_bytes_needed s > 0")
  case True
  then have "buf \<noteq> []" using assms(1) by (auto simp: consume_more_def)
  then show ?thesis using True assms consume_step_takes by blast
next
  case False
  show ?thesis
  proof (cases "hy_state s")
    case HEADER_BASIC
    obtain p t where c: "copy_basic_header_bytes buf s = (p, t)" by fastforce
    with copy_basic_progress [OF c] have "p = 0" "t = s" using False HEADER_BASIC by simp_all
    then show ?thesis using assms(2) HEADER_BASIC False c
      by (auto simp: consume_step_def rank_def split: option.splits)
  next
    case HEADER_EXTENDED
    from assms(2) HEADER_EXTENDED obtain p t where c: "copy_extended_header_bytes buf s = Ret (p, t)"
      and r: "buf' = drop p buf" "hy_bytes_needed t > 0 \<or> hy_state s' = APPLICATION"
      by (auto simp: consume_step_def start_payload_state split: result.splits if_splits option.splits)
    have "p = 0" "hy_bytes_needed t = 0"
      using c False HEADER_EXTENDED by (auto simp: copy_extended_header_bytes_def Let_def split: if_splits)
    then show ?thesis using r HEADER_EXTENDED by (simp add: rank_def)
  next
    case APPLICATION
    then have "buf' = buf" "finish_payload s = Ret (s', None)"
      using assms(2) False by (auto simp: consume_step_def split: result.splits)
    then show ?thesis using finish_payload_rank [of s s'] APPLICATION by (simp add: rank_def [of s])
  qed (use assms in \<open>auto simp: consume_step_def consume_more_def rank_def\<close>)
qed

function consume ::
    "(64 word \<Rightarrow> 64 word) \<Rightarrow> (nat \<Rightarrow> exn option) \<Rightarrow> hybi13 \<Rightarrow> string \<Rightarrow>
     (hybi13 \<times> string \<times> processor_error option) result" where
  "consume over reserve s buf =
     (if consume_more s buf then
        (case consume_step over reserve s buf of
           Ret (s, buf, None) \<Rightarrow> consume over reserve s buf
         | r \<Rightarrow> r)
      else Ret (s, buf, None))"
  by auto

termination
  by (relation "measures [\<lambda>(over, reserve, s, buf). length buf, \<lambda>(over, reserve, s, buf). rank s]")
    (auto dest: consume_step_progress)

declare consume.simps [simp del]

text \<open>The message that is ready, taken out of the processor.\<close>

definition get_message :: "hybi13 \<Rightarrow> (ws_message option \<times> hybi13) result" where
  "get_message s =
     (if hy_state s \<noteq> READY then Ret (None, s)
      else case current_metadata s of
        Ret md \<Rightarrow> (case md_msg md of
            None \<Rightarrow> Stuck Undefined
          | Some m \<Rightarrow>
              (let s = set_current (md\<lparr>md_msg := None\<rparr>) s;
                   s = if is_control (msg_opcode m)
                       then s\<lparr>hy_control_msg := (hy_control_msg s)\<lparr>md_msg := None\<rparr>\<rparr>
                       else s\<lparr>hy_data_msg := (hy_data_msg s)\<lparr>md_msg := None\<rparr>\<rparr>
               in Ret (Some m, reset_headers s)))
      | Exn e \<Rightarrow> Exn e | Stuck k \<Rightarrow> Stuck k)"


section \<open>Writing\<close>

text \<open>\<open>key\<close> is what the random generator answers; it is asked only by a client, whose frames are masked.\<close>

definition masked_copy :: "string \<Rightarrow> 32 word \<Rightarrow> string" where
  "masked_copy i key = word_mask_exact i (length i) key"

definition frame_header :: "opcode \<Rightarrow> nat \<Rightarrow> bool \<Rightarrow> bool \<Rightarrow> 32 word \<Rightarrow> string" where
  "frame_header op sz fin masked key =
     (let h = header_make op (word_of_nat sz) fin masked False False False
      in if masked then prepare_header h (extended_header_key (word_of_nat sz) key)
         else prepare_header h (extended_header_size (word_of_nat sz)))"

definition prepare_data_frame ::
    "hybi13 \<Rightarrow> 32 word \<Rightarrow> ws_message option \<Rightarrow> ws_message option \<Rightarrow> processor_error + ws_message" where
  "prepare_data_frame s key inp out = (case (inp, out) of
     (Some i, Some out) \<Rightarrow>
       (let op = msg_opcode i
        in if is_control op then Inl P_invalid_opcode
           else if op = TEXT \<and> \<not> utf8_validate (msg_payload i) then Inl P_invalid_payload
           else
             (let masked = \<not> hy_server s;
                  out = set_header (frame_header op (length (msg_payload i)) (msg_fin i) masked key) out;
                  dat = if masked then masked_copy (msg_payload i) key else msg_payload i
              in Inr (set_prepared True (set_payload dat out))))
   | _ \<Rightarrow> Inl P_invalid_arguments)"

definition prepare_control ::
    "hybi13 \<Rightarrow> 32 word \<Rightarrow> opcode \<Rightarrow> string \<Rightarrow> ws_message option \<Rightarrow> processor_error + ws_message" where
  "prepare_control s key op payload out = (case out of
     None \<Rightarrow> Inl P_invalid_arguments
   | Some out \<Rightarrow>
       (if \<not> is_control op then Inl P_invalid_opcode
        else if length payload > unat payload_size_basic then Inl P_control_too_big
        else
          (let masked = \<not> hy_server s;
               out = set_header (frame_header op (length payload) True masked key) out;
               dat = if masked then masked_copy payload key else payload
           in Inr (set_prepared True (set_payload dat out)))))"

definition prepare_ping :: "hybi13 \<Rightarrow> 32 word \<Rightarrow> string \<Rightarrow> ws_message option \<Rightarrow> processor_error + ws_message" where
  "prepare_ping s key inp out = prepare_control s key PING inp out"

definition prepare_pong :: "hybi13 \<Rightarrow> 32 word \<Rightarrow> string \<Rightarrow> ws_message option \<Rightarrow> processor_error + ws_message" where
  "prepare_pong s key inp out = prepare_control s key PONG inp out"

definition prepare_close ::
    "hybi13 \<Rightarrow> 32 word \<Rightarrow> close_code \<Rightarrow> string \<Rightarrow> ws_message option \<Rightarrow> processor_error + ws_message" where
  "prepare_close s key status reason out =
     (if status_reserved status then Inl P_reserved_close_code
      else if status_invalid status \<and> status \<noteq> close_no_status then Inl P_invalid_close_code
      else if status = close_no_status \<and> length reason > 0 then Inl P_reason_requires_code
      else if length reason > unat payload_size_basic - 2 then Inl P_control_too_big
      else prepare_control s key CLOSE (close_payload status reason) out)"

section \<open>What the state always satisfies\<close>

definition current_ready :: "hybi13 \<Rightarrow> bool" where
  "current_ready s \<longleftrightarrow> (case hy_current s of
     None \<Rightarrow> False | Some Data_msg \<Rightarrow> md_msg (hy_data_msg s) \<noteq> None | Some Control_msg \<Rightarrow> md_msg (hy_control_msg s) \<noteq> None)"

definition hybi_ok :: "hybi13 \<Rightarrow> bool" where
  "hybi_ok s \<longleftrightarrow> length (hy_extended_header s) = 12 \<and>
     (hy_state s = HEADER_BASIC \<longrightarrow> hy_bytes_needed s \<le> 2) \<and>
     (hy_state s = HEADER_EXTENDED \<longrightarrow> hy_cursor s + hy_bytes_needed s \<le> 12) \<and>
     (hy_state s \<in> {EXTENSION, APPLICATION, READY} \<longrightarrow> current_ready s) \<and>
     vd_state (md_validator (hy_data_msg s)) < 9 \<and> vd_state (md_validator (hy_control_msg s)) < 9"

lemma current_ready_simps [simp]:
  "current_ready (s\<lparr>hy_state := q\<rparr>) = current_ready s"
  "current_ready (s\<lparr>hy_bytes_needed := n\<rparr>) = current_ready s"
  "current_ready (s\<lparr>hy_basic_header := h\<rparr>) = current_ready s"
  "current_ready (s\<lparr>hy_extended_header := e\<rparr>) = current_ready s"
  "current_ready (s\<lparr>hy_cursor := c\<rparr>) = current_ready s"
  by (simp_all add: current_ready_def split: option.splits current.splits)

lemma hybi_ok_new: "hybi_ok (hybi13_new server)"
  by (simp add: hybi_ok_def hybi13_new_def metadata_new_def validator_new_def reset_headers_def zero_header_def)

lemma hybi_ok_reset [simp]: "hybi_ok s \<Longrightarrow> hybi_ok (reset_headers s)"
  by (simp add: hybi_ok_def zero_header_def)

text \<open>The message being read and its metadata.\<close>

lemma current_readyE:
  assumes "current_ready s"
  obtains md m where "current_metadata s = Ret md" "md_msg md = Some m"
  using assms by (auto simp: current_ready_def current_metadata_def split: option.splits current.splits)

lemma current_metadata_simps [simp]:
  "current_metadata (s\<lparr>hy_state := q\<rparr>) = current_metadata s"
  "current_metadata (s\<lparr>hy_bytes_needed := n\<rparr>) = current_metadata s"
  by (simp_all add: current_metadata_def split: option.splits current.splits)

lemma current_set_current:
  "current_metadata s = Ret md \<Longrightarrow> current_metadata (set_current md' s) = Ret md'"
  by (auto simp: current_metadata_def set_current_def split: option.splits current.splits)

lemma set_current_simps [simp]:
  "hy_state (set_current md s) = hy_state s" "hy_bytes_needed (set_current md s) = hy_bytes_needed s"
  "hy_server (set_current md s) = hy_server s" "hy_basic_header (set_current md s) = hy_basic_header s"
  "hy_extended_header (set_current md s) = hy_extended_header s" "hy_cursor (set_current md s) = hy_cursor s"
  "hy_current (set_current md s) = hy_current s" "set_current md (set_current md' s) = set_current md s"
  "set_current md (s\<lparr>hy_bytes_needed := n\<rparr>) = (set_current md s)\<lparr>hy_bytes_needed := n\<rparr>"
  by (auto simp: set_current_def split: option.splits current.splits)

lemma hybi_ok_set_current:
  "hybi_ok s \<Longrightarrow> md_msg md \<noteq> None \<Longrightarrow> vd_state (md_validator md) < 9 \<Longrightarrow> hybi_ok (set_current md s)"
  by (auto simp: hybi_ok_def set_current_def current_ready_def split: option.splits current.splits)

lemma current_validator:
  "hybi_ok s \<Longrightarrow> current_metadata s = Ret md \<Longrightarrow> vd_state (md_validator md) < 9"
  by (auto simp: hybi_ok_def current_metadata_def split: option.splits current.splits)


section \<open>Payload bytes\<close>

text \<open>What \<open>process_payload_bytes\<close> does to the metadata of the message, and whether the bytes are accepted.\<close>

definition unmask :: "(64 word \<Rightarrow> 64 word) \<Rightarrow> bool \<Rightarrow> string \<Rightarrow> 64 word \<Rightarrow> string \<times> 64 word" where
  "unmask over masked buf key = (if masked then word_mask_circ over buf (length buf) key else (buf, key))"

definition receive ::
    "(64 word \<Rightarrow> 64 word) \<Rightarrow> bool \<Rightarrow> string \<Rightarrow> ws_message \<Rightarrow> msg_metadata \<Rightarrow> msg_metadata \<times> bool" where
  "receive over masked buf m md =
     (let (dat, key) = unmask over masked buf (md_prepared_key md);
          (ok, v) = if msg_opcode m = TEXT then validator_decode dat (md_validator md) else (True, md_validator md)
      in (\<lparr>md_msg = Some (append_payload dat m), md_prepared_key = key, md_validator = v\<rparr>, ok))"

lemma length_word_mask_circ: "word_mask_circ over buf (length buf) k = (dat, k') \<Longrightarrow> length dat = length buf"
  using word_mask_circ_stream(1) [of buf "length buf" over k] by simp

lemma length_unmask: "unmask over masked buf k = (dat, k') \<Longrightarrow> length dat = length buf"
  by (auto simp: unmask_def length_word_mask_circ split: if_splits)

lemma unmask_append:
  "over_ok over \<Longrightarrow> unmask over masked xs k = (dat, k') \<Longrightarrow> unmask over masked ys k' = (dat', k'') \<Longrightarrow>
   unmask over masked (xs @ ys) k = (dat @ dat', k'')"
  using word_mask_circ_append [of over xs k dat k' ys] by (auto simp: unmask_def split: if_splits)

lemma process_payload_receive:
  assumes "current_metadata s = Ret md" "md_msg md = Some m"
  shows "process_payload_bytes over buf s =
    (case receive over (get_masked (hy_basic_header s)) buf m md of (md, ok) \<Rightarrow>
       if ok then Ret (length buf, (set_current md s)\<lparr>hy_bytes_needed := hy_bytes_needed s - length buf\<rparr>, None)
       else Ret (0, set_current md s, Some P_invalid_utf8))"
proof -
  obtain dat key where dk: "unmask over (get_masked (hy_basic_header s)) buf (md_prepared_key md) = (dat, key)"
    by fastforce
  then have l: "length dat = length buf" by (rule length_unmask)
  from dk have e: "(if get_masked (hy_basic_header s)
       then case word_mask_circ over buf (length buf) (md_prepared_key md) of (buf, key) \<Rightarrow> (buf, md\<lparr>md_prepared_key := key\<rparr>)
       else (buf, md)) = (dat, md\<lparr>md_prepared_key := key\<rparr>)" by (cases md) (auto simp: unmask_def split: if_splits)
  obtain ok v where v: "validator_decode dat (md_validator md) = (ok, v)" by fastforce
  show ?thesis
    using assms by (simp add: process_payload_bytes_def receive_def e dk v Let_def l) (cases md; simp)
qed

lemma validator_decode_append:
  "validator_decode (xs @ ys) v =
   (case validator_decode xs v of (ok, v) \<Rightarrow> if ok then validator_decode ys v else (False, v))"
  by (induction xs arbitrary: v) (simp_all add: Let_def)

lemma append_payload_append: "append_payload ys (append_payload xs m) = append_payload (xs @ ys) m"
  by (simp add: append_payload_def)

lemma append_payload_simps [simp]:
  "msg_opcode (append_payload xs m) = msg_opcode m" "msg_payload (append_payload xs m) = msg_payload m @ xs"
  "msg_fin (append_payload xs m) = msg_fin m" "msg_prepared (append_payload xs m) = msg_prepared m"
  "msg_terminal (append_payload xs m) = msg_terminal m" "msg_header (append_payload xs m) = msg_header m"
  by (simp_all add: append_payload_def)

lemma receive_message:
  "receive over masked buf m md = (md', ok) \<Longrightarrow>
   \<exists>dat. md_msg md' = Some (append_payload dat m) \<and> length dat = length buf"
  by (auto simp: receive_def Let_def length_unmask split: if_splits prod.splits)

lemma receive_validator:
  assumes "receive over masked buf m md = (md', ok)" "vd_state (md_validator md) < 9"
  shows "vd_state (md_validator md') < 9"
  using assms validator_decode_state [of "md_validator md"]
  by (auto simp: receive_def Let_def split: if_splits prod.splits) (metis snd_conv)+

lemma receive_append:
  assumes "over_ok over" "receive over masked xs m md = (md1, ok1)" "md_msg md1 = Some m1"
  shows "ok1 \<Longrightarrow> receive over masked (xs @ ys) m md = receive over masked ys m1 md1"
    and "\<not> ok1 \<Longrightarrow> \<not> snd (receive over masked (xs @ ys) m md)"
proof -
  let ?w = "unmask over masked"
  obtain dat key where w: "?w xs (md_prepared_key md) = (dat, key)" by fastforce
  obtain dat' key' where w': "?w ys key = (dat', key')" by fastforce
  have ww: "?w (xs @ ys) (md_prepared_key md) = (dat @ dat', key')"
    by (rule unmask_append [OF assms(1) w w'])
  obtain ok v where v: "(if msg_opcode m = TEXT then validator_decode dat (md_validator md) else (True, md_validator md)) = (ok, v)"
    by fastforce
  have 1: "receive over masked xs m md =
      (\<lparr>md_msg = Some (append_payload dat m), md_prepared_key = key, md_validator = v\<rparr>, ok)"
    by (simp add: receive_def w v)
  then have r: "md1 = \<lparr>md_msg = Some (append_payload dat m), md_prepared_key = key, md_validator = v\<rparr>" "ok1 = ok"
      "m1 = append_payload dat m"
    using assms(2,3) by auto
  show "receive over masked (xs @ ys) m md = receive over masked ys m1 md1" if ok1
    using that v r
    by (simp add: receive_def ww w' validator_decode_append append_payload_append split: if_splits)
  show "\<not> snd (receive over masked (xs @ ys) m md)" if "\<not> ok1"
    using that v r by (simp add: receive_def ww validator_decode_append split: if_splits)
qed


section \<open>Invariant of reading\<close>

lemma copy_basic_ok:
  assumes "copy_basic_header_bytes buf s = (p, s')" "hy_bytes_needed s \<le> 2"
  shows "hy_bytes_needed s' \<le> 2 \<and> hy_state s' = hy_state s \<and> hy_extended_header s' = hy_extended_header s \<and>
    hy_data_msg s' = hy_data_msg s \<and> hy_control_msg s' = hy_control_msg s \<and> hy_current s' = hy_current s \<and>
    hy_cursor s' = hy_cursor s \<and> hy_server s' = hy_server s"
  using assms by (auto simp: copy_basic_header_bytes_def split: if_splits)

lemma header_len_bound: "get_header_len h - 2 \<le> 12"
  by (simp add: get_header_len_def get_masking_key_offset_def Let_def)

lemma length_copy_at: "off + length new \<le> length old \<Longrightarrow> length (copy_at off new old) = length old"
  by (simp add: copy_at_def)

text \<open>The three ways to start a payload.\<close>

lemma start_payload_cases:
  assumes "start_payload reserve s = Ret s'"
  obtains (control) "is_control (get_opcode (hy_basic_header s))" "s' = s\<lparr>hy_state := APPLICATION,
      hy_bytes_needed := unat (get_payload_size (hy_basic_header s) (hy_extended_header s)),
      hy_control_msg := metadata_of (message_new (get_opcode (hy_basic_header s)))
        (get_masking_key (hy_basic_header s) (hy_extended_header s)), hy_current := Some Control_msg\<rparr>"
  | (first) "\<not> is_control (get_opcode (hy_basic_header s))" "md_msg (hy_data_msg s) = None" "s' = s\<lparr>hy_state := APPLICATION,
      hy_bytes_needed := unat (get_payload_size (hy_basic_header s) (hy_extended_header s)),
      hy_data_msg := metadata_of (message_new (get_opcode (hy_basic_header s)))
        (get_masking_key (hy_basic_header s) (hy_extended_header s)), hy_current := Some Data_msg\<rparr>"
  | (more) "\<not> is_control (get_opcode (hy_basic_header s))" "md_msg (hy_data_msg s) \<noteq> None" "s' = s\<lparr>hy_state := APPLICATION,
      hy_bytes_needed := unat (get_payload_size (hy_basic_header s) (hy_extended_header s)),
      hy_data_msg := (hy_data_msg s)\<lparr>md_prepared_key := prepare_masking_key
        (get_masking_key (hy_basic_header s) (hy_extended_header s))\<rparr>, hy_current := Some Data_msg\<rparr>"
  using assms unfolding start_payload_def Let_def get_message_sized_def
  by (simp split: if_split_asm option.split_asm)

lemma start_payload_ok:
  assumes "hybi_ok s" "start_payload reserve s = Ret s'"
  shows "hybi_ok s'"
  using assms(2)
proof (cases rule: start_payload_cases)
  case control
  then show ?thesis using assms(1) by (simp add: hybi_ok_def current_ready_def metadata_of_def validator_new_def)
next
  case first
  then show ?thesis using assms(1) by (simp add: hybi_ok_def current_ready_def metadata_of_def validator_new_def)
next
  case more
  then show ?thesis using assms(1) by (simp add: hybi_ok_def current_ready_def)
qed

lemma start_payload_not_stuck: "start_payload reserve s \<noteq> Stuck k"
  by (simp add: start_payload_def Let_def get_message_sized_def split: option.split)

lemma finish_payload_ok:
  assumes "hybi_ok s" "hy_state s = APPLICATION" "finish_payload s = Ret (s', ec)"
  shows "hybi_ok s'"
  using assms by (auto simp: finish_payload_def hybi_ok_def zero_header_def split: if_splits result.splits)

lemma hybi_ok_needed: "hybi_ok s \<Longrightarrow> hy_state s = APPLICATION \<Longrightarrow> hybi_ok (s\<lparr>hy_bytes_needed := n\<rparr>)"
  by (simp add: hybi_ok_def)

lemma hybi_ok_current:
  assumes "hybi_ok s" "hy_state s = APPLICATION"
  obtains md m where "current_metadata s = Ret md" "md_msg md = Some m"
  using assms by (auto simp: hybi_ok_def elim: current_readyE)

lemma process_payload_ok:
  assumes "hybi_ok s" "hy_state s = APPLICATION"
  obtains (ok) s' where "process_payload_bytes over buf s = Ret (length buf, s', None)" "hybi_ok s'" "hy_state s' = APPLICATION"
  | (bad) s' where "process_payload_bytes over buf s = Ret (0, s', Some P_invalid_utf8)" "hybi_ok s'" "hy_state s' = APPLICATION"
proof -
  obtain md m where m: "current_metadata s = Ret md" "md_msg md = Some m" by (rule hybi_ok_current [OF assms])
  obtain md' ok where r: "receive over (get_masked (hy_basic_header s)) buf m md = (md', ok)" by fastforce
  have "hybi_ok (set_current md' s)"
    using hybi_ok_set_current [OF assms(1)] receive_message [OF r] receive_validator [OF r] current_validator [OF assms(1) m(1)]
    by auto
  then show ?thesis
    using that process_payload_receive [OF m, of over buf] assms(2)
    by (cases ok) (simp_all add: r hybi_ok_needed)
qed

lemma consume_step_ok:
  assumes "hybi_ok s" "consume_step over reserve s buf = Ret (s', buf', ec)"
  shows "hybi_ok s'"
proof (cases "hy_state s")
  case HEADER_BASIC
  obtain p t where c: "copy_basic_header_bytes buf s = (p, t)" by fastforce
  have "hy_bytes_needed s \<le> 2" using assms(1) HEADER_BASIC by (simp add: hybi_ok_def)
  from copy_basic_ok [OF c this] show ?thesis using assms c HEADER_BASIC header_len_bound [of "hy_basic_header t"]
    by (auto simp: consume_step_def hybi_ok_def split: if_splits option.splits)
next
  case HEADER_EXTENDED
  from assms(2) HEADER_EXTENDED obtain p t where c: "copy_extended_header_bytes buf s = Ret (p, t)"
    and r: "s' = t \<or> start_payload reserve t = Ret s'"
    by (auto simp: consume_step_def split: result.splits if_splits option.splits)
  have "hybi_ok t" using assms(1) c HEADER_EXTENDED
    by (auto simp: copy_extended_header_bytes_def Let_def hybi_ok_def length_copy_at split: if_splits)
  then show ?thesis using r start_payload_ok by auto
next
  case APPLICATION
  let ?n = "min (hy_bytes_needed s) (length buf)"
  have f: "hybi_ok u" if "finish_payload t = Ret (u, ec)" "hybi_ok t" "hy_state t = APPLICATION" for t u ec
    using finish_payload_ok [OF that(2,3,1)] .
  show ?thesis
  proof (cases "?n > 0")
    case True
    show ?thesis using assms(1) APPLICATION
    proof (cases rule: process_payload_ok [where over = over and buf = "take ?n buf"])
      case (ok t)
      then show ?thesis using assms(2) APPLICATION True
        by (auto simp: consume_step_def split: if_splits result.splits dest: f)
    next
      case (bad t)
      then show ?thesis using assms(2) APPLICATION True by (auto simp: consume_step_def split: if_splits)
    qed
  next
    case False
    then show ?thesis using assms APPLICATION
      by (auto simp: consume_step_def split: if_splits result.splits dest: f)
  qed
qed (use assms in \<open>auto simp: consume_step_def hybi_ok_def\<close>)


lemma finish_payload_not_stuck: "hybi_ok s \<Longrightarrow> hy_state s = APPLICATION \<Longrightarrow> \<exists>u ec. finish_payload s = Ret (u, ec)"
  by (elim hybi_ok_current) (auto simp: finish_payload_def)

lemma consume_step_not_stuck:
  assumes "hybi_ok s"
  shows "consume_step over reserve s buf \<noteq> Stuck k"
proof (cases "hy_state s")
  case HEADER_BASIC
  then show ?thesis by (auto simp: consume_step_def split: prod.split option.split)
next
  case HEADER_EXTENDED
  then have "hy_cursor s + min (hy_bytes_needed s) (length buf) \<le> 12"
    using assms by (auto simp: hybi_ok_def min_def)
  then show ?thesis using HEADER_EXTENDED
    by (auto simp: consume_step_def copy_extended_header_bytes_def Let_def start_payload_not_stuck
        split: option.splits result.splits)
next
  case APPLICATION
  let ?n = "min (hy_bytes_needed s) (length buf)"
  have f: "finish_payload t \<noteq> Stuck k" if "hybi_ok t" "hy_state t = APPLICATION" for t
    using finish_payload_not_stuck [OF that] by auto
  show ?thesis
  proof (cases "?n > 0")
    case True
    show ?thesis using assms APPLICATION
      by (cases rule: process_payload_ok [where over = over and buf = "take ?n buf"])
        (use APPLICATION True in \<open>auto simp: consume_step_def Let_def f split: result.splits if_splits\<close>)
  next
    case False
    then show ?thesis using APPLICATION f [OF assms] by (auto simp: consume_step_def Let_def split: result.splits if_splits)
  qed
qed (simp_all add: consume_step_def)

text \<open>Induction over the loop, and the ways a turn ends.\<close>

lemma consume_induct [case_names turn]:
  assumes "\<And>s buf. (\<And>t u. consume_more s buf \<Longrightarrow> consume_step over reserve s buf = Ret (t, u, None) \<Longrightarrow> P t u) \<Longrightarrow> P s buf"
  shows "P s buf"
  by (induction "(over, reserve, s, buf)" arbitrary: s buf rule: wf_induct
        [OF wf_measures [of "[\<lambda>(over, reserve, s, buf). length buf, \<lambda>(over, reserve, s, buf). rank s]"]])
    (rule assms; auto dest: consume_step_progress)

lemma consume_cases:
  obtains (stop) "\<not> consume_more s buf" "consume over reserve s buf = Ret (s, buf, None)"
  | (fail) t u e where "consume_more s buf" "consume_step over reserve s buf = Ret (t, u, Some e)"
      "consume over reserve s buf = Ret (t, u, Some e)"
  | (exn) e where "consume_more s buf" "consume_step over reserve s buf = Exn e" "consume over reserve s buf = Exn e"
  | (stuck) k where "consume_more s buf" "consume_step over reserve s buf = Stuck k" "consume over reserve s buf = Stuck k"
  | (turn) t u where "consume_more s buf" "consume_step over reserve s buf = Ret (t, u, None)"
      "consume over reserve s buf = consume over reserve t u"
  using consume.simps [of over reserve s buf]
  by (cases "consume_more s buf"; cases "consume_step over reserve s buf"; cases "snd (snd (case consume_step over reserve s buf of Ret r \<Rightarrow> r | _ \<Rightarrow> (s, buf, None)))")
    (auto split: prod.splits option.splits)

lemma consume_ok: "hybi_ok s \<Longrightarrow> consume over reserve s buf = Ret (s', buf', ec) \<Longrightarrow> hybi_ok s'"
proof (induction s buf rule: consume_induct [of over reserve])
  case (turn s buf)
  show ?case
    by (cases rule: consume_cases [of s buf over reserve])
      (use turn consume_step_ok [OF turn.prems(1)] in auto)
qed

lemma consume_not_stuck: "hybi_ok s \<Longrightarrow> consume over reserve s buf \<noteq> Stuck k"
proof (induction s buf rule: consume_induct [of over reserve])
  case (turn s buf)
  show ?case
    by (cases rule: consume_cases [of s buf over reserve])
      (use turn consume_step_ok [OF turn.prems(1)] consume_step_not_stuck [OF turn.prems(1)] in auto)
qed

text \<open>Without an error all bytes are taken unless a message is ready.\<close>

lemma consume_rest: "consume over reserve s buf = Ret (s', buf', None) \<Longrightarrow> \<not> consume_more s' buf'"
proof (induction s buf rule: consume_induct [of over reserve])
  case (turn s buf)
  show ?case
    by (cases rule: consume_cases [of s buf over reserve]) (use turn in auto)
qed


section \<open>Input in pieces\<close>

text \<open>What a run shows: the state and the bytes left, or the error. (Behind an error how far the bytes were read depends on
  how they were cut.)\<close>

definition outc :: "(hybi13 \<times> string \<times> processor_error option) result \<Rightarrow> (hybi13 \<times> string + processor_error) result" where
  "outc r = (case r of
     Ret (s, u, None) \<Rightarrow> Ret (Inl (s, u)) | Ret (s, u, Some e) \<Rightarrow> Ret (Inr e) | Exn e \<Rightarrow> Exn e | Stuck k \<Rightarrow> Stuck k)"

lemma outc_simps [simp]:
  "outc (Ret (s, u, None)) = Ret (Inl (s, u))" "outc (Ret (s, u, Some e)) = Ret (Inr e)"
  "outc (Exn x) = Exn x" "outc (Stuck k) = Stuck k"
  by (simp_all add: outc_def)

lemma outc_Inr: "outc r = Ret (Inr e) \<longleftrightarrow> (\<exists>t u. r = Ret (t, u, Some e))"
  by (auto simp: outc_def split: result.splits prod.splits option.splits)

definition append_rest ::
    "string \<Rightarrow> (hybi13 \<times> string \<times> processor_error option) result \<Rightarrow> (hybi13 \<times> string \<times> processor_error option) result" where
  "append_rest ys r = (case r of Ret (s, u, e) \<Rightarrow> Ret (s, u @ ys, e) | Exn e \<Rightarrow> Exn e | Stuck k \<Rightarrow> Stuck k)"

lemma append_rest_simps [simp]:
  "append_rest ys (Ret (s, u, e)) = Ret (s, u @ ys, e)" "append_rest ys (Exn x) = Exn x"
  "append_rest ys (Stuck k) = Stuck k"
  by (simp_all add: append_rest_def)

text \<open>A turn that has all the bytes it needs does not look at more.\<close>

lemma consume_step_enough:
  assumes "hybi_ok s" "hy_state s \<in> {HEADER_BASIC, HEADER_EXTENDED, APPLICATION} \<Longrightarrow> hy_bytes_needed s \<le> length xs"
  shows "consume_step over reserve s (xs @ ys) = append_rest ys (consume_step over reserve s xs)"
proof (cases "hy_state s")
  case HEADER_BASIC
  then have n: "hy_bytes_needed s \<le> length xs" "hy_bytes_needed s \<le> 2" using assms by (simp_all add: hybi_ok_def)
  have "copy_basic_header_bytes (xs @ ys) s = copy_basic_header_bytes xs s"
    using n by (auto simp: copy_basic_header_bytes_def nth_append)
  moreover have "fst (copy_basic_header_bytes xs s) \<le> length xs"
    using n by (auto simp: copy_basic_header_bytes_def)
  ultimately show ?thesis using HEADER_BASIC
    by (auto simp: consume_step_def split: prod.split option.split)
next
  case HEADER_EXTENDED
  then have n: "hy_bytes_needed s \<le> length xs" using assms(2) by simp
  then have "copy_extended_header_bytes (xs @ ys) s = copy_extended_header_bytes xs s"
    by (simp add: copy_extended_header_bytes_def min_def Let_def)
  moreover have "p \<le> length xs" if "copy_extended_header_bytes xs s = Ret (p, t)" for p t
    using copy_extended_progress [OF that] by simp
  ultimately show ?thesis using HEADER_EXTENDED
    by (auto simp: consume_step_def split: prod.split option.split result.split)
next
  case APPLICATION
  then have n: "hy_bytes_needed s \<le> length xs" using assms(2) by simp
  then have m: "min (hy_bytes_needed s) (length (xs @ ys)) = hy_bytes_needed s" "min (hy_bytes_needed s) (length xs) = hy_bytes_needed s"
    by simp_all
  have t: "take (hy_bytes_needed s) (xs @ ys) = take (hy_bytes_needed s) xs" using n by simp
  show ?thesis using assms(1) APPLICATION
    by (cases rule: process_payload_ok [where over = over and buf = "take (hy_bytes_needed s) xs"])
      (use APPLICATION n in \<open>auto simp: consume_step_def m t Let_def split: result.split\<close>)
qed (simp_all add: consume_step_def)

lemma copy_at_copy_at:
  assumes "off + length xs + length ys \<le> length e"
  shows "copy_at (off + length xs) ys (copy_at off xs e) = copy_at off (xs @ ys) e"
  using assms by (simp add: copy_at_def ac_simps)


lemma min_split: "l < n \<Longrightarrow> min n (l + k) = l + min (n - l) k" for l :: nat
  by auto

lemma basic_partial:
  assumes "hybi_ok s" "hy_state s = HEADER_BASIC" "xs \<noteq> []" "length xs < hy_bytes_needed s"
  obtains s1 where "consume_step over reserve s xs = Ret (s1, [], None)" "hy_bytes_needed s1 > 0" "hy_state s1 = hy_state s"
    "\<And>ys. ys \<noteq> [] \<Longrightarrow> consume_step over reserve s (xs @ ys) = consume_step over reserve s1 ys"
proof -
  have n: "hy_bytes_needed s = 2" using assms by (cases xs) (auto simp: hybi_ok_def)
  with assms obtain c where xs: "xs = [c]" by (cases xs) auto
  let ?s1 = "s\<lparr>hy_basic_header := (hy_basic_header s)\<lparr>bh_b0 := byte8 c\<rparr>, hy_bytes_needed := 1\<rparr>"
  have 1: "copy_basic_header_bytes xs s = (1, ?s1)" by (simp add: copy_basic_header_bytes_def n xs)
  have 2: "copy_basic_header_bytes (xs @ ys) s = (case copy_basic_header_bytes ys ?s1 of (p, t) \<Rightarrow> (Suc p, t))"
    if "ys \<noteq> []" for ys
    using that by (cases ys) (simp_all add: copy_basic_header_bytes_def n xs header_bytes_def)
  show ?thesis
  proof (rule that [of ?s1])
    show "consume_step over reserve s (xs @ ys) = consume_step over reserve ?s1 ys" if "ys \<noteq> []" for ys
      using assms(2) that by (simp add: consume_step_def 2 xs [symmetric] split: prod.split) (auto simp: xs split: option.split)
  qed (use assms(2) in \<open>simp_all add: consume_step_def 1, simp add: xs\<close>)
qed

lemma extended_partial:
  assumes "hybi_ok s" "hy_state s = HEADER_EXTENDED" "xs \<noteq> []" "length xs < hy_bytes_needed s"
  obtains s1 where "consume_step over reserve s xs = Ret (s1, [], None)" "hy_bytes_needed s1 > 0" "hy_state s1 = hy_state s"
    "\<And>ys. ys \<noteq> [] \<Longrightarrow> consume_step over reserve s (xs @ ys) = consume_step over reserve s1 ys"
proof -
  let ?l = "length xs" and ?n = "hy_bytes_needed s" and ?c = "hy_cursor s"
  have b: "?c + ?n \<le> 12" "length (hy_extended_header s) = 12" using assms by (simp_all add: hybi_ok_def)
  let ?s1 = "s\<lparr>hy_extended_header := copy_at ?c xs (hy_extended_header s), hy_cursor := ?c + ?l, hy_bytes_needed := ?n - ?l\<rparr>"
  have 1: "copy_extended_header_bytes xs s = Ret (?l, ?s1)"
    using assms b by (simp add: copy_extended_header_bytes_def min_def Let_def)
  have 2: "copy_extended_header_bytes (xs @ ys) s =
      (case copy_extended_header_bytes ys ?s1 of Ret (p, t) \<Rightarrow> Ret (?l + p, t) | Exn e \<Rightarrow> Exn e | Stuck k \<Rightarrow> Stuck k)" for ys
  proof -
    let ?m = "min (?n - ?l) (length ys)"
    have c: "?c + ?l + length (take ?m ys) \<le> length (hy_extended_header s)" using b assms(4) by auto
    have l: "?c + (?l + ?m) \<le> 12" "?c + ?l + ?m \<le> 12" using b assms(4) by auto
    show ?thesis using l copy_at_copy_at [OF c] assms(4)
      by (simp add: copy_extended_header_bytes_def Let_def min_split add.assoc)
  qed
  show ?thesis
  proof (rule that [of ?s1])
    show "consume_step over reserve s (xs @ ys) = consume_step over reserve ?s1 ys" if "ys \<noteq> []" for ys
      using assms(2) by (cases "copy_extended_header_bytes ys ?s1")
        (auto simp: consume_step_def 2 split: prod.split result.split option.split)
  qed (use assms in \<open>simp_all add: consume_step_def 1\<close>)
qed

definition after_payload :: "nat \<Rightarrow> string \<Rightarrow> hybi13 \<Rightarrow> (hybi13 \<times> string \<times> processor_error option) result" where
  "after_payload n buf t =
     (if hy_bytes_needed t > 0 then Ret (t, drop n buf, None)
      else case finish_payload t of Ret (t, ec) \<Rightarrow> Ret (t, drop n buf, ec) | Exn e \<Rightarrow> Exn e | Stuck k \<Rightarrow> Stuck k)"

lemma application_step:
  assumes "hy_state s = APPLICATION" "current_metadata s = Ret md" "md_msg md = Some m" "n > 0" "n \<le> length buf"
    "n = min (hy_bytes_needed s) (length buf)" "receive over (get_masked (hy_basic_header s)) (take n buf) m md = (md', ok)"
  shows "consume_step over reserve s buf =
    (if ok then after_payload n buf ((set_current md' s)\<lparr>hy_bytes_needed := hy_bytes_needed s - n\<rparr>)
     else Ret (set_current md' s, buf, Some P_invalid_utf8))"
proof -
  have p: "process_payload_bytes over (take n buf) s =
      (if ok then Ret (n, (set_current md' s)\<lparr>hy_bytes_needed := hy_bytes_needed s - n\<rparr>, None)
       else Ret (0, set_current md' s, Some P_invalid_utf8))"
    using process_payload_receive [OF assms(2,3), of over "take n buf"] assms(5,7) by simp
  have "consume_step over reserve s buf =
      (case process_payload_bytes over (take n buf) s of
         Ret (p, s, Some e) \<Rightarrow> Ret (s, drop p buf, Some e)
       | Ret (p, s, None) \<Rightarrow> after_payload p buf s
       | Exn e \<Rightarrow> Exn e | Stuck k \<Rightarrow> Stuck k)"
    using assms(1,4) by (simp add: consume_step_def Let_def flip: assms(6))
      (auto simp: after_payload_def split: result.split prod.split option.split)
  then show ?thesis by (simp add: p)
qed

lemma after_payload_append: "n = length xs + k \<Longrightarrow> after_payload n (xs @ ys) t = after_payload k ys t"
  by (cases "finish_payload t") (auto simp: after_payload_def)

lemma application_partial:
  assumes "hybi_ok s" "over_ok over" "hy_state s = APPLICATION" "xs \<noteq> []" "length xs < hy_bytes_needed s"
  obtains (some) s1 where "consume_step over reserve s xs = Ret (s1, [], None)" "hy_bytes_needed s1 > 0" "hy_state s1 = hy_state s"
      "\<And>ys. ys \<noteq> [] \<Longrightarrow> outc (consume_step over reserve s (xs @ ys)) = outc (consume_step over reserve s1 ys)"
  | (bad) t e where "consume_step over reserve s xs = Ret (t, xs, Some e)"
      "\<And>ys. outc (consume_step over reserve s (xs @ ys)) = Ret (Inr e)"
proof -
  let ?l = "length xs" and ?n = "hy_bytes_needed s" and ?k = "get_masked (hy_basic_header s)"
  obtain md m where m: "current_metadata s = Ret md" "md_msg md = Some m" by (rule hybi_ok_current [OF assms(1,3)])
  obtain md1 ok where r: "receive over ?k xs m md = (md1, ok)" by fastforce
  obtain m1 where m1: "md_msg md1 = Some m1" using receive_message [OF r] by blast
  note ra = receive_append [OF assms(2) r m1]
  have l: "0 < ?l" using assms(4) by simp
  have 1: "consume_step over reserve s xs =
      (if ok then after_payload ?l xs ((set_current md1 s)\<lparr>hy_bytes_needed := ?n - ?l\<rparr>)
       else Ret (set_current md1 s, xs, Some P_invalid_utf8))"
    by (rule application_step [OF assms(3) m]) (use l r assms(5) in simp_all)
  define q where "q ys = min (?n - ?l) (length ys)" for ys :: string
  have step: "consume_step over reserve s (xs @ ys) =
      (if ok' then after_payload (?l + q ys) (xs @ ys) ((set_current md' s)\<lparr>hy_bytes_needed := ?n - (?l + q ys)\<rparr>)
       else Ret (set_current md' s, xs @ ys, Some P_invalid_utf8))"
    if "receive over ?k (xs @ take (q ys) ys) m md = (md', ok')" for ys md' ok'
    by (rule application_step [OF assms(3) m]) (use l that assms(5) in \<open>simp_all add: q_def min_split\<close>)
  show ?thesis
  proof (cases ok)
    case False
    have "outc (consume_step over reserve s (xs @ ys)) = Ret (Inr P_invalid_utf8)" for ys
    proof -
      obtain md' ok' where r': "receive over ?k (xs @ take (q ys) ys) m md = (md', ok')" by fastforce
      with ra(2) [OF False, of "take (q ys) ys"] have "\<not> ok'" by simp
      with step [OF r'] show ?thesis by simp
    qed
    with 1 False show ?thesis by (intro bad) simp_all
  next
    case True
    let ?s1 = "(set_current md1 s)\<lparr>hy_bytes_needed := ?n - ?l\<rparr>"
    have m1': "current_metadata ?s1 = Ret md1" by (simp add: current_set_current [OF m(1)])
    have "outc (consume_step over reserve s (xs @ ys)) = outc (consume_step over reserve ?s1 ys)" if "ys \<noteq> []" for ys
    proof -
      obtain md2 ok2 where r2: "receive over ?k (take (q ys) ys) m1 md1 = (md2, ok2)" by fastforce
      then have r3: "receive over ?k (xs @ take (q ys) ys) m md = (md2, ok2)" using ra(1) [OF True] by simp
      have "consume_step over reserve ?s1 ys =
          (if ok2 then after_payload (q ys) ys ((set_current md2 ?s1)\<lparr>hy_bytes_needed := ?n - ?l - q ys\<rparr>)
           else Ret (set_current md2 ?s1, ys, Some P_invalid_utf8))"
        using application_step [OF _ m1' m1, of "q ys" ys over md2 ok2] assms(3,5) that r2 by (simp add: q_def)
      then show ?thesis using step [OF r3]
        by (cases ok2) (simp_all add: after_payload_append diff_diff_eq)
    qed
    with 1 True assms(5) show ?thesis by (intro some [of ?s1]) (simp_all add: after_payload_def)
  qed
qed


lemma consume_step_partial:
  assumes "hybi_ok s" "over_ok over" "hy_state s \<in> {HEADER_BASIC, HEADER_EXTENDED, APPLICATION}"
    "xs \<noteq> []" "length xs < hy_bytes_needed s"
  obtains (some) s1 where "consume_step over reserve s xs = Ret (s1, [], None)" "hy_bytes_needed s1 > 0" "hy_state s1 = hy_state s"
      "\<And>ys. ys \<noteq> [] \<Longrightarrow> outc (consume_step over reserve s (xs @ ys)) = outc (consume_step over reserve s1 ys)"
  | (bad) t e where "consume_step over reserve s xs = Ret (t, xs, Some e)"
      "\<And>ys. outc (consume_step over reserve s (xs @ ys)) = Ret (Inr e)"
proof -
  from assms(3) consider "hy_state s = HEADER_BASIC" | "hy_state s = HEADER_EXTENDED" | "hy_state s = APPLICATION" by blast
  then show ?thesis
  proof cases
    case 1
    from basic_partial [OF assms(1) 1 assms(4,5), of over reserve] show ?thesis by (metis some)
  next
    case 2
    from extended_partial [OF assms(1) 2 assms(4,5), of over reserve] show ?thesis by (metis some)
  next
    case 3
    from assms(1,2) 3 assms(4,5) show ?thesis
      by (rule application_partial [of s over xs reserve]) (fact some, fact bad)
  qed
qed

lemma consume_outc:
  assumes "consume_more s xs" "consume_more t ys" "outc (consume_step over reserve s xs) = outc (consume_step over reserve t ys)"
  shows "outc (consume over reserve s xs) = outc (consume over reserve t ys)"
  using assms by (subst (1 2) consume.simps) (auto simp: outc_def split: result.splits option.splits prod.splits)

text \<open>The bytes left over are read again with what comes next.\<close>

definition consume_then ::
    "(64 word \<Rightarrow> 64 word) \<Rightarrow> (nat \<Rightarrow> exn option) \<Rightarrow> (hybi13 \<times> string + processor_error) result \<Rightarrow> string \<Rightarrow>
     (hybi13 \<times> string + processor_error) result" where
  "consume_then over reserve r ys = (case r of
     Ret (Inl (s, u)) \<Rightarrow> outc (consume over reserve s (u @ ys)) | _ \<Rightarrow> r)"

lemma consume_then_simps [simp]:
  "consume_then over reserve (Ret (Inl (s, u))) ys = outc (consume over reserve s (u @ ys))"
  "consume_then over reserve (Ret (Inr e)) ys = Ret (Inr e)"
  "consume_then over reserve (Exn x) ys = Exn x" "consume_then over reserve (Stuck k) ys = Stuck k"
  by (simp_all add: consume_then_def)

lemma consume_more_append: "consume_more s xs \<Longrightarrow> consume_more s (xs @ ys)"
  by (auto simp: consume_more_def)

lemma consume_idle: "\<not> consume_more s buf \<Longrightarrow> consume over reserve s buf = Ret (s, buf, None)"
  by (simp add: consume.simps [of over reserve s buf])

lemma consume_append:
  assumes "hybi_ok s" "over_ok over"
  shows "outc (consume over reserve s (xs @ ys)) = consume_then over reserve (outc (consume over reserve s xs)) ys"
  using assms(1)
proof (induction s xs rule: consume_induct [of over reserve])
  case (turn s xs)
  show ?case
  proof (cases "hy_state s \<in> {HEADER_BASIC, HEADER_EXTENDED, APPLICATION} \<longrightarrow> hy_bytes_needed s \<le> length xs")
    case True
    have e: "consume_step over reserve s (xs @ ys) = append_rest ys (consume_step over reserve s xs)"
      by (rule consume_step_enough [OF turn.prems]) (use True in blast)
    show ?thesis
    proof (cases rule: consume_cases [of s xs over reserve])
      case (turn t u)
      then have "hybi_ok t" using consume_step_ok \<open>hybi_ok s\<close> by blast
      from turn.IH [OF turn(1,2) this] turn e consume_more_append [OF turn(1), of ys] show ?thesis
        by (simp add: consume.simps [of over reserve s "xs @ ys"])
    qed (use e consume_more_append [of s xs ys] in \<open>simp_all add: consume.simps [of over reserve s "xs @ ys"]\<close>)
  next
    case False
    then have q: "hy_state s \<in> {HEADER_BASIC, HEADER_EXTENDED, APPLICATION}" "length xs < hy_bytes_needed s" by auto
    show ?thesis
    proof (cases "xs = [] \<or> ys = []")
      case True
      then show ?thesis
      proof
        assume "xs = []"
        with q show ?thesis by (simp add: consume_idle consume_more_def)
      next
        assume y: "ys = []"
        have "consume_then over reserve r [] = r" if "r = outc (consume over reserve s xs)" for r
          using that consume_rest [of over reserve s xs]
          by (auto simp: consume_then_def outc_def consume_idle split: result.splits prod.splits option.splits)
        then show ?thesis using y by simp
      qed
    next
      case False
      then have m: "consume_more s xs" using q by (auto simp: consume_more_def)
      then have ne: "xs \<noteq> []" using False by simp
      from turn.prems assms(2) q(1) ne q(2) show ?thesis
      proof (cases rule: consume_step_partial [of s over xs reserve])
        case (some s1)
        have i: "consume over reserve s xs = Ret (s1, [], None)"
          using some m by (simp add: consume.simps [of over reserve s xs] consume_idle consume_more_def)
        have "consume_more s1 ys" using some q(1) False by (auto simp: consume_more_def)
        then show ?thesis
          using consume_outc [OF consume_more_append [OF m] _ some(4)] False i by simp
      next
        case (bad t e)
        from bad(2) [of ys] obtain t' u' where "consume_step over reserve s (xs @ ys) = Ret (t', u', Some e)"
          by (auto simp: outc_Inr)
        then show ?thesis using m consume_more_append [OF m, of ys] bad(1)
          by (simp add: consume.simps [of over reserve s xs] consume.simps [of over reserve s "xs @ ys"])
      qed
    qed
  qed
qed


section \<open>Messages out of a stream\<close>

definition reading :: "hybi13 \<Rightarrow> bool" where
  "reading s \<longleftrightarrow> hy_state s \<in> {HEADER_BASIC, HEADER_EXTENDED, APPLICATION} \<and> hy_bytes_needed s > 0"

lemma reading_new: "reading (hybi13_new server)"
  by (simp add: reading_def hybi13_new_def)

lemma reading_more: "reading s \<Longrightarrow> buf \<noteq> [] \<Longrightarrow> consume_more s buf"
  by (auto simp: reading_def consume_more_def)

lemma reading_not_READY: "reading s \<Longrightarrow> hy_state s \<noteq> READY"
  by (auto simp: reading_def)

lemma consume_step_state:
  assumes "consume_step over reserve s buf = Ret (t, u, None)"
    "hy_state s \<in> {HEADER_BASIC, HEADER_EXTENDED, APPLICATION}" "hybi_ok s"
  shows "hy_state t \<in> {HEADER_BASIC, HEADER_EXTENDED, APPLICATION, READY}"
proof (cases "hy_state s")
  case HEADER_BASIC
  obtain p v where c: "copy_basic_header_bytes buf s = (p, v)" by fastforce
  have "hy_bytes_needed s \<le> 2" using assms(3) HEADER_BASIC by (simp add: hybi_ok_def)
  from copy_basic_ok [OF c this] show ?thesis using assms(1) HEADER_BASIC c
    by (auto simp: consume_step_def split: if_splits option.splits)
next
  case HEADER_EXTENDED
  have c: "hy_state v = HEADER_EXTENDED" if "copy_extended_header_bytes buf s = Ret (p, v)" for p v
    using that HEADER_EXTENDED by (auto simp: copy_extended_header_bytes_def Let_def split: if_splits)
  show ?thesis using assms(1) HEADER_EXTENDED
    by (auto simp: consume_step_def split: result.splits if_splits option.splits dest: start_payload_state c)
next
  case APPLICATION
  have f: "hy_state v = READY \<or> hy_state v = HEADER_BASIC" if "finish_payload w = Ret (v, None)" for v w
    using that by (auto simp: finish_payload_def split: if_splits result.splits)
  show ?thesis
  proof (cases "min (hy_bytes_needed s) (length buf) > 0")
    case True
    show ?thesis using assms(3) APPLICATION
      by (cases rule: process_payload_ok [where over = over and buf = "take (min (hy_bytes_needed s) (length buf)) buf"])
        (use assms(1) APPLICATION True in \<open>auto simp: consume_step_def Let_def split: if_splits result.splits dest: f\<close>)
  next
    case False
    then show ?thesis using assms(1) APPLICATION
      by (auto simp: consume_step_def Let_def split: if_splits result.splits dest: f)
  qed
qed (use assms in auto)

lemma consume_state:
  "consume over reserve s buf = Ret (t, u, None) \<Longrightarrow> hy_state s \<in> {HEADER_BASIC, HEADER_EXTENDED, APPLICATION, READY} \<Longrightarrow>
   hybi_ok s \<Longrightarrow> hy_state t \<in> {HEADER_BASIC, HEADER_EXTENDED, APPLICATION, READY} \<and> length u \<le> length buf"
proof (induction s buf rule: consume_induct [of over reserve])
  case (turn s buf)
  show ?case
  proof (cases rule: consume_cases [of s buf over reserve])
    case (turn v w)
    then have "hy_state s \<in> {HEADER_BASIC, HEADER_EXTENDED, APPLICATION}"
      using turn.prems(2) by (auto simp: consume_more_def)
    from consume_step_state [OF turn(2) this \<open>hybi_ok s\<close>] consume_step_ok [OF \<open>hybi_ok s\<close> turn(2)]
      turn.IH [OF turn(1,2)] turn(3) \<open>consume over reserve s buf = Ret (t, u, None)\<close>
      consume_step_progress [OF turn(1,2)]
    show ?thesis by auto
  qed (use turn.prems in auto)
qed

text \<open>A call that has bytes to read takes at least one, and ends with a message or waiting for more.\<close>

lemma consume_reading:
  assumes "hybi_ok s" "reading s" "buf \<noteq> []" "consume over reserve s buf = Ret (t, u, None)"
  shows "length u < length buf" and "hy_state t = READY \<or> reading t \<and> u = []"
proof -
  note m = reading_more [OF assms(2,3)]
  have q: "hy_state s \<in> {HEADER_BASIC, HEADER_EXTENDED, APPLICATION}" using assms(2) by (simp add: reading_def)
  have "hy_state t \<in> {HEADER_BASIC, HEADER_EXTENDED, APPLICATION, READY}"
    using consume_state [OF assms(4) _ assms(1)] q by auto
  then show "hy_state t = READY \<or> reading t \<and> u = []"
    using consume_rest [OF assms(4)] by (auto simp: reading_def consume_more_def)
  show "length u < length buf"
  proof (cases rule: consume_cases [of s buf over reserve])
    case (turn v w)
    have "length w < length buf"
      using consume_step_takes [OF q _ assms(3) turn(2)] assms(2) by (simp add: reading_def)
    moreover have "length u \<le> length w"
      using consume_state [of over reserve v w t u] consume_step_state [OF turn(2) q assms(1)]
        consume_step_ok [OF assms(1) turn(2)] turn(3) assms(4) by auto
    ultimately show ?thesis by simp
  qed (use assms m in auto)
qed

end
