(* ===== verification/Ws_Stream.thy ===== *)
theory Ws_Stream
  imports Ws_Hybi13
begin

text \<open>
  The protocol processor on a stream of bytes: \<open>deliver\<close> is the read loop of a connection
  (\<open>handle_read_frame\<close> of \<open>websocketpp/impl/connection_impl.hpp\<close>) reduced to the messages it takes out of the
  processor. What comes out does not depend on how the stream is cut, and it is what a specification on whole
  frames, which knows nothing of bytes, says.
\<close>

section \<open>The messages of a stream\<close>

lemma get_message_ready:
  assumes "hybi_ok s" "hy_state s = READY"
  obtains m s' where "get_message s = Ret (Some m, s')" "hybi_ok s'" "reading s'"
proof -
  have "current_ready s" using assms by (simp add: hybi_ok_def)
  then obtain md m where m: "current_metadata s = Ret md" "md_msg md = Some m" by (rule current_readyE)
  let ?s = "set_current (md\<lparr>md_msg := None\<rparr>) s"
  let ?t = "if is_control (msg_opcode m) then ?s\<lparr>hy_control_msg := (hy_control_msg ?s)\<lparr>md_msg := None\<rparr>\<rparr>
    else ?s\<lparr>hy_data_msg := (hy_data_msg ?s)\<lparr>md_msg := None\<rparr>\<rparr>"
  have g: "get_message s = Ret (Some m, reset_headers ?t)"
    using assms(2) m by (simp add: get_message_def Let_def)
  have v: "vd_state (md_validator md) < 9" by (rule current_validator [OF assms(1) m(1)])
  have "vd_state (md_validator (hy_data_msg ?s)) < 9" "vd_state (md_validator (hy_control_msg ?s)) < 9"
    using v assms(1) by (auto simp: set_current_def hybi_ok_def split: option.splits current.splits)
  then have "hybi_ok (reset_headers ?t)" by (simp add: hybi_ok_def zero_header_def)
  moreover have "reading (reset_headers ?t)" by (simp add: reading_def)
  ultimately show ?thesis using that [OF g] by simp
qed

function deliver ::
    "(64 word \<Rightarrow> 64 word) \<Rightarrow> (nat \<Rightarrow> exn option) \<Rightarrow> hybi13 \<Rightarrow> string \<Rightarrow> ws_message list \<times> (hybi13 + processor_error) result" where
  "deliver over reserve s buf =
     (if \<not> (hybi_ok s \<and> reading s \<and> buf \<noteq> []) then ([], Ret (Inl s))
      else case consume over reserve s buf of
        Exn e \<Rightarrow> ([], Exn e)
      | Stuck k \<Rightarrow> ([], Stuck k)
      | Ret (t, u, Some e) \<Rightarrow> ([], Ret (Inr e))
      | Ret (t, u, None) \<Rightarrow>
          (if hy_state t = READY then
             (case get_message t of
                Ret (Some m, t) \<Rightarrow> (case deliver over reserve t u of (ms, r) \<Rightarrow> (m # ms, r))
              | Ret (None, t) \<Rightarrow> deliver over reserve t u
              | Exn e \<Rightarrow> ([], Exn e) | Stuck k \<Rightarrow> ([], Stuck k))
           else deliver over reserve t u))"
  by auto

termination
  by (relation "measure (\<lambda>(over, reserve, s, buf). length buf)") (auto dest: consume_reading(1))

declare deliver.simps [simp del]

lemma deliver_Nil [simp]: "deliver over reserve s [] = ([], Ret (Inl s))"
  by (simp add: deliver.simps)

text \<open>What a call of \<open>consume\<close> contributes.\<close>

definition deliver_rest ::
    "(64 word \<Rightarrow> 64 word) \<Rightarrow> (nat \<Rightarrow> exn option) \<Rightarrow> (hybi13 \<times> string + processor_error) result \<Rightarrow>
     ws_message list \<times> (hybi13 + processor_error) result" where
  "deliver_rest over reserve r = (case r of
     Ret (Inl (t, u)) \<Rightarrow>
       (if hy_state t = READY then
          (case get_message t of
             Ret (Some m, t) \<Rightarrow> (case deliver over reserve t u of (ms, r) \<Rightarrow> (m # ms, r))
           | Ret (None, t) \<Rightarrow> deliver over reserve t u
           | Exn e \<Rightarrow> ([], Exn e) | Stuck k \<Rightarrow> ([], Stuck k))
        else deliver over reserve t u)
   | Ret (Inr e) \<Rightarrow> ([], Ret (Inr e)) | Exn e \<Rightarrow> ([], Exn e) | Stuck k \<Rightarrow> ([], Stuck k))"

lemma deliver_consume:
  "hybi_ok s \<Longrightarrow> reading s \<Longrightarrow> buf \<noteq> [] \<Longrightarrow>
   deliver over reserve s buf = deliver_rest over reserve (outc (consume over reserve s buf))"
  by (subst deliver.simps) (simp add: deliver_rest_def outc_def split: result.split prod.split option.split)

definition deliver_then ::
    "(64 word \<Rightarrow> 64 word) \<Rightarrow> (nat \<Rightarrow> exn option) \<Rightarrow> ws_message list \<times> (hybi13 + processor_error) result \<Rightarrow> string \<Rightarrow>
     ws_message list \<times> (hybi13 + processor_error) result" where
  "deliver_then over reserve r ys = (case r of
     (ms, Ret (Inl t)) \<Rightarrow> (case deliver over reserve t ys of (ns, q) \<Rightarrow> (ms @ ns, q)) | _ \<Rightarrow> r)"

lemma deliver_then_simps [simp]:
  "deliver_then over reserve (ms, Ret (Inr e)) ys = (ms, Ret (Inr e))"
  "deliver_then over reserve (ms, Exn x) ys = (ms, Exn x)" "deliver_then over reserve (ms, Stuck k) ys = (ms, Stuck k)"
  "deliver_then over reserve ([], Ret (Inl t)) ys = deliver over reserve t ys"
  by (simp_all add: deliver_then_def)

lemma deliver_then_Cons:
  "deliver_then over reserve (case r of (ms, q) \<Rightarrow> (m # ms, q)) ys =
   (case deliver_then over reserve r ys of (ms, q) \<Rightarrow> (m # ms, q))"
  by (auto simp: deliver_then_def split: prod.splits result.splits sum.splits)

lemma deliver_append:
  assumes "over_ok over"
  shows "hybi_ok s \<Longrightarrow> reading s \<Longrightarrow>
    deliver over reserve s (xs @ ys) = deliver_then over reserve (deliver over reserve s xs) ys"
proof (induction "length xs" arbitrary: s xs rule: less_induct)
  case less
  show ?case
  proof (cases "xs = []")
    case False
    have c: "outc (consume over reserve s (xs @ ys)) = consume_then over reserve (outc (consume over reserve s xs)) ys"
      by (rule consume_append [OF less.prems(1) assms])
    have l: "deliver over reserve s (xs @ ys) = deliver_rest over reserve (outc (consume over reserve s (xs @ ys)))"
      "deliver over reserve s xs = deliver_rest over reserve (outc (consume over reserve s xs))"
      using deliver_consume less.prems False by simp_all
    show ?thesis
    proof (cases "consume over reserve s xs")
      case (Ret r)
      obtain t u e where r: "r = (t, u, e)" by (cases r)
      show ?thesis
      proof (cases e)
        case None
        with Ret r have cs: "consume over reserve s xs = Ret (t, u, None)" by simp
        note t = consume_ok [OF less.prems(1) cs]
        show ?thesis
        proof (cases "hy_state t = READY")
          case True
          obtain m t' where g: "get_message t = Ret (Some m, t')" "hybi_ok t'" "reading t'"
            by (rule get_message_ready [OF t True])
          have "deliver over reserve t' (u @ ys) = deliver_then over reserve (deliver over reserve t' u) ys"
            using consume_reading(1) [OF less.prems False cs] less.hyps g(2,3) by blast
          moreover have "consume over reserve t (u @ ys) = Ret (t, u @ ys, None)"
            using True by (intro consume_idle) (simp add: consume_more_def)
          ultimately show ?thesis using True g(1)
            by (simp add: l c cs deliver_rest_def deliver_then_Cons)
        next
          case w: False
          then have w: "reading t" "u = []" using consume_reading(2) [OF less.prems False cs] by auto
          then have "deliver_rest over reserve (outc (consume over reserve t ys)) = deliver over reserve t ys"
            using deliver_consume [OF t w(1)] reading_not_READY [OF w(1)]
            by (cases "ys = []") (simp_all add: consume_idle deliver_rest_def consume_more_def reading_def)
          then show ?thesis using w reading_not_READY [OF w(1)] by (simp add: l c cs) (simp add: deliver_rest_def)
        qed
      qed (use Ret r l c in \<open>simp add: deliver_rest_def\<close>)
    qed (use l c in \<open>simp_all add: deliver_rest_def\<close>)
  qed simp
qed

text \<open>The buffers a connection is handed one after the other, until an error ends the reading.\<close>

primrec deliver_chunks ::
    "(64 word \<Rightarrow> 64 word) \<Rightarrow> (nat \<Rightarrow> exn option) \<Rightarrow> string list \<Rightarrow> hybi13 \<Rightarrow>
     ws_message list \<times> (hybi13 + processor_error) result" where
  "deliver_chunks over reserve [] s = ([], Ret (Inl s))"
| "deliver_chunks over reserve (c # cs) s = (case deliver over reserve s c of
     (ms, Ret (Inl t)) \<Rightarrow> (case deliver_chunks over reserve cs t of (ns, q) \<Rightarrow> (ms @ ns, q))
   | r \<Rightarrow> r)"

lemma deliver_keeps:
  "hybi_ok s \<Longrightarrow> reading s \<Longrightarrow> deliver over reserve s buf = (ms, Ret (Inl t)) \<Longrightarrow> hybi_ok t \<and> reading t"
proof (induction "length buf" arbitrary: s buf ms rule: less_induct)
  case less
  show ?case
  proof (cases "buf = []")
    case False
    then obtain t' u where c: "consume over reserve s buf = Ret (t', u, None)"
      using less.prems by (auto simp: deliver_consume deliver_rest_def outc_def split: result.splits prod.splits option.splits)
    note ok = consume_ok [OF less.prems(1) c]
    note rd = consume_reading [OF less.prems(1,2) False c]
    show ?thesis
    proof (cases "hy_state t' = READY")
      case True
      obtain m t1 where g: "get_message t' = Ret (Some m, t1)" "hybi_ok t1" "reading t1"
        by (rule get_message_ready [OF ok True])
      have "\<exists>ms. deliver over reserve t1 u = (ms, Ret (Inl t))"
        using less.prems False c True g(1) by (auto simp: deliver_consume deliver_rest_def split: prod.splits)
      then show ?thesis using less.hyps [OF rd(1) g(2,3)] by blast
    next
      case w: False
      then have "t' = t" using rd(2) less.prems False c by (simp add: deliver_consume deliver_rest_def)
      then show ?thesis using w ok rd(2) by simp
    qed
  qed (use less in auto)
qed

lemma deliver_chunks_concat:
  "over_ok over \<Longrightarrow> hybi_ok s \<Longrightarrow> reading s \<Longrightarrow>
   deliver_chunks over reserve cs s = deliver over reserve s (concat cs)"
proof (induction cs arbitrary: s)
  case (Cons c cs)
  have "deliver over reserve s (concat (c # cs)) = deliver_then over reserve (deliver over reserve s c) (concat cs)"
    using deliver_append Cons.prems by simp
  moreover have "deliver_chunks over reserve cs t = deliver over reserve t (concat cs)"
    if "deliver over reserve s c = (ms, Ret (Inl t))" for ms t
    using Cons.IH Cons.prems deliver_keeps [OF Cons.prems(2,3) that] by simp
  ultimately show ?case
    by (auto simp: deliver_then_def split: prod.splits result.splits sum.splits)
qed simp


section \<open>Frames\<close>

text \<open>A frame as a whole, and its bytes when \<open>masked\<close> says that its sender masks (a client).\<close>

record ws_frame =
  fr_opcode :: opcode
  fr_fin :: bool
  fr_key :: "32 word"
  fr_payload :: string

definition encode_frame :: "bool \<Rightarrow> ws_frame \<Rightarrow> string" where
  "encode_frame masked f =
     frame_header (fr_opcode f) (length (fr_payload f)) (fr_fin f) masked (fr_key f) @
     (if masked then byte_mask (fr_key f) 0 (fr_payload f) else fr_payload f)"

text \<open>The fields fit: four bits of opcode, 63 bits of size, and memory for the payload.\<close>

definition frame_ok :: "(nat \<Rightarrow> exn option) \<Rightarrow> ws_frame \<Rightarrow> bool" where
  "frame_ok reserve f \<longleftrightarrow>
     fr_opcode f < 16 \<and> length (fr_payload f) < 2 ^ 63 \<and> reserve (length (fr_payload f)) = None"

text \<open>The data message in progress: what it holds so far and where its text stands.\<close>

type_synonym partial = "(ws_message \<times> utf8_validator) option"

text \<open>The specification of one frame: the error, or the partial message after it and the message it completes.\<close>

definition spec_frame :: "bool \<Rightarrow> bool \<Rightarrow> partial \<Rightarrow> ws_frame \<Rightarrow> processor_error + partial \<times> ws_message option" where
  "spec_frame server masked p f =
     (let op = fr_opcode f;
          h = header_make op (word_of_nat (length (fr_payload f))) (fr_fin f) masked False False False
      in case validate_incoming_basic_header h server (p = None) of
           Some e \<Rightarrow> Inl e
         | None \<Rightarrow>
             (if is_control op then Inr (p, Some (append_payload (fr_payload f) (message_new op)))
              else
                (let (m, v) = (case p of None \<Rightarrow> (message_new op, validator_new) | Some mv \<Rightarrow> mv);
                     (ok, v) = (if msg_opcode m = TEXT then validator_decode (fr_payload f) v else (True, v));
                     m = append_payload (fr_payload f) m
                 in if \<not> ok then Inl P_invalid_utf8
                    else if \<not> fr_fin f then Inr (Some (m, v), None)
                    else if op = TEXT \<and> \<not> validator_complete v then Inl P_invalid_utf8
                    else Inr (None, Some m))))"

definition partial_of :: "hybi13 \<Rightarrow> partial" where
  "partial_of s = map_option (\<lambda>m. (m, md_validator (hy_data_msg s))) (md_msg (hy_data_msg s))"

text \<open>Between two frames.\<close>

definition idle :: "hybi13 \<Rightarrow> bool" where
  "idle s \<longleftrightarrow> hybi_ok s \<and> hy_state s = HEADER_BASIC \<and> hy_bytes_needed s = 2 \<and> hy_extended_header s = zero_header"

lemma idle_new: "idle (hybi13_new server)" "partial_of (hybi13_new server) = None"
  using hybi_ok_new [of server]
  by (simp_all add: idle_def partial_of_def hybi13_new_def metadata_new_def reset_headers_def)

lemma idle_reading: "idle s \<Longrightarrow> reading s \<and> hybi_ok s"
  by (simp add: idle_def reading_def)

lemma get_message_idle:
  assumes "hybi_ok s" "hy_state s = READY" "current_metadata s = Ret md" "md_msg md = Some m"
  shows "\<exists>t. get_message s = Ret (Some m, t) \<and> idle t \<and> hy_server t = hy_server s \<and>
    partial_of t = (if hy_current s = Some Data_msg \<or> \<not> is_control (msg_opcode m) then None else partial_of s)"
proof -
  obtain m' t where g: "get_message s = Ret (Some m', t)" "hybi_ok t" "reading t"
    by (rule get_message_ready [OF assms(1,2)])
  let ?s = "set_current (md\<lparr>md_msg := None\<rparr>) s"
  have t: "m' = m" "t = reset_headers (if is_control (msg_opcode m)
      then ?s\<lparr>hy_control_msg := (hy_control_msg ?s)\<lparr>md_msg := None\<rparr>\<rparr>
      else ?s\<lparr>hy_data_msg := (hy_data_msg ?s)\<lparr>md_msg := None\<rparr>\<rparr>)"
    using g(1) assms by (auto simp: get_message_def Let_def)
  have "idle t" using g(2) t(2) by (simp add: idle_def)
  moreover have "partial_of t = (if hy_current s = Some Data_msg \<or> \<not> is_control (msg_opcode m) then None else partial_of s)"
    using assms(3) by (auto simp: t(2) partial_of_def set_current_def current_metadata_def split: option.splits current.splits)
  ultimately show ?thesis using g(1) t by auto
qed

text \<open>The header of a frame, read in two turns.\<close>

definition frame_basic :: "bool \<Rightarrow> ws_frame \<Rightarrow> basic_header" where
  "frame_basic masked f =
     header_make (fr_opcode f) (word_of_nat (length (fr_payload f))) (fr_fin f) masked False False False"

definition frame_ext :: "bool \<Rightarrow> ws_frame \<Rightarrow> string" where
  "frame_ext masked f = size_field (word_of_nat (length (fr_payload f))) @ (if masked then key_c (fr_key f) else [])"

lemma frame_header_bytes:
  "frame_header (fr_opcode f) (length (fr_payload f)) (fr_fin f) masked (fr_key f) =
   [char_of (unat (bh_b0 (frame_basic masked f))), char_of (unat (bh_b1 (frame_basic masked f)))] @ frame_ext masked f"
  by (simp add: frame_header_def Let_def prepare_header_make frame_basic_def frame_ext_def)

lemma byte8_char [simp]: "byte8 (char_of (unat b)) = b"
  using unsigned_less [of b, where 'a = nat] by (simp add: byte8_def)

lemma header_len_ext: "get_header_len (frame_basic masked f) - 2 = length (frame_ext masked f)"
  by (simp add: get_header_len_def frame_basic_def frame_ext_def Let_def)

lemma basic_turn:
  assumes "idle s"
  shows "consume_step over reserve s (encode_frame masked f @ ys) =
    (case validate_incoming_basic_header (frame_basic masked f) (hy_server s) (partial_of s = None) of
       Some e \<Rightarrow> Ret (s\<lparr>hy_basic_header := frame_basic masked f, hy_bytes_needed := 0\<rparr>, drop 2 (encode_frame masked f @ ys), Some e)
     | None \<Rightarrow> Ret (s\<lparr>hy_basic_header := frame_basic masked f, hy_state := HEADER_EXTENDED, hy_cursor := 0,
           hy_bytes_needed := length (frame_ext masked f)\<rparr>, drop 2 (encode_frame masked f @ ys), None))"
proof -
  have "copy_basic_header_bytes (encode_frame masked f @ ys) s =
      (2, s\<lparr>hy_basic_header := frame_basic masked f, hy_bytes_needed := 0\<rparr>)"
    using assms by (simp add: idle_def copy_basic_header_bytes_def encode_frame_def frame_header_bytes header_bytes_def)
  moreover have "(md_msg (hy_data_msg s) = None) = (partial_of s = None)" by (simp add: partial_of_def)
  ultimately show ?thesis using assms
    by (simp add: consume_step_def idle_def header_len_ext del: drop_append split: option.split)
qed


lemma valid_minimal: "validate_incoming_extended_header (frame_basic masked f) (frame_ext masked f @ zs) = None"
proof -
  let ?sz = "word_of_nat (length (fr_payload f)) :: 64 word"
  have "get_payload_size (frame_basic masked f) (frame_ext masked f @ zs) = ?sz"
    unfolding frame_basic_def frame_ext_def by (rule header_make_payload_size) simp
  then show ?thesis
    by (simp add: validate_incoming_extended_header_def Let_def limit_defs frame_basic_def word_unat_eq_iff
        unat_basic_value word_le_nat_alt)
qed

text \<open>The state when the payload starts.\<close>

definition payload_state :: "bool \<Rightarrow> ws_frame \<Rightarrow> hybi13 \<Rightarrow> hybi13" where
  "payload_state masked f s =
     (let op = fr_opcode f;
          key = if masked then fr_key f else 0;
          s = s\<lparr>hy_basic_header := frame_basic masked f, hy_state := APPLICATION, hy_cursor := length (frame_ext masked f),
                hy_bytes_needed := length (fr_payload f), hy_extended_header := copy_at 0 (frame_ext masked f) zero_header\<rparr>
      in if is_control op then s\<lparr>hy_control_msg := metadata_of (message_new op) key, hy_current := Some Control_msg\<rparr>
         else if partial_of s = None then s\<lparr>hy_data_msg := metadata_of (message_new op) key, hy_current := Some Data_msg\<rparr>
         else s\<lparr>hy_data_msg := (hy_data_msg s)\<lparr>md_prepared_key := prepare_masking_key key\<rparr>, hy_current := Some Data_msg\<rparr>)"

lemma frame_ok_opcode: "frame_ok reserve f \<Longrightarrow> get_opcode (frame_basic masked f) = fr_opcode f"
proof -
  assume "frame_ok reserve f"
  then have "unat (take_bit 4 (fr_opcode f)) = unat (fr_opcode f)"
    by (simp add: frame_ok_def unsigned_take_bit_eq take_bit_nat_eq_self word_less_nat_alt)
  then have "take_bit 4 (fr_opcode f) = fr_opcode f" by (rule word_unat_eq_iff [THEN iffD2])
  then show ?thesis by (simp add: frame_basic_def header_make_opcode)
qed

lemma frame_ok_size: "frame_ok reserve f \<Longrightarrow> unat (word_of_nat (length (fr_payload f)) :: 64 word) = length (fr_payload f)"
  by (simp add: frame_ok_def unat_of_nat)

lemma frame_key:
  "get_masking_key (frame_basic masked f) (frame_ext masked f @ zs) = (if masked then fr_key f else 0)"
proof (cases masked)
  case True
  then show ?thesis
    using header_make_key [of "word_of_nat (length (fr_payload f))" "frame_ext True f @ zs" "fr_key f" zs]
    by (simp add: frame_basic_def frame_ext_def)
next
  case False
  then show ?thesis by (simp add: get_masking_key_def frame_basic_def)
qed

lemma frame_size:
  "get_payload_size (frame_basic masked f) (frame_ext masked f @ zs) = word_of_nat (length (fr_payload f))"
  unfolding frame_basic_def frame_ext_def by (rule header_make_payload_size) simp

lemma length_frame_ext: "length (frame_ext masked f) \<le> 12"
  using length_size_field [of "word_of_nat (length (fr_payload f))"] by (simp add: frame_ext_def)

lemma extended_turn:
  assumes "idle s" "frame_ok reserve f"
  shows "consume_step over reserve (s\<lparr>hy_basic_header := frame_basic masked f, hy_state := HEADER_EXTENDED, hy_cursor := 0,
      hy_bytes_needed := length (frame_ext masked f)\<rparr>) (frame_ext masked f @ ys) = Ret (payload_state masked f s, ys, None)"
proof -
  let ?e = "copy_at 0 (frame_ext masked f) zero_header"
  have e: "?e = frame_ext masked f @ drop (length (frame_ext masked f)) zero_header" by (simp add: copy_at_def)
  have z: "hy_extended_header s = zero_header" using assms(1) by (simp add: idle_def)
  have r: "reserve (length (fr_payload f)) = None" using assms(2) by (simp add: frame_ok_def)
  note fs = valid_minimal [of masked f "drop (length (frame_ext masked f)) zero_header", folded e]
    frame_key [of masked f "drop (length (frame_ext masked f)) zero_header", folded e]
    frame_size [of masked f "drop (length (frame_ext masked f)) zero_header", folded e]
    frame_ok_opcode [OF assms(2)] frame_ok_size [OF assms(2)]
  show ?thesis
    using length_frame_ext [of masked f]
    by (simp add: consume_step_def copy_extended_header_bytes_def z start_payload_def Let_def fs get_message_sized_def r
        payload_state_def partial_of_def)
qed


lemma deliver_rest_reading:
  "hybi_ok t \<Longrightarrow> reading t \<Longrightarrow> deliver_rest over reserve (outc (consume over reserve t ys)) = deliver over reserve t ys"
  using deliver_consume [of t ys over reserve] reading_not_READY [of t]
  by (cases "ys = []") (simp_all add: consume_idle deliver_rest_def consume_more_def reading_def)

text \<open>The message the payload goes to, and the validator.\<close>

definition target :: "ws_frame \<Rightarrow> partial \<Rightarrow> ws_message \<times> utf8_validator" where
  "target f p = (if is_control (fr_opcode f) then (message_new (fr_opcode f), validator_new)
     else case p of None \<Rightarrow> (message_new (fr_opcode f), validator_new) | Some mv \<Rightarrow> mv)"

definition wire :: "bool \<Rightarrow> ws_frame \<Rightarrow> string" where
  "wire masked f = (if masked then byte_mask (fr_key f) 0 (fr_payload f) else fr_payload f)"

lemma length_wire [simp]: "length (wire masked f) = length (fr_payload f)"
  by (simp add: wire_def byte_mask_stream)

lemma unmask_wire: "fst (unmask over masked (wire masked f) (prepare_masking_key (fr_key f))) = fr_payload f"
  using word_mask_circ_stream(1) [OF refl, of over "byte_mask (fr_key f) 0 (fr_payload f)" "prepare_masking_key (fr_key f)"]
  by (simp add: unmask_def wire_def prepared_stream) (simp add: byte_mask_stream)

lemma payload_state_simps [simp]:
  "hy_state (payload_state masked f s) = APPLICATION" "hy_bytes_needed (payload_state masked f s) = length (fr_payload f)"
  "hy_basic_header (payload_state masked f s) = frame_basic masked f" "hy_server (payload_state masked f s) = hy_server s"
  "hy_current (payload_state masked f s) = Some (if is_control (fr_opcode f) then Control_msg else Data_msg)"
  by (simp_all add: payload_state_def Let_def)

lemma payload_metadata:
  assumes "target f (partial_of s) = (m, v)"
  obtains md where "current_metadata (payload_state masked f s) = Ret md" "md_msg md = Some m" "md_validator md = v"
    "masked \<Longrightarrow> md_prepared_key md = prepare_masking_key (fr_key f)"
  using assms that
  by (auto simp: payload_state_def Let_def current_metadata_def target_def partial_of_def metadata_of_def split: if_splits option.splits)

lemma receive_wire:
  assumes "md_validator md = v" "masked \<Longrightarrow> md_prepared_key md = prepare_masking_key (fr_key f)"
    "(if msg_opcode m = TEXT then validator_decode (fr_payload f) v else (True, v)) = (ok, v')"
  obtains k where "receive over masked (wire masked f) m md =
    (\<lparr>md_msg = Some (append_payload (fr_payload f) m), md_prepared_key = k, md_validator = v'\<rparr>, ok)"
proof -
  obtain k where "unmask over masked (wire masked f) (md_prepared_key md) = (fr_payload f, k)"
  proof (cases masked)
    case True
    then show ?thesis using that unmask_wire [of over True f] assms(2)
      by (cases "unmask over True (wire True f) (prepare_masking_key (fr_key f))") simp
  next
    case False
    then show ?thesis using that by (simp add: unmask_def wire_def)
  qed
  then show ?thesis using assms(1,3) by (intro that [of k]) (simp add: receive_def split: if_splits)
qed

lemma application_turn:
  assumes "target f (partial_of s) = (m, v)"
    "(if msg_opcode m = TEXT then validator_decode (fr_payload f) v else (True, v)) = (ok, v')"
  obtains md where "md_msg md = Some (append_payload (fr_payload f) m)" "md_validator md = v'"
    "consume_step over reserve (payload_state masked f s) (wire masked f @ ys) =
     (if ok then after_payload (length (fr_payload f)) (wire masked f @ ys)
            ((set_current md (payload_state masked f s))\<lparr>hy_bytes_needed := 0\<rparr>)
      else Ret (set_current md (payload_state masked f s), wire masked f @ ys, Some P_invalid_utf8))"
proof -
  let ?s = "payload_state masked f s" and ?n = "length (fr_payload f)"
  obtain md where md: "current_metadata ?s = Ret md" "md_msg md = Some m" "md_validator md = v"
    "masked \<Longrightarrow> md_prepared_key md = prepare_masking_key (fr_key f)" using payload_metadata [OF assms(1), of masked] by blast
  show ?thesis
  proof (cases "?n = 0")
    case True
    then have e: "fr_payload f = []" "wire masked f = []" using length_wire [of masked f] by (auto simp del: length_wire)
    have s: "set_current md ?s = ?s" using md(1) by (auto simp: set_current_def current_metadata_def split: option.splits current.splits)
    have n: "?s\<lparr>hy_bytes_needed := 0\<rparr> = ?s" using e by (intro hybi13.equality) simp_all
    have "append_payload [] m = m" by (simp add: append_payload_def)
    moreover have "ok" "v' = v" using assms(2) e by (auto split: if_splits)
    moreover have "consume_step over reserve ?s ys = after_payload 0 ys ?s"
      by (simp add: consume_step_def after_payload_def e)
    ultimately show ?thesis using md(2,3) e by (intro that [of md]) (simp_all add: s n)
  next
    case False
    obtain k where r: "receive over masked (wire masked f) m md =
        (\<lparr>md_msg = Some (append_payload (fr_payload f) m), md_prepared_key = k, md_validator = v'\<rparr>, ok)"
      by (rule receive_wire [OF md(3,4) assms(2)])
    have k: "get_masked (frame_basic masked f) = masked" by (simp add: frame_basic_def)
    let ?md = "\<lparr>md_msg = Some (append_payload (fr_payload f) m), md_prepared_key = k, md_validator = v'\<rparr>"
    have "consume_step over reserve ?s (wire masked f @ ys) =
        (if ok then after_payload ?n (wire masked f @ ys) ((set_current ?md ?s)\<lparr>hy_bytes_needed := hy_bytes_needed ?s - ?n\<rparr>)
         else Ret (set_current ?md ?s, wire masked f @ ys, Some P_invalid_utf8))"
      by (rule application_step [OF _ md(1,2)]) (use False in \<open>simp_all add: r k\<close>)
    then show ?thesis by (intro that [of ?md]) simp_all
  qed
qed


section \<open>The processor refines the specification\<close>

lemma consume_turn:
  "consume_more s buf \<Longrightarrow> consume_step over reserve s buf = Ret (t, u, None) \<Longrightarrow>
   consume over reserve s buf = consume over reserve t u"
  by (simp add: consume.simps [of over reserve s buf])

lemma consume_fail:
  "consume_more s buf \<Longrightarrow> consume_step over reserve s buf = Ret (t, u, Some e) \<Longrightarrow>
   consume over reserve s buf = Ret (t, u, Some e)"
  by (simp add: consume.simps [of over reserve s buf])

lemma encode_frame_wire: "drop 2 (encode_frame masked f @ ys) = frame_ext masked f @ wire masked f @ ys"
  by (simp add: encode_frame_def frame_header_bytes wire_def)

lemma encode_frame_Nil: "encode_frame masked f \<noteq> []"
  by (simp add: encode_frame_def frame_header_bytes)

lemma consume_header:
  assumes "idle s" "frame_ok reserve f"
  shows "consume over reserve s (encode_frame masked f @ ys) =
    (case validate_incoming_basic_header (frame_basic masked f) (hy_server s) (partial_of s = None) of
       Some e \<Rightarrow> Ret (s\<lparr>hy_basic_header := frame_basic masked f, hy_bytes_needed := 0\<rparr>, drop 2 (encode_frame masked f @ ys), Some e)
     | None \<Rightarrow> consume over reserve (payload_state masked f s) (wire masked f @ ys))"
proof -
  have m: "consume_more s (encode_frame masked f @ ys)"
    using assms(1) encode_frame_Nil [of masked f] by (simp add: idle_def consume_more_def)
  show ?thesis
  proof (cases "validate_incoming_basic_header (frame_basic masked f) (hy_server s) (partial_of s = None)")
    case (Some e)
    then show ?thesis using consume_fail [OF m] basic_turn [OF assms(1)] by simp
  next
    case None
    let ?t = "s\<lparr>hy_basic_header := frame_basic masked f, hy_state := HEADER_EXTENDED, hy_cursor := 0,
      hy_bytes_needed := length (frame_ext masked f)\<rparr>"
    have "consume over reserve s (encode_frame masked f @ ys) = consume over reserve ?t (frame_ext masked f @ wire masked f @ ys)"
      by (rule consume_turn [OF m]) (simp add: basic_turn [OF assms(1)] None encode_frame_wire del: drop_append)
    also have "\<dots> = consume over reserve (payload_state masked f s) (wire masked f @ ys)"
      by (rule consume_turn [OF _ extended_turn [OF assms]]) (simp add: consume_more_def)
    finally show ?thesis using None by simp
  qed
qed

text \<open>What \<open>finish_payload\<close> makes of the state at the end of the payload.\<close>

definition done_state :: "msg_metadata \<Rightarrow> bool \<Rightarrow> ws_frame \<Rightarrow> hybi13 \<Rightarrow> hybi13" where
  "done_state md masked f s = (set_current md (payload_state masked f s))\<lparr>hy_bytes_needed := 0\<rparr>"

lemma done_state_simps [simp]:
  "hy_state (done_state md masked f s) = APPLICATION" "hy_basic_header (done_state md masked f s) = frame_basic masked f"
  "hy_server (done_state md masked f s) = hy_server s" "hy_bytes_needed (done_state md masked f s) = 0"
  "hy_current (done_state md masked f s) = Some (if is_control (fr_opcode f) then Control_msg else Data_msg)"
  by (simp_all add: done_state_def)

lemma done_state_metadata [simp]: "current_metadata (done_state md masked f s) = Ret md"
  by (simp add: done_state_def current_metadata_def set_current_def)

lemma done_state_partial:
  "partial_of (done_state md masked f s) =
   (if is_control (fr_opcode f) then partial_of s else map_option (\<lambda>m. (m, md_validator md)) (md_msg md))"
  by (simp add: done_state_def partial_of_def set_current_def) (simp add: payload_state_def Let_def)

lemma spec_frame_basic: "header_make (fr_opcode f) (word_of_nat (length (fr_payload f))) (fr_fin f) masked False False False =
    frame_basic masked f"
  by (simp add: frame_basic_def)

lemma control_fin:
  assumes "frame_ok reserve f" "validate_incoming_basic_header (frame_basic masked f) server new = None" "is_control (fr_opcode f)"
  shows "fr_fin f"
  using assms frame_ok_opcode [OF assms(1), of masked]
  by (auto simp: validate_incoming_basic_header_def Let_def frame_basic_def split: if_splits)


lemma consume_frame:
  assumes "idle s" "frame_ok reserve f" "validate_incoming_basic_header (frame_basic masked f) (hy_server s) (partial_of s = None) = None"
    "target f (partial_of s) = (m, v)"
    "(if msg_opcode m = TEXT then validator_decode (fr_payload f) v else (True, v)) = (ok, v')"
  obtains md where "md_msg md = Some (append_payload (fr_payload f) m)" "md_validator md = v'"
    "outc (consume over reserve s (encode_frame masked f @ ys)) =
     (if \<not> ok then Ret (Inr P_invalid_utf8)
      else if \<not> fr_fin f then outc (consume over reserve (reset_headers (done_state md masked f s)) ys)
      else if fr_opcode f = TEXT \<and> \<not> validator_complete v' then Ret (Inr P_invalid_utf8)
      else Ret (Inl ((done_state md masked f s)\<lparr>hy_state := READY\<rparr>, ys)))"
proof -
  let ?p = "payload_state masked f s" and ?buf = "wire masked f @ ys"
  obtain md where md: "md_msg md = Some (append_payload (fr_payload f) m)" "md_validator md = v'"
    "consume_step over reserve ?p ?buf =
     (if ok then after_payload (length (fr_payload f)) ?buf (done_state md masked f s)
      else Ret (set_current md ?p, ?buf, Some P_invalid_utf8))"
    by (rule application_turn [OF assms(4,5), of over reserve masked ys]) (metis done_state_def)
  have h: "consume over reserve s (encode_frame masked f @ ys) = consume over reserve ?p ?buf"
    using consume_header [OF assms(1,2)] assms(3) by simp
  have more: "consume_more ?p ?buf" using length_wire [of masked f] by (auto simp: consume_more_def simp del: length_wire)
  have d: "drop (length (fr_payload f)) ?buf = ys" by simp
  have a: "after_payload (length (fr_payload f)) ?buf (done_state md masked f s) =
      (if \<not> fr_fin f then Ret (reset_headers (done_state md masked f s), ys, None)
       else if fr_opcode f = TEXT \<and> \<not> validator_complete v' then Ret (done_state md masked f s, ys, Some P_invalid_utf8)
       else Ret ((done_state md masked f s)\<lparr>hy_state := READY\<rparr>, ys, None))"
    using md(2) frame_ok_opcode [OF assms(2), of masked]
    by (simp add: after_payload_def d finish_payload_def del: drop_append) (simp add: frame_basic_def)
  have r: "consume over reserve ((done_state md masked f s)\<lparr>hy_state := READY\<rparr>) ys =
      Ret ((done_state md masked f s)\<lparr>hy_state := READY\<rparr>, ys, None)"
    by (rule consume_idle) (simp add: consume_more_def)
  show ?thesis
  proof (rule that [OF md(1,2)])
    show "outc (consume over reserve s (encode_frame masked f @ ys)) =
     (if \<not> ok then Ret (Inr P_invalid_utf8)
      else if \<not> fr_fin f then outc (consume over reserve (reset_headers (done_state md masked f s)) ys)
      else if fr_opcode f = TEXT \<and> \<not> validator_complete v' then Ret (Inr P_invalid_utf8)
      else Ret (Inl ((done_state md masked f s)\<lparr>hy_state := READY\<rparr>, ys)))"
      unfolding h using md(3) more consume_turn [OF more] consume_fail [OF more] by (simp add: a r)
  qed
qed

lemma done_state_ok:
  assumes "hybi_ok s" "md_msg md \<noteq> None" "vd_state (md_validator md) < 9"
  shows "hybi_ok (done_state md masked f s)"
proof -
  have "length (copy_at 0 (frame_ext masked f) zero_header) = 12"
    using length_frame_ext [of masked f] by (simp add: length_copy_at zero_header_def)
  then show ?thesis using assms
    by (auto simp: hybi_ok_def done_state_def set_current_def current_ready_def payload_state_def Let_def metadata_of_def
        validator_new_def)
qed

lemma idle_reset: "hybi_ok s \<Longrightarrow> idle (reset_headers s)"
  by (simp add: idle_def)

lemma partial_reset [simp]: "partial_of (reset_headers s) = partial_of s" "partial_of (s\<lparr>hy_state := q\<rparr>) = partial_of s"
  by (simp_all add: partial_of_def)

lemma target_validator:
  assumes "hybi_ok s" "target f (partial_of s) = (m, v)"
    "(if msg_opcode m = TEXT then validator_decode (fr_payload f) v else (True, v)) = (ok, v')"
  shows "vd_state v' < 9"
proof -
  have "vd_state v < 9"
    using assms(1,2) by (auto simp: target_def partial_of_def hybi_ok_def validator_new_def split: if_splits option.splits)
  then show ?thesis using assms(3) validator_decode_state [of v "fr_payload f"] by (auto split: if_splits)
qed

definition cons_message :: "ws_message option \<Rightarrow> ws_message list \<times> 'a \<Rightarrow> ws_message list \<times> 'a" where
  "cons_message mo r = (case mo of None \<Rightarrow> r | Some m \<Rightarrow> (m # fst r, snd r))"

lemma frame_refine:
  assumes "idle s" "frame_ok reserve f"
  shows "case spec_frame (hy_server s) masked (partial_of s) f of
      Inl e \<Rightarrow> deliver over reserve s (encode_frame masked f @ ys) = ([], Ret (Inr e))
    | Inr (p, mo) \<Rightarrow> \<exists>t. idle t \<and> hy_server t = hy_server s \<and> partial_of t = p \<and>
        deliver over reserve s (encode_frame masked f @ ys) = cons_message mo (deliver over reserve t ys)"
proof -
  let ?op = "fr_opcode f" and ?buf = "encode_frame masked f @ ys"
  have ok: "hybi_ok s" "reading s" using idle_reading [OF assms(1)] by simp_all
  have dl: "deliver over reserve s ?buf = deliver_rest over reserve (outc (consume over reserve s ?buf))"
    using deliver_consume [OF ok] encode_frame_Nil [of masked f] by simp
  show ?thesis
  proof (cases "validate_incoming_basic_header (frame_basic masked f) (hy_server s) (partial_of s = None)")
    case (Some e)
    then show ?thesis using consume_header [OF assms, of over masked ys]
      by (simp add: dl spec_frame_def Let_def spec_frame_basic deliver_rest_def)
  next
    case None
    obtain m v where tg: "target f (partial_of s) = (m, v)" by fastforce
    obtain good v' where dec: "(if msg_opcode m = TEXT then validator_decode (fr_payload f) v else (True, v)) = (good, v')"
      by fastforce
    obtain md where md: "md_msg md = Some (append_payload (fr_payload f) m)" "md_validator md = v'"
      and c: "outc (consume over reserve s ?buf) =
     (if \<not> good then Ret (Inr P_invalid_utf8)
      else if \<not> fr_fin f then outc (consume over reserve (reset_headers (done_state md masked f s)) ys)
      else if ?op = TEXT \<and> \<not> validator_complete v' then Ret (Inr P_invalid_utf8)
      else Ret (Inl ((done_state md masked f s)\<lparr>hy_state := READY\<rparr>, ys)))"
      by (rule consume_frame [OF assms None tg dec])
    let ?d = "done_state md masked f s"
    have d: "hybi_ok ?d" using done_state_ok [OF ok(1)] md target_validator [OF ok(1) tg dec] by simp
    have spec: "spec_frame (hy_server s) masked (partial_of s) f =
        (if is_control ?op then Inr (partial_of s, Some (append_payload (fr_payload f) m))
         else if \<not> good then Inl P_invalid_utf8
         else if \<not> fr_fin f then Inr (Some (append_payload (fr_payload f) m, v'), None)
         else if ?op = TEXT \<and> \<not> validator_complete v' then Inl P_invalid_utf8
         else Inr (None, Some (append_payload (fr_payload f) m)))"
    proof (cases "is_control ?op")
      case True
      then show ?thesis using None tg by (simp add: spec_frame_def Let_def spec_frame_basic target_def)
    next
      case False
      then have "(case partial_of s of None \<Rightarrow> (message_new ?op, validator_new) | Some mv \<Rightarrow> mv) = (m, v)"
        using tg by (simp add: target_def)
      then show ?thesis using None False by (simp add: spec_frame_def Let_def spec_frame_basic dec)
    qed
    have ctl: "good" "fr_fin f" "?op \<noteq> TEXT" "msg_opcode m = ?op" if i: "is_control ?op"
    proof -
      show op: "?op \<noteq> TEXT" using i by (auto simp: is_control_def word_le_nat_alt)
      show "fr_fin f" by (rule control_fin [OF assms(2) None i])
      show mo: "msg_opcode m = ?op" using i tg by (auto simp: target_def message_new_def)
      show good using dec op mo by simp
    qed
    have ready: "\<exists>t. get_message (?d\<lparr>hy_state := READY\<rparr>) = Ret (Some (append_payload (fr_payload f) m), t) \<and> idle t \<and>
        hy_server t = hy_server s \<and> partial_of t = (if is_control ?op then partial_of s else None)"
    proof -
      have "hybi_ok (?d\<lparr>hy_state := READY\<rparr>)" using d by (simp add: hybi_ok_def)
      from get_message_idle [OF this, of md] md(1) ctl(4) show ?thesis
        by (auto simp: done_state_partial split: if_splits)
    qed
    show ?thesis
    proof (cases "good \<and> fr_fin f \<and> \<not> (?op = TEXT \<and> \<not> validator_complete v')")
      case True
      from ready obtain t where t: "get_message (?d\<lparr>hy_state := READY\<rparr>) = Ret (Some (append_payload (fr_payload f) m), t)"
        "idle t" "hy_server t = hy_server s" "partial_of t = (if is_control ?op then partial_of s else None)" by blast
      have "outc (consume over reserve s ?buf) = Ret (Inl (?d\<lparr>hy_state := READY\<rparr>, ys))" using True by (subst c) auto
      then have "deliver over reserve s ?buf = cons_message (Some (append_payload (fr_payload f) m)) (deliver over reserve t ys)"
        by (simp add: dl deliver_rest_def t(1) cons_message_def split: prod.split)
      moreover have "spec_frame (hy_server s) masked (partial_of s) f =
          Inr (if is_control ?op then partial_of s else None, Some (append_payload (fr_payload f) m))"
        using True by (subst spec) auto
      ultimately show ?thesis using t(2-4) by (simp only: sum.case prod.case) blast
    next
      case False
      show ?thesis
      proof (cases "good \<and> \<not> fr_fin f")
        case True
        then have "deliver over reserve s ?buf = deliver over reserve (reset_headers ?d) ys"
          using deliver_rest_reading idle_reading [OF idle_reset [OF d]] c by (simp add: dl)
        moreover have nc: "\<not> is_control ?op" using ctl(2) True by blast
        moreover have "partial_of (reset_headers ?d) = Some (append_payload (fr_payload f) m, v')"
          using nc md by (simp add: done_state_partial)
        moreover have "spec_frame (hy_server s) masked (partial_of s) f = Inr (Some (append_payload (fr_payload f) m, v'), None)"
          using True nc by (simp add: spec)
        ultimately show ?thesis using idle_reset [OF d]
          by (simp only: sum.case prod.case cons_message_def option.case) (metis done_state_simps(3) reset_headers_simps(3))
      next
        case f: False
        have nc: "\<not> is_control ?op" using ctl f False by blast
        have "outc (consume over reserve s ?buf) = Ret (Inr P_invalid_utf8)" using f False by (subst c) auto
        moreover have "spec_frame (hy_server s) masked (partial_of s) f = Inl P_invalid_utf8"
          using f False nc by (subst spec) auto
        ultimately show ?thesis by (simp add: dl deliver_rest_def)
      qed
    qed
  qed
qed


section \<open>The role never changes\<close>

lemma start_payload_server: "start_payload reserve s = Ret s' \<Longrightarrow> hy_server s' = hy_server s"
  by (erule start_payload_cases) simp_all

lemma finish_payload_server: "finish_payload s = Ret (s', ec) \<Longrightarrow> hy_server s' = hy_server s"
  by (auto simp: finish_payload_def split: if_splits result.splits)

lemma process_payload_server: "process_payload_bytes over buf s = Ret (p, s', ec) \<Longrightarrow> hy_server s' = hy_server s"
  by (auto simp: process_payload_bytes_def Let_def split: result.splits if_splits prod.splits option.splits)

lemma consume_step_server:
  assumes "consume_step over reserve s buf = Ret (t, u, ec)"
  shows "hy_server t = hy_server s"
proof (cases "hy_state s")
  case HEADER_BASIC
  have "hy_server v = hy_server s" if "copy_basic_header_bytes buf s = (p, v)" for p v
    using that by (auto simp: copy_basic_header_bytes_def split: if_splits)
  then show ?thesis using assms HEADER_BASIC
    by (auto simp: consume_step_def split: prod.splits if_splits option.splits)
next
  case HEADER_EXTENDED
  have "hy_server v = hy_server s" if "copy_extended_header_bytes buf s = Ret (p, v)" for p v
    using that by (auto simp: copy_extended_header_bytes_def Let_def split: if_splits)
  then show ?thesis using assms HEADER_EXTENDED
    by (auto simp: consume_step_def split: result.splits if_splits option.splits dest!: start_payload_server)
next
  case APPLICATION
  then show ?thesis using assms
    by (auto simp: consume_step_def Let_def split: if_splits result.splits option.splits
        dest!: process_payload_server finish_payload_server)
qed (use assms in \<open>auto simp: consume_step_def\<close>)

lemma consume_server: "consume over reserve s buf = Ret (t, u, ec) \<Longrightarrow> hy_server t = hy_server s"
proof (induction s buf rule: consume_induct [of over reserve])
  case (turn s buf)
  show ?case
    by (cases rule: consume_cases [of s buf over reserve]) (use turn in \<open>auto dest: consume_step_server\<close>)
qed

lemma get_message_server: "get_message s = Ret (m, t) \<Longrightarrow> hy_server t = hy_server s"
  by (auto simp: get_message_def Let_def split: if_splits result.splits option.splits)

section \<open>Whole streams\<close>

fun spec_stream :: "bool \<Rightarrow> bool \<Rightarrow> partial \<Rightarrow> ws_frame list \<Rightarrow> ws_message list \<times> (processor_error + partial)" where
  "spec_stream server masked p [] = ([], Inr p)"
| "spec_stream server masked p (f # fs) = (case spec_frame server masked p f of
     Inl e \<Rightarrow> ([], Inl e)
   | Inr (p, mo) \<Rightarrow> cons_message mo (spec_stream server masked p fs))"

lemma deliver_frames:
  assumes "idle s" "list_all (frame_ok reserve) fs"
  shows "\<exists>ms r. spec_stream (hy_server s) masked (partial_of s) fs = (ms, r) \<and>
    (case r of Inl e \<Rightarrow> deliver over reserve s (concat (map (encode_frame masked) fs)) = (ms, Ret (Inr e))
     | Inr p \<Rightarrow> \<exists>t. deliver over reserve s (concat (map (encode_frame masked) fs)) = (ms, Ret (Inl t)) \<and> idle t \<and> partial_of t = p)"
  using assms
proof (induction fs arbitrary: s)
  case (Cons f fs)
  let ?ys = "concat (map (encode_frame masked) fs)"
  note fr = frame_refine [OF Cons.prems(1), where reserve = reserve and f = f and masked = masked and over = over and ys = ?ys]
  show ?case
  proof (cases "spec_frame (hy_server s) masked (partial_of s) f")
    case (Inl e)
    with fr Cons.prems(2) show ?thesis by simp
  next
    case (Inr x)
    obtain p mo where x: "x = (p, mo)" by (cases x)
    with fr Inr Cons.prems(2) obtain t where t: "idle t" "hy_server t = hy_server s" "partial_of t = p"
      "deliver over reserve s (encode_frame masked f @ ?ys) = cons_message mo (deliver over reserve t ?ys)" by auto
    from Cons.IH [OF t(1)] Cons.prems(2) obtain ms r where
      "spec_stream (hy_server s) masked p fs = (ms, r)"
      "case r of Inl e \<Rightarrow> deliver over reserve t ?ys = (ms, Ret (Inr e))
       | Inr p \<Rightarrow> \<exists>t'. deliver over reserve t ?ys = (ms, Ret (Inl t')) \<and> idle t' \<and> partial_of t' = p"
      using t(2,3) by auto
    then show ?thesis using Inr x t(4)
      by (cases mo; cases r) (auto simp: cons_message_def)
  qed
qed simp

text \<open>C11: However the stream of a connection is cut into the buffers the transport delivers, the processor takes out of it exactly
  the messages the frame specification gives for the frames of the stream, joined from their fragments and in order, and
  stops with the specification's error at the first frame that has one; otherwise it ends between two frames holding the
  same partial message. \<open>masked\<close> says whether the frames are masked, which the role of the receiver has to agree with.\<close>

theorem stream_refines:
  assumes "over_ok over" "list_all (frame_ok reserve) fs" "concat cs = concat (map (encode_frame masked) fs)"
  shows "\<exists>ms r. spec_stream server masked None fs = (ms, r) \<and>
    (case r of Inl e \<Rightarrow> deliver_chunks over reserve cs (hybi13_new server) = (ms, Ret (Inr e))
     | Inr p \<Rightarrow> \<exists>t. deliver_chunks over reserve cs (hybi13_new server) = (ms, Ret (Inl t)) \<and> idle t \<and> partial_of t = p)"
proof -
  have s: "hy_server (hybi13_new server) = server" by (simp add: hybi13_new_def)
  have "deliver_chunks over reserve cs (hybi13_new server) =
      deliver over reserve (hybi13_new server) (concat (map (encode_frame masked) fs))"
    using deliver_chunks_concat [OF assms(1) hybi_ok_new reading_new] assms(3) by simp
  then show ?thesis
    using deliver_frames [OF idle_new(1) [of server] assms(2), where masked = masked and over = over]
    by (simp only: s idle_new(2))
qed

text \<open>A message in two fragments with a ping between them, cut in the middle of everything.\<close>

definition demo_frames :: "ws_frame list" where
  "demo_frames = [\<lparr>fr_opcode = TEXT, fr_fin = False, fr_key = 0x01020304, fr_payload = ''mes''\<rparr>,
     \<lparr>fr_opcode = PING, fr_fin = True, fr_key = 0xA0B0C0D0, fr_payload = ''?''\<rparr>,
     \<lparr>fr_opcode = CONTINUATION, fr_fin = True, fr_key = 0xFFFFFFFF, fr_payload = ''sage''\<rparr>]"

lemma demo_frames_ok: "list_all (frame_ok (\<lambda>n. None)) demo_frames"
  by (simp add: demo_frames_def frame_ok_def)

lemma demo_frames_spec:
  "spec_stream True True None demo_frames =
   ([append_payload ''?'' (message_new PING), append_payload ''message'' (message_new TEXT)], Inr None)"
  by code_simp

theorem stream_refines_witness:
  "\<exists>t. deliver_chunks (\<lambda>k. k) (\<lambda>n. None) (map (\<lambda>c. [c]) (concat (map (encode_frame True) demo_frames))) (hybi13_new True) =
      ([append_payload ''?'' (message_new PING), append_payload ''message'' (message_new TEXT)], Ret (Inl t)) \<and>
    idle t \<and> partial_of t = None"
proof -
  have "concat (map (\<lambda>c. [c]) xs) = xs" for xs :: string by (induction xs) simp_all
  from stream_refines [OF over_ok_cases(1) demo_frames_ok this, where server = True and masked = True] show ?thesis
    unfolding demo_frames_spec by auto
qed


section \<open>Text that is delivered\<close>

definition text_ok :: "msg_metadata \<Rightarrow> bool" where
  "text_ok md \<longleftrightarrow> (case md_msg md of None \<Rightarrow> True
     | Some m \<Rightarrow> msg_opcode m = TEXT \<longrightarrow> validator_decode (msg_payload m) validator_new = (True, md_validator md))"

definition text_inv :: "hybi13 \<Rightarrow> bool" where
  "text_inv s \<longleftrightarrow> text_ok (hy_data_msg s) \<and> text_ok (hy_control_msg s)"

lemma text_inv_updates [simp]:
  "text_inv (s\<lparr>hy_state := q\<rparr>) = text_inv s" "text_inv (s\<lparr>hy_bytes_needed := n\<rparr>) = text_inv s"
  "text_inv (s\<lparr>hy_basic_header := h\<rparr>) = text_inv s" "text_inv (s\<lparr>hy_cursor := c\<rparr>) = text_inv s"
  "text_inv (s\<lparr>hy_extended_header := e\<rparr>) = text_inv s" "text_inv (reset_headers s) = text_inv s"
  by (simp_all add: text_inv_def reset_headers_def)

lemma text_inv_new: "text_inv (hybi13_new server)"
  by (simp add: text_inv_def text_ok_def hybi13_new_def reset_headers_def metadata_new_def)

lemma text_current: "text_inv s \<Longrightarrow> current_metadata s = Ret md \<Longrightarrow> text_ok md"
  by (auto simp: text_inv_def current_metadata_def split: option.splits current.splits)

lemma text_set_current: "text_inv s \<Longrightarrow> text_ok md \<Longrightarrow> text_inv (set_current md s)"
  by (auto simp: text_inv_def set_current_def split: option.splits current.splits)

lemma text_receive:
  assumes "receive over masked buf m md = (md', True)" "text_ok md" "md_msg md = Some m"
  shows "text_ok md'"
  using assms by (auto simp: receive_def text_ok_def validator_decode_append Let_def split: if_splits prod.splits)

lemma text_metadata_of: "text_ok (metadata_of (message_new op) key)"
  by (simp add: text_ok_def metadata_of_def message_new_def)

lemma text_ok_key [simp]: "text_ok (md\<lparr>md_prepared_key := k\<rparr>) = text_ok md"
  by (simp add: text_ok_def split: option.split)

lemma text_ok_None [simp]: "text_ok (md\<lparr>md_msg := None\<rparr>)"
  by (simp add: text_ok_def)

lemma text_start_payload: "text_inv s \<Longrightarrow> start_payload reserve s = Ret s' \<Longrightarrow> text_inv s'"
  by (erule start_payload_cases) (simp_all add: text_inv_def text_metadata_of)

lemma text_finish: "text_inv s \<Longrightarrow> finish_payload s = Ret (s', ec) \<Longrightarrow> text_inv s'"
  by (auto simp: finish_payload_def split: if_splits result.splits)

lemma text_step:
  assumes "text_inv s" "hybi_ok s" "consume_step over reserve s buf = Ret (s', buf', None)"
  shows "text_inv s'"
proof (cases "hy_state s")
  case HEADER_BASIC
  have "text_inv t" if "copy_basic_header_bytes buf s = (p, t)" for p t
    using that assms(1) by (auto simp: copy_basic_header_bytes_def split: if_splits)
  then show ?thesis using assms(3) HEADER_BASIC
    by (auto simp: consume_step_def split: prod.splits if_splits option.splits)
next
  case HEADER_EXTENDED
  have "text_inv t" if "copy_extended_header_bytes buf s = Ret (p, t)" for p t
    using that assms(1) by (auto simp: copy_extended_header_bytes_def Let_def split: if_splits)
  then show ?thesis using assms(3) HEADER_EXTENDED
    by (auto simp: consume_step_def split: result.splits if_splits option.splits dest: text_start_payload)
next
  case APPLICATION
  let ?n = "min (hy_bytes_needed s) (length buf)"
  show ?thesis
  proof (cases "?n > 0")
    case True
    obtain md m where m: "current_metadata s = Ret md" "md_msg md = Some m" by (rule hybi_ok_current [OF assms(2) APPLICATION])
    obtain md' ok where r: "receive over (get_masked (hy_basic_header s)) (take ?n buf) m md = (md', ok)" by fastforce
    have st: "consume_step over reserve s buf =
        (if ok then after_payload ?n buf ((set_current md' s)\<lparr>hy_bytes_needed := hy_bytes_needed s - ?n\<rparr>)
         else Ret (set_current md' s, buf, Some P_invalid_utf8))"
      by (rule application_step [OF APPLICATION m True _ refl r]) simp
    have ok using st assms(3) by (cases ok) simp_all
    then have "text_inv (set_current md' s)"
      using r by (intro text_set_current [OF assms(1)] text_receive [OF _ text_current [OF assms(1) m(1)] m(2)]) simp
    then show ?thesis using st assms(3) \<open>ok\<close>
      by (auto simp: after_payload_def split: if_splits result.splits dest: text_finish [rotated])
  next
    case False
    then show ?thesis using assms APPLICATION
      by (auto simp: consume_step_def Let_def split: if_splits result.splits dest: text_finish)
  qed
qed (use assms in \<open>auto simp: consume_step_def\<close>)

lemma text_consume:
  "text_inv s \<Longrightarrow> hybi_ok s \<Longrightarrow> consume over reserve s buf = Ret (s', buf', None) \<Longrightarrow> text_inv s'"
proof (induction s buf rule: consume_induct [of over reserve])
  case (turn s buf)
  show ?case
  proof (cases rule: consume_cases [of s buf over reserve])
    case (turn t u)
    then show ?thesis
      using turn.IH [OF turn(1,2)] text_step [OF turn.prems(1,2) turn(2)] consume_step_ok [OF turn.prems(2) turn(2)]
        turn.prems(3) by auto
  qed (use turn.prems in auto)
qed

lemma text_get_message:
  assumes "text_inv s" "get_message s = Ret (Some m, s')"
  shows "text_inv s' \<and> (msg_opcode m = TEXT \<longrightarrow> fst (validator_decode (msg_payload m) validator_new))"
proof -
  from assms(2) obtain md where md: "current_metadata s = Ret md" "md_msg md = Some m"
    by (auto simp: get_message_def Let_def split: if_splits result.splits option.splits)
  note t = text_current [OF assms(1) md(1)]
  have "text_inv (set_current (md\<lparr>md_msg := None\<rparr>) s)" by (rule text_set_current [OF assms(1)]) (simp add: text_ok_def)
  then have "text_inv s'" using assms(2) md
    by (auto simp: get_message_def Let_def text_inv_def split: if_splits)
  then show ?thesis using t md(2) by (simp add: text_ok_def)
qed

lemma text_deliver:
  "text_inv s \<Longrightarrow> m \<in> set (fst (deliver over reserve s buf)) \<Longrightarrow> msg_opcode m = TEXT \<Longrightarrow>
   fst (validator_decode (msg_payload m) validator_new)"
proof (induction "length buf" arbitrary: s buf rule: less_induct)
  case less
  have ok: "hybi_ok s \<and> reading s \<and> buf \<noteq> []" using less.prems(2) by (rule contrapos_pp) (simp add: deliver.simps)
  with less.prems(2) obtain t u where c: "consume over reserve s buf = Ret (t, u, None)"
    by (auto simp: deliver_consume deliver_rest_def outc_def split: result.splits prod.splits option.splits)
  have t: "text_inv t" using text_consume [OF less.prems(1) _ c] ok by simp
  have l: "length u < length buf" using consume_reading(1) [OF _ _ _ c] ok by simp
  show ?case
  proof (cases "hy_state t = READY")
    case True
    obtain m' t' where g: "get_message t = Ret (Some m', t')" "hybi_ok t'" "reading t'"
      by (rule get_message_ready [OF consume_ok [OF _ c] True]) (use ok in simp)
    have "m = m' \<or> m \<in> set (fst (deliver over reserve t' u))"
      using less.prems(2) ok c True g(1) by (auto simp: deliver_consume deliver_rest_def split: prod.splits)
    then show ?thesis using text_get_message [OF t g(1)] less.hyps [OF l] less.prems(3) by blast
  next
    case False
    have "m \<in> set (fst (deliver over reserve t u))"
      using less.prems(2) ok c False by (simp add: deliver_consume deliver_rest_def)
    then show ?thesis using less.hyps [OF l t _ less.prems(3)] by simp
  qed
qed


text \<open>A text that has not been rejected can be completed.\<close>

lemma run_range: "run q s = Some q' \<Longrightarrow> q < 9 \<Longrightarrow> q \<noteq> 1 \<Longrightarrow> q' < 9 \<and> q' \<noteq> 1"
  by (induction s arbitrary: q) (auto simp: dfa_range split: if_splits)

lemma run_completes:
  assumes "q < 9" "q \<noteq> 1"
  shows "\<exists>t. run q t = Some 0"
proof -
  have "q \<in> {0, 2, 3, 4, 5, 6, 7, 8}" using assms by auto
  moreover have "run 0 [] = Some 0" "run 2 [CHR 0x80] = Some 0" "run 3 [CHR 0x80, CHR 0x80] = Some 0"
    "run 4 [CHR 0xA0, CHR 0x80] = Some 0" "run 5 [CHR 0x80, CHR 0x80] = Some 0"
    "run 6 [CHR 0x90, CHR 0x80, CHR 0x80] = Some 0" "run 7 [CHR 0x80, CHR 0x80, CHR 0x80] = Some 0"
    "run 8 [CHR 0x80, CHR 0x80, CHR 0x80] = Some 0"
    by (simp_all add: dfa_def cont_def)
  ultimately show ?thesis by blast
qed

lemma decoded_completes:
  assumes "fst (validator_decode s validator_new)"
  shows "\<exists>t. utf8_validate (s @ t)"
proof -
  obtain q where q: "run 0 s = Some q"
    using assms validator_decode_run [of validator_new s] by (auto simp: validator_new_def split: prod.splits)
  with run_completes run_range [OF q] obtain t where "run q t = Some 0" by auto
  then show ?thesis using q by (intro exI [of _ t]) (simp add: utf8_validate_run run_append)
qed

text \<open>C13: Whatever bytes arrive, in whatever buffers: a text message the processor delivers holds no invalid UTF-8; it is valid
  or the beginning of something valid.\<close>

theorem delivered_text:
  assumes "over_ok over" "m \<in> set (fst (deliver_chunks over reserve cs (hybi13_new server)))" "msg_opcode m = TEXT"
  shows "\<exists>t. utf8_validate (msg_payload m @ t)"
proof -
  have "m \<in> set (fst (deliver over reserve (hybi13_new server) (concat cs)))"
    using assms(2) deliver_chunks_concat [OF assms(1) hybi_ok_new reading_new] by simp
  from decoded_completes [OF text_deliver [OF text_inv_new this assms(3)]] show ?thesis .
qed

lemma demo_deliver:
  "fst (deliver (\<lambda>k. k) (\<lambda>n. None) (hybi13_new True) (concat (map (encode_frame True) demo_frames))) =
   [append_payload ''?'' (message_new PING), append_payload ''message'' (message_new TEXT)]"
proof -
  have s: "hy_server (hybi13_new True) = True" by (simp add: hybi13_new_def)
  show ?thesis
    using deliver_frames [OF idle_new(1) [of True] demo_frames_ok, where masked = True and over = "\<lambda>k. k"]
    unfolding s idle_new(2) demo_frames_spec by auto
qed

theorem delivered_text_witness:
  "\<exists>t. utf8_validate (msg_payload (append_payload ''message'' (message_new TEXT)) @ t)"
proof (rule delivered_text [OF over_ok_cases(1)])
  show "append_payload ''message'' (message_new TEXT) \<in> set (fst (deliver_chunks (\<lambda>k. k) (\<lambda>n. None)
      [concat (map (encode_frame True) demo_frames)] (hybi13_new True)))"
    using deliver_chunks_concat [OF over_ok_cases(1) hybi_ok_new reading_new, of "\<lambda>n. None" "[concat (map (encode_frame True) demo_frames)]" True]
    by (simp add: demo_deliver)
qed (simp add: message_new_def)

text \<open>It may be the beginning only: whether the text is complete is asked when the last frame has the opcode of a text, and the
  last frame of a fragmented text is a continuation.\<close>

definition cut_frames :: "ws_frame list" where
  "cut_frames = [\<lparr>fr_opcode = TEXT, fr_fin = False, fr_key = 0, fr_payload = [CHR 0xC3]\<rparr>,
     \<lparr>fr_opcode = CONTINUATION, fr_fin = True, fr_key = 0, fr_payload = []\<rparr>]"

lemma cut_frames_spec:
  "spec_stream True True None cut_frames = ([append_payload [CHR 0xC3] (message_new TEXT)], Inr None)"
  by code_simp

theorem fragmented_text_cut_off:
  "fst (deliver over (\<lambda>n. None) (hybi13_new True) (concat (map (encode_frame True) cut_frames))) =
     [append_payload [CHR 0xC3] (message_new TEXT)] \<and>
   \<not> utf8_validate [CHR 0xC3]"
proof
  have s: "hy_server (hybi13_new True) = True" by (simp add: hybi13_new_def)
  have "list_all (frame_ok (\<lambda>n. None)) cut_frames" by (simp add: cut_frames_def frame_ok_def)
  from deliver_frames [OF idle_new(1) [of True] this, where masked = True and over = over]
  show "fst (deliver over (\<lambda>n. None) (hybi13_new True) (concat (map (encode_frame True) cut_frames))) =
      [append_payload [CHR 0xC3] (message_new TEXT)]"
    unfolding s idle_new(2) cut_frames_spec by auto
  show "\<not> utf8_validate [CHR 0xC3]" by code_simp
qed

section \<open>Messages from one side to the other\<close>

text \<open>The bytes a connection writes for a prepared message.\<close>

definition message_bytes :: "ws_message \<Rightarrow> string" where
  "message_bytes m = msg_header m @ msg_payload m"

lemma masked_copy_bytes: "masked_copy xs key = byte_mask key 0 xs"
  by (simp add: masked_copy_def word_mask_exact_stream byte_mask_stream)

lemma prepare_data_frame_wire:
  assumes "prepare_data_frame s key (Some i) (Some out) = Inr m"
  shows "message_bytes m = encode_frame (\<not> hy_server s)
      \<lparr>fr_opcode = msg_opcode i, fr_fin = msg_fin i, fr_key = key, fr_payload = msg_payload i\<rparr>"
    and "\<not> is_control (msg_opcode i)" and "msg_opcode i = TEXT \<Longrightarrow> utf8_validate (msg_payload i)"
    and "msg_prepared m"
  using assms by (auto simp: prepare_data_frame_def Let_def message_bytes_def encode_frame_def set_prepared_def set_payload_def
      set_header_def masked_copy_bytes split: if_splits)

lemma prepare_control_wire:
  assumes "prepare_control s key op payload (Some out) = Inr m"
  shows "message_bytes m = encode_frame (\<not> hy_server s) \<lparr>fr_opcode = op, fr_fin = True, fr_key = key, fr_payload = payload\<rparr>"
    and "is_control op" and "length payload \<le> 125"
  using assms by (auto simp: prepare_control_def Let_def message_bytes_def encode_frame_def set_prepared_def set_payload_def
      set_header_def masked_copy_bytes payload_size_basic_def split: if_splits)

text \<open>The frame of a whole message is accepted by the other role, and gives the message.\<close>

lemma spec_data_frame:
  assumes "op = TEXT \<or> op = BINARY" "op = TEXT \<longrightarrow> utf8_validate payload"
  shows "spec_frame server server None \<lparr>fr_opcode = op, fr_fin = True, fr_key = key, fr_payload = payload\<rparr> =
    Inr (None, Some (append_payload payload (message_new op)))"
proof -
  let ?h = "header_make op (word_of_nat (length payload)) True server False False False"
  have op: "get_opcode ?h = op" using assms(1) by (auto simp: header_make_opcode)
  have "validate_incoming_basic_header ?h server True = None"
    using assms(1) by (auto simp: validate_incoming_basic_header_def Let_def op is_control_def opcode_reserved_def
        opcode_invalid_def word_le_nat_alt word_less_nat_alt)
  moreover have "\<not> is_control op" using assms(1) by (auto simp: is_control_def word_le_nat_alt)
  ultimately show ?thesis using assms
    by (auto simp: spec_frame_def message_new_def utf8_validate_def split: prod.splits)
qed


definition send_frame :: "ws_message \<Rightarrow> 32 word \<Rightarrow> ws_frame" where
  "send_frame i key = \<lparr>fr_opcode = msg_opcode i, fr_fin = msg_fin i, fr_key = key, fr_payload = msg_payload i\<rparr>"

definition ws_sendable :: "(nat \<Rightarrow> exn option) \<Rightarrow> ws_message \<Rightarrow> bool" where
  "ws_sendable reserve i \<longleftrightarrow> msg_fin i \<and> (msg_opcode i = TEXT \<or> msg_opcode i = BINARY) \<and>
     length (msg_payload i) < 2 ^ 63 \<and> reserve (length (msg_payload i)) = None"

lemma ws_sendable_frame_ok: "ws_sendable reserve i \<Longrightarrow> frame_ok reserve (send_frame i key)"
  by (auto simp: ws_sendable_def frame_ok_def send_frame_def)

lemma spec_send_frames:
  assumes "\<forall>(i, key) \<in> set is. ws_sendable reserve i \<and> (msg_opcode i = TEXT \<longrightarrow> utf8_validate (msg_payload i))"
  shows "spec_stream server server None (map (\<lambda>(i, key). send_frame i key) is) =
    (map (\<lambda>(i, key). append_payload (msg_payload i) (message_new (msg_opcode i))) is, Inr None)"
  using assms
proof (induction "is")
  case (Cons x xs)
  obtain i key where x: "x = (i, key)" by (cases x)
  with Cons.prems have i: "ws_sendable reserve i" "msg_opcode i = TEXT \<longrightarrow> utf8_validate (msg_payload i)" by auto
  have "send_frame i key = \<lparr>fr_opcode = msg_opcode i, fr_fin = True, fr_key = key, fr_payload = msg_payload i\<rparr>"
    using i(1) by (simp add: send_frame_def ws_sendable_def)
  moreover have "msg_opcode i = TEXT \<or> msg_opcode i = BINARY" using i(1) by (simp add: ws_sendable_def)
  ultimately have "spec_frame server server None (send_frame i key) =
      Inr (None, Some (append_payload (msg_payload i) (message_new (msg_opcode i))))"
    using spec_data_frame i(2) by simp
  then show ?case using Cons x by (simp add: cons_message_def)
qed simp

text \<open>C12: What one side sends the other receives, in both directions: messages framed by \<open>prepare_data_frame\<close>, with whatever masking
  keys the random generator gives a client, written behind each other and delivered in whatever pieces, come out of the
  other side's processor with their opcodes and payloads, in order, and nothing else does.\<close>

theorem message_roundtrip:
  assumes "over_ok over" "\<forall>(i, key) \<in> set is. ws_sendable reserve i"
    "list_all2 (\<lambda>(i, key) m. prepare_data_frame s key (Some i) (Some (message_new op)) = Inr m) is ms"
    "concat cs = concat (map message_bytes ms)"
  shows "\<exists>t. deliver_chunks over reserve cs (hybi13_new (\<not> hy_server s)) =
      (map (\<lambda>(i, key). append_payload (msg_payload i) (message_new (msg_opcode i))) is, Ret (Inl t)) \<and> idle t"
proof -
  let ?fs = "map (\<lambda>(i, key). send_frame i key) is" and ?r = "\<not> hy_server s"
  have w: "map message_bytes ms = map (encode_frame ?r) ?fs"
    using assms(3) by (induction "is" ms rule: list_all2_induct) (auto simp: send_frame_def dest: prepare_data_frame_wire(1))
  have v: "\<forall>(i, key) \<in> set is. ws_sendable reserve i \<and> (msg_opcode i = TEXT \<longrightarrow> utf8_validate (msg_payload i))"
    using assms(3,2)
    by (induction "is" ms rule: list_all2_induct) (auto dest: prepare_data_frame_wire(3))
  have ok: "list_all (frame_ok reserve) ?fs" using assms(2) by (auto simp: list_all_iff ws_sendable_frame_ok)
  have r: "hy_server (hybi13_new ?r) = ?r" by (simp add: hybi13_new_def)
  have "\<exists>t. deliver over reserve (hybi13_new ?r) (concat (map (encode_frame ?r) ?fs)) =
      (map (\<lambda>(i, key). append_payload (msg_payload i) (message_new (msg_opcode i))) is, Ret (Inl t)) \<and> idle t"
    using deliver_frames [OF idle_new(1) [of ?r] ok, where masked = ?r and over = over]
    unfolding r idle_new(2) spec_send_frames [OF v] by auto
  then show ?thesis
    using deliver_chunks_concat [OF assms(1) hybi_ok_new reading_new, of reserve cs ?r] assms(4) w by simp
qed

definition demo_message :: "string \<Rightarrow> ws_message" where
  "demo_message p = append_payload p (message_new TEXT)"

lemma utf8_hello: "utf8_validate ''hello''"
  by code_simp

lemma prepare_demo:
  "utf8_validate p \<Longrightarrow> \<exists>m. prepare_data_frame s key (Some (demo_message p)) (Some (message_new op)) = Inr m"
  by (simp add: prepare_data_frame_def demo_message_def message_new_def is_control_def word_le_nat_alt Let_def)

theorem message_roundtrip_witness:
  "\<exists>m t. prepare_data_frame (hybi13_new False) 0x11223344 (Some (demo_message ''hello'')) (Some (message_new 0)) = Inr m \<and>
    deliver_chunks (\<lambda>k. k) (\<lambda>n. None) [take 3 (message_bytes m), drop 3 (message_bytes m)] (hybi13_new True) =
      ([demo_message ''hello''], Ret (Inl t))"
proof -
  obtain m where m: "prepare_data_frame (hybi13_new False) 0x11223344 (Some (demo_message ''hello'')) (Some (message_new 0)) = Inr m"
    using prepare_demo [OF utf8_hello] by blast
  have "\<forall>(i, key) \<in> set [(demo_message ''hello'', 0x11223344 :: 32 word)]. ws_sendable (\<lambda>n. None) i"
    by (simp add: ws_sendable_def demo_message_def message_new_def)
  from message_roundtrip [OF over_ok_cases(1) this, of "hybi13_new False" 0 "[m]" "[take 3 (message_bytes m), drop 3 (message_bytes m)]"] m
  show ?thesis by (auto simp: demo_message_def message_new_def hybi13_new_def)
qed

text \<open>C16: A close frame tells the other side what was said: the code and the reason that \<open>prepare_close\<close> accepts are what
  \<open>extract_code\<close> and \<open>extract_reason\<close> find, without an error, in the message that arrives.\<close>

theorem close_roundtrip:
  assumes "over_ok over" "prepare_close s key status reason (Some (message_new op)) = Inr m" "utf8_validate reason"
    "\<forall>n \<le> 125. reserve n = None" "concat cs = message_bytes m"
  shows "\<exists>c t. deliver_chunks over reserve cs (hybi13_new (\<not> hy_server s)) = ([c], Ret (Inl t)) \<and> idle t \<and>
    msg_opcode c = CLOSE \<and> extract_code (msg_payload c) = (status, None) \<and> extract_reason (msg_payload c) = (reason, None)"
proof -
  let ?p = "close_payload status reason" and ?r = "\<not> hy_server s"
  let ?f = "\<lparr>fr_opcode = CLOSE, fr_fin = True, fr_key = key, fr_payload = ?p\<rparr>"
  from assms(2) have st: "\<not> status_reserved status" "\<not> (status_invalid status \<and> status \<noteq> close_no_status)"
    "\<not> (status = close_no_status \<and> length reason > 0)" and pc: "prepare_control s key CLOSE ?p (Some (message_new op)) = Inr m"
    by (auto simp: prepare_close_def split: if_splits)
  note w = prepare_control_wire [OF pc]
  have ok: "list_all (frame_ok reserve) [?f]" using w(3) assms(4) by (simp add: frame_ok_def)
  have op: "get_opcode (header_make CLOSE z True ?r False False False) = CLOSE" for z
    by (simp add: header_make_opcode)
  have sz: "\<not> get_basic_size (header_make CLOSE (word_of_nat (length ?p)) True ?r False False False) > ucast payload_size_basic"
    using w(3) by (simp add: word_less_nat_alt payload_size_basic_def unat_basic_value unat_of_nat)
  have "spec_frame ?r ?r None ?f = Inr (None, Some (append_payload ?p (message_new CLOSE)))"
    using sz by (simp add: spec_frame_def Let_def validate_incoming_basic_header_def op is_control_def opcode_reserved_def
        opcode_invalid_def word_le_nat_alt word_less_nat_alt)
  then have sp: "spec_stream ?r ?r None [?f] = ([append_payload ?p (message_new CLOSE)], Inr None)"
    by (simp add: cons_message_def)
  have r: "hy_server (hybi13_new ?r) = ?r" by (simp add: hybi13_new_def)
  have "\<exists>t. deliver over reserve (hybi13_new ?r) (message_bytes m) = ([append_payload ?p (message_new CLOSE)], Ret (Inl t)) \<and> idle t"
    using deliver_frames [OF idle_new(1) [of ?r] ok, where masked = ?r and over = over] w(1)
    unfolding r idle_new(2) sp by auto
  then obtain t where "deliver_chunks over reserve cs (hybi13_new ?r) = ([append_payload ?p (message_new CLOSE)], Ret (Inl t))" "idle t"
    using deliver_chunks_concat [OF assms(1) hybi_ok_new reading_new, of reserve cs ?r] assms(5) by auto
  moreover have "extract_code ?p = (status, None)" "extract_reason ?p = (reason, None)"
    using st assms(3) extract_code_payload [of status reason] extract_reason_payload [of status reason]
    by (cases "status = close_no_status"; simp)+
  ultimately show ?thesis by (simp add: message_new_def)
qed

lemma utf8_bye: "utf8_validate ''bye''"
  by code_simp

theorem close_roundtrip_witness:
  "\<exists>m c t. prepare_close (hybi13_new True) 0 1000 ''bye'' (Some (message_new 0)) = Inr m \<and>
    deliver_chunks (\<lambda>k. k) (\<lambda>n. None) [message_bytes m] (hybi13_new False) = ([c], Ret (Inl t)) \<and>
    extract_code (msg_payload c) = (1000, None) \<and> extract_reason (msg_payload c) = (''bye'', None)"
proof -
  obtain m where m: "prepare_close (hybi13_new True) 0 1000 ''bye'' (Some (message_new 0)) = Inr m"
    by (simp add: prepare_close_def prepare_control_def status_reserved_def status_invalid_def payload_size_basic_def
        close_payload_def is_control_def word_le_nat_alt Let_def)
  from close_roundtrip [OF over_ok_cases(1) m utf8_bye, of "\<lambda>n. None" "[message_bytes m]"] m
  show ?thesis by (auto simp: hybi13_new_def)
qed

end
