(* ===== verification/Ws_Connection.thy ===== *)
theory Ws_Connection
  imports Ws_Stream
begin

text \<open>
  A connection after its opening handshake: \<open>src/depends/include/websocketpp/impl/connection_impl.hpp\<close>, with the constants of
  \<open>config/core.hpp\<close>. The operations run one after the other, as the handlers of one io loop do. What the
  transport has been asked for is part of the state: \<open>cn_dispatched\<close> calls of \<open>write_frame\<close> that are due,
  the outstanding \<open>async_write\<close> with its bytes and its \<open>terminate\<close> argument, whether an \<open>async_read_at_least\<close>
  or the shutdown is outstanding; \<open>cn_wire\<close> are the bytes of the writes that have completed. The programs set no ping and no
  pong handler. \<open>cn_queued\<close> is no member of the class: it remembers, for the statements, every message that was given to
  \<open>write_push\<close>, and nothing reads it. \<open>on_message\<close> is the message handler; the masking keys come from the function \<open>cn_rng\<close>, one after the other.
\<close>

section \<open>State\<close>

datatype session_state = S_connecting | S_open | S_closing | S_closed

datatype terminate_status = T_failed | T_closed

datatype conn_event = E_message ws_message | E_pong string | E_close_handler | E_fail_handler

record conn =
  cn_state :: session_state
  cn_server :: bool
  cn_processor :: hybi13
  cn_send_queue :: "ws_message list"
  cn_send_buffer_size :: nat
  cn_write_flag :: bool
  cn_current_msg :: "ws_message option"
  cn_local_close_code :: close_code
  cn_local_close_reason :: string
  cn_remote_close_code :: close_code
  cn_remote_close_reason :: string
  cn_ec :: "ws_error option"
  cn_handshake_timer :: bool
  cn_rng :: "nat \<Rightarrow> 32 word"
  cn_drawn :: nat
  cn_dispatched :: nat
  cn_writing :: "(string \<times> bool) option"
  cn_wire :: string
  cn_reading :: bool
  cn_shutdown :: "terminate_status option"
  cn_events :: "conn_event list"
  cn_queued :: "ws_message list"

definition connection_read_buffer_size :: nat where "connection_read_buffer_size = 512"
definition drop_on_protocol_error :: bool where "drop_on_protocol_error = False"
definition silent_close :: bool where "silent_close = False"
definition close_reason_size :: nat where "close_reason_size = 123"

text \<open>A connection as the constructor and \<open>initialize_processor\<close> leave it, opened.\<close>

definition conn_opened :: "bool \<Rightarrow> (nat \<Rightarrow> 32 word) \<Rightarrow> conn" where
  "conn_opened server rng = \<lparr>cn_state = S_open, cn_server = server, cn_processor = hybi13_new server, cn_send_queue = [],
     cn_send_buffer_size = 0, cn_write_flag = False, cn_current_msg = None,
     cn_local_close_code = close_abnormal_close, cn_local_close_reason = [],
     cn_remote_close_code = close_abnormal_close, cn_remote_close_reason = [], cn_ec = None, cn_handshake_timer = False,
     cn_rng = rng, cn_drawn = 0, cn_dispatched = 0, cn_writing = None, cn_wire = [], cn_reading = True,
     cn_shutdown = None, cn_events = [], cn_queued = []\<rparr>"

section \<open>The queue of messages to write\<close>

definition write_push :: "ws_message \<Rightarrow> conn \<Rightarrow> conn" where
  "write_push msg c = c\<lparr>cn_send_buffer_size := cn_send_buffer_size c + length (msg_payload msg),
     cn_send_queue := cn_send_queue c @ [msg], cn_queued := cn_queued c @ [msg]\<rparr>"

definition write_pop :: "conn \<Rightarrow> ws_message option \<times> conn" where
  "write_pop c = (case cn_send_queue c of
     [] \<Rightarrow> (None, c)
   | msg # rest \<Rightarrow> (Some msg, c\<lparr>cn_send_buffer_size := cn_send_buffer_size c - length (msg_payload msg),
       cn_send_queue := rest\<rparr>))"

text \<open>\<open>needs_writing\<close> and the dispatch.\<close>

definition dispatch_write :: "conn \<Rightarrow> conn" where
  "dispatch_write c = (if \<not> cn_write_flag c \<and> cn_send_queue c \<noteq> []
     then c\<lparr>cn_dispatched := cn_dispatched c + 1\<rparr> else c)"

definition next_key :: "conn \<Rightarrow> 32 word" where
  "next_key c = cn_rng c (cn_drawn c)"

definition key_drawn :: "conn \<Rightarrow> conn" where
  "key_drawn c = (if cn_server c then c else c\<lparr>cn_drawn := cn_drawn c + 1\<rparr>)"

text \<open>\<open>send(message_ptr)\<close>: a prepared message is queued as it is.\<close>

definition send_msg :: "ws_message \<Rightarrow> conn \<Rightarrow> ws_error option \<times> conn" where
  "send_msg msg c =
     (if cn_state c \<noteq> S_open then (Some (Library L_invalid_state), c)
      else if msg_prepared msg then (None, dispatch_write (write_push msg c))
      else (case prepare_data_frame (cn_processor c) (next_key c) (Some msg) (Some (message_new 0)) of
          Inl e \<Rightarrow> (Some (Processor e), c)
        | Inr out \<Rightarrow> (None, dispatch_write (write_push out (key_drawn c)))))"

text \<open>\<open>send(payload, op)\<close>: the buffer of the message is reserved first.\<close>

definition conn_send :: "(nat \<Rightarrow> exn option) \<Rightarrow> string \<Rightarrow> opcode \<Rightarrow> (conn, ws_error option) proc" where
  "conn_send reserve payload op c = (case get_message_sized reserve op (length payload) of
     Ret msg \<Rightarrow> (case send_msg (append_payload payload msg) c of (ec, c) \<Rightarrow> (Ret ec, c))
   | Exn e \<Rightarrow> (Exn e, c) | Stuck k \<Rightarrow> (Stuck k, c))"

text \<open>The endpoint's \<open>send\<close> throws the error code.\<close>

definition endpoint_send :: "(nat \<Rightarrow> exn option) \<Rightarrow> string \<Rightarrow> opcode \<Rightarrow> (conn, unit) proc" where
  "endpoint_send reserve payload op = mbind (conn_send reserve payload op) (\<lambda>ec. case ec of
     None \<Rightarrow> mret () | Some e \<Rightarrow> mthrow (Error_code (error_message e)))"

definition conn_ping :: "string \<Rightarrow> conn \<Rightarrow> ws_error option \<times> conn" where
  "conn_ping payload c =
     (if cn_state c \<noteq> S_open then (Some (Library L_invalid_state), c)
      else (case prepare_ping (cn_processor c) (next_key c) payload (Some (message_new 0)) of
          Inl e \<Rightarrow> (Some (Processor e), c)
        | Inr msg \<Rightarrow> (None, dispatch_write (write_push msg (key_drawn c)))))"

definition conn_pong :: "string \<Rightarrow> conn \<Rightarrow> ws_error option \<times> conn" where
  "conn_pong payload c =
     (if cn_state c \<noteq> S_open then (Some (Library L_invalid_state), c)
      else (case prepare_pong (cn_processor c) (next_key c) payload (Some (message_new 0)) of
          Inl e \<Rightarrow> (Some (Processor e), c)
        | Inr msg \<Rightarrow> (None, dispatch_write (write_push msg (key_drawn c)))))"

section \<open>Closing\<close>

text \<open>What the close frame will say.\<close>

definition close_says :: "close_code \<Rightarrow> string \<Rightarrow> bool \<Rightarrow> conn \<Rightarrow> close_code \<times> string" where
  "close_says status reason ack c =
     (if silent_close then (close_no_status, [])
      else if status \<noteq> close_blank then (status, reason)
      else if \<not> ack then (close_no_status, [])
      else if cn_remote_close_code c = close_no_status then (close_normal, [])
      else (cn_remote_close_code c, cn_remote_close_reason c))"

definition send_close_frame :: "close_code \<Rightarrow> string \<Rightarrow> bool \<Rightarrow> bool \<Rightarrow> conn \<Rightarrow> ws_error option \<times> conn" where
  "send_close_frame status reason ack terminal c =
     (case close_says status reason ack c of (local_code, local_reason) \<Rightarrow>
        (let c = c\<lparr>cn_local_close_code := local_code, cn_local_close_reason := local_reason\<rparr>
         in case prepare_close (cn_processor c) (next_key c) local_code local_reason (Some (message_new 0)) of
              Inl e \<Rightarrow> (Some (Processor e), c)
            | Inr msg \<Rightarrow>
                (let msg = if terminal then set_terminal True msg else msg;
                     c = (key_drawn c)\<lparr>cn_state := S_closing, cn_handshake_timer := True\<rparr>
                 in (None, dispatch_write (write_push msg c)))))"

definition send_close_ack :: "close_code \<Rightarrow> string \<Rightarrow> conn \<Rightarrow> ws_error option \<times> conn" where
  "send_close_ack status reason c = send_close_frame status reason True (cn_server c) c"

definition conn_close :: "close_code \<Rightarrow> string \<Rightarrow> conn \<Rightarrow> ws_error option \<times> conn" where
  "conn_close status reason c =
     (if cn_state c \<noteq> S_open then (Some (Library L_invalid_state), c)
      else
        (let tr = take (min (length reason) close_reason_size) reason
         in send_close_frame status tr False (status_terminal status) c))"

definition terminate :: "ws_error option \<Rightarrow> conn \<Rightarrow> conn" where
  "terminate ec c =
     (let c = c\<lparr>cn_handshake_timer := False\<rparr>;
          c = (case ec of None \<Rightarrow> c | Some e \<Rightarrow> c\<lparr>cn_ec := Some e, cn_local_close_code := close_abnormal_close,
                 cn_local_close_reason := error_message e\<rparr>)
      in case cn_state c of
           S_connecting \<Rightarrow> c\<lparr>cn_state := S_closed, cn_shutdown := Some T_failed\<rparr>
         | S_closed \<Rightarrow> c
         | _ \<Rightarrow> c\<lparr>cn_state := S_closed, cn_shutdown := Some T_closed\<rparr>)"

definition handle_terminate :: "conn \<Rightarrow> conn" where
  "handle_terminate c = (case cn_shutdown c of
     None \<Rightarrow> c
   | Some T_failed \<Rightarrow> c\<lparr>cn_shutdown := None, cn_events := cn_events c @ [E_fail_handler]\<rparr>
   | Some T_closed \<Rightarrow> c\<lparr>cn_shutdown := None, cn_events := cn_events c @ [E_close_handler]\<rparr>)"

definition handle_close_handshake_timeout :: "conn \<Rightarrow> conn" where
  "handle_close_handshake_timeout c = terminate (Some (Library L_close_handshake_timeout)) c"

section \<open>Writing\<close>

definition write_frame :: "conn \<Rightarrow> conn" where
  "write_frame c =
     (if cn_write_flag c then c
      else (case write_pop c of
          (None, c) \<Rightarrow> c\<lparr>cn_current_msg := None\<rparr>
        | (Some msg, c) \<Rightarrow> c\<lparr>cn_current_msg := Some msg, cn_write_flag := True,
            cn_writing := Some (msg_header msg @ msg_payload msg, msg_terminal msg)\<rparr>))"

definition handle_write_frame :: "bool \<Rightarrow> ws_error option \<Rightarrow> conn \<Rightarrow> conn" where
  "handle_write_frame term ec c =
     (let c = c\<lparr>cn_current_msg := None\<rparr>
      in case ec of
           Some e \<Rightarrow> terminate (Some e) c
         | None \<Rightarrow>
             (if term then terminate None c
              else dispatch_write (c\<lparr>cn_write_flag := False\<rparr>)))"

section \<open>Reading\<close>

definition process_control_frame :: "ws_message \<Rightarrow> conn \<Rightarrow> conn" where
  "process_control_frame msg c =
     (if msg_opcode msg = PING then snd (conn_pong (msg_payload msg) c)
      else if msg_opcode msg = PONG then c\<lparr>cn_events := cn_events c @ [E_pong (msg_payload msg)]\<rparr>
      else if msg_opcode msg = CLOSE then
        (case extract_code (msg_payload msg) of (status, ec) \<Rightarrow>
           (let c = c\<lparr>cn_remote_close_code := status\<rparr>
            in case ec of
                 Some e \<Rightarrow>
                   (if drop_on_protocol_error then terminate (Some e) c
                    else snd (send_close_ack close_protocol_error ''Invalid close code'' c))
               | None \<Rightarrow>
                   (case extract_reason (msg_payload msg) of (reason, ec) \<Rightarrow>
                      (let c = c\<lparr>cn_remote_close_reason := reason\<rparr>
                       in case ec of
                            Some e \<Rightarrow>
                              (if drop_on_protocol_error then terminate (Some e) c
                               else snd (send_close_ack close_protocol_error ''Invalid close reason'' c))
                          | None \<Rightarrow>
                              (if cn_state c = S_open then snd (send_close_ack close_blank [] c)
                               else if cn_state c = S_closing then (if cn_server c then terminate None c else c)
                               else c)))))
      else c)"

text \<open>The error path of \<open>handle_read_frame\<close>; the function returns without a new read.\<close>

definition consume_error :: "processor_error \<Rightarrow> conn \<Rightarrow> conn" where
  "consume_error e c =
     (if drop_on_protocol_error then terminate (Some (Processor e)) c
      else (case conn_close (to_ws (Processor e)) (processor_message e) c of
          (Some close_ec, c) \<Rightarrow> terminate (Some close_ec) c
        | (None, c) \<Rightarrow> c))"

text \<open>The loop over the bytes read. Each turn takes at least one of them (\<open>read_loop_deliver\<close>), so that many turns are
  enough; a turn too many would be a loop that never ends. The result says whether to read again.\<close>

primrec read_loop ::
    "(64 word \<Rightarrow> 64 word) \<Rightarrow> (nat \<Rightarrow> exn option) \<Rightarrow> (ws_message \<Rightarrow> (conn, unit) proc) \<Rightarrow> nat \<Rightarrow> string \<Rightarrow>
     (conn, bool) proc" where
  "read_loop over reserve on_message 0 buf c = (if buf = [] then (Ret True, c) else (Stuck Blocked, c))"
| "read_loop over reserve on_message (Suc n) buf c =
     (if buf = [] then (Ret True, c)
      else case consume over reserve (cn_processor c) buf of
        Exn e \<Rightarrow> (Exn e, c)
      | Stuck k \<Rightarrow> (Stuck k, c)
      | Ret (p, rest, Some e) \<Rightarrow> (Ret False, consume_error e (c\<lparr>cn_processor := p\<rparr>))
      | Ret (p, rest, None) \<Rightarrow>
          (if hy_state p = READY then
             (case get_message p of
                Ret (None, p) \<Rightarrow> read_loop over reserve on_message n rest (c\<lparr>cn_processor := p\<rparr>)
              | Ret (Some msg, p) \<Rightarrow>
                  (if \<not> is_control (msg_opcode msg)
                   then mseq (\<lambda>c. on_message msg (c\<lparr>cn_events := cn_events c @ [E_message msg]\<rparr>))
                          (read_loop over reserve on_message n rest) (c\<lparr>cn_processor := p\<rparr>)
                   else read_loop over reserve on_message n rest (process_control_frame msg (c\<lparr>cn_processor := p\<rparr>)))
              | Exn e \<Rightarrow> (Exn e, c) | Stuck k \<Rightarrow> (Stuck k, c))
           else read_loop over reserve on_message n rest (c\<lparr>cn_processor := p\<rparr>)))"

datatype read_error = R_eof | R_tls_short_read | R_other string

fun read_error_code :: "read_error \<Rightarrow> ws_error" where
  "read_error_code R_eof = Transport ''End of File''"
| "read_error_code R_tls_short_read = Transport ''TLS Short Read''"
| "read_error_code (R_other m) = Transport m"

definition handle_read_frame ::
    "(64 word \<Rightarrow> 64 word) \<Rightarrow> (nat \<Rightarrow> exn option) \<Rightarrow> (ws_message \<Rightarrow> (conn, unit) proc) \<Rightarrow> read_error option \<Rightarrow> string \<Rightarrow>
     (conn, unit) proc" where
  "handle_read_frame over reserve on_message ec buf c =
     (let c = c\<lparr>cn_reading := False\<rparr>
      in case ec of
           Some e \<Rightarrow>
             (if e = R_eof \<and> cn_state c = S_closed then (Ret (), c)
              else if e = R_eof \<and> cn_state c = S_closing \<and> \<not> cn_server c then (Ret (), terminate None c)
              else (Ret (), terminate (Some (read_error_code e)) c))
         | None \<Rightarrow>
             (if length buf > connection_read_buffer_size then (Ret (), terminate (Some (Library L_general)) c)
              else mbind (read_loop over reserve on_message (length buf) buf)
                (\<lambda>again c. (Ret (), if again then c\<lparr>cn_reading := True\<rparr> else c)) c))"


section \<open>What can happen\<close>

text \<open>The calls an application makes on a connection, from its handlers or from outside: \<open>send\<close> of a payload, \<open>send\<close> of a
  message (one it has not marked as prepared itself, whose header would be its own), \<open>ping\<close>, \<open>pong\<close> and \<open>close\<close>.\<close>

inductive conn_op :: "(nat \<Rightarrow> exn option) \<Rightarrow> conn \<Rightarrow> conn \<Rightarrow> bool" for reserve where
  op_send: "conn_send reserve payload op c = (Ret ec, c') \<Longrightarrow> conn_op reserve c c'"
| op_send_msg: "\<not> msg_prepared msg \<Longrightarrow> send_msg msg c = (ec, c') \<Longrightarrow> conn_op reserve c c'"
| op_pong: "conn_pong payload c = (ec, c') \<Longrightarrow> conn_op reserve c c'"
| op_ping: "conn_ping payload c = (ec, c') \<Longrightarrow> conn_op reserve c c'"
| op_close: "conn_close status reason c = (ec, c') \<Longrightarrow> conn_op reserve c c'"

text \<open>A message handler that returns or throws, and does nothing to the connection but such calls.\<close>

locale ws_application =
  fixes reserve :: "nat \<Rightarrow> exn option"
    and on_message :: "ws_message \<Rightarrow> (conn, unit) proc"
  assumes handler_ops: "on_message m c = (r, c') \<Longrightarrow> (\<forall>k. r \<noteq> Stuck k) \<and> (conn_op reserve)\<^sup>*\<^sup>* c c'"

text \<open>The steps of a connection: those calls, and what the transport answers.\<close>

inductive conn_step ::
    "(64 word \<Rightarrow> 64 word) \<Rightarrow> (nat \<Rightarrow> exn option) \<Rightarrow> (ws_message \<Rightarrow> (conn, unit) proc) \<Rightarrow> conn \<Rightarrow> conn \<Rightarrow> bool"
  for over reserve on_message where
  step_op: "conn_op reserve c c' \<Longrightarrow> conn_step over reserve on_message c c'"
| step_write: "cn_dispatched c > 0 \<Longrightarrow>
    conn_step over reserve on_message c (write_frame (c\<lparr>cn_dispatched := cn_dispatched c - 1\<rparr>))"
| step_written: "cn_writing c = Some (bytes, term) \<Longrightarrow>
    conn_step over reserve on_message c (handle_write_frame term None (c\<lparr>cn_writing := None, cn_wire := cn_wire c @ bytes\<rparr>))"
| step_write_error: "cn_writing c = Some (bytes, term) \<Longrightarrow>
    conn_step over reserve on_message c
      (handle_write_frame term (Some e) (c\<lparr>cn_writing := None, cn_wire := cn_wire c @ take n bytes\<rparr>))"
| step_read: "cn_reading c \<Longrightarrow> handle_read_frame over reserve on_message ec buf c = (Ret (), c') \<Longrightarrow>
    conn_step over reserve on_message c c'"
| step_timeout: "cn_handshake_timer c \<Longrightarrow> conn_step over reserve on_message c (handle_close_handshake_timeout c)"
| step_shutdown: "cn_shutdown c = Some st \<Longrightarrow> conn_step over reserve on_message c (handle_terminate c)"

section \<open>Operations only add to the queue\<close>

text \<open>How a call, or the handling of a frame, changes a connection: frames are added to the queue, the rest of the writing is
  as before, and nothing leaves the queue waiting without a dispatch.\<close>

definition close_rank :: "session_state \<Rightarrow> nat" where
  "close_rank s = (case s of S_connecting \<Rightarrow> 0 | S_open \<Rightarrow> 1 | S_closing \<Rightarrow> 2 | S_closed \<Rightarrow> 2)"

definition frame_bytes :: "conn \<Rightarrow> ws_frame list \<Rightarrow> string" where
  "frame_bytes c fs = concat (map (encode_frame (\<not> cn_server c)) fs)"

definition waits :: "conn \<Rightarrow> bool" where
  "waits c \<longleftrightarrow> cn_send_queue c \<noteq> [] \<and> \<not> cn_write_flag c \<and> cn_dispatched c = 0"

definition queue_size :: "conn \<Rightarrow> nat" where
  "queue_size c = sum_list (map (\<lambda>m. length (msg_payload m)) (cn_send_queue c))"

definition close_order :: "session_state \<Rightarrow> ws_frame list \<Rightarrow> session_state \<Rightarrow> bool" where
  "close_order q fs q' \<longleftrightarrow> (\<exists>ds cs. fs = ds @ cs \<and>
     (\<forall>f \<in> set ds. fr_opcode f \<noteq> CLOSE) \<and> (\<forall>f \<in> set cs. fr_opcode f = CLOSE) \<and>
     (ds \<noteq> [] \<longrightarrow> q = S_open) \<and> (cs \<noteq> [] \<longrightarrow> close_rank q' \<ge> 2))"

lemma close_order_Nil [simp]: "close_order q [] q'"
  by (simp add: close_order_def)

lemma close_order_one:
  "close_order q [f] q' \<longleftrightarrow> (if fr_opcode f = CLOSE then close_rank q' \<ge> 2 else q = S_open)"
proof
  assume "close_order q [f] q'"
  then obtain ds cs where d: "[f] = ds @ cs" "\<forall>f \<in> set ds. fr_opcode f \<noteq> CLOSE" "\<forall>f \<in> set cs. fr_opcode f = CLOSE"
    "ds \<noteq> [] \<longrightarrow> q = S_open" "cs \<noteq> [] \<longrightarrow> close_rank q' \<ge> 2" by (auto simp: close_order_def)
  then show "if fr_opcode f = CLOSE then close_rank q' \<ge> 2 else q = S_open" by (cases ds) auto
next
  assume "if fr_opcode f = CLOSE then close_rank q' \<ge> 2 else q = S_open"
  then show "close_order q [f] q'" unfolding close_order_def
    by (cases "fr_opcode f = CLOSE") (intro exI [of _ "[]"] exI [of _ "[f]"], simp, intro exI [of _ "[f]"] exI [of _ "[]"], simp)
qed

lemma close_order_append:
  assumes "close_order q fs q'" "close_order q' gs q''" "close_rank q' \<le> close_rank q''" "q' = S_open \<longrightarrow> q = S_open"
  shows "close_order q (fs @ gs) q''"
proof -
  obtain ds cs where d: "fs = ds @ cs" "\<forall>f \<in> set ds. fr_opcode f \<noteq> CLOSE" "\<forall>f \<in> set cs. fr_opcode f = CLOSE"
    "ds \<noteq> [] \<longrightarrow> q = S_open" "cs \<noteq> [] \<longrightarrow> close_rank q' \<ge> 2" using assms(1) by (auto simp: close_order_def)
  obtain ds' cs' where e: "gs = ds' @ cs'" "\<forall>f \<in> set ds'. fr_opcode f \<noteq> CLOSE" "\<forall>f \<in> set cs'. fr_opcode f = CLOSE"
    "ds' \<noteq> [] \<longrightarrow> q' = S_open" "cs' \<noteq> [] \<longrightarrow> close_rank q'' \<ge> 2" using assms(2) by (auto simp: close_order_def)
  show ?thesis
  proof (cases "cs = []")
    case True
    then show ?thesis using d e assms(4) unfolding close_order_def
      by (intro exI [of _ "ds @ ds'"] exI [of _ cs']) auto
  next
    case False
    then have "ds' = []" using d(5) e(4) by (auto simp: close_rank_def)
    then show ?thesis using d e assms(3) False unfolding close_order_def
      by (intro exI [of _ ds] exI [of _ "cs @ cs'"]) auto
  qed
qed

definition adds :: "ws_frame list \<Rightarrow> conn \<Rightarrow> conn \<Rightarrow> bool" where
  "adds fs c c' \<longleftrightarrow>
     (\<exists>ms. cn_send_queue c' = cn_send_queue c @ ms \<and> cn_queued c' = cn_queued c @ ms \<and> concat (map message_bytes ms) = frame_bytes c fs \<and>
        cn_send_buffer_size c' = cn_send_buffer_size c + sum_list (map (\<lambda>m. length (msg_payload m)) ms)) \<and>
     cn_write_flag c' = cn_write_flag c \<and> cn_current_msg c' = cn_current_msg c \<and> cn_writing c' = cn_writing c \<and>
     cn_wire c' = cn_wire c \<and> cn_server c' = cn_server c \<and>
     hy_server (cn_processor c') = hy_server (cn_processor c) \<and>
     close_rank (cn_state c) \<le> close_rank (cn_state c') \<and> (\<not> waits c \<longrightarrow> \<not> waits c') \<and>
     (cn_state c' = S_open \<longrightarrow> cn_state c = S_open) \<and> close_order (cn_state c) fs (cn_state c')"

lemma adds_refl: "cn_send_queue c' = cn_send_queue c \<Longrightarrow> cn_send_buffer_size c' = cn_send_buffer_size c \<Longrightarrow>
  cn_write_flag c' = cn_write_flag c \<Longrightarrow> cn_current_msg c' = cn_current_msg c \<Longrightarrow> cn_writing c' = cn_writing c \<Longrightarrow>
  cn_wire c' = cn_wire c \<Longrightarrow> cn_server c' = cn_server c \<Longrightarrow> hy_server (cn_processor c') = hy_server (cn_processor c) \<Longrightarrow>
  cn_dispatched c' = cn_dispatched c \<Longrightarrow> close_rank (cn_state c) \<le> close_rank (cn_state c') \<Longrightarrow>
  (cn_state c' = S_open \<longrightarrow> cn_state c = S_open) \<Longrightarrow> cn_queued c' = cn_queued c \<Longrightarrow> adds [] c c'"
  by (simp add: adds_def frame_bytes_def waits_def)

lemma key_drawn_simps [simp]:
  "cn_state (key_drawn c) = cn_state c" "cn_send_queue (key_drawn c) = cn_send_queue c"
  "cn_send_buffer_size (key_drawn c) = cn_send_buffer_size c" "cn_write_flag (key_drawn c) = cn_write_flag c"
  "cn_current_msg (key_drawn c) = cn_current_msg c" "cn_writing (key_drawn c) = cn_writing c"
  "cn_wire (key_drawn c) = cn_wire c" "cn_server (key_drawn c) = cn_server c"
  "cn_processor (key_drawn c) = cn_processor c" "cn_dispatched (key_drawn c) = cn_dispatched c"
  "cn_queued (key_drawn c) = cn_queued c" "cn_events (key_drawn c) = cn_events c" "cn_reading (key_drawn c) = cn_reading c"
  by (simp_all add: key_drawn_def)

lemma dispatch_write_simps [simp]:
  "cn_state (dispatch_write c) = cn_state c" "cn_send_queue (dispatch_write c) = cn_send_queue c"
  "cn_send_buffer_size (dispatch_write c) = cn_send_buffer_size c" "cn_write_flag (dispatch_write c) = cn_write_flag c"
  "cn_current_msg (dispatch_write c) = cn_current_msg c" "cn_writing (dispatch_write c) = cn_writing c"
  "cn_wire (dispatch_write c) = cn_wire c" "cn_server (dispatch_write c) = cn_server c"
  "cn_processor (dispatch_write c) = cn_processor c" "cn_events (dispatch_write c) = cn_events c"
  "cn_queued (dispatch_write c) = cn_queued c" "cn_reading (dispatch_write c) = cn_reading c" "\<not> waits (dispatch_write c)"
  by (simp_all add: dispatch_write_def waits_def)

lemma write_push_simps [simp]:
  "cn_state (write_push m c) = cn_state c" "cn_send_queue (write_push m c) = cn_send_queue c @ [m]"
  "cn_send_buffer_size (write_push m c) = cn_send_buffer_size c + length (msg_payload m)"
  "cn_write_flag (write_push m c) = cn_write_flag c" "cn_current_msg (write_push m c) = cn_current_msg c"
  "cn_writing (write_push m c) = cn_writing c" "cn_wire (write_push m c) = cn_wire c"
  "cn_server (write_push m c) = cn_server c" "cn_processor (write_push m c) = cn_processor c"
  "cn_events (write_push m c) = cn_events c" "cn_reading (write_push m c) = cn_reading c"
  "cn_queued (write_push m c) = cn_queued c @ [m]"
  by (simp_all add: write_push_def)

text \<open>A message of one frame is queued.\<close>

lemma adds_push:
  assumes "message_bytes m = encode_frame (\<not> cn_server c) f" "cn_server c1 = cn_server c" "cn_send_queue c1 = cn_send_queue c"
    "cn_send_buffer_size c1 = cn_send_buffer_size c" "cn_write_flag c1 = cn_write_flag c" "cn_current_msg c1 = cn_current_msg c"
    "cn_writing c1 = cn_writing c" "cn_wire c1 = cn_wire c" "cn_processor c1 = cn_processor c"
    "close_rank (cn_state c) \<le> close_rank (cn_state c1)" "fr_opcode f = CLOSE \<Longrightarrow> close_rank (cn_state c1) \<ge> 2"
    "fr_opcode f \<noteq> CLOSE \<Longrightarrow> cn_state c = S_open" "cn_state c1 = S_open \<longrightarrow> cn_state c = S_open"
    "cn_queued c1 = cn_queued c"
  shows "adds [f] c (dispatch_write (write_push m c1))"
  using assms by (simp add: adds_def frame_bytes_def close_order_one)

lemma adds_trans:
  assumes "adds fs c c'" "adds gs c' c''"
  shows "adds (fs @ gs) c c''"
proof -
  from assms(1) obtain ms where ms: "cn_send_queue c' = cn_send_queue c @ ms" "cn_queued c' = cn_queued c @ ms" "concat (map message_bytes ms) = frame_bytes c fs"
    "cn_send_buffer_size c' = cn_send_buffer_size c + sum_list (map (\<lambda>m. length (msg_payload m)) ms)" by (auto simp: adds_def)
  from assms(2) obtain ns where ns: "cn_send_queue c'' = cn_send_queue c' @ ns" "cn_queued c'' = cn_queued c' @ ns" "concat (map message_bytes ns) = frame_bytes c' gs"
    "cn_send_buffer_size c'' = cn_send_buffer_size c' + sum_list (map (\<lambda>m. length (msg_payload m)) ns)" by (auto simp: adds_def)
  have sv: "cn_server c' = cn_server c" using assms(1) by (simp add: adds_def)
  have "frame_bytes c' gs = frame_bytes c gs" by (simp add: frame_bytes_def sv)
  moreover have "frame_bytes c (fs @ gs) = frame_bytes c fs @ frame_bytes c gs" by (simp add: frame_bytes_def)
  moreover have "close_order (cn_state c) (fs @ gs) (cn_state c'')"
    using assms by (intro close_order_append [of _ _ "cn_state c'"]) (simp_all add: adds_def)
  ultimately show ?thesis
    using assms ms ns unfolding adds_def by (intro conjI exI [of _ "ms @ ns"]) (auto simp: sv)
qed


definition roles_agree :: "conn \<Rightarrow> bool" where
  "roles_agree c \<longleftrightarrow> hy_server (cn_processor c) = cn_server c"

lemma adds_roles: "adds fs c c' \<Longrightarrow> roles_agree c \<Longrightarrow> roles_agree c'"
  by (simp add: adds_def roles_agree_def)

lemma not_control_CLOSE: "is_control CLOSE" "is_control PING" "is_control PONG" "PING \<noteq> CLOSE" "PONG \<noteq> CLOSE"
  by (simp_all add: is_control_def word_le_nat_alt)

text \<open>The three kinds of frame that are queued.\<close>

lemma adds_data:
  assumes "roles_agree c" "cn_state c = S_open"
    "prepare_data_frame (cn_processor c) key (Some msg) (Some (message_new 0)) = Inr out"
  shows "adds [send_frame msg key] c (dispatch_write (write_push out (key_drawn c)))"
proof (rule adds_push)
  note w = prepare_data_frame_wire [OF assms(3)]
  show "message_bytes out = encode_frame (\<not> cn_server c) (send_frame msg key)"
    using w(1) assms(1) by (simp add: roles_agree_def send_frame_def)
  show "fr_opcode (send_frame msg key) = CLOSE \<Longrightarrow> 2 \<le> close_rank (cn_state (key_drawn c))"
    using w(2) not_control_CLOSE(1) by (simp add: send_frame_def)
qed (use assms(2) in simp_all)

lemma adds_control:
  assumes "roles_agree c" "cn_state c = S_open" "op \<noteq> CLOSE"
    "prepare_control (cn_processor c) key op payload (Some (message_new 0)) = Inr out"
  shows "adds [\<lparr>fr_opcode = op, fr_fin = True, fr_key = key, fr_payload = payload\<rparr>] c (dispatch_write (write_push out (key_drawn c)))"
proof (rule adds_push)
  show "message_bytes out = encode_frame (\<not> cn_server c) \<lparr>fr_opcode = op, fr_fin = True, fr_key = key, fr_payload = payload\<rparr>"
    using prepare_control_wire(1) [OF assms(4)] assms(1) by (simp add: roles_agree_def)
qed (use assms(2,3) in simp_all)

lemma adds_send_msg:
  assumes "roles_agree c" "send_msg msg c = (ec, c')" "\<not> msg_prepared msg"
  shows "\<exists>fs. adds fs c c'"
  using assms adds_data [OF assms(1)] adds_refl [of c c]
  by (auto simp: send_msg_def split: if_splits sum.splits)

lemma adds_conn_send:
  assumes "roles_agree c" "conn_send reserve payload op c = (r, c')"
  shows "\<exists>fs. adds fs c c'"
  using assms adds_send_msg [OF assms(1), of "append_payload payload (message_new op)"] adds_refl [of c c]
  by (auto simp: conn_send_def get_message_sized_def message_new_def split: option.splits prod.splits)

lemma adds_conn_ping:
  assumes "roles_agree c" "conn_ping payload c = (ec, c')"
  shows "\<exists>fs. adds fs c c'"
  using assms adds_control [OF assms(1), of PING] not_control_CLOSE(4) adds_refl [of c c]
  by (auto simp: conn_ping_def prepare_ping_def split: if_splits sum.splits)

lemma adds_conn_pong:
  assumes "roles_agree c" "conn_pong payload c = (ec, c')"
  shows "\<exists>fs. adds fs c c'"
  using assms adds_control [OF assms(1), of PONG] not_control_CLOSE(5) adds_refl [of c c]
  by (auto simp: conn_pong_def prepare_pong_def split: if_splits sum.splits)

lemma prepare_close_control:
  "prepare_close s key status reason out = Inr m \<Longrightarrow> prepare_control s key CLOSE (close_payload status reason) out = Inr m"
  by (auto simp: prepare_close_def split: if_splits)

lemma message_bytes_terminal [simp]: "message_bytes (set_terminal v m) = message_bytes m"
  by (simp add: message_bytes_def set_terminal_def)

text \<open>A close frame may be queued in any state.\<close>

lemma adds_send_close_frame:
  assumes "roles_agree c" "send_close_frame status reason ack terminal c = (ec, c')"
  shows "\<exists>fs. adds fs c c'"
proof -
  obtain lc lr where l: "close_says status reason ack c = (lc, lr)" by fastforce
  let ?c = "c\<lparr>cn_local_close_code := lc, cn_local_close_reason := lr\<rparr>"
  show ?thesis
  proof (cases "prepare_close (cn_processor ?c) (next_key ?c) lc lr (Some (message_new 0))")
    case (Inl e)
    then have "c' = ?c" using assms(2) l by (simp add: send_close_frame_def Let_def)
    moreover have "adds [] c ?c" by (rule adds_refl) simp_all
    ultimately show ?thesis by blast
  next
    case (Inr m)
    let ?m = "if terminal then set_terminal True m else m"
    let ?f = "\<lparr>fr_opcode = CLOSE, fr_fin = True, fr_key = next_key ?c, fr_payload = close_payload lc lr\<rparr>"
    have c': "c' = dispatch_write (write_push ?m ((key_drawn ?c)\<lparr>cn_state := S_closing, cn_handshake_timer := True\<rparr>))"
      using assms(2) l Inr by (simp add: send_close_frame_def Let_def)
    have "adds [?f] c c'"
      unfolding c'
    proof (rule adds_push)
      show "message_bytes ?m = encode_frame (\<not> cn_server c) ?f"
        using prepare_control_wire(1) [OF prepare_close_control [OF Inr]] assms(1) by (simp add: roles_agree_def)
    qed (auto simp: close_rank_def key_drawn_def split: session_state.split)
    then show ?thesis by blast
  qed
qed

lemma adds_terminate: "adds [] c (terminate ec c)"
  by (rule adds_refl) (auto simp: terminate_def Let_def close_rank_def split: session_state.split option.split)

lemma adds_conn_close:
  assumes "roles_agree c" "conn_close status reason c = (ec, c')"
  shows "\<exists>fs. adds fs c c'"
  using assms adds_send_close_frame [OF assms(1)] adds_refl [of c c]
  by (auto simp: conn_close_def Let_def split: if_splits)

lemma adds_conn_op: "conn_op reserve c c' \<Longrightarrow> roles_agree c \<Longrightarrow> \<exists>fs. adds fs c c'"
  by (induction rule: conn_op.induct) (auto dest: adds_conn_send adds_send_msg adds_conn_ping adds_conn_pong adds_conn_close)

lemma adds_conn_ops: "(conn_op reserve)\<^sup>*\<^sup>* c c' \<Longrightarrow> roles_agree c \<Longrightarrow> \<exists>fs. adds fs c c'"
proof (induction rule: rtranclp_induct)
  case base
  show ?case using adds_refl [of c c] by auto
next
  case (step c1 c2)
  then obtain fs where fs: "adds fs c c1" by blast
  from adds_conn_op [OF step(2) adds_roles [OF fs step.prems]] obtain gs where "adds gs c1 c2" by blast
  with fs show ?case using adds_trans by blast
qed


lemma adds_process_control_frame:
  assumes "roles_agree c"
  shows "\<exists>fs. adds fs c (process_control_frame msg c)"
proof -
  have upd: "\<exists>fs. adds fs c c'" if "adds [] c d" "\<exists>fs. adds fs d c'" for d c'
    using that adds_trans by blast
  have close: "\<exists>fs. adds fs c (snd (send_close_ack status reason d))" if "adds [] c d" for status reason d
    using upd [OF that] adds_send_close_frame [OF adds_roles [OF that assms]]
    by (cases "send_close_ack status reason d") (auto simp: send_close_ack_def)
  have trm: "\<exists>fs. adds fs c (terminate ec d)" if "adds [] c d" for ec d
    using upd [OF that] adds_terminate by blast
  have pong: "\<exists>fs. adds fs c (snd (conn_pong payload c))" for payload
    using adds_conn_pong [OF assms] by (cases "conn_pong payload c") auto
  have r: "adds [] c (c\<lparr>cn_remote_close_code := st\<rparr>)" "adds [] c (c\<lparr>cn_remote_close_code := st, cn_remote_close_reason := rs\<rparr>)"
    "adds [] c (c\<lparr>cn_events := ev\<rparr>)" "adds [] c c" for st rs ev
    by (rule adds_refl; simp)+
  show ?thesis
    unfolding process_control_frame_def Let_def
    by (auto simp: pong intro: close [OF r(1)] close [OF r(2)] trm [OF r(1)] trm [OF r(2)] r split: prod.split option.split)
qed

lemma adds_consume_error: "roles_agree c \<Longrightarrow> \<exists>fs. adds fs c (consume_error e c)"
proof -
  assume r: "roles_agree c"
  obtain ec c1 where c1: "conn_close (to_ws (Processor e)) (processor_message e) c = (ec, c1)" by fastforce
  then obtain fs where "adds fs c c1" using adds_conn_close [OF r] by blast
  then have "\<exists>fs. adds fs c (terminate d c1)" for d using adds_trans [OF _ adds_terminate] by blast
  with \<open>adds fs c c1\<close> show ?thesis using adds_terminate by (auto simp: consume_error_def c1 split: option.split)
qed


section \<open>Reading\<close>

text \<open>Nothing but the read loop itself changes the processor.\<close>

lemma send_msg_processor [simp]: "cn_processor (snd (send_msg m c)) = cn_processor c"
  by (simp add: send_msg_def split: sum.split)

lemma send_close_frame_processor [simp]:
  "cn_processor (snd (send_close_frame status reason ack terminal c)) = cn_processor c"
  by (simp add: send_close_frame_def Let_def split: prod.split sum.split)

lemma terminate_processor [simp]: "cn_processor (terminate ec c) = cn_processor c"
  by (simp add: terminate_def Let_def split: session_state.split option.split)

lemma conn_ops_processor:
  "conn_send reserve payload op c = (r, c') \<Longrightarrow> cn_processor c' = cn_processor c"
  "send_msg msg c = (ec, c') \<Longrightarrow> cn_processor c' = cn_processor c"
  "conn_ping payload c = (ec, c') \<Longrightarrow> cn_processor c' = cn_processor c"
  "conn_pong payload c = (ec, c') \<Longrightarrow> cn_processor c' = cn_processor c"
  "conn_close status reason c = (ec, c') \<Longrightarrow> cn_processor c' = cn_processor c"
proof -
  show "conn_send reserve payload op c = (r, c') \<Longrightarrow> cn_processor c' = cn_processor c"
    by (auto simp: conn_send_def get_message_sized_def split: option.splits prod.splits) (metis send_msg_processor snd_conv)
  show "conn_close status reason c = (ec, c') \<Longrightarrow> cn_processor c' = cn_processor c"
    by (auto simp: conn_close_def Let_def split: if_splits) (metis send_close_frame_processor snd_conv)
  show "send_msg msg c = (ec, c') \<Longrightarrow> cn_processor c' = cn_processor c"
    by (metis send_msg_processor snd_conv)
qed (auto simp: conn_ping_def conn_pong_def split: if_splits sum.splits)

lemma conn_op_processor: "conn_op reserve c c' \<Longrightarrow> cn_processor c' = cn_processor c"
  by (induction rule: conn_op.induct) (auto dest: conn_ops_processor)

lemma conn_ops_star_processor: "(conn_op reserve)\<^sup>*\<^sup>* c c' \<Longrightarrow> cn_processor c' = cn_processor c"
  by (induction rule: rtranclp_induct) (auto dest: conn_op_processor)

lemma pong_processor [simp]: "cn_processor (snd (conn_pong payload c)) = cn_processor c"
  using conn_ops_processor(4) [of payload c] by (cases "conn_pong payload c") simp

lemma process_control_frame_processor [simp]: "cn_processor (process_control_frame m c) = cn_processor c"
  unfolding process_control_frame_def Let_def send_close_ack_def
  by (simp split: prod.split option.split)

definition proc_ok :: "conn \<Rightarrow> bool" where
  "proc_ok c \<longleftrightarrow> hybi_ok (cn_processor c) \<and> reading (cn_processor c) \<and> roles_agree c"

lemma adds_processor:
  "hy_server p = hy_server (cn_processor c) \<Longrightarrow> adds [] c (c\<lparr>cn_processor := p\<rparr>)"
  by (rule adds_refl) simp_all

text \<open>The loop ends, keeps the processor ready for more and only adds frames to the queue.\<close>

context ws_application
begin

lemma handler_adds:
  assumes "roles_agree c" "on_message m c = (r, c')"
  shows "\<forall>k. r \<noteq> Stuck k" "\<exists>fs. adds fs c c'" "cn_processor c' = cn_processor c"
  using handler_ops [OF assms(2)] adds_conn_ops [OF _ assms(1)] conn_ops_star_processor by auto

lemma read_loop_adds:
  assumes "proc_ok c" "length buf \<le> n"
  shows "\<exists>r c'. read_loop over reserve on_message n buf c = (r, c') \<and> (\<forall>k. r \<noteq> Stuck k) \<and>
    (r = Ret True \<longrightarrow> proc_ok c') \<and> (\<exists>fs. adds fs c c')"
  using assms
proof (induction n arbitrary: buf c)
  case 0
  then show ?case using adds_refl [of c c] by auto
next
  case (Suc n)
  show ?case
  proof (cases "buf = []")
    case True
    then show ?thesis using Suc.prems(1) adds_refl [of c c] by auto
  next
    case ne: False
    have ok: "hybi_ok (cn_processor c)" "reading (cn_processor c)" "roles_agree c" using Suc.prems(1) by (simp_all add: proc_ok_def)
    show ?thesis
    proof (cases "consume over reserve (cn_processor c) buf")
      case (Exn x)
      then show ?thesis using ne adds_refl [of c c] by auto
    next
      case (Stuck k)
      then show ?thesis using consume_not_stuck [OF ok(1)] by blast
    next
      case (Ret x)
      obtain p rest e where x: "x = (p, rest, e)" by (cases x)
      have cs: "consume over reserve (cn_processor c) buf = Ret (p, rest, e)" using Ret x by simp
      let ?c = "c\<lparr>cn_processor := p\<rparr>"
      have a: "adds [] c ?c" by (rule adds_processor) (rule consume_server [OF cs])
      have ra: "roles_agree ?c" by (rule adds_roles [OF a ok(3)])
      show ?thesis
      proof (cases e)
        case (Some err)
        obtain fs where "adds fs ?c (consume_error err ?c)" using adds_consume_error [OF ra] by blast
        then show ?thesis using cs ne Some adds_trans [OF a] by auto
      next
        case None
        have cs: "consume over reserve (cn_processor c) buf = Ret (p, rest, None)" using cs None by simp
        have p: "hybi_ok p" by (rule consume_ok [OF ok(1) cs])
        have l: "length rest \<le> n" using consume_reading(1) [OF ok(1,2) ne cs] Suc.prems(2) by simp
        show ?thesis
        proof (cases "hy_state p = READY")
          case True
          obtain m q where g: "get_message p = Ret (Some m, q)" "hybi_ok q" "reading q"
            by (rule get_message_ready [OF p True])
          let ?d = "c\<lparr>cn_processor := q\<rparr>"
          have a: "adds [] c ?d"
            by (rule adds_processor) (use get_message_server [OF g(1)] consume_server [OF cs] in simp)
          have go: ?thesis
            if d': "adds fs ?d d'" "cn_processor d' = q"
              and eq: "read_loop over reserve on_message (Suc n) buf c = read_loop over reserve on_message n rest d'" for fs d'
          proof -
            have "adds fs c d'" using adds_trans [OF a d'(1)] by simp
            moreover have "proc_ok d'" using g adds_roles [OF \<open>adds fs c d'\<close> ok(3)] d'(2) by (simp add: proc_ok_def)
            ultimately show ?thesis using Suc.IH [OF _ l, of d'] eq adds_trans by metis
          qed
          have ra: "roles_agree ?d" by (rule adds_roles [OF a ok(3)])
          show ?thesis
          proof (cases "is_control (msg_opcode m)")
            case True
            obtain fs where "adds fs ?d (process_control_frame m ?d)" using adds_process_control_frame [OF ra] by blast
            then show ?thesis
              by (rule go) (use True ne cs g(1) \<open>hy_state p = READY\<close> in simp_all)
          next
            case False
            let ?e = "?d\<lparr>cn_events := cn_events ?d @ [E_message m]\<rparr>"
            have e: "adds [] ?d ?e" by (rule adds_refl) simp_all
            obtain r d' where h: "on_message m ?e = (r, d')" by fastforce
            note ha = handler_adds [OF adds_roles [OF e ra] h]
            then obtain fs where fs: "adds fs ?d d'" using adds_trans [OF e] by auto
            have eq: "read_loop over reserve on_message (Suc n) buf c =
                mseq (on_message m) (read_loop over reserve on_message n rest) ?e"
              using False ne cs g(1) \<open>hy_state p = READY\<close> by (simp add: mseq_def mbind_def)
            show ?thesis
            proof (cases r)
              case (Ret u)
              show ?thesis by (rule go [OF fs]) (use ha h eq Ret in \<open>simp_all add: mseq_def mbind_def\<close>)
            next
              case (Exn x)
              have "adds fs c d'" using adds_trans [OF a fs] by simp
              then show ?thesis using eq h Exn by (auto simp: mseq_def mbind_def)
            qed (use ha in blast)
          qed
        next
          case False
          then have w: "reading p" "rest = []" using consume_reading(2) [OF ok(1,2) ne cs] by auto
          have "proc_ok ?c" using p w ra by (simp add: proc_ok_def)
          with Suc.IH [OF _ l, of ?c] obtain r c' fs where rl: "read_loop over reserve on_message n rest ?c = (r, c')"
            "\<forall>k. r \<noteq> Stuck k" "r = Ret True \<longrightarrow> proc_ok c'" "adds fs ?c c'" by blast
          have "adds fs c c'" using adds_trans [OF a rl(4)] by simp
          then show ?thesis using rl(1-3) False ne cs by auto
        qed
      qed
    qed
  qed
qed

end

end
