(* ===== verification/Ws_Session.thy ===== *)
theory Ws_Session
  imports Ws_Connection
begin

text \<open>
  What holds of a connection at every moment: the invariant of the steps of \<open>Ws_Connection\<close>, what it says of the bytes a
  connection sends, and that what is queued is written.
\<close>

section \<open>Invariant of a connection\<close>

definition in_flight :: "conn \<Rightarrow> string" where
  "in_flight c = (case cn_writing c of None \<Rightarrow> [] | Some (bytes, term) \<Rightarrow> bytes)"

text \<open>Everything queued so far: on the wire, being written, waiting.\<close>

definition outbox :: "conn \<Rightarrow> string" where
  "outbox c = cn_wire c @ in_flight c @ concat (map message_bytes (cn_send_queue c))"

text \<open>Writing has ended for good, with a terminal message or an error.\<close>

definition stopped :: "conn \<Rightarrow> bool" where
  "stopped c \<longleftrightarrow> cn_write_flag c \<and> cn_writing c = None"

definition write_ok :: "conn \<Rightarrow> bool" where
  "write_ok c \<longleftrightarrow> \<not> waits c \<and> cn_send_buffer_size c = queue_size c \<and>
     (cn_writing c = None \<longrightarrow> cn_current_msg c = None) \<and> (cn_writing c \<noteq> None \<longrightarrow> cn_write_flag c) \<and>
     (\<forall>bytes term. cn_writing c = Some (bytes, term) \<longrightarrow>
        (\<exists>m. cn_current_msg c = Some m \<and> bytes = message_bytes m \<and> term = msg_terminal m)) \<and>
     (stopped c \<longrightarrow> close_rank (cn_state c) \<ge> 2)"

definition output_ok :: "conn \<Rightarrow> bool" where
  "output_ok c \<longleftrightarrow> (\<exists>fs. close_order S_open fs (cn_state c) \<and> concat (map message_bytes (cn_queued c)) = frame_bytes c fs \<and>
     (if stopped c then (\<exists>t. frame_bytes c fs = cn_wire c @ t) else outbox c = frame_bytes c fs))"

definition conn_inv :: "conn \<Rightarrow> bool" where
  "conn_inv c \<longleftrightarrow> write_ok c \<and> output_ok c \<and> roles_agree c \<and> (cn_reading c \<longrightarrow> proc_ok c) \<and> cn_state c \<noteq> S_connecting"

lemma conn_inv_opened: "conn_inv (conn_opened server rng)"
proof -
  have "hy_server (hybi13_new server) = server" by (simp add: hybi13_new_def)
  then have "roles_agree (conn_opened server rng)" by (simp add: roles_agree_def conn_opened_def)
  moreover have "output_ok (conn_opened server rng)"
    unfolding output_ok_def by (intro exI [of _ "[]"]) (simp add: stopped_def outbox_def in_flight_def frame_bytes_def conn_opened_def)
  ultimately show ?thesis using hybi_ok_new [of server] reading_new [of server]
    by (simp add: conn_inv_def proc_ok_def) (simp add: conn_opened_def write_ok_def waits_def queue_size_def stopped_def)
qed

lemma adds_inv:
  assumes "adds gs c c'" "write_ok c" "output_ok c" "cn_state c \<noteq> S_connecting"
  shows "write_ok c'" "output_ok c'" "cn_state c' \<noteq> S_connecting"
proof -
  from assms(1) obtain ms where ms: "cn_send_queue c' = cn_send_queue c @ ms" "cn_queued c' = cn_queued c @ ms" "concat (map message_bytes ms) = frame_bytes c gs"
    "cn_send_buffer_size c' = cn_send_buffer_size c + sum_list (map (\<lambda>m. length (msg_payload m)) ms)" by (auto simp: adds_def)
  have eq: "cn_write_flag c' = cn_write_flag c" "cn_current_msg c' = cn_current_msg c" "cn_writing c' = cn_writing c"
    "cn_wire c' = cn_wire c" "cn_server c' = cn_server c" "close_rank (cn_state c) \<le> close_rank (cn_state c')"
    "\<not> waits c \<longrightarrow> \<not> waits c'" "close_order (cn_state c) gs (cn_state c')" "cn_state c' = S_open \<longrightarrow> cn_state c = S_open"
    using assms(1) by (simp_all add: adds_def)
  have st: "stopped c' = stopped c" using eq by (simp add: stopped_def)
  show "write_ok c'" using assms(2) eq ms st by (auto simp: write_ok_def queue_size_def)
  show "cn_state c' \<noteq> S_connecting" using assms(4) eq(6) by (cases "cn_state c"; cases "cn_state c'") (simp_all add: close_rank_def)
  from assms(3) obtain fs where fs: "close_order S_open fs (cn_state c)"
    "concat (map message_bytes (cn_queued c)) = frame_bytes c fs"
    "if stopped c then (\<exists>t. frame_bytes c fs = cn_wire c @ t) else outbox c = frame_bytes c fs" by (auto simp: output_ok_def)
  have fb: "frame_bytes c' (fs @ gs) = frame_bytes c fs @ frame_bytes c gs" by (simp add: frame_bytes_def eq)
  have "outbox c' = outbox c @ frame_bytes c gs" by (simp add: outbox_def in_flight_def eq ms)
  then show "output_ok c'"
    unfolding output_ok_def using fs(2,3) st fb eq(4) ms(2,3)
    by (intro exI [of _ "fs @ gs"] conjI close_order_append [OF fs(1) eq(8,6)]) (use eq in auto)
qed

lemma close_order_closed: "close_order q fs q' \<Longrightarrow> close_rank q' \<le> close_rank q'' \<Longrightarrow> close_order q fs q''"
proof -
  assume "close_order q fs q'" and r: "close_rank q' \<le> close_rank q''"
  then obtain ds cs where "fs = ds @ cs" "\<forall>f \<in> set ds. fr_opcode f \<noteq> CLOSE" "\<forall>f \<in> set cs. fr_opcode f = CLOSE"
    "ds \<noteq> [] \<longrightarrow> q = S_open" "cs \<noteq> [] \<longrightarrow> close_rank q' \<ge> 2" by (auto simp: close_order_def)
  then show ?thesis using r unfolding close_order_def by (intro exI [of _ ds] exI [of _ cs]) auto
qed

text \<open>A step of the writing.\<close>

lemma output_ok_step:
  assumes "output_ok c" "cn_queued c' = cn_queued c" "cn_server c' = cn_server c" "close_rank (cn_state c) \<le> close_rank (cn_state c')"
    "\<And>s. if stopped c then \<exists>t. s = cn_wire c @ t else outbox c = s \<Longrightarrow>
      if stopped c' then \<exists>t. s = cn_wire c' @ t else outbox c' = s"
  shows "output_ok c'"
proof -
  from assms(1) obtain fs where "close_order S_open fs (cn_state c)" "concat (map message_bytes (cn_queued c)) = frame_bytes c fs"
    "if stopped c then \<exists>t. frame_bytes c fs = cn_wire c @ t else outbox c = frame_bytes c fs"
    unfolding output_ok_def by blast
  moreover have "frame_bytes c' fs = frame_bytes c fs" by (simp add: frame_bytes_def assms(3))
  ultimately show ?thesis
    unfolding output_ok_def using assms(5) [of "frame_bytes c fs"] close_order_closed [OF _ assms(4)]
    by (intro exI [of _ fs]) (simp only: assms(2) simp_thms)
qed

lemma write_frame_inv:
  assumes "write_ok c" "output_ok c"
  defines "c' \<equiv> write_frame (c\<lparr>cn_dispatched := cn_dispatched c - 1\<rparr>)"
  shows "write_ok c'" "output_ok c'" "outbox c' = outbox c" "cn_state c' = cn_state c" "cn_processor c' = cn_processor c"
    "cn_server c' = cn_server c" "cn_reading c' = cn_reading c"
proof -
  have u: "cn_state c' = cn_state c" "cn_processor c' = cn_processor c" "cn_server c' = cn_server c" "cn_reading c' = cn_reading c"
    by (simp_all add: c'_def write_frame_def write_pop_def split: list.split)
  then show "cn_state c' = cn_state c" "cn_processor c' = cn_processor c" "cn_server c' = cn_server c" "cn_reading c' = cn_reading c" .
  have w: "cn_wire c' = cn_wire c" by (simp add: c'_def write_frame_def write_pop_def split: list.split)
  have "write_ok c' \<and> outbox c' = outbox c \<and> stopped c' = stopped c"
  proof (cases "cn_write_flag c \<or> cn_send_queue c = []")
    case True
    then show ?thesis using assms(1)
      by (auto simp: c'_def write_frame_def write_pop_def write_ok_def outbox_def in_flight_def stopped_def waits_def queue_size_def)
  next
    case False
    then obtain m ms where q: "cn_send_queue c = m # ms" by (cases "cn_send_queue c") auto
    have n: "cn_writing c = None" using assms(1) False by (cases "cn_writing c") (auto simp: write_ok_def)
    then show ?thesis using assms(1) False q
      by (simp add: c'_def write_frame_def write_pop_def write_ok_def outbox_def in_flight_def stopped_def waits_def
          queue_size_def message_bytes_def)
  qed
  then show "write_ok c'" "outbox c' = outbox c" by simp_all
  moreover have "stopped c' = stopped c" using \<open>write_ok c' \<and> outbox c' = outbox c \<and> stopped c' = stopped c\<close> by simp
  moreover have "cn_queued c' = cn_queued c" by (simp add: c'_def write_frame_def write_pop_def split: list.split)
  ultimately show "output_ok c'" by (intro output_ok_step [OF assms(2)]) (simp_all add: u w)
qed

lemma written_inv:
  assumes "write_ok c" "output_ok c" "cn_writing c = Some (bytes, term)"
  defines "c' \<equiv> handle_write_frame term None (c\<lparr>cn_writing := None, cn_wire := cn_wire c @ bytes\<rparr>)"
  shows "write_ok c'" "output_ok c'" "outbox c' = outbox c" "close_rank (cn_state c) \<le> close_rank (cn_state c')"
    "cn_processor c' = cn_processor c" "cn_server c' = cn_server c" "cn_reading c' = cn_reading c"
    "\<not> term \<Longrightarrow> \<not> stopped c' \<and> cn_state c' = cn_state c"
proof -
  have u: "cn_processor c' = cn_processor c" "cn_server c' = cn_server c" "cn_reading c' = cn_reading c"
    "close_rank (cn_state c) \<le> close_rank (cn_state c')" "cn_wire c' = cn_wire c @ bytes" "cn_writing c' = None"
    "cn_send_queue c' = cn_send_queue c" "cn_send_buffer_size c' = cn_send_buffer_size c" "cn_current_msg c' = None"
    "cn_write_flag c' = (term \<and> cn_write_flag c)" "\<not> term \<Longrightarrow> cn_state c' = cn_state c" "\<not> term \<Longrightarrow> \<not> waits c'"
    "term \<Longrightarrow> close_rank (cn_state c') \<ge> 2"
    by (simp_all add: c'_def handle_write_frame_def terminate_def Let_def close_rank_def split: session_state.split)
  have f: "cn_write_flag c" using assms(1,3) by (simp add: write_ok_def)
  show "cn_processor c' = cn_processor c" "cn_server c' = cn_server c" "cn_reading c' = cn_reading c"
    "close_rank (cn_state c) \<le> close_rank (cn_state c')" using u by simp_all
  show "\<not> stopped c' \<and> cn_state c' = cn_state c" if "\<not> term" using that u by (simp add: stopped_def)
  show o: "outbox c' = outbox c" using assms(3) u by (simp add: outbox_def in_flight_def)
  have "\<not> waits c'" using u f by (cases "term") (simp_all add: waits_def)
  then show "write_ok c'" using assms(1) u by (auto simp: write_ok_def queue_size_def stopped_def)
  have "cn_queued c' = cn_queued c"
    by (simp add: c'_def handle_write_frame_def terminate_def Let_def split: session_state.split)
  moreover have "\<not> stopped c" "outbox c' = cn_wire c' @ concat (map message_bytes (cn_send_queue c'))"
    using assms(3) u(6) by (simp_all add: stopped_def outbox_def in_flight_def)
  ultimately show "output_ok c'" using o u by (intro output_ok_step [OF assms(2)]) auto
qed

lemma write_error_inv:
  fixes n :: nat and e :: ws_error
  assumes "write_ok c" "output_ok c" "cn_writing c = Some (bytes, term)"
  defines "c' \<equiv> handle_write_frame term (Some e) (c\<lparr>cn_writing := None, cn_wire := cn_wire c @ take n bytes\<rparr>)"
  shows "write_ok c'" "output_ok c'" "close_rank (cn_state c) \<le> close_rank (cn_state c')"
    "cn_processor c' = cn_processor c" "cn_server c' = cn_server c" "cn_reading c' = cn_reading c"
proof -
  have u: "cn_processor c' = cn_processor c" "cn_server c' = cn_server c" "cn_reading c' = cn_reading c"
    "close_rank (cn_state c) \<le> close_rank (cn_state c')" "cn_wire c' = cn_wire c @ take n bytes" "cn_writing c' = None"
    "cn_send_queue c' = cn_send_queue c" "cn_send_buffer_size c' = cn_send_buffer_size c" "cn_current_msg c' = None"
    "cn_write_flag c' = cn_write_flag c" "close_rank (cn_state c') \<ge> 2"
    by (simp_all add: c'_def handle_write_frame_def terminate_def Let_def close_rank_def split: session_state.split)
  have f: "cn_write_flag c" using assms(1,3) by (simp add: write_ok_def)
  show "cn_processor c' = cn_processor c" "cn_server c' = cn_server c" "cn_reading c' = cn_reading c"
    "close_rank (cn_state c) \<le> close_rank (cn_state c')" using u by simp_all
  show "write_ok c'" using assms(1) u f by (simp add: write_ok_def queue_size_def stopped_def waits_def)
  have "cn_queued c' = cn_queued c"
    by (simp add: c'_def handle_write_frame_def terminate_def Let_def split: session_state.split)
  moreover have "outbox c = cn_wire c' @ drop n bytes @ concat (map message_bytes (cn_send_queue c))"
    using assms(3) u(5) by (simp add: outbox_def in_flight_def)
  moreover have "\<not> stopped c" "stopped c'" using assms(3) f u(6,10) by (simp_all add: stopped_def)
  ultimately show "output_ok c'" using u(2,4) by (intro output_ok_step [OF assms(2)]) auto
qed

text \<open>What no operation but reading changes.\<close>

lemma conn_ops_reading:
  "conn_send reserve payload op c = (r, c') \<Longrightarrow> cn_reading c' = cn_reading c \<and> cn_events c' = cn_events c"
  "send_msg msg c = (ec, c') \<Longrightarrow> cn_reading c' = cn_reading c \<and> cn_events c' = cn_events c"
  "conn_ping payload c = (ec, c') \<Longrightarrow> cn_reading c' = cn_reading c \<and> cn_events c' = cn_events c"
  "conn_pong payload c = (ec, c') \<Longrightarrow> cn_reading c' = cn_reading c \<and> cn_events c' = cn_events c"
  "send_close_frame status reason ack terminal c = (ec, c') \<Longrightarrow> cn_reading c' = cn_reading c \<and> cn_events c' = cn_events c"
  "conn_close status reason c = (ec, c') \<Longrightarrow> cn_reading c' = cn_reading c \<and> cn_events c' = cn_events c"
proof -
  show f: "cn_reading c' = cn_reading c \<and> cn_events c' = cn_events c"
    if "send_close_frame status reason ack terminal c = (ec, c')" for status reason ack terminal c ec c'
    using that by (auto simp: send_close_frame_def Let_def split: prod.splits sum.splits)
  show "conn_close status reason c = (ec, c') \<Longrightarrow> cn_reading c' = cn_reading c \<and> cn_events c' = cn_events c"
    using f by (auto simp: conn_close_def Let_def split: if_splits)
qed (auto simp: conn_send_def send_msg_def conn_ping_def conn_pong_def split: if_splits sum.splits prod.splits result.splits)

lemma conn_op_reading: "conn_op reserve c c' \<Longrightarrow> cn_reading c' = cn_reading c \<and> cn_events c' = cn_events c"
  by (induction rule: conn_op.induct) (auto dest: conn_ops_reading)

lemma conn_ops_star_reading: "(conn_op reserve)\<^sup>*\<^sup>* c c' \<Longrightarrow> cn_reading c' = cn_reading c \<and> cn_events c' = cn_events c"
  by (induction rule: rtranclp_induct) (auto dest: conn_op_reading)

lemma terminate_unchanged [simp]:
  "cn_reading (terminate ec c) = cn_reading c" "cn_events (terminate ec c) = cn_events c"
  by (simp_all add: terminate_def Let_def split: session_state.split option.split)

lemma ops_unchanged [simp]:
  "cn_reading (snd (conn_pong payload c)) = cn_reading c" "cn_events (snd (conn_pong payload c)) = cn_events c"
  "cn_reading (snd (send_close_ack status reason c)) = cn_reading c" "cn_events (snd (send_close_ack status reason c)) = cn_events c"
  using conn_ops_reading(4) [of payload c] conn_ops_reading(5) [of status reason True "cn_server c" c]
  by (cases "conn_pong payload c"; cases "send_close_ack status reason c"; simp add: send_close_ack_def)+

lemma process_control_frame_reading [simp]: "cn_reading (process_control_frame m c) = cn_reading c"
  unfolding process_control_frame_def Let_def by (simp split: prod.split option.split)

lemma consume_error_reading [simp]:
  "cn_reading (consume_error e c) = cn_reading c" "cn_events (consume_error e c) = cn_events c"
  by (auto simp: consume_error_def split: prod.split option.split dest: conn_ops_reading(6))

section \<open>Every step keeps it\<close>

lemma conn_inv_adds:
  assumes "conn_inv c" "adds fs c c'" "cn_reading c' \<longrightarrow> proc_ok c'"
  shows "conn_inv c'"
  using assms adds_inv [OF assms(2)] adds_roles [OF assms(2)] by (simp add: conn_inv_def)

lemma proc_ok_adds: "proc_ok c \<Longrightarrow> adds fs c c' \<Longrightarrow> cn_processor c' = cn_processor c \<Longrightarrow> proc_ok c'"
  using adds_roles by (simp add: proc_ok_def)

lemma conn_inv_op: "conn_inv c \<Longrightarrow> conn_op reserve c c' \<Longrightarrow> conn_inv c'"
proof -
  assume inv: "conn_inv c" and op: "conn_op reserve c c'"
  then obtain fs where fs: "adds fs c c'" using adds_conn_op [OF op] by (auto simp: conn_inv_def)
  then show ?thesis
    using conn_inv_adds [OF inv fs] proc_ok_adds [OF _ fs conn_op_processor [OF op]] conn_op_reading [OF op] inv
    by (simp add: conn_inv_def)
qed

lemma conn_inv_terminate: "conn_inv c \<Longrightarrow> conn_inv (terminate ec c)"
  using conn_inv_adds [OF _ adds_terminate] proc_ok_adds [OF _ adds_terminate] by (simp add: conn_inv_def)

lemma conn_inv_writing:
  assumes "conn_inv c" "write_ok c'" "output_ok c'" "cn_processor c' = cn_processor c" "cn_server c' = cn_server c"
    "cn_reading c' = cn_reading c" "close_rank (cn_state c) \<le> close_rank (cn_state c')"
  shows "conn_inv c'"
  using assms by (auto simp: conn_inv_def proc_ok_def roles_agree_def close_rank_def split: session_state.splits)

lemma handle_terminate_adds: "adds [] c (handle_terminate c)"
  by (rule adds_refl) (auto simp: handle_terminate_def split: option.split terminate_status.split)

lemma conn_inv_handle_terminate: "conn_inv c \<Longrightarrow> conn_inv (handle_terminate c)"
proof (rule conn_inv_adds [OF _ handle_terminate_adds])
  assume "conn_inv c"
  moreover have "cn_reading (handle_terminate c) = cn_reading c" "cn_processor (handle_terminate c) = cn_processor c"
    by (simp_all add: handle_terminate_def split: option.split terminate_status.split)
  ultimately show "cn_reading (handle_terminate c) \<longrightarrow> proc_ok (handle_terminate c)"
    using proc_ok_adds [OF _ handle_terminate_adds] by (simp add: conn_inv_def)
qed simp

context ws_application
begin

lemma handler_reading: "on_message m c = (r, c') \<Longrightarrow> cn_reading c' = cn_reading c \<and> cn_events c' = cn_events c"
  using handler_ops conn_ops_star_reading by blast

lemma read_loop_reading: "read_loop over reserve on_message n buf c = (r, c') \<Longrightarrow> cn_reading c' = cn_reading c"
proof (induction n arbitrary: buf c)
  case (Suc n)
  then show ?case
    by (auto simp: mseq_def mbind_def split: if_splits result.splits option.splits prod.splits
        dest!: Suc.IH dest: handler_reading)
qed (auto split: if_splits)

lemma handle_read_frame_adds:
  assumes "conn_inv c" "cn_reading c" "handle_read_frame over reserve on_message ec buf c = (Ret (), c')"
  shows "\<exists>fs. adds fs c c' \<and> (cn_reading c' \<longrightarrow> proc_ok c')"
proof -
  let ?d = "c\<lparr>cn_reading := False\<rparr>"
  have a: "adds [] c ?d" by (rule adds_refl) simp_all
  show ?thesis
  proof (cases "ec = None \<and> length buf \<le> connection_read_buffer_size")
    case True
    have p: "proc_ok ?d" using assms(1,2) proc_ok_adds [OF _ a] by (simp add: conn_inv_def)
    from read_loop_adds [OF p order_refl] obtain r e fs where
      e: "read_loop over reserve on_message (length buf) buf ?d = (r, e)" "r = Ret True \<longrightarrow> proc_ok e" "adds fs ?d e" by blast
    have ce: "adds fs c e" using adds_trans [OF a e(3)] by simp
    obtain again where r: "r = Ret again" "c' = (if again then e\<lparr>cn_reading := True\<rparr> else e)"
      using assms(3) e(1) True by (cases r) (auto simp: handle_read_frame_def mbind_def)
    show ?thesis
    proof (cases again)
      case True
      have u: "adds [] e (e\<lparr>cn_reading := True\<rparr>)" by (rule adds_refl) simp_all
      show ?thesis using adds_trans [OF ce u] proc_ok_adds [OF _ u] e(2) r True by auto
    qed (use ce r read_loop_reading [OF e(1)] in auto)
  next
    case False
    then have "c' = ?d \<or> (\<exists>e. c' = terminate e ?d)"
      using assms(3) by (auto simp: handle_read_frame_def Let_def split: option.splits if_splits)
    then show ?thesis using a adds_trans [OF a adds_terminate] by auto
  qed
qed

lemma conn_inv_read:
  "conn_inv c \<Longrightarrow> cn_reading c \<Longrightarrow> handle_read_frame over reserve on_message ec buf c = (Ret (), c') \<Longrightarrow> conn_inv c'"
  using handle_read_frame_adds conn_inv_adds by blast

lemma conn_inv_step: "conn_step over reserve on_message c c' \<Longrightarrow> conn_inv c \<Longrightarrow> conn_inv c'"
proof (induction rule: conn_step.induct)
  case (step_op c c')
  then show ?case by (blast intro: conn_inv_op)
next
  case (step_write c)
  then have w: "write_ok c" "output_ok c" by (simp_all add: conn_inv_def)
  show ?case by (rule conn_inv_writing [OF step_write(2)]) (simp_all only: write_frame_inv [OF w] order_refl)
next
  case (step_written c bytes "term")
  then have w: "write_ok c" "output_ok c" by (simp_all add: conn_inv_def)
  show ?case by (rule conn_inv_writing [OF step_written(2)]) (simp_all add: written_inv [OF w step_written(1)])
next
  case (step_write_error c bytes "term" e n)
  then have w: "write_ok c" "output_ok c" by (simp_all add: conn_inv_def)
  show ?case by (rule conn_inv_writing [OF step_write_error(2)]) (simp_all add: write_error_inv [OF w step_write_error(1)])
next
  case (step_read c ec buf c')
  then show ?case by (blast intro: conn_inv_read)
next
  case (step_timeout c)
  then show ?case by (simp add: handle_close_handshake_timeout_def conn_inv_terminate)
next
  case (step_shutdown c st)
  then show ?case by (simp add: conn_inv_handle_terminate)
qed

lemma conn_step_server: "conn_step over reserve on_message c c' \<Longrightarrow> conn_inv c \<Longrightarrow> cn_server c' = cn_server c"
proof (induction rule: conn_step.induct)
  case (step_op c c')
  then show ?case using adds_conn_op by (force simp: conn_inv_def adds_def)
next
  case (step_read c ec buf c')
  then show ?case using handle_read_frame_adds by (force simp: adds_def)
qed (auto simp: write_frame_def write_pop_def handle_write_frame_def terminate_def Let_def handle_terminate_def
    handle_close_handshake_timeout_def split: list.split session_state.split option.split terminate_status.split)

lemma conn_inv_reachable:
  "(conn_step over reserve on_message)\<^sup>*\<^sup>* (conn_opened server rng) c \<Longrightarrow> conn_inv c \<and> cn_server c = server"
proof (induction rule: rtranclp_induct)
  case base
  show ?case using conn_inv_opened by (simp add: conn_opened_def)
qed (auto intro: conn_inv_step simp: conn_step_server)

end

section \<open>The queue drains\<close>

text \<open>The steps of the writing alone: a due \<open>write_frame\<close>, and the completion of the outstanding write.\<close>

inductive drain_step :: "conn \<Rightarrow> conn \<Rightarrow> bool" where
  drain_write: "cn_dispatched c > 0 \<Longrightarrow> drain_step c (write_frame (c\<lparr>cn_dispatched := cn_dispatched c - 1\<rparr>))"
| drain_written: "cn_writing c = Some (bytes, term) \<Longrightarrow>
    drain_step c (handle_write_frame term None (c\<lparr>cn_writing := None, cn_wire := cn_wire c @ bytes\<rparr>))"

lemma drain_step_conn_step: "drain_step c c' \<Longrightarrow> conn_step over reserve on_message c c'"
  by (induction rule: drain_step.induct) (blast intro: step_write step_written)+

definition drain_measure :: "conn \<Rightarrow> nat" where
  "drain_measure c = 3 * length (cn_send_queue c) + (if cn_writing c = None then 0 else 2) + cn_dispatched c"

lemma drain_step_decreases: "drain_step c c' \<Longrightarrow> drain_measure c' < drain_measure c"
  by (induction rule: drain_step.induct)
    (auto simp: drain_measure_def write_frame_def write_pop_def handle_write_frame_def terminate_def dispatch_write_def
      Let_def split: list.split session_state.split)

lemma drain_steps_bound: "(drain_step ^^ n) c c' \<Longrightarrow> n + drain_measure c' \<le> drain_measure c"
  by (induction n arbitrary: c') (fastforce dest: drain_step_decreases)+

lemma drain_ends: "\<exists>c'. drain_step\<^sup>*\<^sup>* c c' \<and> (\<forall>d. \<not> drain_step c' d)"
proof (induction "drain_measure c" arbitrary: c rule: less_induct)
  case less
  show ?case
  proof (cases "\<exists>d. drain_step c d")
    case True
    then obtain d where d: "drain_step c d" by blast
    from less [OF drain_step_decreases [OF d]] d show ?thesis by (meson converse_rtranclp_into_rtranclp)
  qed blast
qed

text \<open>Nothing that stops the writing is queued.\<close>

definition no_terminal :: "conn \<Rightarrow> bool" where
  "no_terminal c \<longleftrightarrow> (\<forall>m \<in> set (cn_send_queue c). \<not> msg_terminal m) \<and> (\<forall>bytes. cn_writing c \<noteq> Some (bytes, True)) \<and> \<not> stopped c"

lemma drain_step_keeps:
  assumes "drain_step c c'" "write_ok c" "output_ok c"
  shows "write_ok c' \<and> output_ok c' \<and> outbox c' = outbox c \<and> (no_terminal c \<longrightarrow> no_terminal c')"
  using assms
proof (induction rule: drain_step.induct)
  case (drain_write c)
  note w = write_frame_inv(1,2,3) [OF drain_write(2,3)]
  have "no_terminal (write_frame (c\<lparr>cn_dispatched := cn_dispatched c - 1\<rparr>))" if "no_terminal c"
    using that by (auto simp: no_terminal_def write_frame_def write_pop_def stopped_def split: list.split)
  with w show ?case by blast
next
  case (drain_written c bytes "term")
  note w = written_inv(1,2,3,8) [OF drain_written(2,3,1)]
  let ?d = "handle_write_frame term None (c\<lparr>cn_writing := None, cn_wire := cn_wire c @ bytes\<rparr>)"
  have "no_terminal ?d" if n: "no_terminal c"
  proof -
    have t: "\<not> term" using n drain_written(1) by (cases "term") (auto simp: no_terminal_def)
    show ?thesis using n w(4) [OF t] t by (simp add: no_terminal_def handle_write_frame_def Let_def)
  qed
  with w show ?case by blast
qed

lemma drain_steps_keep:
  "drain_step\<^sup>*\<^sup>* c c' \<Longrightarrow> write_ok c \<Longrightarrow> output_ok c \<Longrightarrow>
   write_ok c' \<and> output_ok c' \<and> outbox c' = outbox c \<and> (no_terminal c \<longrightarrow> no_terminal c')"
  by (induction rule: rtranclp_induct) (auto dest: drain_step_keeps)

lemma drain_stuck:
  assumes "write_ok c" "\<forall>d. \<not> drain_step c d"
  shows "stopped c \<or> cn_send_queue c = [] \<and> cn_writing c = None \<and> cn_wire c = outbox c"
proof -
  have "cn_dispatched c = 0" "cn_writing c = None"
    using assms(2) drain_write [of c] drain_written [of c] by (cases "cn_writing c", auto)+
  then show ?thesis using assms(1) by (auto simp: write_ok_def waits_def stopped_def outbox_def in_flight_def)
qed

section \<open>Properties\<close>

lemma output_frames:
  assumes "output_ok c"
  shows "\<exists>ds cs rest. concat (map message_bytes (cn_queued c)) = frame_bytes c (ds @ cs) \<and>
    cn_wire c @ rest = concat (map message_bytes (cn_queued c)) \<and>
    (\<forall>f \<in> set ds. fr_opcode f \<noteq> CLOSE) \<and> (\<forall>f \<in> set cs. fr_opcode f = CLOSE) \<and>
    (cs \<noteq> [] \<longrightarrow> close_rank (cn_state c) \<ge> 2) \<and>
    (\<not> stopped c \<longrightarrow> rest = in_flight c @ concat (map message_bytes (cn_send_queue c)))"
proof -
  obtain fs where fs: "close_order S_open fs (cn_state c)"
    "if stopped c then (\<exists>t. frame_bytes c fs = cn_wire c @ t) else outbox c = frame_bytes c fs"
    "concat (map message_bytes (cn_queued c)) = frame_bytes c fs"
    using assms by (auto simp: output_ok_def)
  from fs(2) obtain rest where r: "cn_wire c @ rest = frame_bytes c fs"
    "\<not> stopped c \<longrightarrow> rest = in_flight c @ concat (map message_bytes (cn_send_queue c))"
    by (cases "stopped c") (auto simp: outbox_def)
  from fs(1) obtain ds cs where "fs = ds @ cs" "\<forall>f \<in> set ds. fr_opcode f \<noteq> CLOSE" "\<forall>f \<in> set cs. fr_opcode f = CLOSE"
    "cs \<noteq> [] \<longrightarrow> close_rank (cn_state c) \<ge> 2" unfolding close_order_def by blast
  with r fs(3) show ?thesis by (intro exI [of _ ds] exI [of _ cs] exI [of _ rest]) simp
qed

text \<open>C8: At every moment of a connection, whatever the application, the peer and the transport do: the messages ever given to
  \<open>write_push\<close> (\<open>cn_queued\<close>) are a sequence of frames, masked exactly on a client, in which no frame follows a close frame
  but another close frame, and none is there unless the connection is closing or closed; the bytes on the wire are a
  beginning of their bytes, and as long as writing has not ended the rest is the write in progress and the queue, so
  nothing queued is lost, repeated or reordered; and the buffered amount is the size of the payloads in the queue.\<close>

theorem connection_output:
  assumes "ws_application reserve on_message" "(conn_step over reserve on_message)\<^sup>*\<^sup>* (conn_opened server rng) c"
  shows "cn_send_buffer_size c = queue_size c \<and>
    (\<exists>ds cs rest. concat (map message_bytes (cn_queued c)) = concat (map (encode_frame (\<not> server)) (ds @ cs)) \<and>
      cn_wire c @ rest = concat (map message_bytes (cn_queued c)) \<and>
      (\<forall>f \<in> set ds. fr_opcode f \<noteq> CLOSE) \<and> (\<forall>f \<in> set cs. fr_opcode f = CLOSE) \<and>
      (cs \<noteq> [] \<longrightarrow> cn_state c = S_closing \<or> cn_state c = S_closed) \<and>
      (\<not> stopped c \<longrightarrow> rest = in_flight c @ concat (map message_bytes (cn_send_queue c))))"
proof -
  have inv: "conn_inv c" "cn_server c = server" using ws_application.conn_inv_reachable [OF assms] by simp_all
  have "close_rank (cn_state c) \<ge> 2 \<longleftrightarrow> cn_state c = S_closing \<or> cn_state c = S_closed"
    by (cases "cn_state c") (simp_all add: close_rank_def)
  with output_frames [of c] inv show ?thesis by (simp add: conn_inv_def write_ok_def frame_bytes_def)
qed

text \<open>For the examples: an application that ignores its messages, and a client that has sent one.\<close>

lemma ignoring_application: "ws_application reserve (\<lambda>m c. (Ret (), c))"
  by unfold_locales simp

definition demo_sent :: conn where
  "demo_sent = snd (conn_send (\<lambda>n. None) ''hi'' TEXT (conn_opened False (\<lambda>n. 0x11223344)))"

lemma demo_sent_reachable: "(conn_step over (\<lambda>n. None) (\<lambda>m c. (Ret (), c)))\<^sup>*\<^sup>* (conn_opened False (\<lambda>n. 0x11223344)) demo_sent"
proof -
  obtain r c where s: "conn_send (\<lambda>n. None) ''hi'' TEXT (conn_opened False (\<lambda>n. 0x11223344)) = (r, c)" by fastforce
  then obtain ec where "r = Ret ec" by (auto simp: conn_send_def get_message_sized_def split: prod.splits)
  then have "conn_op (\<lambda>n. None) (conn_opened False (\<lambda>n. 0x11223344)) c" using s op_send by blast
  then show ?thesis using s by (auto simp: demo_sent_def intro: step_op)
qed

theorem connection_output_witness:
  "\<exists>ds cs rest. concat (map message_bytes (cn_queued demo_sent)) = concat (map (encode_frame True) (ds @ cs)) \<and>
    cn_wire demo_sent @ rest = concat (map message_bytes (cn_queued demo_sent)) \<and>
    (cs \<noteq> [] \<longrightarrow> cn_state demo_sent = S_closing \<or> cn_state demo_sent = S_closed)"
  using connection_output [OF ignoring_application demo_sent_reachable, THEN conjunct2] unfolding not_False_eq_True by blast

text \<open>C9: What is queued is written: from every reachable state the writing alone, a due \<open>write_frame\<close> or the completion of a write
  at a time, comes to an end after a bounded number of steps whatever their order, and then everything queued is on the
  wire, in order, and nothing is being written; unless the writing was stopped by an error before, or by a terminal message
  (a close frame of the server, or of an error), and then what is on the wire is a beginning of it.\<close>

theorem connection_drains:
  assumes "ws_application reserve on_message" "(conn_step over reserve on_message)\<^sup>*\<^sup>* (conn_opened server rng) c"
  shows "(\<exists>c'. drain_step\<^sup>*\<^sup>* c c' \<and> (\<forall>d. \<not> drain_step c' d)) \<and>
    (\<forall>n c'. (drain_step ^^ n) c c' \<longrightarrow> n \<le> 3 * length (cn_send_queue c) + 2 + cn_dispatched c \<and>
      (\<exists>rest. outbox c = cn_wire c' @ rest) \<and>
      ((\<forall>d. \<not> drain_step c' d) \<longrightarrow>
        cn_send_queue c' = [] \<and> cn_writing c' = None \<and> cn_wire c' = outbox c \<or> stopped c' \<and> \<not> no_terminal c))"
proof (intro conjI allI impI)
  have ok: "write_ok c" "output_ok c" using ws_application.conn_inv_reachable [OF assms] by (simp_all add: conn_inv_def)
  show "\<exists>c'. drain_step\<^sup>*\<^sup>* c c' \<and> (\<forall>d. \<not> drain_step c' d)" by (rule drain_ends)
  fix n c'
  assume n: "(drain_step ^^ n) c c'"
  show "n \<le> 3 * length (cn_send_queue c) + 2 + cn_dispatched c"
    using drain_steps_bound [OF n] by (simp add: drain_measure_def split: if_splits)
  note k = drain_steps_keep [OF relpowp_imp_rtranclp [OF n] ok]
  show "\<exists>rest. outbox c = cn_wire c' @ rest"
    using k by (intro exI [of _ "in_flight c' @ concat (map message_bytes (cn_send_queue c'))"]) (simp add: outbox_def [of c'])
  assume "\<forall>d. \<not> drain_step c' d"
  from drain_stuck [OF _ this] k
  show "cn_send_queue c' = [] \<and> cn_writing c' = None \<and> cn_wire c' = outbox c \<or> stopped c' \<and> \<not> no_terminal c"
    by (auto simp: no_terminal_def [of c'])
qed

theorem connection_drains_witness:
  "\<exists>c'. drain_step\<^sup>*\<^sup>* demo_sent c' \<and> (\<forall>d. \<not> drain_step c' d)"
  using connection_drains [OF ignoring_application demo_sent_reachable] by blast

end
