(* ===== verification/Ws_Reading.thy ===== *)
theory Ws_Reading
  imports Ws_Session
begin

text \<open>
  The read loop of a connection against the messages of the stream: reading any buffers of a stream of frames handles, one
  after the other, the messages that the frame specification of \<open>Ws_Stream\<close> gives for it. For this the handling of
  a message must not look at the reader, that is at the processor (but for its role) and at the outstanding read.
\<close>

definition with_reader :: "hybi13 \<Rightarrow> bool \<Rightarrow> conn \<Rightarrow> conn" where
  "with_reader p b c = c\<lparr>cn_processor := p, cn_reading := b\<rparr>"

lemma with_reader_simps [simp]:
  "cn_state (with_reader p b c) = cn_state c" "cn_server (with_reader p b c) = cn_server c"
  "cn_processor (with_reader p b c) = p" "cn_reading (with_reader p b c) = b"
  "cn_send_queue (with_reader p b c) = cn_send_queue c" "cn_write_flag (with_reader p b c) = cn_write_flag c"
  "cn_remote_close_code (with_reader p b c) = cn_remote_close_code c"
  "cn_remote_close_reason (with_reader p b c) = cn_remote_close_reason c" "cn_events (with_reader p b c) = cn_events c"
  "with_reader p b (with_reader q a c) = with_reader p b c"
  by (simp_all add: with_reader_def)

lemma with_reader_id: "with_reader (cn_processor c) (cn_reading c) c = c"
  by (simp add: with_reader_def)

lemma next_key_blind [simp]: "next_key (with_reader p b c) = next_key c"
  by (simp add: next_key_def with_reader_def)

lemma queue_blind [simp]:
  "write_push m (with_reader p b c) = with_reader p b (write_push m c)"
  "dispatch_write (with_reader p b c) = with_reader p b (dispatch_write c)"
  "key_drawn (with_reader p b c) = with_reader p b (key_drawn c)"
  by (simp_all add: write_push_def dispatch_write_def key_drawn_def with_reader_def)

lemma prepare_role:
  assumes "hy_server p = hy_server q"
  shows "prepare_data_frame p key i out = prepare_data_frame q key i out"
    "prepare_control p key op payload out = prepare_control q key op payload out"
    "prepare_pong p key payload out = prepare_pong q key payload out"
    "prepare_close p key status reason out = prepare_close q key status reason out"
proof -
  show c: "prepare_control p key op payload out = prepare_control q key op payload out" for op payload
    unfolding prepare_control_def assms ..
  show "prepare_data_frame p key i out = prepare_data_frame q key i out"
    unfolding prepare_data_frame_def assms ..
  show "prepare_pong p key payload out = prepare_pong q key payload out"
    "prepare_close p key status reason out = prepare_close q key status reason out"
    by (simp_all add: prepare_pong_def prepare_close_def c)
qed

lemma send_msg_blind:
  "hy_server p = hy_server (cn_processor c) \<Longrightarrow>
   send_msg m (with_reader p b c) = map_prod id (with_reader p b) (send_msg m c)"
  by (simp add: send_msg_def prepare_role(1) [of p "cn_processor c"] split: sum.split)

lemma conn_send_blind:
  "hy_server p = hy_server (cn_processor c) \<Longrightarrow>
   conn_send reserve payload op (with_reader p b c) = map_prod id (with_reader p b) (conn_send reserve payload op c)"
  by (simp add: conn_send_def send_msg_blind split: result.split prod.split)

lemma conn_pong_blind:
  "hy_server p = hy_server (cn_processor c) \<Longrightarrow>
   conn_pong payload (with_reader p b c) = map_prod id (with_reader p b) (conn_pong payload c)"
  by (simp add: conn_pong_def prepare_role(3) [of p "cn_processor c"] split: sum.split)

lemma send_close_frame_blind:
  "hy_server p = hy_server (cn_processor c) \<Longrightarrow>
   send_close_frame status reason ack terminal (with_reader p b c) =
     map_prod id (with_reader p b) (send_close_frame status reason ack terminal c)"
proof -
  assume p: "hy_server p = hy_server (cn_processor c)"
  obtain lc lr where l: "close_says status reason ack c = (lc, lr)" by fastforce
  let ?u = "\<lambda>c. c\<lparr>cn_local_close_code := lc, cn_local_close_reason := lr\<rparr>"
  let ?v = "\<lambda>c. c\<lparr>cn_state := S_closing, cn_handshake_timer := True\<rparr>"
  have "close_says status reason ack (with_reader p b c) = close_says status reason ack c" by (simp add: close_says_def)
  then have w: "close_says status reason ack (with_reader p b c) = (lc, lr)" using l by simp
  have u: "?u (with_reader p b c) = with_reader p b (?u c)" "?v (with_reader p b d) = with_reader p b (?v d)" for d
    by (simp_all add: with_reader_def)
  have r: "prepare_close p key lc lr out = prepare_close (cn_processor c) key lc lr out" for key out
    by (rule prepare_role(4) [OF p])
  show ?thesis
    unfolding send_close_frame_def l w prod.case Let_def u
    by (simp add: r u split: sum.split)
qed

lemma terminate_blind: "terminate ec (with_reader p b c) = with_reader p b (terminate ec c)"
  by (cases ec; cases "cn_state c") (simp_all add: terminate_def with_reader_def)

text \<open>What the loop does with a message.\<close>

definition handle_message :: "(ws_message \<Rightarrow> (conn, unit) proc) \<Rightarrow> ws_message \<Rightarrow> (conn, unit) proc" where
  "handle_message on_message m c =
     (if \<not> is_control (msg_opcode m) then on_message m (c\<lparr>cn_events := cn_events c @ [E_message m]\<rparr>)
      else (Ret (), process_control_frame m c))"

lemma send_close_ack_blind:
  "hy_server p = hy_server (cn_processor c) \<Longrightarrow>
   snd (send_close_ack status reason (with_reader p b c)) = with_reader p b (snd (send_close_ack status reason c))"
  by (simp add: send_close_ack_def send_close_frame_blind)

lemma remote_blind:
  "(with_reader p b c)\<lparr>cn_remote_close_code := st\<rparr> = with_reader p b (c\<lparr>cn_remote_close_code := st\<rparr>)"
  "(with_reader p b c)\<lparr>cn_remote_close_reason := rs\<rparr> = with_reader p b (c\<lparr>cn_remote_close_reason := rs\<rparr>)"
  "(with_reader p b c)\<lparr>cn_events := ev\<rparr> = with_reader p b (c\<lparr>cn_events := ev\<rparr>)"
  by (simp_all add: with_reader_def)

lemma process_control_frame_blind:
  assumes "hy_server p = hy_server (cn_processor c)"
  shows "process_control_frame m (with_reader p b c) = with_reader p b (process_control_frame m c)"
proof -
  obtain st ec where x: "extract_code (msg_payload m) = (st, ec)" by fastforce
  obtain rs er where y: "extract_reason (msg_payload m) = (rs, er)" by fastforce
  define c1 where "c1 = c\<lparr>cn_remote_close_code := st\<rparr>"
  define c2 where "c2 = c1\<lparr>cn_remote_close_reason := rs\<rparr>"
  have u: "(with_reader p b c)\<lparr>cn_remote_close_code := st\<rparr> = with_reader p b c1"
    "(with_reader p b c1)\<lparr>cn_remote_close_reason := rs\<rparr> = with_reader p b c2"
    "c\<lparr>cn_remote_close_code := st\<rparr> = c1" "c1\<lparr>cn_remote_close_reason := rs\<rparr> = c2"
    by (simp_all add: c1_def c2_def remote_blind)
  have r: "hy_server p = hy_server (cn_processor c1)" "hy_server p = hy_server (cn_processor c2)"
    using assms by (simp_all add: c1_def c2_def)
  note b = send_close_ack_blind [OF r(1)] send_close_ack_blind [OF r(2)] terminate_blind
  consider "msg_opcode m = PING" | "msg_opcode m = PONG" | "msg_opcode m = CLOSE" |
    "msg_opcode m \<noteq> PING \<and> msg_opcode m \<noteq> PONG \<and> msg_opcode m \<noteq> CLOSE" by blast
  then show ?thesis
  proof cases
    case 3
    show ?thesis
    proof (cases ec)
      case None
      show ?thesis
        by (cases er) (simp_all only: process_control_frame_def 3 x y u Let_def prod.case None option.case, simp_all add: b)
    qed (simp only: process_control_frame_def 3 x u Let_def prod.case option.case, simp add: b)
  qed (simp_all add: process_control_frame_def conn_pong_blind [OF assms] remote_blind)
qed

lemma conn_op_server: "conn_op reserve c c' \<Longrightarrow> cn_server c' = cn_server c"
  by (induction rule: conn_op.induct)
    (auto simp: conn_send_def send_msg_def conn_ping_def conn_pong_def conn_close_def send_close_frame_def Let_def get_message_sized_def
      split: if_splits sum.splits option.splits prod.splits)

lemma conn_ops_server: "(conn_op reserve)\<^sup>*\<^sup>* c c' \<Longrightarrow> cn_server c' = cn_server c"
  by (induction rule: rtranclp_induct) (auto dest: conn_op_server)

text \<open>An application whose message handler does not look at the reader.\<close>

locale ws_blind_application = ws_application +
  assumes handler_blind: "hy_server p = hy_server (cn_processor c) \<Longrightarrow>
    on_message m (with_reader p b c) = map_prod id (with_reader p b) (on_message m c)"
begin

lemma handle_message_blind:
  "hy_server p = hy_server (cn_processor c) \<Longrightarrow>
   handle_message on_message m (with_reader p b c) = map_prod id (with_reader p b) (handle_message on_message m c)"
  using handler_blind [of p "c\<lparr>cn_events := cn_events c @ [E_message m]\<rparr>" m b]
  by (simp add: handle_message_def remote_blind process_control_frame_blind)

lemma handle_message_reader:
  assumes "handle_message on_message m c = (r, c')"
  shows "cn_processor c' = cn_processor c" "cn_reading c' = cn_reading c"
  using assms handler_ops conn_ops_star_processor handler_reading
  by (fastforce simp: handle_message_def split: if_splits)+

lemma handle_message_server:
  assumes "roles_agree c" "handle_message on_message m c = (r, c')"
  shows "cn_server c' = cn_server c"
proof (cases "is_control (msg_opcode m)")
  case True
  then have "c' = process_control_frame m c" using assms(2) by (simp add: handle_message_def)
  then show ?thesis using adds_process_control_frame [OF assms(1), of m] by (auto simp: adds_def)
next
  case False
  then have "(conn_op reserve)\<^sup>*\<^sup>* (c\<lparr>cn_events := cn_events c @ [E_message m]\<rparr>) c'"
    using assms(2) handler_ops by (simp add: handle_message_def)
  then show ?thesis using conn_ops_server by fastforce
qed

lemma handle_messages_blind:
  "hy_server p = hy_server (cn_processor c) \<Longrightarrow> mfor (handle_message on_message) ms c = (Ret (), c') \<Longrightarrow>
   mfor (handle_message on_message) ms (with_reader p b c) = (Ret (), with_reader p b c')"
proof (induction ms arbitrary: c)
  case (Cons m ms)
  then obtain d where d: "handle_message on_message m c = (Ret (), d)"
    "mfor (handle_message on_message) ms d = (Ret (), c')"
    by (auto simp: mseq_def mbind_def split: prod.splits result.splits)
  have "handle_message on_message m (with_reader p b c) = (Ret (), with_reader p b d)"
    using handle_message_blind [OF Cons.prems(1)] d(1) by simp
  moreover have "hy_server p = hy_server (cn_processor d)"
    using Cons.prems(1) handle_message_reader(1) [OF d(1)] by simp
  ultimately show ?case using Cons.IH d(2) by (simp add: mseq_def mbind_def)
qed (simp add: mret_def)

lemma handle_messages_reader:
  "mfor (handle_message on_message) ms c = (Ret (), c') \<Longrightarrow> cn_processor c' = cn_processor c \<and> cn_reading c' = cn_reading c"
proof (induction ms arbitrary: c)
  case (Cons m ms)
  then obtain d where "handle_message on_message m c = (Ret (), d)" "mfor (handle_message on_message) ms d = (Ret (), c')"
    by (auto simp: mseq_def mbind_def split: prod.splits result.splits)
  then show ?case using Cons.IH handle_message_reader by metis
qed (simp add: mret_def)

end

context ws_application
begin

lemma handle_message_adds:
  assumes "roles_agree c" "handle_message on_message m c = (r, c')"
  shows "\<exists>fs. adds fs c c'"
proof (cases "is_control (msg_opcode m)")
  case True
  then show ?thesis using adds_process_control_frame [OF assms(1), of m] assms(2) by (simp add: handle_message_def)
next
  case False
  let ?e = "c\<lparr>cn_events := cn_events c @ [E_message m]\<rparr>"
  have e: "adds [] c ?e" by (rule adds_refl) simp_all
  have "on_message m ?e = (r, c')" using assms(2) False by (simp add: handle_message_def)
  from handler_adds(2) [OF adds_roles [OF e assms(1)] this] adds_trans [OF e] show ?thesis by blast
qed

lemma handle_messages_adds:
  "roles_agree c \<Longrightarrow> mfor (handle_message on_message) ms c = (Ret (), c') \<Longrightarrow> \<exists>fs. adds fs c c'"
proof (induction ms arbitrary: c)
  case Nil
  then show ?case using adds_refl [of c c] by (auto simp: mret_def)
next
  case (Cons m ms)
  then obtain d where d: "handle_message on_message m c = (Ret (), d)" "mfor (handle_message on_message) ms d = (Ret (), c')"
    by (auto simp: mseq_def mbind_def split: prod.splits result.splits)
  from handle_message_adds [OF Cons.prems(1) d(1)] obtain fs where "adds fs c d" by blast
  with Cons.IH [OF adds_roles d(2)] Cons.prems(1) adds_trans show ?case by blast
qed

lemma handle_messages_output:
  assumes "conn_inv c" "mfor (handle_message on_message) ms c = (Ret (), c')"
  shows "write_ok (with_reader p b c')" "output_ok (with_reader p b c')"
proof -
  obtain fs where "adds fs c c'" using handle_messages_adds [OF _ assms(2)] assms(1) by (auto simp: conn_inv_def)
  then have "write_ok c'" "output_ok c'" using adds_inv assms(1) by (auto simp: conn_inv_def)
  moreover have "frame_bytes (with_reader p b c') = frame_bytes c'" "stopped (with_reader p b c') = stopped c'"
    "outbox (with_reader p b c') = outbox c'" "cn_wire (with_reader p b c') = cn_wire c'"
    "cn_queued (with_reader p b c') = cn_queued c'"
    by (simp_all add: with_reader_def stopped_def outbox_def in_flight_def frame_bytes_def fun_eq_iff)
  ultimately show "write_ok (with_reader p b c')" "output_ok (with_reader p b c')"
    unfolding output_ok_def by (simp_all only: with_reader_simps) (simp add: write_ok_def with_reader_def waits_def queue_size_def stopped_def)
qed

end

section \<open>The loop hands over the messages of the stream\<close>

context ws_blind_application
begin

lemma handle_message_cases:
  "read_message = handle_message on_message m (c\<lparr>cn_processor := q\<rparr>) \<Longrightarrow> hy_server q = hy_server (cn_processor c) \<Longrightarrow>
   handle_message on_message m c = (Ret (), d) \<Longrightarrow> read_message = (Ret (), with_reader q (cn_reading c) d)"
proof -
  assume r: "read_message = handle_message on_message m (c\<lparr>cn_processor := q\<rparr>)" "hy_server q = hy_server (cn_processor c)"
    "handle_message on_message m c = (Ret (), d)"
  have "c\<lparr>cn_processor := q\<rparr> = with_reader q (cn_reading c) c" by (simp add: with_reader_def)
  then show ?thesis using handle_message_blind [OF r(2), of m "cn_reading c"] r by simp
qed

lemma read_loop_messages:
  assumes "proc_ok c" "length buf \<le> n" "deliver over reserve (cn_processor c) buf = (ms, Ret (Inl t))"
    "mfor (handle_message on_message) ms c = (Ret (), c')"
  shows "read_loop over reserve on_message n buf c = (Ret True, with_reader t (cn_reading c) c')"
  using assms
proof (induction n arbitrary: buf c ms c')
  case 0
  then have "t = cn_processor c" "c' = c" by (simp_all add: mret_def)
  then show ?case using 0 by (simp add: with_reader_def)
next
  case (Suc n)
  have ok: "hybi_ok (cn_processor c)" "reading (cn_processor c)" "roles_agree c" using Suc.prems(1) by (simp_all add: proc_ok_def)
  show ?case
  proof (cases "buf = []")
    case True
    then have "t = cn_processor c" "c' = c" using Suc.prems by (simp_all add: mret_def)
    then show ?thesis using True by (simp add: with_reader_def)
  next
    case ne: False
    from Suc.prems(3) obtain p rest where cs: "consume over reserve (cn_processor c) buf = Ret (p, rest, None)"
      by (auto simp: deliver_consume [OF ok(1,2) ne] deliver_rest_def outc_def split: result.splits prod.splits option.splits)
    have dl: "deliver_rest over reserve (Ret (Inl (p, rest))) = (ms, Ret (Inl t))"
      using Suc.prems(3) deliver_consume [OF ok(1,2) ne, of over reserve] cs by (simp add: outc_def)
    have p: "hybi_ok p" by (rule consume_ok [OF ok(1) cs])
    have sv: "hy_server p = hy_server (cn_processor c)" by (rule consume_server [OF cs])
    have l: "length rest \<le> n" using consume_reading(1) [OF ok(1,2) ne cs] Suc.prems(2) by simp
    show ?thesis
    proof (cases "hy_state p = READY")
      case True
      obtain m q where g: "get_message p = Ret (Some m, q)" "hybi_ok q" "reading q"
        by (rule get_message_ready [OF p True])
      have sq: "hy_server q = hy_server (cn_processor c)" using get_message_server [OF g(1)] sv by simp
      obtain ms' where ms: "ms = m # ms'" "deliver over reserve q rest = (ms', Ret (Inl t))"
        using dl True g(1) by (auto simp: deliver_rest_def split: prod.splits)
      obtain d where d: "handle_message on_message m c = (Ret (), d)" "mfor (handle_message on_message) ms' d = (Ret (), c')"
        using Suc.prems(4) ms(1) by (auto simp: mseq_def mbind_def split: prod.splits result.splits)
      let ?d = "with_reader q (cn_reading c) d"
      have h: "handle_message on_message m (c\<lparr>cn_processor := q\<rparr>) = (Ret (), ?d)"
        by (rule handle_message_cases [OF refl sq d(1)])
      have e: "read_loop over reserve on_message (Suc n) buf c = read_loop over reserve on_message n rest ?d"
        using h ne cs True g(1) by (auto simp: handle_message_def mseq_def mbind_def split: if_splits)
      have pd: "proc_ok ?d" using g(2,3) sq ok(3) handle_message_server [OF ok(3) d(1)] by (simp add: proc_ok_def roles_agree_def)
      have mf: "mfor (handle_message on_message) ms' ?d = (Ret (), with_reader q (cn_reading c) c')"
        using handle_messages_blind [OF _ d(2)] sq handle_message_reader(1) [OF d(1)] by simp
      have dr: "deliver over reserve (cn_processor ?d) rest = (ms', Ret (Inl t))" using ms(2) by simp
      show ?thesis unfolding e Suc.IH [OF pd l dr mf] by simp
    next
      case False
      then have w: "reading p" "rest = []" using consume_reading(2) [OF ok(1,2) ne cs] by auto
      then have t: "t = p" "ms = []" using dl False by (simp_all add: deliver_rest_def)
      have "c' = c" using Suc.prems(4) t by (simp add: mret_def)
      then show ?thesis using False ne cs t w by (cases n) (simp_all add: with_reader_def)
    qed
  qed
qed

end

section \<open>Buffers\<close>

lemma mfor_append_Ret:
  "mfor f (xs @ ys) c = (Ret (), c') \<longleftrightarrow> (\<exists>d. mfor f xs c = (Ret (), d) \<and> mfor f ys d = (Ret (), c'))"
  by (induction xs arbitrary: c) (auto simp: mseq_def mbind_def mret_def split: prod.splits result.splits)

context ws_blind_application
begin

lemma read_buffer_messages:
  assumes "proc_ok c" "length buf \<le> connection_read_buffer_size"
    "deliver over reserve (cn_processor c) buf = (ms, Ret (Inl t))" "mfor (handle_message on_message) ms c = (Ret (), c')"
  shows "handle_read_frame over reserve on_message None buf c = (Ret (), with_reader t True c')"
    "proc_ok (with_reader t True c')" "hy_server t = hy_server (cn_processor c')"
proof -
  let ?d = "with_reader (cn_processor c) False c"
  have d: "c\<lparr>cn_reading := False\<rparr> = ?d" by (simp add: with_reader_def)
  have p: "proc_ok ?d" using assms(1) by (simp add: proc_ok_def roles_agree_def)
  have m: "mfor (handle_message on_message) ms ?d = (Ret (), with_reader (cn_processor c) False c')"
    by (rule handle_messages_blind [OF refl assms(4)])
  have "deliver over reserve (cn_processor ?d) buf = (ms, Ret (Inl t))" using assms(3) by simp
  note l = read_loop_messages [OF p order_refl this m]
  have u: "(with_reader t False c')\<lparr>cn_reading := True\<rparr> = with_reader t True c'" by (simp add: with_reader_def)
  show "handle_read_frame over reserve on_message None buf c = (Ret (), with_reader t True c')"
    using assms(2) l unfolding handle_read_frame_def d by (simp add: mbind_def u)
  from read_loop_adds [OF p order_refl, of over buf] l obtain fs where
    r: "proc_ok (with_reader t False c')" "adds fs ?d (with_reader t False c')" by auto
  then show "proc_ok (with_reader t True c')" by (simp add: proc_ok_def roles_agree_def)
  have "cn_processor c' = cn_processor c" using handle_messages_reader [OF assms(4)] by simp
  then show "hy_server t = hy_server (cn_processor c')" using r(2) by (simp add: adds_def)
qed

lemma read_buffers_messages:
  assumes "proc_ok c" "cn_reading c" "\<forall>x \<in> set cs. length x \<le> connection_read_buffer_size"
    "deliver_chunks over reserve cs (cn_processor c) = (ms, Ret (Inl t))"
    "mfor (handle_message on_message) ms c = (Ret (), c')"
  shows "mfor (handle_read_frame over reserve on_message None) cs c = (Ret (), with_reader t True c')"
  using assms
proof (induction cs arbitrary: c ms c')
  case Nil
  then have "t = cn_processor c" "c' = c" by (simp_all add: mret_def)
  then show ?case using Nil(2) with_reader_id [of c] by (simp add: mret_def)
next
  case (Cons x cs)
  obtain ms1 t1 ms2 where dl: "deliver over reserve (cn_processor c) x = (ms1, Ret (Inl t1))"
    "deliver_chunks over reserve cs t1 = (ms2, Ret (Inl t))" "ms = ms1 @ ms2"
    using Cons.prems(4) by (auto split: prod.splits result.splits sum.splits)
  obtain d where d: "mfor (handle_message on_message) ms1 c = (Ret (), d)" "mfor (handle_message on_message) ms2 d = (Ret (), c')"
    using Cons.prems(5) dl(3) by (auto simp: mfor_append_Ret)
  have x: "length x \<le> connection_read_buffer_size" using Cons.prems(3) by simp
  note r = read_buffer_messages [OF Cons.prems(1) x dl(1) d(1)]
  let ?d = "with_reader t1 True d"
  have m: "mfor (handle_message on_message) ms2 ?d = (Ret (), with_reader t1 True c')"
    by (rule handle_messages_blind [OF r(3) d(2)])
  have dd: "deliver_chunks over reserve cs (cn_processor ?d) = (ms2, Ret (Inl t))" using dl(2) by simp
  have rd: "cn_reading ?d" by simp
  have cs: "\<forall>x \<in> set cs. length x \<le> connection_read_buffer_size" using Cons.prems(3) by simp
  from Cons.IH [OF r(2) rd cs dd m] r(1) show ?case by (simp add: mseq_def mbind_def)
qed

end

lemma opened_reads:
  assumes "ws_blind_application reserve on_message" "over_ok over" "list_all (frame_ok reserve) fs"
    "concat cs = concat (map (encode_frame masked) fs)" "\<forall>x \<in> set cs. length x \<le> connection_read_buffer_size"
    "spec_stream server masked None fs = (ms, Inr p)"
    "mfor (handle_message on_message) ms (conn_opened server rng) = (Ret (), c)"
  shows "\<exists>t. mfor (handle_read_frame over reserve on_message None) cs (conn_opened server rng) = (Ret (), with_reader t True c) \<and>
    idle t \<and> partial_of t = p"
proof -
  let ?s = "hybi13_new server" and ?c = "conn_opened server rng"
  have s: "hy_server ?s = server" by (simp add: hybi13_new_def)
  obtain t where t: "deliver over reserve ?s (concat cs) = (ms, Ret (Inl t))" "idle t" "partial_of t = p"
    using deliver_frames [OF idle_new(1) [of server] assms(3), where masked = masked and over = over] assms(6)
    unfolding s idle_new(2) assms(4) by auto
  have p: "cn_processor ?c = ?s" "cn_reading ?c" by (simp_all add: conn_opened_def)
  then have ok: "proc_ok ?c" using conn_inv_opened [of server rng] by (simp add: conn_inv_def)
  have "deliver_chunks over reserve cs (cn_processor ?c) = (ms, Ret (Inl t))"
    using t(1) deliver_chunks_concat [OF assms(2) hybi_ok_new reading_new, of reserve cs server] p by simp
  from ws_blind_application.read_buffers_messages [OF assms(1) ok p(2) assms(5) this assms(7)] t(2,3) show ?thesis by blast
qed

text \<open>C10: The read path of a connection refines the frame specification: on an opened connection, however the bytes of the frames
  are cut into reads of at most the buffer's size, the completed reads do to the connection exactly what handling the
  specification's messages one after the other does, and the connection goes on reading, between two frames, with the
  specification's partial message.\<close>

theorem connection_reads:
  assumes "ws_blind_application reserve on_message" "over_ok over" "list_all (frame_ok reserve) fs"
    "concat cs = concat (map (encode_frame masked) fs)" "\<forall>x \<in> set cs. length x \<le> connection_read_buffer_size"
    "spec_stream server masked None fs = (ms, Inr p)"
    "mfor (handle_message on_message) ms (conn_opened server rng) = (Ret (), c)"
  shows "\<exists>t. mfor (handle_read_frame over reserve on_message None) cs (conn_opened server rng) = (Ret (), with_reader t True c) \<and>
    idle t \<and> partial_of t = p"
  by (rule opened_reads [OF assms])

lemma ignoring_blind: "ws_blind_application reserve (\<lambda>m c. (Ret (), c))"
  by (intro ws_blind_application.intro ignoring_application ws_blind_application_axioms.intro) simp

theorem connection_reads_witness:
  "\<exists>c t. mfor (handle_read_frame (\<lambda>k. k) (\<lambda>n. None) (\<lambda>m c. (Ret (), c)) None)
      (map (\<lambda>b. [b]) (concat (map (encode_frame True) demo_frames))) (conn_opened True (\<lambda>n. 0)) = (Ret (), with_reader t True c) \<and>
    cn_events c = [E_message (append_payload ''message'' (message_new TEXT))] \<and> idle t"
proof -
  let ?ping = "append_payload ''?'' (message_new PING)" and ?text = "append_payload ''message'' (message_new TEXT)"
  let ?p = "process_control_frame ?ping (conn_opened True (\<lambda>n. 0))"
  let ?c = "?p\<lparr>cn_events := cn_events ?p @ [E_message ?text]\<rparr>"
  have m: "mfor (handle_message (\<lambda>m c. (Ret (), c))) [?ping, ?text] (conn_opened True (\<lambda>n. 0)) = (Ret (), ?c)"
    by (simp add: handle_message_def mseq_def mbind_def mret_def message_new_def append_payload_def not_control_CLOSE)
      (simp add: is_control_def word_le_nat_alt)
  have e: "cn_events ?p = []"
    by (simp add: process_control_frame_def message_new_def append_payload_def) (simp add: conn_opened_def)
  have cs: "concat (map (\<lambda>b. [b]) bs) = bs" for bs :: string by (induction bs) simp_all
  have l: "\<forall>x \<in> set (map (\<lambda>b. [b]) bs). length x \<le> connection_read_buffer_size" for bs :: string
    by (simp add: connection_read_buffer_size_def)
  from connection_reads [OF ignoring_blind over_ok_cases(1) demo_frames_ok cs l demo_frames_spec m] obtain t where
    "mfor (handle_read_frame (\<lambda>k. k) (\<lambda>n. None) (\<lambda>m c. (Ret (), c)) None)
      (map (\<lambda>b. [b]) (concat (map (encode_frame True) demo_frames))) (conn_opened True (\<lambda>n. 0)) = (Ret (), with_reader t True ?c)"
    "idle t" by blast
  with e show ?thesis by (intro exI [of _ ?c] exI [of _ t]) simp
qed

section \<open>Closing twice\<close>

text \<open>A server that has sent a close frame gets, in one read, the acknowledgement and another close frame with a payload of one
  byte. The first closes the connection; the answer to the second sets it back to closing, with a new timer: a second
  close frame is queued, and the close handler is called a second time when the timer ends.\<close>

definition late_frames :: "ws_frame list" where
  "late_frames = [\<lparr>fr_opcode = CLOSE, fr_fin = True, fr_key = 0, fr_payload = [CHR 0x03, CHR 0xE8]\<rparr>,
     \<lparr>fr_opcode = CLOSE, fr_fin = True, fr_key = 0, fr_payload = [CHR 0x03]\<rparr>]"

definition late_messages :: "ws_message list" where
  "late_messages = map (\<lambda>f. append_payload (fr_payload f) (message_new CLOSE)) late_frames"

definition closing_server :: conn where
  "closing_server = snd (conn_close 1000 [] (conn_opened True (\<lambda>n. 0)))"

definition late_server :: conn where
  "late_server = foldl (\<lambda>c m. process_control_frame m c) closing_server late_messages"

lemma late_frames_spec: "spec_stream True True None late_frames = (late_messages, Inr None)"
  by code_simp

lemma send_close_frame_sent:
  assumes "\<not> status_reserved status" "\<not> status_invalid status" "status \<noteq> close_blank" "length reason \<le> 123"
  shows "\<exists>m. send_close_frame status reason ack terminal c =
    (None, dispatch_write (write_push m ((key_drawn (c\<lparr>cn_local_close_code := status, cn_local_close_reason := reason\<rparr>))
      \<lparr>cn_state := S_closing, cn_handshake_timer := True\<rparr>)))"
proof -
  have ns: "status \<noteq> close_no_status" using assms(2) by (auto simp: status_invalid_def)
  have "\<exists>m. prepare_close s key status reason (Some (message_new 0)) = Inr m" for s key
    using assms(1,2,4) ns by (simp add: prepare_close_def prepare_control_def payload_size_basic_def close_payload_def
        is_control_def word_le_nat_alt Let_def)
  then obtain m where "prepare_close (cn_processor c) (next_key (c\<lparr>cn_local_close_code := status, cn_local_close_reason := reason\<rparr>))
      status reason (Some (message_new 0)) = Inr m" by blast
  then show ?thesis using assms(3) by (auto simp: send_close_frame_def close_says_def silent_close_def Let_def)
qed

lemma queue_timer [simp]:
  "cn_shutdown (dispatch_write c) = cn_shutdown c" "cn_shutdown (write_push m c) = cn_shutdown c"
  "cn_shutdown (key_drawn c) = cn_shutdown c" "cn_handshake_timer (dispatch_write c) = cn_handshake_timer c"
  "cn_handshake_timer (write_push m c) = cn_handshake_timer c"
  by (simp_all add: dispatch_write_def write_push_def key_drawn_def)

lemma ack_payload: "close_payload 1000 [] = [CHR 0x03, CHR 0xE8]"
proof -
  have u: "unat (1000 :: 16 word) = 1000" by simp
  have "unat (htons 1000) = 59395" unfolding unat_htons u by (simp add: swap_bytes_def numeral_2_eq_2)
  moreover have "char_of (59395 :: nat) = CHR 0x03" "char_of (232 :: nat) = CHR 0xE8"
    by (simp_all add: char_of_eq_iff)
  ultimately show ?thesis by (simp add: close_payload_def le_bytes_2)
qed

lemma late_codes:
  "extract_code [CHR 0x03, CHR 0xE8] = (1000, None)" "extract_reason [CHR 0x03, CHR 0xE8] = ([], None)"
  "extract_code [CHR 0x03] = (close_protocol_error, Some (Library L_bad_close_code))"
proof -
  have v: "utf8_validate []" by code_simp
  have "extract_code (close_payload 1000 []) = (1000, None)"
    using extract_code_payload [of 1000 "[]"] by (simp add: status_reserved_def status_invalid_def)
  then show "extract_code [CHR 0x03, CHR 0xE8] = (1000, None)" unfolding ack_payload .
  have "extract_reason (close_payload 1000 []) = ([], None)" using extract_reason_payload [of 1000 "[]"] v by simp
  then show "extract_reason [CHR 0x03, CHR 0xE8] = ([], None)" unfolding ack_payload .
  show "extract_code [CHR 0x03] = (close_protocol_error, Some (Library L_bad_close_code))" by (simp add: extract_code_def)
qed

lemma process_close_ack:
  "msg_opcode m = CLOSE \<Longrightarrow> extract_code (msg_payload m) = (st, None) \<Longrightarrow> extract_reason (msg_payload m) = (rs, None) \<Longrightarrow>
   cn_state c = S_closing \<Longrightarrow> cn_server c \<Longrightarrow>
   process_control_frame m c = terminate None (c\<lparr>cn_remote_close_code := st, cn_remote_close_reason := rs\<rparr>)"
  by (simp add: process_control_frame_def)

lemma process_bad_close:
  "msg_opcode m = CLOSE \<Longrightarrow> extract_code (msg_payload m) = (st, Some e) \<Longrightarrow>
   process_control_frame m c =
     snd (send_close_ack close_protocol_error ''Invalid close code'' (c\<lparr>cn_remote_close_code := st\<rparr>))"
  by (simp add: process_control_frame_def drop_on_protocol_error_def)

lemma closing_server_state:
  "conn_close 1000 [] (conn_opened True (\<lambda>n. 0)) = (None, closing_server)" "cn_state closing_server = S_closing"
  "cn_events closing_server = []" "length (cn_send_queue closing_server) = 1" "cn_server closing_server"
  "cn_processor closing_server = hybi13_new True" "cn_reading closing_server"
proof -
  let ?c = "conn_opened True (\<lambda>n. 0)"
  have "\<not> status_reserved 1000" "\<not> status_invalid 1000" "(1000 :: close_code) \<noteq> close_blank" "length ([] :: string) \<le> 123"
    by (simp_all add: status_reserved_def status_invalid_def)
  from send_close_frame_sent [OF this, of False "status_terminal 1000" ?c] obtain m where
    m: "send_close_frame 1000 [] False (status_terminal 1000) ?c = (None, dispatch_write (write_push m
      ((key_drawn (?c\<lparr>cn_local_close_code := 1000, cn_local_close_reason := []\<rparr>))\<lparr>cn_state := S_closing, cn_handshake_timer := True\<rparr>)))"
    by blast
  have "conn_close 1000 [] ?c = send_close_frame 1000 [] False (status_terminal 1000) ?c"
    by (simp add: conn_close_def conn_opened_def)
  then show "conn_close 1000 [] ?c = (None, closing_server)" using m by (simp add: closing_server_def)
  then have q: "closing_server = dispatch_write (write_push m
      ((key_drawn (?c\<lparr>cn_local_close_code := 1000, cn_local_close_reason := []\<rparr>))\<lparr>cn_state := S_closing, cn_handshake_timer := True\<rparr>))"
    using m \<open>conn_close 1000 [] ?c = send_close_frame 1000 [] False (status_terminal 1000) ?c\<close> by simp
  show "cn_state closing_server = S_closing" "cn_events closing_server = []" "length (cn_send_queue closing_server) = 1"
    "cn_server closing_server" "cn_processor closing_server = hybi13_new True" "cn_reading closing_server"
    unfolding q by (simp_all add: conn_opened_def)
qed

lemma late_server_state:
  "cn_state late_server = S_closing" "cn_shutdown late_server = Some T_closed" "cn_handshake_timer late_server"
  "cn_events late_server = []" "length (cn_send_queue late_server) = 2"
proof -
  let ?a = "append_payload [CHR 0x03, CHR 0xE8] (message_new CLOSE)" and ?b = "append_payload [CHR 0x03] (message_new CLOSE)"
  let ?c = "process_control_frame ?a closing_server"
  have ab: "msg_payload ?a = [CHR 0x03, CHR 0xE8]" "msg_opcode ?a = CLOSE" "msg_payload ?b = [CHR 0x03]" "msg_opcode ?b = CLOSE"
    by (simp_all add: append_payload_def message_new_def)
  have x: "extract_code (msg_payload ?a) = (1000, None)" "extract_reason (msg_payload ?a) = ([], None)"
    "extract_code (msg_payload ?b) = (close_protocol_error, Some (Library L_bad_close_code))"
    using late_codes unfolding ab by simp_all
  have c: "cn_state ?c = S_closed" "cn_shutdown ?c = Some T_closed" "cn_events ?c = []" "length (cn_send_queue ?c) = 1" "cn_server ?c"
    unfolding process_close_ack [OF ab(2) x(1,2) closing_server_state(2,5)]
    using closing_server_state by (simp_all add: terminate_def)
  have "\<not> status_reserved close_protocol_error" "\<not> status_invalid close_protocol_error" "(close_protocol_error :: close_code) \<noteq> close_blank"
    "length ''Invalid close code'' \<le> 123" by (simp_all add: status_reserved_def status_invalid_def)
  from send_close_frame_sent [OF this, of True True "?c\<lparr>cn_remote_close_code := close_protocol_error\<rparr>"] obtain m d where
    m: "send_close_frame close_protocol_error ''Invalid close code'' True True (?c\<lparr>cn_remote_close_code := close_protocol_error\<rparr>) =
      (None, dispatch_write (write_push m ((key_drawn d)\<lparr>cn_state := S_closing, cn_handshake_timer := True\<rparr>)))"
    "d = ?c\<lparr>cn_remote_close_code := close_protocol_error, cn_local_close_code := close_protocol_error,
      cn_local_close_reason := ''Invalid close code''\<rparr>" by fastforce
  have "late_server = process_control_frame ?b ?c" by (simp add: late_server_def late_messages_def late_frames_def)
  also have "\<dots> = dispatch_write (write_push m ((key_drawn d)\<lparr>cn_state := S_closing, cn_handshake_timer := True\<rparr>))"
    unfolding process_bad_close [OF ab(4) x(3)] using m(1) c(5) by (simp add: send_close_ack_def)
  finally have q: "late_server = dispatch_write (write_push m ((key_drawn d)\<lparr>cn_state := S_closing, cn_handshake_timer := True\<rparr>))" .
  show "cn_state late_server = S_closing" "cn_shutdown late_server = Some T_closed" "cn_handshake_timer late_server"
    "cn_events late_server = []" "length (cn_send_queue late_server) = 2"
    unfolding q m(2) using c by simp_all
qed

lemma encode_frame_length: "length (encode_frame masked f) \<le> 14 + length (fr_payload f)"
proof -
  have "encode_frame masked f = frame_header (fr_opcode f) (length (fr_payload f)) (fr_fin f) masked (fr_key f) @ wire masked f"
    by (simp add: encode_frame_def wire_def)
  then show ?thesis using length_frame_ext [of masked f] by (simp add: frame_header_bytes)
qed

lemma late_server_read:
  "\<exists>t. handle_read_frame (\<lambda>k. k) (\<lambda>n. None) (\<lambda>m c. (Ret (), c)) None (concat (map (encode_frame True) late_frames)) closing_server =
    (Ret (), with_reader t True late_server)"
proof -
  have s: "hy_server (hybi13_new True)" by (simp add: hybi13_new_def)
  have "list_all (frame_ok (\<lambda>n. None)) late_frames" by (simp add: late_frames_def frame_ok_def)
  from deliver_frames [OF idle_new(1) [of True] this, where masked = True and over = "\<lambda>k. k"]
  obtain t where t: "deliver (\<lambda>k. k) (\<lambda>n. None) (cn_processor closing_server) (concat (map (encode_frame True) late_frames)) =
      (late_messages, Ret (Inl t))"
    by (auto simp: s idle_new(2) late_frames_spec closing_server_state)
  have p: "proc_ok closing_server"
    using s hybi_ok_new [of True] reading_new [of True] by (simp add: proc_ok_def roles_agree_def closing_server_state)
  have "mfor (handle_message (\<lambda>m c. (Ret (), c))) late_messages closing_server = (Ret (), late_server)"
    unfolding late_server_def by (simp add: late_messages_def late_frames_def handle_message_def mseq_def mbind_def mret_def
        message_new_def append_payload_def not_control_CLOSE)
  moreover have "length (concat (map (encode_frame True) late_frames)) \<le> connection_read_buffer_size"
    using encode_frame_length [of True "late_frames ! 0"] encode_frame_length [of True "late_frames ! 1"]
    by (simp add: late_frames_def connection_read_buffer_size_def)
  ultimately show ?thesis
    using ws_blind_application.read_buffer_messages(1) [OF ignoring_blind p _ t] by blast
qed

theorem close_handler_twice:
  "\<exists>c. (conn_step (\<lambda>k. k) (\<lambda>n. None) (\<lambda>m c. (Ret (), c)))\<^sup>*\<^sup>* (conn_opened True (\<lambda>n. 0)) c \<and>
    cn_events c = [E_close_handler, E_close_handler] \<and> length (cn_send_queue c) = 2"
proof -
  let ?step = "conn_step (\<lambda>k. k) (\<lambda>n. None) (\<lambda>m c. (Ret (), c))"
  have a: "?step (conn_opened True (\<lambda>n. 0)) closing_server"
    by (rule step_op) (rule op_close [OF closing_server_state(1)])
  obtain t where b: "?step closing_server (with_reader t True late_server)"
    using late_server_read step_read [OF closing_server_state(7)] by blast
  define d where "d = with_reader t True late_server"
  have d: "cn_state d = S_closing" "cn_shutdown d = Some T_closed" "cn_handshake_timer d" "cn_events d = []"
    "length (cn_send_queue d) = 2"
    using late_server_state by (simp_all add: d_def) (simp_all add: with_reader_def)
  define e where "e = handle_terminate d"
  have "?step d e" unfolding e_def by (rule step_shutdown [OF d(2)])
  have e: "cn_state e = S_closing" "cn_handshake_timer e" "cn_events e = [E_close_handler]" "length (cn_send_queue e) = 2"
    using d by (simp_all add: e_def handle_terminate_def)
  define f where "f = handle_close_handshake_timeout e"
  have "?step e f" unfolding f_def by (rule step_timeout [OF e(2)])
  have f: "cn_shutdown f = Some T_closed" "cn_events f = [E_close_handler]" "length (cn_send_queue f) = 2"
    using e by (simp_all add: f_def handle_close_handshake_timeout_def terminate_def)
  have "?step f (handle_terminate f)" by (rule step_shutdown [OF f(1)])
  moreover have "cn_events (handle_terminate f) = [E_close_handler, E_close_handler]"
    "length (cn_send_queue (handle_terminate f)) = 2" using f by (simp_all add: handle_terminate_def)
  moreover have "?step\<^sup>*\<^sup>* (conn_opened True (\<lambda>n. 0)) f"
    using a b \<open>?step d e\<close> \<open>?step e f\<close> unfolding d_def [symmetric] by (meson rtranclp.rtrancl_into_rtrancl rtranclp.rtrancl_refl)
  ultimately show ?thesis by (meson rtranclp.rtrancl_into_rtrancl)
qed

end
