(* ===== verification/Ws_Echo.thy ===== *)
theory Ws_Echo
  imports Ws_Reading Web_Echo
begin

text \<open>
  The echo programs on the websocketpp connections of \<open>Ws_Connection\<close>: the message handler of \<open>src/server/main.cpp\<close> over
  the endpoint's \<open>send\<close>. What the handler prints is in \<open>Web_Echo\<close>.
\<close>

definition echo_on_message :: "(json \<Rightarrow> string) \<Rightarrow> (nat \<Rightarrow> exn option) \<Rightarrow> ws_message \<Rightarrow> (conn, unit) proc" where
  "echo_on_message fast_write reserve m =
     mcatch (endpoint_send reserve (fast_write server_rsp) (msg_opcode m))
       (\<lambda>e. case e of Error_code t \<Rightarrow> mret () | _ \<Rightarrow> mthrow e)"

lemma conn_send_result:
  assumes "conn_send reserve payload op c = (r, c')"
  shows "(\<exists>ec. r = Ret ec) \<or> (\<exists>e. r = Exn e \<and> c' = c)"
  using assms by (auto simp: conn_send_def get_message_sized_def split: option.splits prod.splits)

lemma echo_on_message_send:
  assumes "echo_on_message fast_write reserve m c = (r, c')"
  shows "(\<exists>ec. conn_send reserve (fast_write server_rsp) (msg_opcode m) c = (Ret ec, c') \<and> r = Ret ()) \<or>
    (\<exists>e. conn_send reserve (fast_write server_rsp) (msg_opcode m) c = (Exn e, c') \<and> (r = Ret () \<or> r = Exn e))"
proof -
  obtain q d where s: "conn_send reserve (fast_write server_rsp) (msg_opcode m) c = (q, d)" by fastforce
  show ?thesis using conn_send_result [OF s] assms s
    by (auto simp: echo_on_message_def endpoint_send_def run_simps split: option.splits exn.splits)
qed

interpretation echo: ws_blind_application reserve "echo_on_message fast_write reserve" for reserve fast_write
proof
  fix m c r c'
  assume e: "echo_on_message fast_write reserve m c = (r, c')"
  from echo_on_message_send [OF this]
  show "(\<forall>k. r \<noteq> Stuck k) \<and> (conn_op reserve)\<^sup>*\<^sup>* c c'"
  proof
    assume "\<exists>ec. conn_send reserve (fast_write server_rsp) (msg_opcode m) c = (Ret ec, c') \<and> r = Ret ()"
    then show ?thesis using op_send by fastforce
  next
    assume "\<exists>e. conn_send reserve (fast_write server_rsp) (msg_opcode m) c = (Exn e, c') \<and> (r = Ret () \<or> r = Exn e)"
    then show ?thesis using conn_send_result by fastforce
  qed
next
  fix p :: hybi13 and c :: conn and m :: ws_message and b
  assume p: "hy_server p = hy_server (cn_processor c)"
  obtain q d where s: "conn_send reserve (fast_write server_rsp) (msg_opcode m) c = (q, d)" by fastforce
  then have s': "conn_send reserve (fast_write server_rsp) (msg_opcode m) (with_reader p b c) = (q, with_reader p b d)"
    using conn_send_blind [OF p, of reserve "fast_write server_rsp" "msg_opcode m" b] by simp
  show "echo_on_message fast_write reserve m (with_reader p b c) =
      map_prod id (with_reader p b) (echo_on_message fast_write reserve m c)"
    by (cases q) (simp_all add: echo_on_message_def endpoint_send_def run_simps s s' split: option.split exn.split)
qed

section \<open>Answering\<close>

text \<open>What a message is answered with.\<close>

definition answer :: "string \<Rightarrow> ws_message \<Rightarrow> ws_message" where
  "answer rsp m = append_payload rsp (message_new (msg_opcode m))"

lemma answer_simps [simp]:
  "msg_opcode (answer rsp m) = msg_opcode m" "msg_payload (answer rsp m) = rsp" "msg_fin (answer rsp m)" "\<not> msg_prepared (answer rsp m)"
  by (simp_all add: answer_def append_payload_def message_new_def)

lemma unmasked_frame: "encode_frame False (send_frame i key) = encode_frame False (send_frame i 0)"
  by (simp add: encode_frame_def send_frame_def frame_header_def Let_def)

lemma prepare_answer:
  assumes "hy_server p" "\<not> is_control (msg_opcode m)" "utf8_validate rsp"
  obtains out where "prepare_data_frame p key (Some (answer rsp m)) (Some (message_new 0)) = Inr out"
    "message_bytes out = encode_frame False (send_frame (answer rsp m) 0)" "\<not> msg_terminal out"
proof -
  obtain out where out: "prepare_data_frame p key (Some (answer rsp m)) (Some (message_new 0)) = Inr out"
    using assms by (simp add: prepare_data_frame_def Let_def)
  moreover have "\<not> msg_terminal out"
    using out assms by (auto simp: prepare_data_frame_def Let_def set_prepared_def set_payload_def set_header_def message_new_def)
  moreover have "message_bytes out = encode_frame False (send_frame (answer rsp m) key)"
    using prepare_data_frame_wire(1) [OF out] assms(1) by (simp add: send_frame_def)
  ultimately show ?thesis using that unmasked_frame by metis
qed

text \<open>A server that is open and to which nothing has happened but such messages.\<close>

definition serving :: "conn \<Rightarrow> bool" where
  "serving c \<longleftrightarrow> cn_state c = S_open \<and> cn_server c \<and> roles_agree c"

lemma echo_message:
  assumes "serving c" "\<not> is_control (msg_opcode m)" "utf8_validate (fast_write server_rsp)"
    "reserve (length (fast_write server_rsp)) = None"
  obtains c' out where "handle_message (echo_on_message fast_write reserve) m c = (Ret (), c')" "serving c'"
    "cn_send_queue c' = cn_send_queue c @ [out]" "cn_events c' = cn_events c @ [E_message m]"
    "cn_write_flag c' = cn_write_flag c" "cn_writing c' = cn_writing c" "cn_wire c' = cn_wire c"
    "message_bytes out = encode_frame False (send_frame (answer (fast_write server_rsp) m) 0)" "\<not> msg_terminal out"
proof -
  let ?c = "c\<lparr>cn_events := cn_events c @ [E_message m]\<rparr>" and ?rsp = "fast_write server_rsp"
  have "hy_server (cn_processor ?c)" using assms(1) by (simp add: serving_def roles_agree_def)
  from prepare_answer [OF this assms(2,3)] obtain out where
    out: "prepare_data_frame (cn_processor ?c) (next_key ?c) (Some (answer ?rsp m)) (Some (message_new 0)) = Inr out"
      "message_bytes out = encode_frame False (send_frame (answer ?rsp m) 0)" "\<not> msg_terminal out" by blast
  let ?d = "dispatch_write (write_push out (key_drawn ?c))"
  have "send_msg (answer ?rsp m) ?c = (None, ?d)"
    using out(1) assms(1) by (simp add: send_msg_def serving_def)
  then have "conn_send reserve ?rsp (msg_opcode m) ?c = (Ret None, ?d)"
    using assms(4) by (simp add: conn_send_def get_message_sized_def answer_def)
  then have "handle_message (echo_on_message fast_write reserve) m c = (Ret (), ?d)"
    using assms(2) by (simp add: handle_message_def echo_on_message_def endpoint_send_def run_simps)
  moreover have "serving ?d" using assms(1) by (simp add: serving_def roles_agree_def)
  ultimately show ?thesis by (rule that [of ?d out]) (simp_all add: out)
qed

lemma echo_messages:
  assumes "serving c" "list_all (\<lambda>m. \<not> is_control (msg_opcode m)) ms" "utf8_validate (fast_write server_rsp)"
    "reserve (length (fast_write server_rsp)) = None"
  shows "\<exists>c' outs. mfor (handle_message (echo_on_message fast_write reserve)) ms c = (Ret (), c') \<and>
    cn_send_queue c' = cn_send_queue c @ outs \<and> cn_events c' = cn_events c @ map E_message ms \<and>
    cn_write_flag c' = cn_write_flag c \<and> cn_writing c' = cn_writing c \<and> cn_wire c' = cn_wire c \<and>
    map message_bytes outs = map (\<lambda>m. encode_frame False (send_frame (answer (fast_write server_rsp) m) 0)) ms \<and>
    (\<forall>out \<in> set outs. \<not> msg_terminal out)"
  using assms(1,2)
proof (induction ms arbitrary: c)
  case Nil
  then show ?case by (intro exI [of _ c] exI [of _ "[]"]) (simp add: mret_def)
next
  case (Cons m ms)
  from Cons.prems(2) have m: "\<not> is_control (msg_opcode m)" "list_all (\<lambda>m. \<not> is_control (msg_opcode m)) ms" by simp_all
  obtain d out where d: "handle_message (echo_on_message fast_write reserve) m c = (Ret (), d)" "serving d"
    "cn_send_queue d = cn_send_queue c @ [out]" "cn_events d = cn_events c @ [E_message m]"
    "cn_write_flag d = cn_write_flag c" "cn_writing d = cn_writing c" "cn_wire d = cn_wire c"
    "message_bytes out = encode_frame False (send_frame (answer (fast_write server_rsp) m) 0)" "\<not> msg_terminal out"
    by (rule echo_message [where fast_write = fast_write and reserve = reserve, OF Cons.prems(1) m(1) assms(3,4)])
  from Cons.IH [OF d(2) m(2)] obtain c' outs where c': "mfor (handle_message (echo_on_message fast_write reserve)) ms d = (Ret (), c')"
    "cn_send_queue c' = cn_send_queue d @ outs" "cn_events c' = cn_events d @ map E_message ms"
    "cn_write_flag c' = cn_write_flag d" "cn_writing c' = cn_writing d" "cn_wire c' = cn_wire d"
    "map message_bytes outs = map (\<lambda>m. encode_frame False (send_frame (answer (fast_write server_rsp) m) 0)) ms"
    "\<forall>out \<in> set outs. \<not> msg_terminal out" by blast
  show ?case
    by (intro exI [of _ c'] exI [of _ "out # outs"]) (use c' d in \<open>simp add: mseq_def mbind_def\<close>)
qed

section \<open>Over the wire\<close>

section \<open>Over the wire\<close>

lemma requests_spec:
  assumes "list_all2 (\<lambda>(i, key) m. prepare_data_frame (hybi13_new False) key (Some i) (Some (message_new op)) = Inr m) is ms"
    "\<forall>(i, key) \<in> set is. ws_sendable reserve i"
  shows "concat (map message_bytes ms) = concat (map (encode_frame True) (map (\<lambda>(i, key). send_frame i key) is))"
    "spec_stream True True None (map (\<lambda>(i, key). send_frame i key) is) =
      (map (\<lambda>(i, key). append_payload (msg_payload i) (message_new (msg_opcode i))) is, Inr None)"
    "list_all (frame_ok reserve) (map (\<lambda>(i, key). send_frame i key) is)"
proof -
  have r: "\<not> hy_server (hybi13_new False)" by (simp add: hybi13_new_def)
  show "concat (map message_bytes ms) = concat (map (encode_frame True) (map (\<lambda>(i, key). send_frame i key) is))"
    using assms(1) by (induction "is" ms rule: list_all2_induct) (auto simp: send_frame_def r dest: prepare_data_frame_wire(1))
  have "\<forall>(i, key) \<in> set is. ws_sendable reserve i \<and> (msg_opcode i = TEXT \<longrightarrow> utf8_validate (msg_payload i))"
    using assms by (induction "is" ms rule: list_all2_induct) (auto dest: prepare_data_frame_wire(3))
  then show "spec_stream True True None (map (\<lambda>(i, key). send_frame i key) is) =
      (map (\<lambda>(i, key). append_payload (msg_payload i) (message_new (msg_opcode i))) is, Inr None)" by (rule spec_send_frames)
  show "list_all (frame_ok reserve) (map (\<lambda>(i, key). send_frame i key) is)"
    using assms(2) by (auto simp: list_all_iff ws_sendable_frame_ok)
qed

text \<open>A client decodes the answers.\<close>

lemma answers_delivered:
  assumes "over_ok over" "\<forall>m \<in> set ms. msg_opcode m = TEXT \<or> msg_opcode m = BINARY" "utf8_validate rsp"
    "length rsp < 2 ^ 63" "reserve (length rsp) = None"
    "concat ds = concat (map (\<lambda>m. encode_frame False (send_frame (answer rsp m) 0)) ms)"
  shows "\<exists>t. deliver_chunks over reserve ds (hybi13_new False) = (map (answer rsp) ms, Ret (Inl t)) \<and> idle t"
proof -
  let ?is = "map (\<lambda>m. (answer rsp m, 0 :: 32 word)) ms"
  let ?fs = "map (\<lambda>(i, key). send_frame i key) ?is"
  have s: "\<forall>(i, key) \<in> set ?is. ws_sendable reserve i \<and> (msg_opcode i = TEXT \<longrightarrow> utf8_validate (msg_payload i))"
    using assms(2-5) by (auto simp: ws_sendable_def)
  have sp: "spec_stream False False None ?fs = (map (answer rsp) ms, Inr None)"
    using spec_send_frames [OF s, of False] by (simp add: o_def) (simp add: answer_def)
  have ok: "list_all (frame_ok reserve) ?fs" using s by (auto simp: list_all_iff ws_sendable_frame_ok)
  have r: "\<not> hy_server (hybi13_new False)" by (simp add: hybi13_new_def)
  have b: "concat ds = concat (map (encode_frame False) ?fs)" using assms(6) by (simp add: o_def)
  have "\<exists>t. deliver over reserve (hybi13_new False) (concat ds) = (map (answer rsp) ms, Ret (Inl t)) \<and> idle t"
    using deliver_frames [OF idle_new(1) [of False] ok, where masked = False and over = over]
    unfolding idle_new(2) b by (simp only: r sp) auto
  then show ?thesis using deliver_chunks_concat [OF assms(1) hybi_ok_new reading_new, of reserve ds False] by simp
qed

text \<open>C7: The echo programs over their connections, end to end: whatever text and binary messages a client sends, with whatever
  masking keys, and however their bytes arrive at the server, the server's message handler gets each of them once and in
  order, and the server goes on reading; the writing of its answers, in whatever order its steps come, ends with bytes from
  which a client, however they arrive, takes exactly one answer for each message, in order, with the constant text and the
  opcode of the message.\<close>

theorem echo_over_the_wire:
  assumes "over_ok over"
    "list_all2 (\<lambda>(i, key) m. prepare_data_frame (hybi13_new False) key (Some i) (Some (message_new op)) = Inr m) is ms"
    "\<forall>(i, key) \<in> set is. ws_sendable reserve i"
    "concat cs = concat (map message_bytes ms)" "\<forall>x \<in> set cs. length x \<le> connection_read_buffer_size"
    "utf8_validate (fast_write server_rsp)" "length (fast_write server_rsp) < 2 ^ 63"
    "reserve (length (fast_write server_rsp)) = None"
  shows "\<exists>c. mfor (handle_read_frame over reserve (echo_on_message fast_write reserve) None) cs (conn_opened True rng) = (Ret (), c) \<and>
    cn_events c = map (\<lambda>(i, key). E_message (append_payload (msg_payload i) (message_new (msg_opcode i)))) is \<and> cn_reading c \<and>
    (\<exists>c'. drain_step\<^sup>*\<^sup>* c c' \<and> (\<forall>d. \<not> drain_step c' d)) \<and>
    (\<forall>c' ds. drain_step\<^sup>*\<^sup>* c c' \<and> (\<forall>d. \<not> drain_step c' d) \<and> concat ds = cn_wire c' \<longrightarrow>
      (\<exists>t. deliver_chunks over reserve ds (hybi13_new False) =
        (map (\<lambda>(i, key). append_payload (fast_write server_rsp) (message_new (msg_opcode i))) is, Ret (Inl t)) \<and> idle t))"
proof -
  let ?c0 = "conn_opened True rng" and ?rsp = "fast_write server_rsp"
  let ?ms = "map (\<lambda>(i, key). append_payload (msg_payload i) (message_new (msg_opcode i))) is"
  note rq = requests_spec [OF assms(2,3)]
  have op: "\<forall>m \<in> set ?ms. msg_opcode m = TEXT \<or> msg_opcode m = BINARY"
    using assms(3) by (auto simp: ws_sendable_def append_payload_def message_new_def)
  then have nc: "list_all (\<lambda>m. \<not> is_control (msg_opcode m)) ?ms"
    by (auto simp: list_all_iff is_control_def word_le_nat_alt)
  have "serving ?c0" using conn_inv_opened [of True rng] by (simp add: serving_def conn_inv_def) (simp add: conn_opened_def)
  from echo_messages [where fast_write = fast_write and reserve = reserve, OF this nc assms(6,8)] obtain c' outs where
    c': "mfor (handle_message (echo_on_message fast_write reserve)) ?ms ?c0 = (Ret (), c')"
    "cn_send_queue c' = cn_send_queue ?c0 @ outs" "cn_events c' = cn_events ?c0 @ map E_message ?ms"
    "cn_write_flag c' = cn_write_flag ?c0" "cn_writing c' = cn_writing ?c0" "cn_wire c' = cn_wire ?c0"
    "map message_bytes outs = map (\<lambda>m. encode_frame False (send_frame (answer ?rsp m) 0)) ?ms"
    "\<forall>out \<in> set outs. \<not> msg_terminal out" by blast
  from opened_reads [OF echo.ws_blind_application_axioms assms(1) rq(3) _ assms(5) rq(2) c'(1)] assms(4) rq(1)
  obtain t where t: "mfor (handle_read_frame over reserve (echo_on_message fast_write reserve) None) cs ?c0 = (Ret (), with_reader t True c')"
    by auto
  let ?d = "with_reader t True c'"
  note w = echo.handle_messages_output [OF conn_inv_opened c'(1), of t True]
  have d: "no_terminal ?d" "outbox ?d = concat (map (\<lambda>m. encode_frame False (send_frame (answer ?rsp m) 0)) ?ms)"
    using c'(2,4-8) by (simp_all add: no_terminal_def stopped_def outbox_def in_flight_def with_reader_def conn_opened_def)
  have "\<exists>t. deliver_chunks over reserve ds (hybi13_new False) =
      (map (\<lambda>(i, key). append_payload ?rsp (message_new (msg_opcode i))) is, Ret (Inl t)) \<and> idle t"
    if e: "drain_step\<^sup>*\<^sup>* ?d e" "\<forall>d. \<not> drain_step e d" "concat ds = cn_wire e" for e ds
  proof -
    from drain_steps_keep [OF e(1) w] d have k: "write_ok e" "outbox e = outbox ?d" "no_terminal e" by simp_all
    then have "concat ds = concat (map (\<lambda>m. encode_frame False (send_frame (answer ?rsp m) 0)) ?ms)"
      using drain_stuck [OF k(1) e(2)] e(3) d(2) by (simp add: no_terminal_def)
    from answers_delivered [where reserve = reserve, OF assms(1) op assms(6-8) this]
    show ?thesis by (simp add: answer_def append_payload_def message_new_def o_def case_prod_unfold)
  qed
  moreover have "cn_events ?d = map (\<lambda>(i, key). E_message (append_payload (msg_payload i) (message_new (msg_opcode i)))) is"
    using c'(3) by (simp add: conn_opened_def o_def case_prod_unfold)
  ultimately show ?thesis using t drain_ends [of ?d] by (intro exI [of _ ?d]) (simp, blast)
qed

lemma coo_utf8: "utf8_validate coo" "length coo < 2 ^ 63"
  by (code_simp, simp add: coo_def)

theorem echo_over_the_wire_witness:
  "\<exists>m c. prepare_data_frame (hybi13_new False) 0x01020304 (Some (demo_message ''hello'')) (Some (message_new 0)) = Inr m \<and>
    mfor (handle_read_frame (\<lambda>k. k) (\<lambda>n. None) (echo_on_message demo_write (\<lambda>n. None)) None) (map (\<lambda>b. [b]) (message_bytes m))
      (conn_opened True (\<lambda>n. 0)) = (Ret (), c) \<and> cn_events c = [E_message (demo_message ''hello'')]"
proof -
  obtain m where m: "prepare_data_frame (hybi13_new False) 0x01020304 (Some (demo_message ''hello'')) (Some (message_new 0)) = Inr m"
    using prepare_demo [OF utf8_hello] by blast
  have s: "\<forall>(i, key) \<in> set [(demo_message ''hello'', 0x01020304 :: 32 word)]. ws_sendable (\<lambda>n. None) i"
    by (simp add: ws_sendable_def demo_message_def message_new_def)
  have p: "list_all2 (\<lambda>(i, key) m. prepare_data_frame (hybi13_new False) key (Some i) (Some (message_new 0)) = Inr m)
      [(demo_message ''hello'', 0x01020304)] [m]" using m by simp
  have cs: "concat (map (\<lambda>b. [b]) bs) = bs" for bs :: string by (induction bs) simp_all
  have c: "concat (map (\<lambda>b. [b]) (message_bytes m)) = concat (map message_bytes [m])" by (simp add: cs)
  have l: "\<forall>x \<in> set (map (\<lambda>b. [b]) (message_bytes m)). length x \<le> connection_read_buffer_size"
    by (simp add: connection_read_buffer_size_def)
  have d: "append_payload (msg_payload (demo_message ''hello'')) (message_new (msg_opcode (demo_message ''hello''))) = demo_message ''hello''"
    by (simp add: demo_message_def append_payload_def message_new_def)
  from echo_over_the_wire [OF over_ok_cases(1) p s c l, of demo_write "\<lambda>n. 0"] coo_utf8 m d show ?thesis
    by (auto simp: demo_write_rsp)
qed

end
