(* ===== verification/Spec2Isabelle.thy ===== *)
theory Spec2Isabelle
  imports CV_Buffer Redis_Routing Redis_Pool Anet Send_Msg Task_Setup Syn_Queue Thread_Sync Epoll_Loop Config_File
    Http_Client Zoo_Client Run_Log Perfect_Number Fork_Tests Pb_Rooms
    Ws_Base64 Ws_Echo
begin

text \<open>
  A verification development for the C++ code of this repository: the shared library \<open>src/common\<close> (a redis
  client, socket tasks over epoll, a worker with plug-ins, a zookeeper client, a configuration file, a
  log) and the small programs beside it.

  How the program works. A \<open>CEpoll\<close> waits for events and hands each to the \<open>CBaseTask\<close> that registered it.
  A TCP or UDP task reads the socket into its \<open>CVBuffer\<close>, cuts the bytes into packets (a two-byte length in
  network order and a body) and passes each body on, for UDP to \<open>PutMsgToList\<close> of the server object, whose body is
  empty; a task also sends what was put into its list. \<open>Process\<close> of a \<open>CWorkThread\<close> reads the head of a message of its
  \<open>CSynQueue\<close>, looks the command up in the registry that \<open>PlugContext.h\<close> fills before \<open>main\<close>, and runs the plug-in
  (its loop \<open>Run\<close> returns at once: nothing sets the flag it tests). Plug-ins use a
  pool of redis clients through the macros of \<open>operation.h\<close>. \<open>zooClient\<close> registers the server and tells
  callbacks which other servers are up. \<open>WriteRunInfo\<close> writes the logs, \<open>Magic_Config\<close> reads the settings.

  How it is modelled. A procedure over a state is a function from the state to a result and a new state
  (\<open>Prelude\<close>): \<open>Ret\<close> a value, \<open>Exn\<close> a C++ exception, or \<open>Stuck\<close>: undefined behaviour, a failed assertion, or a
  call that never returns. Undefined behaviour is never given a value, so a theorem that a procedure
  returns also says that it stays inside its arrays. Strings are byte lists; integers that can wrap are
  words or have the wrap written out. The kernel, the other threads and the peers are not functions: their
  answers are queues in the state (\<open>Sockets\<close>, \<open>Os_Calls\<close>, the task records) or steps of a relation
  (\<open>Syn_Queue\<close>, \<open>Redis_Pool\<close>), and theorems hold for all of them.

  The theories and the code they model:

  \<^item> \<open>Prelude\<close>, \<open>Std_Lib\<close>, \<open>Byte_Order\<close>: procedures and their rules (\<open>run_simps\<close>, \<open>preserves_intros\<close>); the C and C++
    standard library as the code uses it: decimal numbers, \<open>atoi\<close>, \<open>strtok\<close>, \<open>getline\<close>, \<open>std::map\<close> as a sorted
    association list; \<open>htons\<close> and its kin, \<open>ipToStr\<close> of \<open>common.cpp\<close>.
  \<^item> \<open>CV_Buffer\<close>: \<open>buffer.h\<close>, \<open>buffer.cpp\<close>. The offsets stay ordered and inside the array, every outcome of
    \<open>Append\<close> and \<open>Get\<close> (they refuse too long arguments except when a 32-bit sum wraps), and, over the locale
    \<open>field_channel\<close>, that fields come out as they went in. What is no undefined behaviour is part of the first:
    the operations return for the pointers and lengths that are stated.
  \<^item> \<open>Sockets\<close>, \<open>Redis_Wire\<close>, \<open>Redis_Reply\<close>, \<open>Redis_Resp\<close>: the wire layer of \<open>redisclient.h\<close>. \<open>Redis_Resp\<close> holds the
    reference: a parser of requests and an encoder of replies; requests parse back, and the readers decode
    every reply they can represent (\<open>representable\<close>) consuming exactly its bytes, for every chunking. \<open>reads\<close> is the specification
    of a reader, \<open>reads_intros\<close> its rules.
  \<^item> \<open>Redis_Client\<close>, \<open>Redis_Frame\<close>: the commands on one key; none touches a socket but that of its key.
  \<^item> \<open>Redis_Cluster\<close>, \<open>Redis_Gather\<close>, \<open>Redis_Routing\<close>: the commands on many keys, which scatter a request over
    servers and gather the replies: when the servers answer for their keys, the result is the one a single server would give.
    Pipelines; transactions, refused if they go to different servers.
  \<^item> \<open>Redis_Server\<close>, \<open>Redis_Values\<close>: connections, server commands, \<open>info\<close>; the value classes.
  \<^item> \<open>Exclusion\<close>, \<open>Redis_Pool\<close>, \<open>Thread_Sync\<close>: what a lock promises (locale \<open>exclusion\<close>); \<open>redisCliMgr.h\<close> with
    \<open>lock.h\<close> as a step relation over any number of users: no client is shared, lost or made in excess, and
    no deadlock; the retry of \<open>operation.h\<close>; \<open>threadmutex.h\<close>.
  \<^item> \<open>Os_Calls\<close>, \<open>Anet\<close>: \<open>anet.cpp\<close>. Every function accounts for the descriptors it opens.
  \<^item> \<open>Fifo\<close>, \<open>Base_Task\<close>, \<open>Tcp_Task\<close>, \<open>Udp_Task\<close>, \<open>Task_Setup\<close>, \<open>Send_Msg\<close>: \<open>basetask\<close> and \<open>mytask\<close>: sending conserves
    the bytes and drains, receiving cuts packets; sockets of the tasks. \<open>Epoll_Loop\<close>: \<open>myepoll.cpp\<close>.
  \<^item> \<open>Syn_Queue\<close>: \<open>synqueue_t.h\<close> as a step relation over its semaphores and mutex; an invariant, refinement of a
    sequential queue (locale \<open>fifo\<close>), and no deadlock.
  \<^item> \<open>Work_Thread\<close>, \<open>Http_Client\<close>: \<open>work_thread.cpp\<close>, \<open>PlugContext.h\<close>, \<open>GetUdpServerAddr\<close>, \<open>http_client.cpp\<close>.
  \<^item> \<open>Zoo_Client\<close>: \<open>zooClient.cpp\<close>: the callbacks know exactly the registered servers.
  \<^item> \<open>Config_File\<close>: \<open>Config.cpp\<close>: what is written is read back (\<open>clean_section\<close>). \<open>Run_Log\<close>: \<open>writeRunInfo.cpp\<close>, with the rotation,
    which \<open>stat\<close> and \<open>rename\<close> can prevent.
  \<^item> \<open>Perfect_Number\<close>: \<open>testclient/main.cpp\<close>.
  \<^item> \<open>Json_Values\<close>, \<open>Web_Echo\<close>, \<open>Fork_Tests\<close>: the data types of \<open>common.h\<close> with their JSON form; \<open>server/main.cpp\<close>,
    \<open>client/cclient.cpp\<close>: every message is answered once, in order, and what the client makes of the answer (its open
    handler has undefined behaviour: \<open>csend\<close> does not return a value);
    \<open>process/main.cpp\<close>, \<open>client/main.cpp\<close>: the parent reaps its children.
  \<^item> \<open>Pb_Coded\<close>: the inline functions of the protobuf headers, and (locale \<open>pb_wire\<close>) the promises of the compiled
    library. \<open>Pb_Message\<close>, \<open>Pb_Wire\<close>, \<open>Pb_Varint\<close>: the generated classes of \<open>common.pb.cc\<close> with number and byte fields,
    once for all over their tables: types are kept, parsing ends, the jumps of the parser are only a shortcut,
    what is serialized, up to the 64 MB a stream reads, is parsed back (locale \<open>pb_class\<close>); a library that keeps the promises. \<open>Pb_Nested\<close>, \<open>Pb_Rooms\<close>:
    the classes with a field of messages, over what they need of those (locales \<open>sub_messages\<close>, \<open>nest\<close>).

  \<^item> \<open>Ws_Utf8\<close>, \<open>Ws_Frame\<close>, \<open>Ws_Close\<close>, \<open>Ws_Hybi13\<close>, \<open>Ws_Stream\<close>, \<open>Ws_Base64\<close>: the core of websocketpp under the echo programs: the
    UTF-8 automaton accepts exactly the encodings; headers, masking by words, close codes and errors; the processor
    \<open>processors/hybi13.hpp\<close>, which refines a specification on whole frames however the stream is cut, so that messages
    sent by one side are those received by the other; base64.
  \<^item> \<open>Ws_Connection\<close>, \<open>Ws_Session\<close>, \<open>Ws_Reading\<close>: \<open>impl/connection_impl.hpp\<close> after the opening handshake: the write queue,
    closing, the read loop, as steps of a connection under any application that only calls it (locale \<open>ws_application\<close>).
    What was ever given to \<open>write_push\<close> (kept in a field \<open>cn_queued\<close> that the code does not have) is a sequence of frames with
    nothing behind a close frame, and is on the wire, being written or in the queue; the queue drains; the reads do what the
    messages of the frame specification say (locale \<open>ws_blind_application\<close>). \<open>Ws_Echo\<close>: the echo server over them, and the
    whole way of messages and answers between a client and the server.

  This theory joins the generated classes and the worker: messages with serialized heads reach the plug-ins.

  Bounds and fuel. Loops have measures; those over the kernel's answers recurse on the queue of answers,
  and an exhausted queue is a call that has not returned (\<open>Blocked\<close>), so no fuel is chosen. The loops of the
  zookeeper client count in a byte and may run forever: they are partial functions into \<open>option\<close>, and that
  they return is proved for up to 255 children and refuted beyond. So are the parsers of the generated
  classes, proved to end for every input. \<open>SendProcess\<close> has the code's own bound of
  20 rounds a call, \<open>CVBuffer\<close> its 64 KiB.

  Parameters: the hash of the redis client and \<open>boost::lexical_cast\<close> (\<open>env\<close>, with \<open>lex_sound\<close> stating that
  decimal numbers convert both ways), the compiled part of protobuf (\<open>pb_env\<close>, with the recursion limit
  and what becomes of an input over the total-bytes limit), JSON and the plug-ins
  (\<open>worker_env\<close>), libcurl (\<open>curl_env\<close>), the zookeeper library (\<open>zoo_env\<close>, \<open>zoo_api\<close>), name resolution (\<open>os\<close>), the answers and events of websocketpp
  in \<open>Web_Echo\<close>, the shift of a word by its width (\<open>over\<close>), the refusals of memory for a payload (\<open>reserve\<close>), the masking keys, the
  transport of a connection, the writer of JSON texts, the answers of \<open>fork\<close> and \<open>waitpid\<close>.

  Not modelled: the members of \<open>redisclient.h\<close> that do not compile when used or stand under \<open>#if 0\<close>
  (\<open>brpop\<close> of a vector, \<open>msetnx\<close> of pairs, the third \<open>sort\<close>, \<open>distributed_mutex\<close>); \<open>OnDebug\<close> and other printing;
  the descriptors and the reflection of the generated classes, and their accessors that only move pointers;
  the state of a message object whose parsing has failed; a \<open>sem_wait\<close> of \<open>CSynQueue\<close> that a signal interrupts; a
  \<open>send\<close> of a websocketpp message that the application itself has marked as prepared; third-party headers under \<open>src/depends\<close>, but for
  the inline functions of protobuf that the generated classes call and the part of websocketpp above (not its
  transport, HTTP, opening handshake, other protocol versions, compression and loggers).
\<close>

section \<open>From the message object of a sender to the plug-in\<close>

text \<open>The head a sender makes: an \<open>SSHead\<close> with its command set, serialized.\<close>

definition head_bytes :: "pb_env \<Rightarrow> pb_msg \<Rightarrow> 32 word \<Rightarrow> string" where
  "head_bytes L m cmd = pb_Serialize L SSHead (pb_set 1 (V_uint32 cmd) m)"

text \<open>The object of the first factory registered for the command gets the body.\<close>

definition serve ::
  "'w worker_env \<Rightarrow> (32 word \<times> 32 word \<times> 'w factory) list \<Rightarrow> 16 word \<Rightarrow> 32 word \<Rightarrow> string \<Rightarrow> ('w, int) proc" where
  "serve E rs self cmd body = (case find (\<lambda>(c, s, _). c = cmd \<and> s = 0) rs of
     None \<Rightarrow> mret (-1) | Some (_, _, imp) \<Rightarrow> wt_object E self cmd imp body)"

lemma dispatch_head_bytes:
  assumes "pb_wire L" "parse_head E = SSHead_command L" "sendable (pb_set 1 (V_uint32 cmd) m)"
    "length (head_bytes L m cmd) \<le> MAX_CVBUFFER_SIZE"
  shows "dispatch E rs self (head_bytes L m cmd) body = serve E rs self cmd body"
  using SSHead_command_Serialize [OF assms(1,3)] assms(4)
  by (simp add: dispatch_def serve_def assms(2) head_bytes_def kDefaultTotalBytesLimit_def)

text \<open>C2: A message whose head is a serialized \<open>SSHead\<close> (whatever fields it has beside the command), behind its
  two-byte length, and behind it a body behind its own length, together at most the 64 KiB of a \<open>CVBuffer\<close>:
  \<open>CWorkThread::Process\<close>, which parses the head with \<open>ParseFromArray\<close>, hands exactly the body to the object of the
  first factory registered for the command the sender has set (with subcommand 0), and gives -1, with nothing
  done, if there is none, whatever is on its stack.\<close>

theorem protobuf_request_served:
  assumes "pb_wire L" "parse_head E = SSHead_command L" "sendable (pb_set 1 (V_uint32 cmd) m)"
    "length (head_bytes L m cmd) + length body + 4 \<le> MAX_CVBUFFER_SIZE"
  shows "wt_Process E (registered rs) garbage self (part (head_bytes L m cmd) @ part body) = serve E rs self cmd body"
  using assms(4) by (simp add: wt_Process_parts dispatch_head_bytes [OF assms(1-3)])

text \<open>Two messages with commands 300 and 7, the second one not registered.\<close>

lemma demo_sendable:
  "sendable (pb_set 1 (V_uint32 cmd) (pb_set 2 (V_bytes ''u'') (pb_new SSHead)))"
  by (simp add: sendable_def pb_ok_set pb_ok_new SSHead_def [THEN arg_cong, of map_of])

theorem protobuf_request_served_witness:
  "wt_Process (demo_env\<lparr>parse_head := SSHead_command varint_lib\<rparr>) (registered [(300, 0, demo_factory)])
      (cv_Clear \<lparr>m_Buffer = \<lambda>_. CHR 0x00, m_uOffset = 9, m_uGetOffset = 3\<rparr>) 0
      (part [CHR 0x08, CHR 0xAC, CHR 0x02, CHR 0x12, CHR 0x01, CHR ''u''] @ part ''hi'') [] = (Ret 0, [''echo hi'']) \<and>
   wt_Process (demo_env\<lparr>parse_head := SSHead_command varint_lib\<rparr>) (registered [(300, 0, demo_factory)])
      (cv_Clear \<lparr>m_Buffer = \<lambda>_. CHR 0x00, m_uOffset = 9, m_uGetOffset = 3\<rparr>) 0
      (part [CHR 0x08, CHR 0x07, CHR 0x12, CHR 0x01, CHR ''u''] @ part ''hi'') [] = (Ret (-1), [])"
proof -
  let ?m = "pb_set 2 (V_bytes ''u'') (pb_new SSHead)"
  let ?E = "demo_env\<lparr>parse_head := SSHead_command varint_lib\<rparr>"
  let ?g = "cv_Clear \<lparr>m_Buffer = \<lambda>_. CHR 0x00, m_uOffset = 9, m_uGetOffset = 3\<rparr>"
  have bytes: "head_bytes varint_lib ?m 300 = [CHR 0x08, CHR 0xAC, CHR 0x02, CHR 0x12, CHR 0x01, CHR ''u'']"
    "head_bytes varint_lib ?m 7 = [CHR 0x08, CHR 0x07, CHR 0x12, CHR 0x01, CHR ''u'']"
    by (simp_all add: head_bytes_def pb_Serialize_def pb_fields_def SSHead_def pb_set_def pb_new_def
      WriteUInt32ToArray_def WriteBytesToArray_def WriteTagToArray_def MakeTag_def varint.string_write write_varint varint_write.simps)
      code_simp+
  have run: "serve ?E [(300, 0, demo_factory)] 0 300 ''hi'' [] = (Ret 0, [''echo hi''])"
    "serve ?E [(300, 0, demo_factory)] 0 7 ''hi'' [] = (Ret (-1), [])"
    by (simp_all add: serve_def demo_env_def wt_object_def demo_factory_def wt_reply_def GetUdpServerAddr_def
        parse_server_def run_simps)
  note served = protobuf_request_served [OF varint.pb_wire_axioms _ demo_sendable, of ?E _ "''hi''" "[(300, 0, demo_factory)]" ?g 0]
  show ?thesis using served [of 300] served [of 7] by (simp add: bytes run)
qed

end
